(* ===== verification/Prelude.thy ===== *)
theory Prelude
  imports Main "HOL-Library.Word" "HOL-Library.Char_ord" "HOL-Library.List_Lexorder"
begin

text \<open>
  Shared vocabulary of the development: Go's machine integers, byte slices and strings, the
  parts of \<open>encoding/binary\<close>, \<open>encoding/hex\<close> and \<open>fmt\<close> the canonical encodings of the
  log are written with, and the lemmas that make those encodings uniquely readable.

  Conventions.  A Go \<open>[]byte\<close> is a list of 8-bit words; a nil slice and an empty slice are
  both \<open>[]\<close>.  A Go string is a HOL string (a list of 8-bit characters).  \<open>int64\<close> and
  \<open>uint64\<close> are both 64-bit words, so the cast \<open>uint64(x)\<close> of the source is the identity
  and a signed comparison reads its arguments with \<open>sint\<close>.  A function that returns only
  an \<open>error\<close> has type \<open>'e option\<close> (\<open>None\<close> is nil); one that returns a value and an
  \<open>error\<close> has type \<open>'e + 'a\<close>.  A pointer that may be nil is an option.
\<close>

section \<open>Types\<close>

type_synonym byte = "8 word"
type_synonym bytes = "byte list"
type_synonym u32 = "32 word"
type_synonym u64 = "64 word"
type_synonym i64 = "64 word"

named_theorems frame \<open>reading a length-prefixed or fixed-width field back from the front\<close>

section \<open>Definitions\<close>

subsection \<open>Strings as byte slices\<close>

definition of_str :: "string \<Rightarrow> bytes" where
  "of_str s = map of_char s"

subsection \<open>Equality of byte slices, as the packages write it\<close>

text \<open>
  Every package carries its own \<open>bytesEqual\<close>: a length check followed by a loop over the
  indices that stops at the first difference.
\<close>

fun bytesEqual_from :: "bytes \<Rightarrow> bytes \<Rightarrow> nat \<Rightarrow> nat \<Rightarrow> bool" where
  "bytesEqual_from a b i 0 = True"
| "bytesEqual_from a b i (Suc n) =
     (if a ! i \<noteq> b ! i then False else bytesEqual_from a b (Suc i) n)"

definition bytesEqual :: "bytes \<Rightarrow> bytes \<Rightarrow> bool" where
  "bytesEqual a b =
     (if length a \<noteq> length b then False else bytesEqual_from a b 0 (length a))"

subsection \<open>\<open>binary.BigEndian\<close>\<close>

fun be_nat :: "nat \<Rightarrow> nat \<Rightarrow> bytes" where
  "be_nat 0 x = []"
| "be_nat (Suc n) x = be_nat n (x div 256) @ [of_nat (x mod 256)]"

definition be32 :: "u32 \<Rightarrow> bytes" where
  "be32 w = be_nat 4 (unat w)"

definition be64 :: "u64 \<Rightarrow> bytes" where
  "be64 w = be_nat 8 (unat w)"

definition un_be :: "bytes \<Rightarrow> nat" where
  "un_be bs = foldl (\<lambda>acc b. acc * 256 + unat b) 0 bs"

definition uint64_be :: "bytes \<Rightarrow> u64" where
  "uint64_be bs = of_nat (un_be bs)"

text \<open>The closure \<open>put\<close> of the canonical encodings: a 32-bit length, then the bytes.\<close>

definition put :: "bytes \<Rightarrow> bytes" where
  "put b = be32 (of_nat (length b)) @ b"

definition fits :: "bytes \<Rightarrow> bool" where
  "fits b \<longleftrightarrow> length b < 2 ^ 32"

subsection \<open>\<open>hex.EncodeToString\<close>\<close>

definition hextable :: string where
  "hextable = ''0123456789abcdef''"

definition hexdigit :: "nat \<Rightarrow> char" where
  "hexdigit n = hextable ! n"

fun hex :: "bytes \<Rightarrow> string" where
  "hex [] = []"
| "hex (b # bs) = hexdigit (unat b div 16) # hexdigit (unat b mod 16) # hex bs"

subsection \<open>The verb \<open>%d\<close> of \<open>fmt.Sprintf\<close>\<close>

definition dectable :: string where
  "dectable = ''0123456789''"

definition digit :: "nat \<Rightarrow> char" where
  "digit n = dectable ! n"

fun dec_nat :: "nat \<Rightarrow> string" where
  "dec_nat n = (if n < 10 then [digit n] else dec_nat (n div 10) @ [digit (n mod 10)])"

declare dec_nat.simps [simp del]

definition dec_u64 :: "u64 \<Rightarrow> string" where
  "dec_u64 w = dec_nat (unat w)"

definition dec_i64 :: "i64 \<Rightarrow> string" where
  "dec_i64 w = (if sint w < 0 then CHR ''-'' # dec_nat (nat (- sint w)) else dec_nat (nat (sint w)))"

text \<open>The line feed that ends every field of a textual encoding.\<close>

definition nl :: string where
  "nl = [CHR 0x0A]"

section \<open>Lemmas\<close>

subsection \<open>Strings and slices\<close>

lemma unat_of_char_byte: "unat (of_char c :: byte) = of_char c"
proof -
  have "(of_char c :: nat) < 256"
    using of_char_mod_256 [of c, where 'a = nat] by (metis mod_less_divisor zero_less_numeral)
  then have "unat (of_nat (of_char c) :: byte) = of_char c"
    by (simp add: unat_of_nat)
  then show ?thesis by (simp add: of_nat_of_char)
qed

lemma of_str_inj [simp]: "of_str s = of_str t \<longleftrightarrow> s = t"
proof -
  have "inj (of_char :: char \<Rightarrow> byte)"
    by (rule injI) (metis unat_of_char_byte of_char_eqI)
  then show ?thesis by (simp add: of_str_def inj_map_eq_map)
qed

lemma length_of_str [simp]: "length (of_str s) = length s"
  by (simp add: of_str_def)

lemma of_str_Nil [simp]: "of_str [] = []"
  by (simp add: of_str_def)

lemma bytesEqual_from_iff:
  "i + n \<le> length a \<Longrightarrow> i + n \<le> length b \<Longrightarrow>
   bytesEqual_from a b i n \<longleftrightarrow> take n (drop i a) = take n (drop i b)"
proof (induction n arbitrary: i)
  case 0
  then show ?case by simp
next
  case (Suc n)
  have "take (Suc n) (drop i a) = a ! i # take n (drop (Suc i) a)"
    using Suc.prems by (simp add: Cons_nth_drop_Suc [symmetric])
  moreover have "take (Suc n) (drop i b) = b ! i # take n (drop (Suc i) b)"
    using Suc.prems by (simp add: Cons_nth_drop_Suc [symmetric])
  ultimately show ?case using Suc by simp
qed

lemma bytesEqual_iff [simp]: "bytesEqual a b \<longleftrightarrow> a = b"
  by (auto simp: bytesEqual_def bytesEqual_from_iff)

subsection \<open>Big-endian integers\<close>

lemma length_be_nat [simp]: "length (be_nat n x) = n"
  by (induction n arbitrary: x) auto

lemma length_be32 [simp]: "length (be32 w) = 4"
  by (simp add: be32_def)

lemma length_be64 [simp]: "length (be64 w) = 8"
  by (simp add: be64_def)

lemma un_be_snoc: "un_be (bs @ [b]) = un_be bs * 256 + unat b"
  by (simp add: un_be_def)

lemma un_be_be_nat: "un_be (be_nat n x) = x mod 256 ^ n"
proof (induction n arbitrary: x)
  case 0
  then show ?case by (simp add: un_be_def)
next
  case (Suc n)
  have "unat (of_nat (x mod 256) :: byte) = x mod 256"
    by (simp add: unat_of_nat)
  moreover have "x mod 256 ^ Suc n = (x div 256) mod 256 ^ n * 256 + x mod 256"
    by (simp add: mod_mult2_eq)
  ultimately show ?case by (simp add: un_be_snoc Suc.IH)
qed

lemma un_be_be64 [simp]: "un_be (be64 w) = unat w"
  using unsigned_less [of w, where 'a = nat] by (simp add: be64_def un_be_be_nat)

lemma uint64_be_be64 [simp]: "uint64_be (be64 w) = w"
  by (simp add: uint64_be_def)

lemma un_be_be32 [simp]: "un_be (be32 w) = unat w"
  using unsigned_less [of w, where 'a = nat] by (simp add: be32_def un_be_be_nat)

lemma be64_inj [simp]: "be64 v = be64 w \<longleftrightarrow> v = w"
  by (metis uint64_be_be64)

lemma be32_inj [simp]: "be32 v = be32 w \<longleftrightarrow> v = w"
  by (metis un_be_be32 word_unat_eq_iff)

lemma be64_append [frame]: "be64 v @ r = be64 w @ s \<longleftrightarrow> v = w \<and> r = s"
  by (simp add: append_eq_append_conv)

lemma be32_append [frame]: "be32 v @ r = be32 w @ s \<longleftrightarrow> v = w \<and> r = s"
  by (simp add: append_eq_append_conv)

lemma put_append [frame]:
  assumes "fits a" "fits b"
  shows "put a @ r = put b @ s \<longleftrightarrow> a = b \<and> r = s"
proof
  assume "put a @ r = put b @ s"
  then have len: "(of_nat (length a) :: u32) = of_nat (length b)" and rest: "a @ r = b @ s"
    by (simp_all add: put_def be32_append)
  have "unat (of_nat (length a) :: u32) = unat (of_nat (length b) :: u32)"
    using len by simp
  then have "length a = length b"
    using assms by (simp add: fits_def unat_of_nat)
  with rest show "a = b \<and> r = s" by (simp add: append_eq_append_conv)
qed simp

lemma put_inj [frame]: "fits a \<Longrightarrow> fits b \<Longrightarrow> put a = put b \<longleftrightarrow> a = b"
  using put_append [of a b "[]" "[]"] by simp

lemma length_put [simp]: "length (put b) = 4 + length b"
  by (simp add: put_def)

subsection \<open>Hexadecimal\<close>

lemma hexdigit_inj: "m < 16 \<Longrightarrow> n < 16 \<Longrightarrow> hexdigit m = hexdigit n \<longleftrightarrow> m = n"
  by (simp add: hexdigit_def hextable_def nth_eq_iff_index_eq)

lemma hexdigit_set: "n < 16 \<Longrightarrow> hexdigit n \<in> set hextable"
  unfolding hexdigit_def by (rule nth_mem) (simp add: hextable_def)

lemma byte_nibbles:
  fixes a b :: byte
  assumes "unat a div 16 = unat b div 16" "unat a mod 16 = unat b mod 16"
  shows "a = b"
  using assms by (metis div_mult_mod_eq word_unat_eq_iff)

lemma byte_high_nibble: "unat (b :: byte) div 16 < 16"
  using unsigned_less [of b, where 'a = nat] by simp

lemma hex_inj [simp]: "hex a = hex b \<longleftrightarrow> a = b"
proof
  show "hex a = hex b \<Longrightarrow> a = b"
  proof (induction a arbitrary: b)
    case Nil
    then show ?case by (cases b) auto
  next
    case (Cons x a)
    from Cons.prems obtain y b' where b: "b = y # b'" by (cases b) auto
    with Cons.prems have "unat x div 16 = unat y div 16" "unat x mod 16 = unat y mod 16"
      and "hex a = hex b'"
      by (simp_all add: hexdigit_inj byte_high_nibble)
    with Cons.IH b show ?case by (auto dest: byte_nibbles)
  qed
qed simp

lemma length_hex [simp]: "length (hex b) = 2 * length b"
  by (induction b rule: hex.induct) auto

lemma set_hex: "set (hex b) \<subseteq> set hextable"
  by (induction b rule: hex.induct) (auto simp: hexdigit_set byte_high_nibble)

lemma hex_no_nl [simp]: "CHR 0x0A \<notin> set (hex b)"
  using set_hex [of b] by (auto simp: hextable_def)

lemma hex_no_colon [simp]: "CHR '':'' \<notin> set (hex b)"
  using set_hex [of b] by (auto simp: hextable_def)

lemma hex_Nil_iff [simp]: "hex b = [] \<longleftrightarrow> b = []"
  by (cases b) auto

subsection \<open>Decimals\<close>

lemma digit_set: "n < 10 \<Longrightarrow> digit n \<in> set dectable"
  unfolding digit_def by (rule nth_mem) (simp add: dectable_def)

lemma digit_inj: "m < 10 \<Longrightarrow> n < 10 \<Longrightarrow> digit m = digit n \<longleftrightarrow> m = n"
  by (simp add: digit_def dectable_def nth_eq_iff_index_eq)

lemma dec_nat_ne [simp]: "dec_nat n \<noteq> []"
  by (subst dec_nat.simps) simp

lemma set_dec_nat: "set (dec_nat n) \<subseteq> set dectable"
proof (induction n rule: dec_nat.induct)
  case (1 n)
  then show ?case
    using digit_set [of n] digit_set [of "n mod 10"] by (subst dec_nat.simps) auto
qed

lemma dec_nat_inj [simp]: "dec_nat m = dec_nat n \<longleftrightarrow> m = n"
proof
  show "dec_nat m = dec_nat n \<Longrightarrow> m = n"
  proof (induction m arbitrary: n rule: dec_nat.induct)
    case (1 m)
    have unf: "dec_nat k = (if k < 10 then [digit k] else dec_nat (k div 10) @ [digit (k mod 10)])"
      for k by (rule dec_nat.simps)
    consider (small) "m < 10" "n < 10" | (left) "m < 10" "\<not> n < 10"
      | (right) "\<not> m < 10" "n < 10" | (big) "\<not> m < 10" "\<not> n < 10" by blast
    then show ?case
    proof cases
      case small
      with "1.prems" show ?thesis by (simp add: unf [of m] unf [of n] digit_inj)
    next
      case left
      with "1.prems" show ?thesis by (metis append_is_Nil_conv append1_eq_conv append_Nil dec_nat_ne unf)
    next
      case right
      with "1.prems" show ?thesis by (metis append_is_Nil_conv append1_eq_conv append_Nil dec_nat_ne unf)
    next
      case big
      with "1.prems" have "dec_nat (m div 10) = dec_nat (n div 10)" "m mod 10 = n mod 10"
        by (simp_all add: unf [of m] unf [of n] digit_inj)
      with "1.IH" big show ?thesis by (metis div_mult_mod_eq)
    qed
  qed
qed simp

lemma dec_u64_inj [simp]: "dec_u64 v = dec_u64 w \<longleftrightarrow> v = w"
  by (simp add: dec_u64_def word_unat_eq_iff)

lemma minus_not_dec: "CHR ''-'' # s \<noteq> dec_nat n"
proof
  assume "CHR ''-'' # s = dec_nat n"
  then have "CHR ''-'' \<in> set (dec_nat n)" by (metis list.set_intros(1))
  with set_dec_nat [of n] show False by (auto simp: dectable_def)
qed

lemma dec_i64_inj [simp]: "dec_i64 v = dec_i64 w \<longleftrightarrow> v = w"
proof
  assume "dec_i64 v = dec_i64 w"
  then have "sint v = sint w"
    using minus_not_dec minus_not_dec [symmetric]
    by (auto simp: dec_i64_def split: if_splits)
  then show "v = w" by (rule signed_word_eqI)
qed simp

lemma dec_u64_no_nl [simp]: "CHR 0x0A \<notin> set (dec_u64 w)"
  using set_dec_nat [of "unat w"] by (auto simp: dec_u64_def dectable_def)

lemma dec_u64_no_colon [simp]: "CHR '':'' \<notin> set (dec_u64 w)"
  using set_dec_nat [of "unat w"] by (auto simp: dec_u64_def dectable_def)

lemma dec_i64_no_nl [simp]: "CHR 0x0A \<notin> set (dec_i64 w)"
  using set_dec_nat [of "nat (sint w)"] set_dec_nat [of "nat (- sint w)"]
  by (auto simp: dec_i64_def dectable_def)

subsection \<open>Indices as machine words\<close>

lemma unat_of_nat_u64: "n < 2 ^ 64 \<Longrightarrow> unat (of_nat n :: u64) = n"
  by (simp add: unat_of_nat)

lemma of_nat_less_u64:
  "m < 2 ^ 64 \<Longrightarrow> n < 2 ^ 64 \<Longrightarrow> (of_nat m :: u64) < of_nat n \<longleftrightarrow> m < n"
  by (simp add: word_less_nat_alt unat_of_nat)

lemma of_nat_le_u64:
  "m < 2 ^ 64 \<Longrightarrow> n < 2 ^ 64 \<Longrightarrow> (of_nat m :: u64) \<le> of_nat n \<longleftrightarrow> m \<le> n"
  by (simp add: word_le_nat_alt unat_of_nat)

lemma of_nat_eq_u64:
  "m < 2 ^ 64 \<Longrightarrow> n < 2 ^ 64 \<Longrightarrow> (of_nat m :: u64) = of_nat n \<longleftrightarrow> m = n"
  by (metis unat_of_nat_u64)

lemma unat_plus_one:
  fixes i n :: u64
  assumes "i < n"
  shows "unat (i + 1) = Suc (unat i)"
proof -
  have "unat n < 2 ^ 64" using unsigned_less [of n, where 'a = nat] by simp
  then have "Suc (unat i) < 2 ^ 64" using assms unfolding word_less_nat_alt by linarith
  then show ?thesis by (simp add: unat_word_ariths)
qed

lemmas u64_arith = unat_of_nat_u64 of_nat_less_u64 of_nat_le_u64 of_nat_eq_u64

subsection \<open>Lines of text\<close>

text \<open>
  Two texts that start with a newline-free field followed by a line feed agree only if the
  fields agree and the remainders do.
\<close>

lemma takeWhile_line: "CHR 0x0A \<notin> set a \<Longrightarrow> takeWhile (\<lambda>c. c \<noteq> CHR 0x0A) (a @ nl @ r) = a"
  by (induction a) (auto simp: nl_def)

lemma line_append [frame]:
  assumes "CHR 0x0A \<notin> set a" "CHR 0x0A \<notin> set b"
  shows "a @ nl @ r = b @ nl @ s \<longleftrightarrow> a = b \<and> r = s"
proof
  assume eq: "a @ nl @ r = b @ nl @ s"
  then have "a = b"
    using takeWhile_line [OF assms(1), of r] takeWhile_line [OF assms(2), of s] by (simp only:)
  with eq show "a = b \<and> r = s" by simp
qed simp

lemma line_end [frame]: "a @ nl = b @ nl \<longleftrightarrow> a = b"
  by simp

text \<open>The last field after a separator that does not occur in it.\<close>

lemma sep_last:
  assumes "x \<notin> set b" "x \<notin> set d"
  shows "a @ x # b = c @ x # d \<longleftrightarrow> a = c \<and> b = d"
  using assms
  by (auto simp: append_eq_append_conv2 append_eq_Cons_conv Cons_eq_append_conv)

end
