(* ===== verification/Sha256.thy ===== *)
theory Sha256
  imports Prelude
begin

text \<open>
  The hash function of the log: \<open>crypto/sha256\<close>'s \<open>Sum256\<close>, written out as FIPS 180-4
  defines it (padding, message schedule, compression), so that every digest of the model is a
  value the kernel can compute and no property of the hash is taken for granted.  The lemmas
  give the one fact the log relies on without cryptography, the length of a digest, and the
  vocabulary for the rest: two distinct inputs with one digest are a \<open>collision\<close>.
\<close>

unbundle bit_operations_syntax

section \<open>Definitions\<close>

text \<open>
  The round constants and the initial state are, as FIPS 180-4 derives them, the first 32 bits
  of the fractional parts of the cube roots of the first 64 primes and of the square roots of
  the first 8.  \<open>iroot\<close> finds the integer part of a root bit by bit from the top.
\<close>

fun iroot :: "nat \<Rightarrow> nat \<Rightarrow> nat \<Rightarrow> nat \<Rightarrow> nat" where
  "iroot k x 0 r = r"
| "iroot k x (Suc i) r =
     (if (r + 2 ^ i) ^ k \<le> x then iroot k x i (r + 2 ^ i) else iroot k x i r)"

definition root_bits :: "nat \<Rightarrow> nat \<Rightarrow> u32" where
  "root_bits k p = of_nat (iroot k (p * 2 ^ (32 * k)) 40 0)"

definition small_primes :: "nat list" where
  "small_primes = filter (\<lambda>n. \<forall>d\<in>set [2..<n]. n mod d \<noteq> 0) [2..<312]"

definition sha256_K :: "u32 list" where
  "sha256_K = map (root_bits 3) small_primes"

definition sha256_init :: "u32 list" where
  "sha256_init = map (root_bits 2) [2, 3, 5, 7, 11, 13, 17, 19]"

definition rotr :: "nat \<Rightarrow> u32 \<Rightarrow> u32" where
  "rotr n w = drop_bit n w OR push_bit (32 - n) w"

definition ssig0 :: "u32 \<Rightarrow> u32" where
  "ssig0 x = rotr 7 x XOR rotr 18 x XOR drop_bit 3 x"

definition ssig1 :: "u32 \<Rightarrow> u32" where
  "ssig1 x = rotr 17 x XOR rotr 19 x XOR drop_bit 10 x"

definition bsig0 :: "u32 \<Rightarrow> u32" where
  "bsig0 x = rotr 2 x XOR rotr 13 x XOR rotr 22 x"

definition bsig1 :: "u32 \<Rightarrow> u32" where
  "bsig1 x = rotr 6 x XOR rotr 11 x XOR rotr 25 x"

definition Ch :: "u32 \<Rightarrow> u32 \<Rightarrow> u32 \<Rightarrow> u32" where
  "Ch x y z = (x AND y) XOR (NOT x AND z)"

definition Maj :: "u32 \<Rightarrow> u32 \<Rightarrow> u32 \<Rightarrow> u32" where
  "Maj x y z = (x AND y) XOR (x AND z) XOR (y AND z)"

text \<open>The message schedule, oldest word first.\<close>

fun schedule :: "nat \<Rightarrow> u32 list \<Rightarrow> u32 list" where
  "schedule 0 w = w"
| "schedule (Suc n) w =
     schedule n (w @ [ssig1 (w ! (length w - 2)) + w ! (length w - 7)
                      + ssig0 (w ! (length w - 15)) + w ! (length w - 16)])"

definition sha_round :: "u32 list \<Rightarrow> u32 \<times> u32 \<Rightarrow> u32 list" where
  "sha_round s kw =
     (let a = s ! 0; b = s ! 1; c = s ! 2; d = s ! 3; e = s ! 4; f = s ! 5; g = s ! 6; h = s ! 7;
          t1 = h + bsig1 e + Ch e f g + fst kw + snd kw; t2 = bsig0 a + Maj a b c
      in [t1 + t2, a, b, c, d + t1, e, f, g])"

definition block_words :: "bytes \<Rightarrow> u32 list" where
  "block_words b = map (\<lambda>i. of_nat (un_be (take 4 (drop (4 * i) b)))) [0..<16]"

definition compress :: "u32 list \<Rightarrow> bytes \<Rightarrow> u32 list" where
  "compress h b =
     map2 (+) h (foldl sha_round h (zip sha256_K (schedule 48 (block_words b))))"

text \<open>The padded message is consumed 64 bytes at a time.\<close>

fun sha_blocks :: "nat \<Rightarrow> u32 list \<Rightarrow> bytes \<Rightarrow> u32 list" where
  "sha_blocks 0 h m = h"
| "sha_blocks (Suc n) h m = sha_blocks n (compress h (take 64 m)) (drop 64 m)"

definition sha_pad :: "bytes \<Rightarrow> bytes" where
  "sha_pad m =
     m @ [0x80] @ replicate ((119 - length m mod 64) mod 64) 0 @ be64 (of_nat (8 * length m))"

definition sha256 :: "bytes \<Rightarrow> bytes" where
  "sha256 m =
     concat (map be32 (sha_blocks (length (sha_pad m) div 64) sha256_init (sha_pad m)))"

definition collision :: "bytes \<Rightarrow> bytes \<Rightarrow> bool" where
  "collision x y \<longleftrightarrow> x \<noteq> y \<and> sha256 x = sha256 y"

section \<open>Lemmas\<close>

lemma length_foldl_sha_round: "length s = 8 \<Longrightarrow> length (foldl sha_round s kws) = 8"
  by (induction kws arbitrary: s) (simp_all add: sha_round_def Let_def)

lemma length_compress: "length h = 8 \<Longrightarrow> length (compress h b) = 8"
  by (simp add: compress_def length_foldl_sha_round)

lemma length_sha_blocks: "length h = 8 \<Longrightarrow> length (sha_blocks n h m) = 8"
  by (induction n h m rule: sha_blocks.induct) (simp_all add: length_compress)

lemma length_concat_be32: "length (concat (map be32 ws)) = 4 * length ws"
  by (induction ws) simp_all

lemma length_sha256 [simp]: "length (sha256 m) = 32"
proof -
  have "length (sha_blocks n sha256_init p) = 8" for n p
    by (rule length_sha_blocks) (simp add: sha256_init_def)
  then show ?thesis by (simp add: sha256_def length_concat_be32)
qed

lemma sha256_ne_Nil [simp]: "sha256 m \<noteq> []"
  using length_sha256 [of m] by (metis list.size(3) zero_neq_numeral)

text \<open>The padding ends at a block boundary, so the block count of \<open>sha256\<close> is exact.\<close>

lemma length_sha_pad: "length (sha_pad m) mod 64 = 0"
proof -
  define r where "r = length m mod 64"
  have r: "r < 64" by (simp add: r_def)
  have "(119 - r) mod 64 = (if r \<le> 55 then 55 - r else 119 - r)"
    using r by (auto simp: mod_if)
  then have "r + 9 + (119 - r) mod 64 = 64 \<or> r + 9 + (119 - r) mod 64 = 128"
    using r by auto
  then have "(r + 9 + (119 - r) mod 64) mod 64 = 0" by (elim disjE; simp only:) simp_all
  moreover have "length (sha_pad m) mod 64 = (r + (9 + (119 - r) mod 64)) mod 64"
    unfolding r_def mod_add_left_eq by (simp add: sha_pad_def algebra_simps)
  ultimately show ?thesis by (simp add: add.assoc)
qed

lemma sha256_eq_or_collision: "sha256 x = sha256 y \<longleftrightarrow> x = y \<or> collision x y"
  by (auto simp: collision_def)

end
