(* ===== verification/Crypto.thy ===== *)
theory Crypto
  imports Sha256
begin

text \<open>
  The signature schemes the program calls.  Ed25519 (\<open>crypto/ed25519\<close>) and Dilithium3
  (\<open>circl/sign/dilithium/mode3\<close>) are a parameter of every definition that signs or
  verifies: the record \<open>crypto\<close> holds the primitive operations on byte strings.  The byte
  lengths, the place of the public half in an Ed25519 private key and the length test of
  \<open>ed25519.Verify\<close> are those of the packages.  \<open>ed_correct\<close> and \<open>d3_correct\<close>
  name the one documented fact a round trip needs: a signature made with a generated key
  verifies under its public half.  Nothing is assumed about forgeries.  The second part models
  \<open>pkg/hybrid\<close>, which concatenates the two schemes.
\<close>

section \<open>Definitions\<close>

subsection \<open>The primitives\<close>

record crypto =
  ed_newkey :: "bytes \<Rightarrow> bytes"
  ed_sign :: "bytes \<Rightarrow> bytes \<Rightarrow> bytes"
  ed_verify :: "bytes \<Rightarrow> bytes \<Rightarrow> bytes \<Rightarrow> bool"
  d3_newkey :: "bytes \<Rightarrow> bytes \<times> bytes"
  d3_sign :: "bytes \<Rightarrow> bytes \<Rightarrow> bytes"
  d3_verify :: "bytes \<Rightarrow> bytes \<Rightarrow> bytes \<Rightarrow> bool"
  d3_decode :: "bytes \<Rightarrow> bool"

definition ed25519_PublicKeySize :: nat where "ed25519_PublicKeySize = 32"
definition ed25519_PrivateKeySize :: nat where "ed25519_PrivateKeySize = 64"
definition ed25519_SignatureSize :: nat where "ed25519_SignatureSize = 64"
definition mode3_PublicKeySize :: nat where "mode3_PublicKeySize = 1952"
definition mode3_SignatureSize :: nat where "mode3_SignatureSize = 3293"

lemmas key_sizes = ed25519_PublicKeySize_def ed25519_PrivateKeySize_def
  ed25519_SignatureSize_def mode3_PublicKeySize_def mode3_SignatureSize_def

text \<open>\<open>priv.Public()\<close> copies the second half of a private key.\<close>

definition ed_Public :: "bytes \<Rightarrow> bytes" where
  "ed_Public priv = drop 32 priv"

text \<open>
  \<open>ed25519.Verify\<close> on a public key of the right length.  It panics on any other length; the
  callers that do not test the length first carry that branch themselves.
\<close>

definition ed25519_Verify :: "crypto \<Rightarrow> bytes \<Rightarrow> bytes \<Rightarrow> bytes \<Rightarrow> bool" where
  "ed25519_Verify C pub msg sig \<longleftrightarrow> length sig = ed25519_SignatureSize \<and> ed_verify C pub msg sig"

definition ed_correct :: "crypto \<Rightarrow> bytes \<Rightarrow> bool" where
  "ed_correct C priv \<longleftrightarrow> length priv = ed25519_PrivateKeySize \<and>
     (\<forall>m. length (ed_sign C priv m) = ed25519_SignatureSize
        \<and> ed_verify C (ed_Public priv) m (ed_sign C priv m))"

definition d3_correct :: "crypto \<Rightarrow> bytes \<Rightarrow> bytes \<Rightarrow> bool" where
  "d3_correct C pub priv \<longleftrightarrow> length pub = mode3_PublicKeySize \<and> d3_decode C pub \<and>
     (\<forall>m. length (d3_sign C priv m) = mode3_SignatureSize \<and> d3_verify C pub m (d3_sign C priv m))"

subsection \<open>\<open>pkg/hybrid\<close>\<close>

text \<open>A Dilithium3 key in memory is represented by its packed bytes.\<close>

record HybridPublicKey =
  hyb_Ed :: bytes
  hyb_Quantum :: bytes

record HybridPrivateKey =
  hybp_Ed :: bytes
  hybp_Quantum :: bytes
  hybp_Pub :: HybridPublicKey

datatype hybrid_error =
    HybridBadSignatureSize nat
  | HybridEdInvalid
  | HybridDilithiumInvalid
  | HybridBadPubkeyLength nat
  | HybridDecode
  | HybridPanic

definition PubKeySize :: nat where
  "PubKeySize = ed25519_PublicKeySize + mode3_PublicKeySize"

definition HybridSignatureSize :: nat where
  "HybridSignatureSize = ed25519_SignatureSize + mode3_SignatureSize"

text \<open>
  Key generation draws both seeds from the reader; they are arguments here.  Each seed has the
  length its scheme reads.
\<close>

definition hybrid_GenerateKey :: "crypto \<Rightarrow> bytes \<Rightarrow> bytes \<Rightarrow> HybridPrivateKey" where
  "hybrid_GenerateKey C edSeed dSeed =
     (let edPriv = ed_newkey C edSeed; (dPub, dPriv) = d3_newkey C dSeed
      in \<lparr>hybp_Ed = edPriv, hybp_Quantum = dPriv,
          hybp_Pub = \<lparr>hyb_Ed = ed_Public edPriv, hyb_Quantum = dPub\<rparr>\<rparr>)"

text \<open>\<open>copy(out, src)\<close> into a buffer: as many bytes as both have.\<close>

definition copy_into :: "bytes \<Rightarrow> nat \<Rightarrow> bytes \<Rightarrow> bytes" where
  "copy_into out off src =
     take off out @ take (length out - off) src @ drop (off + length src) out"

definition hybrid_Sign :: "crypto \<Rightarrow> HybridPrivateKey \<Rightarrow> bytes \<Rightarrow> bytes" where
  "hybrid_Sign C k msg =
     (let out = replicate HybridSignatureSize 0;
          out = copy_into out 0 (ed_sign C (hybp_Ed k) msg)
      in copy_into out ed25519_SignatureSize (d3_sign C (hybp_Quantum k) msg))"

definition hybrid_Verify :: "crypto \<Rightarrow> HybridPublicKey \<Rightarrow> bytes \<Rightarrow> bytes \<Rightarrow> hybrid_error option" where
  "hybrid_Verify C p msg sig =
     (if length sig \<noteq> HybridSignatureSize then Some (HybridBadSignatureSize (length sig))
      else let edSig = take ed25519_SignatureSize sig; dSig = drop ed25519_SignatureSize sig
      in if length (hyb_Ed p) \<noteq> ed25519_PublicKeySize then Some HybridPanic
         else if \<not> ed25519_Verify C (hyb_Ed p) msg edSig then Some HybridEdInvalid
         else if \<not> d3_verify C (hyb_Quantum p) msg dSig then Some HybridDilithiumInvalid
         else None)"

definition hybrid_Bytes :: "HybridPublicKey \<Rightarrow> bytes" where
  "hybrid_Bytes p =
     copy_into (copy_into (replicate PubKeySize 0) 0 (hyb_Ed p))
       ed25519_PublicKeySize (hyb_Quantum p)"

definition ParsePublicKey :: "crypto \<Rightarrow> bytes \<Rightarrow> hybrid_error + HybridPublicKey" where
  "ParsePublicKey C buf =
     (if length buf \<noteq> PubKeySize then Inl (HybridBadPubkeyLength (length buf))
      else let ed = take ed25519_PublicKeySize buf; d = drop ed25519_PublicKeySize buf
      in if \<not> d3_decode C d then Inl HybridDecode
         else Inr \<lparr>hyb_Ed = ed, hyb_Quantum = d\<rparr>)"

definition hybrid_KeyID :: "HybridPublicKey option \<Rightarrow> string" where
  "hybrid_KeyID p =
     (case p of None \<Rightarrow> [] | Some p \<Rightarrow> hex (take 8 (sha256 (hybrid_Bytes p))))"

subsection \<open>A concrete scheme, for witnesses\<close>

text \<open>
  A scheme that satisfies both correctness facts, with which the hypotheses of the round trips
  are shown to be satisfiable.  It is not part of the program.
\<close>

definition sample_crypto :: crypto where
  "sample_crypto =
     \<lparr>ed_newkey = (\<lambda>seed. seed @ seed),
      ed_sign = (\<lambda>k m. sha256 (drop 32 k @ m) @ replicate 32 0),
      ed_verify = (\<lambda>pub m s. s = sha256 (pub @ m) @ replicate 32 0),
      d3_newkey = (\<lambda>seed. (replicate 1952 0, replicate 1952 0)),
      d3_sign = (\<lambda>k m. sha256 (k @ m) @ replicate 3261 0),
      d3_verify = (\<lambda>pub m s. s = sha256 (pub @ m) @ replicate 3261 0),
      d3_decode = (\<lambda>pub. length pub = 1952)\<rparr>"

section \<open>Lemmas\<close>

lemma ed_correctD:
  assumes "ed_correct C priv"
  shows "length (ed_sign C priv m) = 64"
    and "ed25519_Verify C (ed_Public priv) m (ed_sign C priv m)"
    and "length (ed_Public priv) = 32" and "priv \<noteq> []"
  using assms by (auto simp: ed_correct_def ed25519_Verify_def ed_Public_def key_sizes)

lemma d3_correctD:
  assumes "d3_correct C pub priv"
  shows "length (d3_sign C priv m) = 3293" and "d3_verify C pub m (d3_sign C priv m)"
    and "length pub = 1952" and "d3_decode C pub" and "pub \<noteq> []"
  using assms by (auto simp: d3_correct_def key_sizes)

lemma sample_ed_correct: "length k = 64 \<Longrightarrow> ed_correct sample_crypto k"
  by (simp add: ed_correct_def sample_crypto_def ed_Public_def key_sizes)

lemma sample_d3_correct: "length k = 1952 \<Longrightarrow> d3_correct sample_crypto k k"
  by (simp add: d3_correct_def sample_crypto_def key_sizes)

lemma copy_into_two:
  assumes "length a = n" "length b = k"
  shows "copy_into (copy_into (replicate (n + k) 0) 0 a) n b = a @ b"
  using assms by (simp add: copy_into_def)

lemma hybrid_Sign_eq:
  assumes "ed_correct C (hybp_Ed k)" and "d3_correct C q (hybp_Quantum k)"
  shows "hybrid_Sign C k msg = ed_sign C (hybp_Ed k) msg @ d3_sign C (hybp_Quantum k) msg"
  using copy_into_two [of "ed_sign C (hybp_Ed k) msg" 64 "d3_sign C (hybp_Quantum k) msg" 3293]
    ed_correctD(1) [OF assms(1)] d3_correctD(1) [OF assms(2)]
  by (simp add: hybrid_Sign_def HybridSignatureSize_def key_sizes Let_def)

lemma hybrid_Verify_iff:
  assumes "length (hyb_Ed p) = 32"
  shows "hybrid_Verify C p msg sig = None \<longleftrightarrow>
    length sig = 3357 \<and> ed_verify C (hyb_Ed p) msg (take 64 sig)
      \<and> d3_verify C (hyb_Quantum p) msg (drop 64 sig)"
  using assms
  by (auto simp: hybrid_Verify_def HybridSignatureSize_def ed25519_Verify_def key_sizes Let_def)

lemma hybrid_Bytes_eq:
  assumes "length (hyb_Ed p) = 32" "length (hyb_Quantum p) = 1952"
  shows "hybrid_Bytes p = hyb_Ed p @ hyb_Quantum p"
  using copy_into_two [OF assms] by (simp add: hybrid_Bytes_def PubKeySize_def key_sizes)

end
