(* ===== verification/Producers.thy ===== *)
theory Producers
  imports Crypto
begin

text \<open>
  The producer records of package \<open>storage\<close> (file \<open>producers.go\<close>): the bytes an operator signs
  to enroll a producer, the bytes a producer signs to consent, and the verification of both.
\<close>

section \<open>Definitions\<close>

record Producer =
  pr_ID :: string
  pr_PublicKey :: bytes
  pr_QuantumPublicKey :: bytes
  pr_AttestationType :: string
  pr_Description :: string
  pr_RegisteredAt :: i64
  pr_Scope :: string
  pr_IssuedAt :: i64
  pr_ExpiresAt :: i64
  pr_OperatorEpoch :: u64
  pr_Signature :: bytes
  pr_QuantumOperatorPubKey :: bytes
  pr_QuantumSignature :: bytes
  pr_Revoked :: bool
  pr_RevokedAt :: i64
  pr_RevokeReason :: string
  pr_ChallengeNonce :: bytes
  pr_ChallengeSignature :: bytes
  pr_QuantumChallengeSignature :: bytes

datatype producer_error =
    PeNoChallengeResponse
  | PeConsentKeyLength nat
  | PeConsentSignatureLength nat
  | PeConsentInvalid
  | PeConsentQuantumLength nat
  | PeConsentQuantumDecode
  | PeConsentQuantumInvalid
  | PeNoEnrollment
  | PeEnrollSignatureLength nat
  | PeEnrollEpoch u64
  | PeEnrollInvalid
  | PeEnrollQuantumLength nat
  | PeEnrollQuantumKeyLength nat
  | PeEnrollNoQuantumKey u64
  | PeEnrollQuantumMismatch
  | PeEnrollQuantumDecode
  | PeEnrollQuantumInvalid
  | PePanic

definition CanonicalEnrollment :: "Producer \<Rightarrow> bytes" where
  "CanonicalEnrollment p =
     of_str ''stele-enrollment/v0'' @ of_str nl
     @ put (of_str (pr_ID p)) @ put (pr_PublicKey p) @ put (pr_QuantumPublicKey p)
     @ put (of_str (pr_Scope p)) @ put (of_str (pr_AttestationType p))
     @ be64 (pr_IssuedAt p) @ be64 (pr_ExpiresAt p) @ be64 (pr_OperatorEpoch p)"

definition ChallengeBytes :: "Producer \<Rightarrow> bytes" where
  "ChallengeBytes p =
     (if length (pr_ChallengeNonce p) = 0 then []
      else of_str ''stele-enroll-challenge/v0'' @ of_str nl @ CanonicalEnrollment p @ pr_ChallengeNonce p)"

definition HasChallengeResponse :: "Producer \<Rightarrow> bool" where
  "HasChallengeResponse p \<longleftrightarrow> 0 < length (pr_ChallengeSignature p)"

definition VerifyConsent :: "crypto \<Rightarrow> Producer \<Rightarrow> producer_error option" where
  "VerifyConsent C p =
     (if \<not> HasChallengeResponse p then Some PeNoChallengeResponse
      else if length (pr_PublicKey p) \<noteq> ed25519_PublicKeySize
        then Some (PeConsentKeyLength (length (pr_PublicKey p)))
      else if length (pr_ChallengeSignature p) \<noteq> ed25519_SignatureSize
        then Some (PeConsentSignatureLength (length (pr_ChallengeSignature p)))
      else let challenge = ChallengeBytes p in
      if \<not> ed25519_Verify C (pr_PublicKey p) challenge (pr_ChallengeSignature p) then Some PeConsentInvalid
      else if 0 < length (pr_QuantumPublicKey p) then
        (if length (pr_QuantumChallengeSignature p) \<noteq> mode3_SignatureSize
           then Some (PeConsentQuantumLength (length (pr_QuantumChallengeSignature p)))
         else if \<not> d3_decode C (pr_QuantumPublicKey p) then Some PeConsentQuantumDecode
         else if \<not> d3_verify C (pr_QuantumPublicKey p) challenge (pr_QuantumChallengeSignature p)
           then Some PeConsentQuantumInvalid
         else None)
      else None)"

definition HasEnrollment :: "Producer \<Rightarrow> bool" where
  "HasEnrollment p \<longleftrightarrow> 0 < length (pr_Signature p)"

definition IsExpired :: "Producer \<Rightarrow> i64 \<Rightarrow> bool" where
  "IsExpired p now = (if pr_ExpiresAt p = 0 then False else sint now \<ge> sint (pr_ExpiresAt p))"

text \<open>
  The two callbacks give the operator's keys of an epoch, nil (\<open>[]\<close>) when there is none;
  \<open>ed25519.Verify\<close> panics on an operator key of another length.
\<close>

definition VerifyEnrollment ::
    "crypto \<Rightarrow> (u64 \<Rightarrow> bytes) \<Rightarrow> (u64 \<Rightarrow> bytes) \<Rightarrow> Producer \<Rightarrow> producer_error option" where
  "VerifyEnrollment C chainPubKey qChainPubKey p =
     (if \<not> HasEnrollment p then Some PeNoEnrollment
      else if length (pr_Signature p) \<noteq> ed25519_SignatureSize
        then Some (PeEnrollSignatureLength (length (pr_Signature p)))
      else let opPub = chainPubKey (pr_OperatorEpoch p); canon = CanonicalEnrollment p in
      if opPub = [] then Some (PeEnrollEpoch (pr_OperatorEpoch p))
      else if length opPub \<noteq> ed25519_PublicKeySize then Some PePanic
      else if \<not> ed25519_Verify C opPub canon (pr_Signature p) then Some PeEnrollInvalid
      else if 0 < length (pr_QuantumSignature p) \<or> 0 < length (pr_QuantumOperatorPubKey p) then
        (if length (pr_QuantumSignature p) \<noteq> mode3_SignatureSize
           then Some (PeEnrollQuantumLength (length (pr_QuantumSignature p)))
         else if length (pr_QuantumOperatorPubKey p) \<noteq> mode3_PublicKeySize
           then Some (PeEnrollQuantumKeyLength (length (pr_QuantumOperatorPubKey p)))
         else let expectedQ = qChainPubKey (pr_OperatorEpoch p) in
         if expectedQ = [] then Some (PeEnrollNoQuantumKey (pr_OperatorEpoch p))
         else if \<not> bytesEqual (pr_QuantumOperatorPubKey p) expectedQ then Some PeEnrollQuantumMismatch
         else if \<not> d3_decode C (pr_QuantumOperatorPubKey p) then Some PeEnrollQuantumDecode
         else if \<not> d3_verify C (pr_QuantumOperatorPubKey p) canon (pr_QuantumSignature p)
           then Some PeEnrollQuantumInvalid
         else None)
      else None)"

section \<open>Lemmas\<close>

text \<open>What an enrollment signature covers.\<close>

definition pr_terms :: "Producer \<Rightarrow> string \<times> bytes \<times> bytes \<times> string \<times> string \<times> i64 \<times> i64 \<times> u64" where
  "pr_terms p = (pr_ID p, pr_PublicKey p, pr_QuantumPublicKey p, pr_Scope p, pr_AttestationType p,
     pr_IssuedAt p, pr_ExpiresAt p, pr_OperatorEpoch p)"

definition pr_fits :: "Producer \<Rightarrow> bool" where
  "pr_fits p \<longleftrightarrow> fits (of_str (pr_ID p)) \<and> fits (pr_PublicKey p) \<and> fits (pr_QuantumPublicKey p)
     \<and> fits (of_str (pr_Scope p)) \<and> fits (of_str (pr_AttestationType p))"

lemma CanonicalEnrollment_append:
  assumes "pr_fits p" "pr_fits q"
  shows "CanonicalEnrollment p @ x = CanonicalEnrollment q @ y \<longleftrightarrow> pr_terms p = pr_terms q \<and> x = y"
  using assms by (auto simp: CanonicalEnrollment_def pr_terms_def pr_fits_def frame)

lemma CanonicalEnrollment_terms: "pr_terms p = pr_terms q \<Longrightarrow> CanonicalEnrollment p = CanonicalEnrollment q"
  by (simp add: CanonicalEnrollment_def pr_terms_def)

lemma VerifyConsent_None:
  "VerifyConsent C p = None \<longleftrightarrow>
     length (pr_PublicKey p) = 32 \<and> ed25519_Verify C (pr_PublicKey p) (ChallengeBytes p) (pr_ChallengeSignature p)
     \<and> (pr_QuantumPublicKey p \<noteq> [] \<longrightarrow> length (pr_QuantumChallengeSignature p) = 3293
          \<and> d3_decode C (pr_QuantumPublicKey p)
          \<and> d3_verify C (pr_QuantumPublicKey p) (ChallengeBytes p) (pr_QuantumChallengeSignature p))"
  by (auto simp: VerifyConsent_def HasChallengeResponse_def ed25519_Verify_def key_sizes Let_def)

lemma VerifyEnrollment_None:
  "VerifyEnrollment C cpk qpk p = None \<longleftrightarrow>
     length (cpk (pr_OperatorEpoch p)) = 32
     \<and> ed25519_Verify C (cpk (pr_OperatorEpoch p)) (CanonicalEnrollment p) (pr_Signature p)
     \<and> (pr_QuantumSignature p \<noteq> [] \<or> pr_QuantumOperatorPubKey p \<noteq> [] \<longrightarrow>
          length (pr_QuantumSignature p) = 3293 \<and> length (pr_QuantumOperatorPubKey p) = 1952
          \<and> qpk (pr_OperatorEpoch p) = pr_QuantumOperatorPubKey p \<and> d3_decode C (pr_QuantumOperatorPubKey p)
          \<and> d3_verify C (pr_QuantumOperatorPubKey p) (CanonicalEnrollment p) (pr_QuantumSignature p))"
  by (auto simp: VerifyEnrollment_def HasEnrollment_def ed25519_Verify_def bytesEqual_iff key_sizes Let_def)

text \<open>
  The bytes an operator signs to enroll a producer, and the bytes the producer signs to consent,
  determine the terms of the enrollment: identity, both keys, scope, attestation type, validity and
  epoch; the consent also determines the nonce.  A consent is never the bytes of an enrollment.
\<close>

theorem enrollment_binds_terms:
  assumes "pr_fits p" and "pr_fits q" and "pr_ChallengeNonce p \<noteq> []" and "pr_ChallengeNonce q \<noteq> []"
  shows "(CanonicalEnrollment p = CanonicalEnrollment q \<longleftrightarrow> pr_terms p = pr_terms q)
    \<and> (ChallengeBytes p = ChallengeBytes q \<longleftrightarrow>
         pr_terms p = pr_terms q \<and> pr_ChallengeNonce p = pr_ChallengeNonce q)
    \<and> ChallengeBytes p \<noteq> CanonicalEnrollment q"
proof -
  have "ChallengeBytes p = ChallengeBytes q \<longleftrightarrow>
      CanonicalEnrollment p @ pr_ChallengeNonce p = CanonicalEnrollment q @ pr_ChallengeNonce q"
    using assms(3,4) by (simp add: ChallengeBytes_def)
  moreover have "ChallengeBytes p \<noteq> CanonicalEnrollment q"
  proof
    assume "ChallengeBytes p = CanonicalEnrollment q"
    then have "take 13 (ChallengeBytes p) = take 13 (CanonicalEnrollment q)" by simp
    then show False
      using assms(3) by (simp add: ChallengeBytes_def CanonicalEnrollment_def of_str_def)
  qed
  ultimately show ?thesis
    using CanonicalEnrollment_append [OF assms(1,2)] CanonicalEnrollment_append [OF assms(1,2), of "[]" "[]"] by simp
qed

text \<open>
  The quantum half of an enrollment can be removed: from a record \<open>VerifyEnrollment\<close> accepts,
  deleting the quantum signature together with the operator's quantum key gives a record it still
  accepts, although the operator's epoch has a quantum key.
\<close>

theorem enrollment_quantum_strippable:
  assumes "VerifyEnrollment C cpk qpk p = None" and "qpk (pr_OperatorEpoch p) \<noteq> []"
  shows "VerifyEnrollment C cpk qpk (p\<lparr>pr_QuantumSignature := [], pr_QuantumOperatorPubKey := []\<rparr>) = None"
proof -
  have "CanonicalEnrollment (p\<lparr>pr_QuantumSignature := [], pr_QuantumOperatorPubKey := []\<rparr>) = CanonicalEnrollment p"
    by (rule CanonicalEnrollment_terms) (simp add: pr_terms_def)
  with assms show ?thesis by (simp add: VerifyEnrollment_None)
qed

subsection \<open>Witnesses\<close>

definition sample_producer :: Producer where
  "sample_producer =
     \<lparr>pr_ID = ''p'', pr_PublicKey = replicate 32 3, pr_QuantumPublicKey = replicate 1952 4,
      pr_AttestationType = ''software'', pr_Description = [], pr_RegisteredAt = 1, pr_Scope = ''logs'',
      pr_IssuedAt = 1, pr_ExpiresAt = 0, pr_OperatorEpoch = 0, pr_Signature = [],
      pr_QuantumOperatorPubKey = [], pr_QuantumSignature = [], pr_Revoked = False, pr_RevokedAt = 0,
      pr_RevokeReason = [], pr_ChallengeNonce = replicate 32 5, pr_ChallengeSignature = [],
      pr_QuantumChallengeSignature = []\<rparr>"

definition sample_enrolled :: Producer where
  "sample_enrolled = sample_producer
     \<lparr>pr_Signature := ed_sign sample_crypto (replicate 64 1) (CanonicalEnrollment sample_producer),
      pr_QuantumOperatorPubKey := replicate 1952 2,
      pr_QuantumSignature := d3_sign sample_crypto (replicate 1952 2) (CanonicalEnrollment sample_producer)\<rparr>"

lemma sample_enrolled_canon: "CanonicalEnrollment sample_enrolled = CanonicalEnrollment sample_producer"
  by (rule CanonicalEnrollment_terms) (simp add: pr_terms_def sample_enrolled_def)

lemma sample_enrolled_verifies:
  "VerifyEnrollment sample_crypto (\<lambda>_. replicate 32 1) (\<lambda>_. replicate 1952 2) sample_enrolled = None"
  using ed_correctD(1,2) [OF sample_ed_correct [of "replicate 64 1"], of "CanonicalEnrollment sample_producer"]
    d3_correctD(1,2) [OF sample_d3_correct [of "replicate 1952 2"], of "CanonicalEnrollment sample_producer"]
    d3_correctD(4) [OF sample_d3_correct [of "replicate 1952 2"]]
  by (simp add: VerifyEnrollment_None sample_enrolled_canon ed_Public_def)
    (simp add: sample_enrolled_def)

theorem enrollment_quantum_strippable_witness:
  "VerifyEnrollment sample_crypto (\<lambda>_. replicate 32 1) (\<lambda>_. replicate 1952 2)
     (sample_enrolled\<lparr>pr_QuantumSignature := [], pr_QuantumOperatorPubKey := []\<rparr>) = None"
  using enrollment_quantum_strippable [OF sample_enrolled_verifies] by simp

theorem enrollment_binds_terms_witness:
  "ChallengeBytes sample_producer \<noteq> ChallengeBytes (sample_producer\<lparr>pr_Scope := ''admin''\<rparr>)"
  using enrollment_binds_terms [of sample_producer "sample_producer\<lparr>pr_Scope := ''admin''\<rparr>"]
  by (simp add: pr_fits_def fits_def pr_terms_def) (simp add: sample_producer_def)

end
