(* ===== verification/Attest.thy ===== *)
theory Attest
  imports Crypto
begin

text \<open>
  \<open>pkg/attest\<close>: the producer's envelope, its canonical encoding and verification, and the
  attestors that make envelopes (\<open>attest.go\<close>, \<open>software.go\<close>, \<open>platform.go\<close>).  The lemmas
  show that the canonical bytes determine every signed field, that \<open>Verify\<close> accepts exactly
  the envelopes whose signatures hold, and that what an attestor signs is accepted; the locale
  \<open>attestor\<close> is the contract of the \<open>Attestor\<close> interface, with the software and the
  keychain attestor as instances.
\<close>

section \<open>Definitions\<close>

subsection \<open>Envelopes\<close>

type_synonym AttestationType = string

definition TypeSoftware :: AttestationType where "TypeSoftware = ''software''"
definition TypeKeychain :: AttestationType where "TypeKeychain = ''keychain''"
definition TypeTPM2 :: AttestationType where "TypeTPM2 = ''tpm2''"

record Envelope =
  env_ProducerID :: string
  env_TimeNanos :: i64
  env_Source :: string
  env_Data :: bytes
  env_PublicKey :: bytes
  env_Type :: AttestationType
  env_EvidenceHash :: bytes
  env_Evidence :: bytes
  env_Signature :: bytes
  env_QuantumPublicKey :: bytes
  env_QuantumSignature :: bytes

datatype envelope_error =
    EnvBadPublicKeyLength nat
  | EnvBadSignatureLength nat
  | EnvEvidenceMismatch
  | EnvInvalidClassical
  | EnvBadQuantumKeyLength nat
  | EnvBadQuantumSigLength nat
  | EnvDecodeQuantum
  | EnvInvalidQuantum

definition env_Canonical :: "Envelope \<Rightarrow> bytes" where
  "env_Canonical e =
     put (of_str (env_ProducerID e)) @ be64 (env_TimeNanos e) @ put (of_str (env_Source e))
     @ put (env_Data e) @ put (env_PublicKey e) @ put (of_str (env_Type e))
     @ put (env_EvidenceHash e) @ put (env_QuantumPublicKey e)"

definition env_Hash :: "Envelope \<Rightarrow> bytes" where
  "env_Hash e = sha256 (env_Canonical e)"

definition env_Verify :: "crypto \<Rightarrow> Envelope \<Rightarrow> envelope_error option" where
  "env_Verify C e =
     (if length (env_PublicKey e) \<noteq> ed25519_PublicKeySize
        then Some (EnvBadPublicKeyLength (length (env_PublicKey e)))
      else if length (env_Signature e) \<noteq> ed25519_SignatureSize
        then Some (EnvBadSignatureLength (length (env_Signature e)))
      else if 0 < length (env_Evidence e)
          \<and> \<not> bytesEqual (sha256 (env_Evidence e)) (env_EvidenceHash e)
        then Some EnvEvidenceMismatch
      else let canon = env_Canonical e in
      if \<not> ed25519_Verify C (env_PublicKey e) canon (env_Signature e)
        then Some EnvInvalidClassical
      else if 0 < length (env_QuantumPublicKey e) \<or> 0 < length (env_QuantumSignature e) then
        (if length (env_QuantumPublicKey e) \<noteq> mode3_PublicKeySize
           then Some (EnvBadQuantumKeyLength (length (env_QuantumPublicKey e)))
         else if length (env_QuantumSignature e) \<noteq> mode3_SignatureSize
           then Some (EnvBadQuantumSigLength (length (env_QuantumSignature e)))
         else if \<not> d3_decode C (env_QuantumPublicKey e) then Some EnvDecodeQuantum
         else if \<not> d3_verify C (env_QuantumPublicKey e) canon (env_QuantumSignature e)
           then Some EnvInvalidQuantum
         else None)
      else None)"

text \<open>Every length-prefixed field is shorter than the 32-bit prefix can count.\<close>

definition env_fits :: "Envelope \<Rightarrow> bool" where
  "env_fits e \<longleftrightarrow> fits (of_str (env_ProducerID e)) \<and> fits (of_str (env_Source e))
     \<and> fits (env_Data e) \<and> fits (env_PublicKey e) \<and> fits (of_str (env_Type e))
     \<and> fits (env_EvidenceHash e) \<and> fits (env_QuantumPublicKey e)"

text \<open>The fields the producer's signature covers.\<close>

definition env_signed :: "Envelope \<Rightarrow> string \<times> i64 \<times> string \<times> bytes \<times> bytes \<times> string \<times> bytes \<times> bytes" where
  "env_signed e = (env_ProducerID e, env_TimeNanos e, env_Source e, env_Data e,
     env_PublicKey e, env_Type e, env_EvidenceHash e, env_QuantumPublicKey e)"

subsection \<open>The software attestor\<close>

record SoftwareAttestor =
  soft_id :: string
  soft_priv :: bytes
  soft_pub :: bytes
  soft_qPriv :: "bytes option"
  soft_qPub :: bytes

datatype attestor_error =
    AttNoKeyLoaded
  | AttKeyWrongLength nat
  | AttNotImplemented

definition NewSoftwareAttestor :: "crypto \<Rightarrow> bytes \<Rightarrow> string \<Rightarrow> SoftwareAttestor" where
  "NewSoftwareAttestor C seed producerID =
     (let priv = ed_newkey C seed
      in \<lparr>soft_id = producerID, soft_priv = priv, soft_pub = ed_Public priv,
          soft_qPriv = None, soft_qPub = []\<rparr>)"

definition NewHybridSoftwareAttestor :: "crypto \<Rightarrow> bytes \<Rightarrow> bytes \<Rightarrow> string \<Rightarrow> SoftwareAttestor" where
  "NewHybridSoftwareAttestor C seed qseed producerID =
     (let a = NewSoftwareAttestor C seed producerID; (qPub, qPriv) = d3_newkey C qseed
      in a\<lparr>soft_qPriv := Some qPriv, soft_qPub := qPub\<rparr>)"

definition soft_IsHybrid :: "SoftwareAttestor \<Rightarrow> bool" where
  "soft_IsHybrid s \<longleftrightarrow> soft_qPriv s \<noteq> None"

definition software_evidence :: bytes where
  "software_evidence =
     of_str (''{'' @ [CHR 0x22] @ ''attestor'' @ [CHR 0x22] @ '':'' @ [CHR 0x22] @ ''software''
             @ [CHR 0x22] @ ''}'')"

text \<open>The envelope before it is signed.\<close>

definition soft_unsigned :: "SoftwareAttestor \<Rightarrow> i64 \<Rightarrow> string \<Rightarrow> bytes \<Rightarrow> Envelope" where
  "soft_unsigned s now source data =
     (let evidence = software_evidence
      in \<lparr>env_ProducerID = soft_id s, env_TimeNanos = now, env_Source = source, env_Data = data,
          env_PublicKey = soft_pub s, env_Type = TypeSoftware, env_EvidenceHash = sha256 evidence,
          env_Evidence = evidence, env_Signature = [], env_QuantumPublicKey = soft_qPub s,
          env_QuantumSignature = []\<rparr>)"

definition soft_Sign :: "crypto \<Rightarrow> SoftwareAttestor \<Rightarrow> i64 \<Rightarrow> string \<Rightarrow> bytes \<Rightarrow> attestor_error + Envelope" where
  "soft_Sign C s now source data =
     (if soft_priv s = [] then Inl AttNoKeyLoaded
      else let env = soft_unsigned s now source data; canon = env_Canonical env;
               env = env\<lparr>env_Signature := ed_sign C (soft_priv s) canon\<rparr>
      in Inr (case soft_qPriv s of None \<Rightarrow> env
              | Some q \<Rightarrow> env\<lparr>env_QuantumSignature := d3_sign C q canon\<rparr>))"

definition SignChallenge :: "crypto \<Rightarrow> SoftwareAttestor \<Rightarrow> bytes \<Rightarrow> attestor_error + bytes \<times> bytes" where
  "SignChallenge C s challenge =
     (if soft_priv s = [] then Inl AttNoKeyLoaded
      else Inr (ed_sign C (soft_priv s) challenge,
                case soft_qPriv s of None \<Rightarrow> [] | Some q \<Rightarrow> d3_sign C q challenge))"

definition stripWS :: "bytes \<Rightarrow> bytes" where
  "stripWS b = filter (\<lambda>c. \<not> (c = 0x0A \<or> c = 0x0D \<or> c = 0x20 \<or> c = 0x09)) b"

subsection \<open>The keychain attestor and the TPM stub\<close>

record KeychainAttestor =
  kc_id :: string
  kc_soft :: SoftwareAttestor
  kc_exists :: bool

text \<open>
  \<open>runtime.GOOS\<close> and the presence of the \<open>security\<close> tool are arguments; the second
  component is the reason the caller is told.
\<close>

definition NewKeychainAttestor ::
    "crypto \<Rightarrow> bytes \<Rightarrow> string \<Rightarrow> bool \<Rightarrow> string \<Rightarrow> KeychainAttestor \<times> string" where
  "NewKeychainAttestor C seed goos security producerID =
     (let s = NewSoftwareAttestor C seed producerID in
      if goos \<noteq> ''darwin'' then
        (\<lparr>kc_id = producerID, kc_soft = s, kc_exists = False\<rparr>,
         ''keychain not implemented for '' @ goos @ ''; falling back to software key'')
      else if \<not> security then
        (\<lparr>kc_id = producerID, kc_soft = s, kc_exists = False\<rparr>,
         ''security CLI not found; software fallback'')
      else (\<lparr>kc_id = producerID, kc_soft = s, kc_exists = True\<rparr>, []))"

definition kc_Type :: "KeychainAttestor \<Rightarrow> AttestationType" where
  "kc_Type k = (if kc_exists k then TypeKeychain else TypeSoftware)"

text \<open>\<open>json.Marshal\<close> of the evidence map writes its keys in sorted order.\<close>

definition quoted :: "string \<Rightarrow> string" where
  "quoted s = [CHR 0x22] @ s @ [CHR 0x22]"

definition json_bool :: "bool \<Rightarrow> string" where
  "json_bool b = (if b then ''true'' else ''false'')"

definition keychain_evidence :: "string \<Rightarrow> string \<Rightarrow> KeychainAttestor \<Rightarrow> bytes" where
  "keychain_evidence goos goarch k =
     of_str (''{'' @ quoted ''arch'' @ '':'' @ quoted goarch
       @ '','' @ quoted ''attestor'' @ '':'' @ quoted (kc_Type k)
       @ '','' @ quoted ''keychain'' @ '':'' @ json_bool (kc_exists k)
       @ '','' @ quoted ''os'' @ '':'' @ quoted goos
       @ '','' @ quoted ''se_backed'' @ '':'' @ json_bool False @ ''}'')"

definition kc_Sign ::
    "crypto \<Rightarrow> string \<Rightarrow> string \<Rightarrow> KeychainAttestor \<Rightarrow> i64 \<Rightarrow> string \<Rightarrow> bytes \<Rightarrow> attestor_error + Envelope" where
  "kc_Sign C goos goarch k now source data =
     (case soft_Sign C (kc_soft k) now source data of
        Inl err \<Rightarrow> Inl err
      | Inr env \<Rightarrow>
          let body = keychain_evidence goos goarch k;
              env = env\<lparr>env_Type := kc_Type k, env_Evidence := body, env_EvidenceHash := sha256 body\<rparr>
          in Inr (env\<lparr>env_Signature := ed_sign C (soft_priv (kc_soft k)) (env_Canonical env)\<rparr>))"

definition tpm2_Sign :: "string \<Rightarrow> i64 \<Rightarrow> string \<Rightarrow> bytes \<Rightarrow> attestor_error + Envelope" where
  "tpm2_Sign tid now source data = Inl AttNotImplemented"

datatype discovered = DTPM2 string | DKeychain KeychainAttestor | DSoftware SoftwareAttestor

definition tpmAvailable :: bool where
  "tpmAvailable = False"

definition Discover ::
    "crypto \<Rightarrow> bytes \<Rightarrow> string \<Rightarrow> bool \<Rightarrow> string \<Rightarrow> discovered \<times> string" where
  "Discover C seed goos security producerID =
     (if goos = ''linux'' \<and> tpmAvailable then (DTPM2 producerID, ''tpm2 device present'')
      else if goos = ''darwin'' then
        (let (k, reason) = NewKeychainAttestor C seed goos security producerID
         in (DKeychain k, if reason = [] then ''macOS keychain available'' else reason))
      else (DSoftware (NewSoftwareAttestor C seed producerID),
            ''no hardware attestor; using software key''))"

section \<open>Lemmas\<close>

subsection \<open>The canonical encoding\<close>

text \<open>
  Two envelopes whose fields fit their length prefixes have the same canonical bytes exactly
  when they agree on every field the signature covers, so that a signature on one envelope is a
  signature on no other content: the encoding of \<open>Envelope.Canonical\<close> is unambiguous.
\<close>

theorem env_Canonical_inj:
  assumes "env_fits e" and "env_fits e'"
  shows "env_Canonical e = env_Canonical e' \<longleftrightarrow> env_signed e = env_signed e'"
  using assms
  by (auto simp: env_Canonical_def env_signed_def env_fits_def frame put_inj)

definition sample_env :: Envelope where
  "sample_env =
     \<lparr>env_ProducerID = ''p1'', env_TimeNanos = 7, env_Source = ''s'', env_Data = [1, 2],
      env_PublicKey = replicate 32 5, env_Type = TypeSoftware, env_EvidenceHash = [],
      env_Evidence = [], env_Signature = replicate 64 0, env_QuantumPublicKey = [],
      env_QuantumSignature = []\<rparr>"

lemma sample_env_fits: "env_fits sample_env"
  by (simp add: env_fits_def sample_env_def fits_def TypeSoftware_def)

theorem env_Canonical_inj_witness:
  "env_Canonical sample_env \<noteq> env_Canonical (sample_env\<lparr>env_Source := ''t''\<rparr>)"
proof -
  have "env_fits (sample_env\<lparr>env_Source := ''t''\<rparr>)"
    by (simp add: env_fits_def sample_env_def fits_def TypeSoftware_def)
  from env_Canonical_inj [OF sample_env_fits this] show ?thesis
    by (simp add: env_signed_def sample_env_def)
qed

subsection \<open>Verification\<close>

definition env_hybrid :: "Envelope \<Rightarrow> bool" where
  "env_hybrid e \<longleftrightarrow> env_QuantumPublicKey e \<noteq> [] \<or> env_QuantumSignature e \<noteq> []"

text \<open>
  \<open>Envelope.Verify\<close> accepts exactly when the key and signature have the Ed25519 lengths,
  attached evidence hashes to the signed evidence hash, the classical signature holds over the
  canonical bytes, and, as soon as either quantum field is present, both have the Dilithium3
  lengths and the quantum signature holds over the same bytes: there is no accepted envelope
  with half a quantum signature.
\<close>

theorem env_Verify_accepts:
  "env_Verify C e = None \<longleftrightarrow>
     length (env_PublicKey e) = 32 \<and> length (env_Signature e) = 64
     \<and> (env_Evidence e = [] \<or> env_EvidenceHash e = sha256 (env_Evidence e))
     \<and> ed_verify C (env_PublicKey e) (env_Canonical e) (env_Signature e)
     \<and> (env_hybrid e = (length (env_QuantumPublicKey e) = 1952
          \<and> length (env_QuantumSignature e) = 3293 \<and> d3_decode C (env_QuantumPublicKey e)
          \<and> d3_verify C (env_QuantumPublicKey e) (env_Canonical e) (env_QuantumSignature e)))"
  by (auto simp: env_Verify_def env_hybrid_def ed25519_Verify_def key_sizes Let_def bytesEqual_iff
      split: if_splits)

lemma env_VerifyI:
  assumes "length (env_PublicKey e) = 32" "length (env_Signature e) = 64"
    and "env_EvidenceHash e = sha256 (env_Evidence e)"
    and "ed25519_Verify C (env_PublicKey e) (env_Canonical e) (env_Signature e)"
    and "env_QuantumPublicKey e = [] \<and> env_QuantumSignature e = [] \<or>
      length (env_QuantumPublicKey e) = 1952 \<and> length (env_QuantumSignature e) = 3293
      \<and> d3_decode C (env_QuantumPublicKey e)
      \<and> d3_verify C (env_QuantumPublicKey e) (env_Canonical e) (env_QuantumSignature e)"
  shows "env_Verify C e = None"
  using assms by (auto simp: env_Verify_def key_sizes Let_def bytesEqual_iff)

lemma env_Verify_None_len:
  "env_Verify C e = None \<Longrightarrow> length (env_PublicKey e) = 32 \<and> length (env_Signature e) = 64"
  by (auto simp: env_Verify_def key_sizes split: if_splits)

subsection \<open>Attestors\<close>

text \<open>
  The contract of the \<open>Attestor\<close> interface: what a well-formed attestor signs is an envelope
  for its producer and its key, over the given source and data, that the log will verify.
\<close>

locale attestor =
  fixes C :: crypto and wf :: "'a \<Rightarrow> bool" and ProducerID :: "'a \<Rightarrow> string"
    and Type :: "'a \<Rightarrow> AttestationType" and PublicKey :: "'a \<Rightarrow> bytes"
    and Sign :: "'a \<Rightarrow> i64 \<Rightarrow> string \<Rightarrow> bytes \<Rightarrow> attestor_error + Envelope"
  assumes sign_total: "wf a \<Longrightarrow> \<exists>e. Sign a t src dat = Inr e"
    and sign_verifies: "wf a \<Longrightarrow> Sign a t src dat = Inr e \<Longrightarrow> env_Verify C e = None"
    and sign_content: "wf a \<Longrightarrow> Sign a t src dat = Inr e \<Longrightarrow>
      env_ProducerID e = ProducerID a \<and> env_TimeNanos e = t \<and> env_Source e = src
      \<and> env_Data e = dat \<and> env_PublicKey e = PublicKey a \<and> env_Type e = Type a"
begin

lemma sign_accepted:
  assumes "wf a"
  shows "\<exists>e. Sign a t src dat = Inr e \<and> env_Verify C e = None \<and> env_ProducerID e = ProducerID a
    \<and> env_PublicKey e = PublicKey a \<and> env_Data e = dat"
  using sign_total [OF assms] sign_verifies [OF assms] sign_content [OF assms] by metis

lemma sign_binds:
  assumes "wf a" "Sign a t src dat = Inr e" "Sign a t' src' dat' = Inr e'"
    and "env_fits e" "env_fits e'" "env_Canonical e = env_Canonical e'"
  shows "t = t' \<and> src = src' \<and> dat = dat'"
proof -
  have "env_Source e = env_Source e' \<and> env_Data e = env_Data e' \<and> env_TimeNanos e = env_TimeNanos e'"
    using assms(4-6) by (auto simp: env_Canonical_def env_fits_def frame put_inj)
  then show ?thesis
    using sign_content [OF assms(1,2)] sign_content [OF assms(1,3)] by simp
qed

end

definition soft_wf :: "crypto \<Rightarrow> SoftwareAttestor \<Rightarrow> bool" where
  "soft_wf C s \<longleftrightarrow> ed_correct C (soft_priv s) \<and> soft_pub s = ed_Public (soft_priv s)
     \<and> (case soft_qPriv s of None \<Rightarrow> soft_qPub s = [] | Some q \<Rightarrow> d3_correct C (soft_qPub s) q)"

definition kc_wf :: "crypto \<Rightarrow> KeychainAttestor \<Rightarrow> bool" where
  "kc_wf C k \<longleftrightarrow> soft_wf C (kc_soft k) \<and> soft_id (kc_soft k) = kc_id k \<and> soft_qPriv (kc_soft k) = None"

lemma env_Canonical_sig [simp]:
  "env_Canonical (e\<lparr>env_Signature := x\<rparr>) = env_Canonical e"
  "env_Canonical (e\<lparr>env_QuantumSignature := x\<rparr>) = env_Canonical e"
  "env_Canonical (e\<lparr>env_Evidence := x\<rparr>) = env_Canonical e"
  by (simp_all add: env_Canonical_def)

lemma soft_wfD:
  assumes "soft_wf C s"
  shows "soft_priv s \<noteq> []" "length (soft_pub s) = 32"
    "length (ed_sign C (soft_priv s) m) = 64"
    "ed25519_Verify C (soft_pub s) m (ed_sign C (soft_priv s) m)"
  using assms ed_correctD [of C "soft_priv s"] by (simp_all add: soft_wf_def)

lemma soft_Sign_Inr:
  assumes "soft_wf C s"
  shows "soft_Sign C s t src dat =
    Inr ((soft_unsigned s t src dat)
      \<lparr>env_Signature := ed_sign C (soft_priv s) (env_Canonical (soft_unsigned s t src dat)),
       env_QuantumSignature := (case soft_qPriv s of None \<Rightarrow> []
         | Some q \<Rightarrow> d3_sign C q (env_Canonical (soft_unsigned s t src dat)))\<rparr>)"
  using soft_wfD(1) [OF assms]
  by (auto simp: soft_Sign_def soft_unsigned_def Let_def split: option.splits)

lemma soft_Sign_verifies:
  assumes wf: "soft_wf C s" and eq: "soft_Sign C s t src dat = Inr e"
  shows "env_Verify C e = None"
proof (rule env_VerifyI)
  let ?u = "soft_unsigned s t src dat"
  have e: "e = ?u\<lparr>env_Signature := ed_sign C (soft_priv s) (env_Canonical ?u),
       env_QuantumSignature := (case soft_qPriv s of None \<Rightarrow> []
         | Some q \<Rightarrow> d3_sign C q (env_Canonical ?u))\<rparr>"
    using eq unfolding soft_Sign_Inr [OF wf] by simp
  have u: "env_PublicKey ?u = soft_pub s" "env_EvidenceHash ?u = sha256 (env_Evidence ?u)"
    "env_QuantumPublicKey ?u = soft_qPub s"
    by (simp_all add: soft_unsigned_def Let_def)
  note wfd = soft_wfD [OF wf]
  show "length (env_PublicKey e) = 32" "length (env_Signature e) = 64"
    "env_EvidenceHash e = sha256 (env_Evidence e)"
    "ed25519_Verify C (env_PublicKey e) (env_Canonical e) (env_Signature e)"
    unfolding e by (simp_all add: u wfd)
  show "env_QuantumPublicKey e = [] \<and> env_QuantumSignature e = [] \<or>
      length (env_QuantumPublicKey e) = 1952 \<and> length (env_QuantumSignature e) = 3293
      \<and> d3_decode C (env_QuantumPublicKey e)
      \<and> d3_verify C (env_QuantumPublicKey e) (env_Canonical e) (env_QuantumSignature e)"
    using wf unfolding e
    by (cases "soft_qPriv s") (auto simp: u soft_wf_def d3_correctD(2) dest: d3_correctD)
qed

lemma soft_Sign_content:
  assumes "soft_wf C s" "soft_Sign C s t src dat = Inr e"
  shows "env_ProducerID e = soft_id s \<and> env_TimeNanos e = t \<and> env_Source e = src
      \<and> env_Data e = dat \<and> env_PublicKey e = soft_pub s \<and> env_Type e = TypeSoftware"
  using assms(2) by (auto simp: soft_Sign_Inr [OF assms(1)] soft_unsigned_def Let_def)

interpretation soft: attestor C "soft_wf C" soft_id "\<lambda>_. TypeSoftware" soft_pub "soft_Sign C" for C
proof unfold_locales
  show "soft_wf C s \<Longrightarrow> \<exists>e. soft_Sign C s t src dat = Inr e" for s t src dat
    by (simp add: soft_Sign_Inr)
qed (blast intro: soft_Sign_verifies, rule soft_Sign_content)

lemma kc_Sign_Inr:
  assumes wf: "kc_wf C k" and eq: "kc_Sign C goos goarch k t src dat = Inr e"
  shows "env_Verify C e = None \<and> env_ProducerID e = kc_id k \<and> env_TimeNanos e = t
    \<and> env_Source e = src \<and> env_Data e = dat \<and> env_PublicKey e = soft_pub (kc_soft k)
    \<and> env_Type e = kc_Type k"
proof -
  let ?s = "kc_soft k"
  have s: "soft_wf C ?s" "soft_id ?s = kc_id k" "soft_qPriv ?s = None" "soft_qPub ?s = []"
    using wf by (auto simp: kc_wf_def soft_wf_def)
  define b where "b = keychain_evidence goos goarch k"
  define u where "u = (soft_unsigned ?s t src dat)\<lparr>env_Type := kc_Type k, env_Evidence := b,
    env_EvidenceHash := sha256 b\<rparr>"
  have e: "e = u\<lparr>env_Signature := ed_sign C (soft_priv ?s) (env_Canonical u)\<rparr>"
    using eq by (simp add: kc_Sign_def soft_Sign_Inr [OF s(1)] s(3) u_def b_def Let_def
        env_Canonical_def soft_unsigned_def)
  have u: "env_ProducerID u = kc_id k" "env_TimeNanos u = t" "env_Source u = src"
    "env_Data u = dat" "env_PublicKey u = soft_pub ?s" "env_Type u = kc_Type k"
    "env_EvidenceHash u = sha256 (env_Evidence u)" "env_QuantumPublicKey u = []"
    "env_QuantumSignature u = []"
    by (simp_all add: u_def soft_unsigned_def s Let_def)
  have "env_Verify C e = None"
    by (rule env_VerifyI) (simp_all add: e u soft_wfD [OF s(1)])
  then show ?thesis by (simp add: e u)
qed

interpretation kc: attestor C "kc_wf C" kc_id kc_Type "\<lambda>k. soft_pub (kc_soft k)"
    "kc_Sign C goos goarch" for C goos goarch
proof unfold_locales
  fix k t src dat
  assume "kc_wf C k"
  then show "\<exists>e. kc_Sign C goos goarch k t src dat = Inr e"
    by (simp add: kc_wf_def kc_Sign_def soft_Sign_Inr Let_def)
qed (blast dest: kc_Sign_Inr)+

text \<open>
  What the software attestor signs, classical or hybrid, is accepted by \<open>Envelope.Verify\<close>
  and carries the producer, key and data it was asked to sign.
\<close>

lemma soft_Sign_accepted:
  assumes "soft_wf C s"
  shows "\<exists>e. soft_Sign C s now src dat = Inr e \<and> env_Verify C e = None
    \<and> env_ProducerID e = soft_id s \<and> env_PublicKey e = soft_pub s \<and> env_Data e = dat"
  by (rule soft.sign_accepted [OF assms])

definition sample_attestor :: SoftwareAttestor where
  "sample_attestor =
     \<lparr>soft_id = ''p1'', soft_priv = replicate 64 1, soft_pub = replicate 32 1,
      soft_qPriv = Some (replicate 1952 2), soft_qPub = replicate 1952 2\<rparr>"

lemma sample_attestor_wf: "soft_wf sample_crypto sample_attestor"
  by (simp add: soft_wf_def sample_attestor_def sample_ed_correct sample_d3_correct ed_Public_def)

definition sample_signed :: Envelope where
  "sample_signed = projr (soft_Sign sample_crypto sample_attestor 7 ''s'' [1])"

lemma sample_signed_Sign: "soft_Sign sample_crypto sample_attestor 7 ''s'' [1] = Inr sample_signed"
  using soft.sign_total [OF sample_attestor_wf, of 7 "''s''" "[1]"]
  by (auto simp: sample_signed_def)

lemma sample_signed_verifies: "env_Verify sample_crypto sample_signed = None"
  by (rule soft_Sign_verifies [OF sample_attestor_wf sample_signed_Sign])

lemma sample_signed_fields:
  "env_ProducerID sample_signed = ''p1''" "env_PublicKey sample_signed = replicate 32 1"
  "env_QuantumPublicKey sample_signed = replicate 1952 2" "env_TimeNanos sample_signed = 7"
  "env_Source sample_signed = ''s''" "env_Data sample_signed = [1]"
proof -
  note eq = soft_Sign_Inr [OF sample_attestor_wf, of 7 "''s''" "[1]", unfolded sample_signed_Sign sum.inject]
  show "env_ProducerID sample_signed = ''p1''" "env_PublicKey sample_signed = replicate 32 1"
    "env_QuantumPublicKey sample_signed = replicate 1952 2" "env_TimeNanos sample_signed = 7"
    "env_Source sample_signed = ''s''" "env_Data sample_signed = [1]"
    by (subst eq, simp add: soft_unsigned_def sample_attestor_def Let_def)+
qed

lemma soft_Sign_accepted_witness:
  "soft_wf sample_crypto sample_attestor
   \<and> (\<exists>e. soft_Sign sample_crypto sample_attestor 7 ''s'' [1] = Inr e
        \<and> env_Verify sample_crypto e = None \<and> env_ProducerID e = ''p1'')"
  using soft_Sign_accepted [OF sample_attestor_wf, of 7 "''s''" "[1]"] sample_attestor_wf
  by (auto simp: sample_attestor_def)

end
