(* ===== verification/HashChain.thy ===== *)
theory HashChain
  imports Sha256
begin

text \<open>
  The contracts shared by the program's hash-linked logs (the entry log, the read journal and
  the admin journal): records that carry an index, the hash of their predecessor and the
  SHA-256 of their own canonical bytes.  \<open>chain_links\<close> is what a replay checks from record to
  record; \<open>hash_chain\<close> adds what the hashes mean, and proves once what every such log promises:
  the head hash of a verified log determines the whole log, unless two of its records collide
  under SHA-256.
\<close>

locale chain_links =
  fixes valid :: "'e \<Rightarrow> bool" and follows :: "'e \<Rightarrow> 'e option \<Rightarrow> bool"
    and hash :: "'e \<Rightarrow> bytes" and prev :: "'e \<Rightarrow> bytes" and index :: "'e \<Rightarrow> u64" and genesis :: "bytes \<Rightarrow> bool"
  assumes follows_None: "follows e None \<longleftrightarrow> genesis (prev e) \<and> index e = 0"
    and follows_Some: "follows e (Some p) \<longleftrightarrow> prev e = hash p \<and> index e = index p + 1"
begin

fun chained :: "'e option \<Rightarrow> 'e list \<Rightarrow> bool" where
  "chained p [] = True"
| "chained p (e # es) = (valid e \<and> follows e p \<and> chained (Some e) es)"

definition last_of :: "'e option \<Rightarrow> 'e list \<Rightarrow> 'e option" where
  "last_of p es = (if es = [] then p else Some (last es))"

lemma last_of_Cons: "last_of (Some e) es = last_of p (e # es)"
  by (simp add: last_of_def)

lemma chained_append: "chained p (xs @ ys) \<longleftrightarrow> chained p xs \<and> chained (last_of p xs) ys"
proof (induction xs arbitrary: p)
  case (Cons x xs)
  then show ?case using last_of_Cons [of x xs p] by simp
qed (simp add: last_of_def)

lemma chained_snoc:
  "chained p (xs @ [e]) \<longleftrightarrow> chained p xs \<and> valid e \<and> follows e (last_of p xs)"
  by (simp add: chained_append)

lemma chained_valid: "chained p es \<Longrightarrow> e \<in> set es \<Longrightarrow> valid e"
  by (induction es arbitrary: p) auto

lemma index_last: "chained None (xs @ [e]) \<Longrightarrow> index e = of_nat (length xs)"
proof (induction xs arbitrary: e rule: rev_induct)
  case Nil
  then show ?case by (simp add: follows_None)
next
  case (snoc x xs)
  have "chained None (xs @ [x])" "follows e (Some x)"
    using chained_snoc [of None "xs @ [x]" e] snoc.prems by (simp_all add: last_of_def)
  with snoc.IH [of x] show ?case by (simp add: follows_Some)
qed

lemma index_nth:
  assumes "chained None es" "i < length es"
  shows "index (es ! i) = of_nat i"
proof -
  have "es = take (Suc i) es @ drop (Suc i) es" by simp
  with assms(1) have "chained None (take (Suc i) es)" by (metis chained_append)
  then have "chained None (take i es @ [es ! i])"
    using assms(2) by (simp add: take_Suc_conv_app_nth)
  from index_last [OF this] assms(2) show ?thesis by simp
qed

lemma prev_last_of: "chained None (xs @ [e]) \<Longrightarrow> xs \<noteq> [] \<Longrightarrow> prev e = hash (last xs)"
  by (auto simp: chained_snoc last_of_def follows_Some)

end

locale hash_chain = chain_links valid follows hash prev index genesis
  for valid :: "'e \<Rightarrow> bool" and follows :: "'e \<Rightarrow> 'e option \<Rightarrow> bool"
    and hash :: "'e \<Rightarrow> bytes" and prev :: "'e \<Rightarrow> bytes" and index :: "'e \<Rightarrow> u64" and genesis :: "bytes \<Rightarrow> bool" +
  fixes canon :: "'e \<Rightarrow> bytes" and content :: "'e \<Rightarrow> 'c" and linkable :: "bytes \<Rightarrow> bool"
  assumes hash_canon: "valid e \<Longrightarrow> hash e = sha256 (canon e)"
    and genesis_linkable: "valid e \<Longrightarrow> genesis (prev e) \<Longrightarrow> linkable (prev e)"
    and digest_linkable: "length h = 32 \<Longrightarrow> linkable h"
    and canon_determines: "valid e \<Longrightarrow> valid e' \<Longrightarrow> linkable (prev e) \<Longrightarrow> linkable (prev e')
      \<Longrightarrow> canon e = canon e' \<Longrightarrow> prev e = prev e' \<and> index e = index e' \<and> content e = content e'"
begin

lemma prev_linkable: "chained None (xs @ [e]) \<Longrightarrow> linkable (prev e)"
proof (cases xs rule: rev_cases)
  case Nil
  assume "chained None (xs @ [e])"
  with Nil show ?thesis by (simp add: follows_None genesis_linkable)
next
  case (snoc ys y)
  assume "chained None (xs @ [e])"
  with snoc have "valid y" "prev e = hash y"
    by (auto simp: chained_append last_of_def follows_Some)
  then show ?thesis by (simp add: hash_canon digest_linkable)
qed

theorem head_determines_log:
  assumes "chained None xs" "chained None ys" "xs \<noteq> []" "ys \<noteq> []"
    and "hash (last xs) = hash (last ys)"
    and "length xs \<le> 2 ^ 64" "length ys \<le> 2 ^ 64"
  shows "map content xs = map content ys \<or> (\<exists>x\<in>set xs. \<exists>y\<in>set ys. collision (canon x) (canon y))"
  using assms
proof (induction xs arbitrary: ys rule: rev_induct)
  case (snoc x xs)
  obtain zs y where ys: "ys = zs @ [y]" using \<open>ys \<noteq> []\<close> by (metis rev_exhaust)
  have vx: "chained None xs" "valid x" and vy: "chained None zs" "valid y"
    using snoc.prems(1,2) by (auto simp: chained_snoc ys)
  have "sha256 (canon x) = sha256 (canon y)"
    using snoc.prems(5) vx vy by (simp add: ys hash_canon)
  then consider "collision (canon x) (canon y)" | "canon x = canon y"
    by (auto simp: sha256_eq_or_collision)
  then show ?case
  proof cases
    case 1
    then show ?thesis by (auto simp: ys)
  next
    case 2
    note c = prev_linkable [OF snoc.prems(1)] prev_linkable [OF snoc.prems(2) [unfolded ys]]
    have eq: "prev x = prev y" "index x = index y" "content x = content y"
      using canon_determines [OF vx(2) vy(2) c 2] by auto
    have "(of_nat (length xs) :: u64) = of_nat (length zs)"
      using eq(2) index_last [OF snoc.prems(1)] index_last [OF snoc.prems(2) [unfolded ys]] by simp
    then have len: "length xs = length zs"
      using snoc.prems(6,7) by (simp add: ys word_of_nat_eq_iff take_bit_nat_eq_self)
    show ?thesis
    proof (cases "xs = []")
      case True
      with len eq show ?thesis by (simp add: ys)
    next
      case False
      with len have "zs \<noteq> []" by auto
      have "hash (last xs) = hash (last zs)"
        using eq(1) prev_last_of [OF snoc.prems(1)] prev_last_of [OF snoc.prems(2) [unfolded ys]]
          False \<open>zs \<noteq> []\<close> by simp
      from snoc.IH [OF vx(1) vy(1) False \<open>zs \<noteq> []\<close> this] snoc.prems(6,7) eq(3)
      show ?thesis by (auto simp: ys)
    qed
  qed
qed simp

end

end
