(* ===== verification/Logentry.thy ===== *)
theory Logentry
  imports Attest HashChain
begin

text \<open>
  \<open>pkg/logentry\<close>: the log's record (\<open>entry.go\<close>), its canonical encoding, sealing and
  verification, and the link to the previous record.  The Merkle hasher
  (\<open>transparency-dev/merkle/rfc6962\<close>) is the parameter \<open>LogHasher\<close>.  The lemmas show that a
  constructed entry verifies and chains, that the canonical bytes determine the record, and that
  the entries form a hash chain in the sense of theory \<open>HashChain\<close>.
\<close>

section \<open>Definitions\<close>

record LogHasher =
  HashLeaf :: "bytes \<Rightarrow> bytes"
  HashChildren :: "bytes \<Rightarrow> bytes \<Rightarrow> bytes"
  EmptyRoot :: bytes

record Entry =
  ent_Index :: u64
  ent_TimeNanos :: i64
  ent_PrevHash :: bytes
  ent_Envelope :: "Envelope option"
  ent_Honeypot :: bool
  ent_EntryHash :: bytes
  ent_LeafHash :: bytes

datatype entry_error =
    EntMissingEnvelope u64
  | EntEnvelope u64 envelope_error
  | EntHashMismatch u64
  | EntLeafMismatch u64
  | EntPrevNotZero
  | EntFirstIndex u64
  | EntIndexGap u64 u64
  | EntPrevMismatch u64
  | EntDecode
  | EntMissingHashes

definition ZeroHash :: bytes where
  "ZeroHash = replicate 32 0"

definition env_hash_of :: "Envelope option \<Rightarrow> bytes" where
  "env_hash_of eo = (case eo of None \<Rightarrow> replicate 32 0 | Some env \<Rightarrow> env_Hash env)"

definition ent_Canonical :: "Entry \<Rightarrow> bytes" where
  "ent_Canonical e =
     (let prev = (if length (ent_PrevHash e) = 0 then ZeroHash else ent_PrevHash e);
          envHash = env_hash_of (ent_Envelope e)
      in be64 (ent_Index e) @ be64 (ent_TimeNanos e)
         @ be32 (of_nat (length prev)) @ prev
         @ be32 (of_nat (length envHash)) @ envHash
         @ (if ent_Honeypot e then [1] else [0]))"

definition Seal :: "LogHasher \<Rightarrow> Entry \<Rightarrow> Entry" where
  "Seal H e =
     (let canon = ent_Canonical e
      in e\<lparr>ent_EntryHash := sha256 canon, ent_LeafHash := HashLeaf H canon\<rparr>)"

definition ent_Verify :: "crypto \<Rightarrow> LogHasher \<Rightarrow> Entry \<Rightarrow> entry_error option" where
  "ent_Verify C H e =
     (case ent_Envelope e of None \<Rightarrow> Some (EntMissingEnvelope (ent_Index e))
      | Some env \<Rightarrow>
        (case env_Verify C env of Some err \<Rightarrow> Some (EntEnvelope (ent_Index e) err)
         | None \<Rightarrow>
           let canon = ent_Canonical e in
           if \<not> bytesEqual (ent_EntryHash e) (sha256 canon) then Some (EntHashMismatch (ent_Index e))
           else if \<not> bytesEqual (ent_LeafHash e) (HashLeaf H canon)
             then Some (EntLeafMismatch (ent_Index e))
           else None))"

definition VerifyChain :: "Entry \<Rightarrow> Entry option \<Rightarrow> entry_error option" where
  "VerifyChain e prev =
     (case prev of
        None \<Rightarrow>
          if \<not> bytesEqual (ent_PrevHash e) ZeroHash then Some EntPrevNotZero
          else if ent_Index e \<noteq> 0 then Some (EntFirstIndex (ent_Index e))
          else None
      | Some p \<Rightarrow>
          if ent_Index e \<noteq> ent_Index p + 1 then Some (EntIndexGap (ent_Index e) (ent_Index p + 1))
          else if \<not> bytesEqual (ent_PrevHash e) (ent_EntryHash p)
            then Some (EntPrevMismatch (ent_Index e))
          else None)"

definition ent_New ::
    "LogHasher \<Rightarrow> i64 \<Rightarrow> u64 \<Rightarrow> Entry option \<Rightarrow> Envelope option \<Rightarrow> bool \<Rightarrow> Entry" where
  "ent_New H now idx prevEntry env honeypot =
     (let prev = (case prevEntry of None \<Rightarrow> ZeroHash | Some p \<Rightarrow> ent_EntryHash p)
      in Seal H \<lparr>ent_Index = idx, ent_TimeNanos = now, ent_PrevHash = prev, ent_Envelope = env,
           ent_Honeypot = honeypot, ent_EntryHash = [], ent_LeafHash = []\<rparr>)"

text \<open>
  \<open>json.Unmarshal\<close> is the argument: it returns the entry together with whether the two hash
  fields were left nil (an absent field, as opposed to an empty one).
\<close>

definition Unmarshal :: "(bytes \<Rightarrow> (Entry \<times> bool \<times> bool) option) \<Rightarrow> bytes \<Rightarrow> entry_error + Entry" where
  "Unmarshal json buf =
     (case json buf of None \<Rightarrow> Inl EntDecode
      | Some (e, entryHashNil, leafHashNil) \<Rightarrow>
          if entryHashNil \<or> leafHashNil then Inl EntMissingHashes else Inr e)"

definition HexHashes :: "Entry \<Rightarrow> string \<times> string \<times> string" where
  "HexHashes e = (hex (ent_EntryHash e), hex (ent_LeafHash e), hex (ent_PrevHash e))"

text \<open>What an entry commits to, beside its predecessor.\<close>

definition ent_content :: "Entry \<Rightarrow> u64 \<times> i64 \<times> bytes \<times> bool" where
  "ent_content e =
     (ent_Index e, ent_TimeNanos e, env_hash_of (ent_Envelope e), ent_Honeypot e)"

section \<open>Lemmas\<close>

lemma length_ZeroHash [simp]: "length ZeroHash = 32"
  by (simp add: ZeroHash_def)

lemma length_env_hash_of [simp]: "length (env_hash_of eo) = 32"
  by (simp add: env_hash_of_def env_Hash_def split: option.splits)

lemma env_Hash_ne_Nil [simp]: "env_hash_of eo \<noteq> []"
  using length_env_hash_of [of eo] by (metis list.size(3) zero_neq_numeral)

lemma ent_Canonical_hashes [simp]:
  "ent_Canonical (e\<lparr>ent_EntryHash := x\<rparr>) = ent_Canonical e"
  "ent_Canonical (e\<lparr>ent_LeafHash := x\<rparr>) = ent_Canonical e"
  by (simp_all add: ent_Canonical_def)

lemma ent_Canonical_inj:
  assumes "length (ent_PrevHash e) = 32" "length (ent_PrevHash e') = 32"
    and "ent_Canonical e = ent_Canonical e'"
  shows "ent_PrevHash e = ent_PrevHash e'" "ent_content e = ent_content e'"
  using assms by (auto simp: ent_Canonical_def ent_content_def frame Let_def split: if_splits)

lemma ent_Verify_None:
  "ent_Verify C H e = None \<longleftrightarrow>
     (\<exists>env. ent_Envelope e = Some env \<and> env_Verify C env = None)
     \<and> ent_EntryHash e = sha256 (ent_Canonical e) \<and> ent_LeafHash e = HashLeaf H (ent_Canonical e)"
  by (auto simp: ent_Verify_def bytesEqual_iff Let_def split: option.splits)

lemma VerifyChain_None:
  "VerifyChain e None = None \<longleftrightarrow> ent_PrevHash e = ZeroHash \<and> ent_Index e = 0"
  by (auto simp: VerifyChain_def bytesEqual_iff)

lemma VerifyChain_Some:
  "VerifyChain e (Some p) = None \<longleftrightarrow>
     ent_PrevHash e = ent_EntryHash p \<and> ent_Index e = ent_Index p + 1"
  by (auto simp: VerifyChain_def bytesEqual_iff)

lemma ent_New_fields [simp]:
  "ent_Index (ent_New H now idx p env hp) = idx"
  "ent_TimeNanos (ent_New H now idx p env hp) = now"
  "ent_Envelope (ent_New H now idx p env hp) = env"
  "ent_Honeypot (ent_New H now idx p env hp) = hp"
  "ent_PrevHash (ent_New H now idx None env hp) = ZeroHash"
  "ent_PrevHash (ent_New H now idx (Some q) env hp) = ent_EntryHash q"
  by (simp_all add: ent_New_def Seal_def Let_def)

lemma Seal_hashes:
  "ent_EntryHash (Seal H e) = sha256 (ent_Canonical (Seal H e))"
  "ent_LeafHash (Seal H e) = HashLeaf H (ent_Canonical (Seal H e))"
  by (simp_all add: Seal_def Let_def)

lemma ent_New_hashes:
  "ent_EntryHash (ent_New H now idx p env hp) = sha256 (ent_Canonical (ent_New H now idx p env hp))"
  "ent_LeafHash (ent_New H now idx p env hp) = HashLeaf H (ent_Canonical (ent_New H now idx p env hp))"
  unfolding ent_New_def Let_def by (rule Seal_hashes)+

text \<open>
  An entry built by \<open>logentry.New\<close> around a verified envelope passes \<open>Entry.Verify\<close>, and
  passes \<open>VerifyChain\<close> exactly when it was given the next index.
\<close>

theorem ent_New_verifies:
  assumes "env_Verify C env = None"
  shows "ent_Verify C H (ent_New H now idx p (Some env) hp) = None
    \<and> (VerifyChain (ent_New H now idx p (Some env) hp) p = None
       \<longleftrightarrow> idx = (case p of None \<Rightarrow> 0 | Some q \<Rightarrow> ent_Index q + 1))"
  using assms ent_New_hashes [of H now idx p "Some env" hp]
  by (cases p) (auto simp: ent_Verify_None VerifyChain_None VerifyChain_Some)

text \<open>The hasher RFC 6962 documents; used in witnesses.\<close>

definition rfc6962 :: LogHasher where
  "rfc6962 = \<lparr>HashLeaf = (\<lambda>d. sha256 (0 # d)), HashChildren = (\<lambda>l r. sha256 (1 # l @ r)),
     EmptyRoot = sha256 []\<rparr>"

theorem ent_New_verifies_witness:
  "env_Verify sample_crypto sample_signed = None
   \<and> ent_Verify sample_crypto rfc6962 (ent_New rfc6962 9 0 None (Some sample_signed) False) = None
   \<and> VerifyChain (ent_New rfc6962 9 0 None (Some sample_signed) False) None = None"
  using ent_New_verifies [OF sample_signed_verifies, of rfc6962 9 0 None False]
    sample_signed_verifies by simp

text \<open>The log's entries are a hash chain.\<close>

interpretation entries: hash_chain "\<lambda>e. ent_Verify C H e = None" "\<lambda>e p. VerifyChain e p = None"
    ent_EntryHash ent_PrevHash ent_Index "\<lambda>h. h = ZeroHash" ent_Canonical ent_content
    "\<lambda>h. length h = 32" for C H
proof unfold_locales
  show "ent_PrevHash e = ent_PrevHash e' \<and> ent_Index e = ent_Index e' \<and> ent_content e = ent_content e'"
    if "length (ent_PrevHash e) = 32" "length (ent_PrevHash e') = 32"
      and "ent_Canonical e = ent_Canonical e'" for e e'
    using ent_Canonical_inj [OF that] by (simp add: ent_content_def)
qed (simp_all add: ent_Verify_None VerifyChain_None VerifyChain_Some)

end
