(* ===== verification/Storage.thy ===== *)
theory Storage
  imports Producers Logentry
begin

text \<open>
  Package \<open>storage\<close>: the key layout of the log in BadgerDB, the append transaction, the leaf
  mirror, checkpoints, anchors, replay protection, producers and witnesses.

  BadgerDB is not part of the repository: the record \<open>badger\<close> is a parameter, with reads on a
  consistent state, an atomic commit of the writes a transaction has buffered, and ordered
  iteration; \<open>badger_ok\<close> states what its documentation promises, over the map a database
  stands for.  The JSON encodings are the parameter \<open>wire\<close>.
\<close>

section \<open>Definitions\<close>

subsection \<open>The database\<close>

datatype db_write =
    WSet bytes bytes
  | WSetTTL bytes bytes i64
  | WDelete bytes

record badger_options =
  bo_Dir :: string
  bo_SyncWrites :: bool
  bo_BlockCacheSize :: i64
  bo_IndexCacheSize :: i64
  bo_NumMemtables :: i64
  bo_NumCompactors :: i64
  bo_ValueLogFileSize :: i64

text \<open>
  \<open>bdg_Get\<close> is \<open>txn.Get\<close>: an error, or whether the key is there (\<open>ErrKeyNotFound\<close> is
  \<open>Inr False\<close>); \<open>bdg_Value\<close> is \<open>item.Value\<close> of a key that is there, \<open>None\<close> when the
  read fails.  \<open>bdg_Keys d k\<close> are the keys an iterator visits after \<open>Seek(k)\<close>,
  \<open>bdg_KeysRev d k\<close> the ones a reverse iterator visits.  \<open>bdg_Commit\<close> is the commit of
  \<open>db.Update\<close>, and says whether it succeeded.
\<close>

record 'd badger =
  bdg_Open :: "badger_options \<Rightarrow> 'd option"
  bdg_Get :: "'d \<Rightarrow> bytes \<Rightarrow> unit + bool"
  bdg_Keys :: "'d \<Rightarrow> bytes \<Rightarrow> bytes list"
  bdg_KeysRev :: "'d \<Rightarrow> bytes \<Rightarrow> bytes list"
  bdg_Value :: "'d \<Rightarrow> bytes \<Rightarrow> bytes option"
  bdg_Commit :: "'d \<Rightarrow> db_write list \<Rightarrow> 'd \<times> bool"

record Witness =
  wi_ID :: string
  wi_URL :: string
  wi_PublicKey :: bytes
  wi_QuantumPublicKey :: bytes
  wi_Description :: string
  wi_AddedAt :: i64

text \<open>\<open>json.Marshal\<close> and \<open>json.Unmarshal\<close> for the three record types the store keeps.\<close>

record wire =
  wire_entry :: "Entry \<Rightarrow> bytes option"
  unwire_entry :: "bytes \<Rightarrow> (Entry \<times> bool \<times> bool) option"
  wire_producer :: "Producer \<Rightarrow> bytes option"
  unwire_producer :: "bytes \<Rightarrow> Producer option"
  wire_witness :: "Witness \<Rightarrow> bytes option"
  unwire_witness :: "bytes \<Rightarrow> Witness option"

subsection \<open>Options\<close>

record config =
  blockCacheBytes :: i64
  indexCacheBytes :: i64
  numMemtables :: i64
  cfg_replayTTL :: i64
  numCompactors :: i64
  valueLogFileSizeBytes :: i64

definition defaultConfig :: config where
  "defaultConfig =
     \<lparr>blockCacheBytes = push_bit 20 64, indexCacheBytes = push_bit 20 32, numMemtables = 2,
      cfg_replayTTL = 0, numCompactors = 2, valueLogFileSizeBytes = push_bit 20 256\<rparr>"

definition WithBlockCacheBytes :: "i64 \<Rightarrow> config \<Rightarrow> config" where
  "WithBlockCacheBytes b c = (if sint b > 0 then c\<lparr>blockCacheBytes := b\<rparr> else c)"

definition WithIndexCacheBytes :: "i64 \<Rightarrow> config \<Rightarrow> config" where
  "WithIndexCacheBytes b c = (if sint b > 0 then c\<lparr>indexCacheBytes := b\<rparr> else c)"

definition WithNumMemtables :: "i64 \<Rightarrow> config \<Rightarrow> config" where
  "WithNumMemtables n c = (if sint n > 0 then c\<lparr>numMemtables := n\<rparr> else c)"

definition WithReplayTTL :: "i64 \<Rightarrow> config \<Rightarrow> config" where
  "WithReplayTTL d c = (if sint d > 0 then c\<lparr>cfg_replayTTL := d\<rparr> else c)"

definition WithNumCompactors :: "i64 \<Rightarrow> config \<Rightarrow> config" where
  "WithNumCompactors n c = (if sint n > 0 then c\<lparr>numCompactors := n\<rparr> else c)"

definition WithValueLogFileSizeBytes :: "i64 \<Rightarrow> config \<Rightarrow> config" where
  "WithValueLogFileSizeBytes b c = (if sint b > 0 then c\<lparr>valueLogFileSizeBytes := b\<rparr> else c)"

subsection \<open>Keys\<close>

definition prefixEntry :: bytes where "prefixEntry = of_str ''entry/''"
definition prefixLeaf :: bytes where "prefixLeaf = of_str ''leaf/''"
definition prefixCkpt :: bytes where "prefixCkpt = of_str ''ckpt/''"
definition prefixAnchor :: bytes where "prefixAnchor = of_str ''anchor/''"
definition keyMetaSize :: bytes where "keyMetaSize = of_str ''meta/size''"
definition keyMetaHead :: bytes where "keyMetaHead = of_str ''meta/head_hash''"
definition prefixReplay :: bytes where "prefixReplay = of_str ''replay/''"
definition prefixProducer :: bytes where "prefixProducer = of_str ''producer/''"
definition prefixWitness :: bytes where "prefixWitness = of_str ''witness/''"

definition entryKey :: "u64 \<Rightarrow> bytes" where "entryKey idx = prefixEntry @ be64 idx"
definition leafKey :: "u64 \<Rightarrow> bytes" where "leafKey idx = prefixLeaf @ be64 idx"
definition checkpointKey :: "u64 \<Rightarrow> bytes" where "checkpointKey sz = prefixCkpt @ be64 sz"
definition anchorKey :: "u64 \<Rightarrow> bytes" where "anchorKey sz = prefixAnchor @ be64 sz"
definition replayKey :: "bytes \<Rightarrow> bytes" where "replayKey h = prefixReplay @ of_str (hex h)"
definition producerKey :: "string \<Rightarrow> bytes" where "producerKey i = prefixProducer @ of_str i"
definition witnessKey :: "string \<Rightarrow> bytes" where "witnessKey i = prefixWitness @ of_str i"

definition has_prefix :: "bytes \<Rightarrow> bytes \<Rightarrow> bool" where
  "has_prefix p k \<longleftrightarrow> take (length p) k = p"

subsection \<open>The store\<close>

record 'd Store =
  st_db :: 'd
  st_replayTTL :: i64

datatype storage_error =
    StOpen
  | StRead
  | StCommit
  | StMetaSizeLength nat
  | StMetaHeadLength nat
  | StNotSealed
  | StOutOfOrder u64 u64
  | StPrevHash
  | StAlreadyPresent u64
  | StMarshal
  | StEntryNotFound u64
  | StDecode
  | StEntryDecode entry_error
  | StReplay u64
  | StProducerID
  | StProducerKeyLength nat
  | StProducerNotRegistered string
  | StWitnessID
  | StWitnessURL
  | StWitnessKeyLength nat
  | StWitnessNotRegistered string
  | StKeyNotFound
  | StCancelled

definition st_Open ::
    "'d badger \<Rightarrow> string \<Rightarrow> (config \<Rightarrow> config) list \<Rightarrow> storage_error + 'd Store" where
  "st_Open B dir opts =
     (let cfg = fold (\<lambda>o' c. o' c) opts defaultConfig;
          bopts = \<lparr>bo_Dir = dir, bo_SyncWrites = True, bo_BlockCacheSize = blockCacheBytes cfg,
                   bo_IndexCacheSize = indexCacheBytes cfg, bo_NumMemtables = numMemtables cfg,
                   bo_NumCompactors = numCompactors cfg, bo_ValueLogFileSize = valueLogFileSizeBytes cfg\<rparr>
      in case bdg_Open B bopts of None \<Rightarrow> Inl StOpen
         | Some db \<Rightarrow> Inr \<lparr>st_db = db, st_replayTTL = cfg_replayTTL cfg\<rparr>)"

text \<open>\<open>db.Update\<close> of a closure that has buffered the writes \<open>ws\<close> and returns nil.\<close>

definition commit :: "'d badger \<Rightarrow> 'd Store \<Rightarrow> db_write list \<Rightarrow> 'd Store \<times> storage_error option" where
  "commit B s ws =
     (case bdg_Commit B (st_db s) ws of
        (d, ok) \<Rightarrow> (s\<lparr>st_db := d\<rparr>, if ok then None else Some StCommit))"

text \<open>\<open>txn.Get\<close> followed by \<open>item.Value\<close>.\<close>

definition fetch :: "'d badger \<Rightarrow> 'd \<Rightarrow> bytes \<Rightarrow> unit + bytes option" where
  "fetch B d k =
     (case bdg_Get B d k of Inl e \<Rightarrow> Inl e
      | Inr False \<Rightarrow> Inr None
      | Inr True \<Rightarrow> (case bdg_Value B d k of None \<Rightarrow> Inl () | Some v \<Rightarrow> Inr (Some v)))"

definition readSize :: "'d badger \<Rightarrow> 'd \<Rightarrow> storage_error + u64" where
  "readSize B d =
     (case fetch B d keyMetaSize of
        Inl _ \<Rightarrow> Inl StRead
      | Inr None \<Rightarrow> Inr 0
      | Inr (Some val) \<Rightarrow>
          if length val \<noteq> 8 then Inl (StMetaSizeLength (length val)) else Inr (uint64_be val))"

definition readHead :: "'d badger \<Rightarrow> 'd \<Rightarrow> storage_error + bytes" where
  "readHead B d =
     (case fetch B d keyMetaHead of
        Inl _ \<Rightarrow> Inl StRead
      | Inr None \<Rightarrow> Inr (replicate 32 0)
      | Inr (Some val) \<Rightarrow>
          if length val \<noteq> 32 then Inl (StMetaHeadLength (length val)) else Inr val)"

definition st_Size :: "'d badger \<Rightarrow> 'd Store \<Rightarrow> storage_error + u64" where
  "st_Size B s = readSize B (st_db s)"

definition HeadHash :: "'d badger \<Rightarrow> 'd Store \<Rightarrow> storage_error + bytes" where
  "HeadHash B s = readHead B (st_db s)"

definition AppendEntry ::
    "'d badger \<Rightarrow> wire \<Rightarrow> 'd Store \<Rightarrow> Entry \<Rightarrow> 'd Store \<times> storage_error option" where
  "AppendEntry B W s e =
     (if ent_EntryHash e = [] \<or> ent_LeafHash e = [] then (s, Some StNotSealed)
      else case readSize B (st_db s) of
        Inl err \<Rightarrow> (s, Some err)
      | Inr curSize \<Rightarrow>
        if ent_Index e \<noteq> curSize then (s, Some (StOutOfOrder curSize (ent_Index e)))
        else (case readHead B (st_db s) of
          Inl err \<Rightarrow> (s, Some err)
        | Inr curHead \<Rightarrow>
          if \<not> bytesEqual (ent_PrevHash e) curHead then (s, Some StPrevHash)
          else (case bdg_Get B (st_db s) (entryKey (ent_Index e)) of
            Inl _ \<Rightarrow> (s, Some StRead)
          | Inr True \<Rightarrow> (s, Some (StAlreadyPresent (ent_Index e)))
          | Inr False \<Rightarrow>
            (case wire_entry W e of None \<Rightarrow> (s, Some StMarshal)
             | Some buf \<Rightarrow>
                 commit B s [WSet (entryKey (ent_Index e)) buf, WSet (leafKey (ent_Index e)) (ent_LeafHash e),
                             WSet keyMetaSize (be64 (curSize + 1)), WSet keyMetaHead (ent_EntryHash e)]))))"

definition GetEntry :: "'d badger \<Rightarrow> wire \<Rightarrow> 'd Store \<Rightarrow> u64 \<Rightarrow> storage_error + Entry" where
  "GetEntry B W s idx =
     (case fetch B (st_db s) (entryKey idx) of
        Inl _ \<Rightarrow> Inl StRead
      | Inr None \<Rightarrow> Inl (StEntryNotFound idx)
      | Inr (Some val) \<Rightarrow>
          (case Unmarshal (unwire_entry W) val of Inl e \<Rightarrow> Inl (StEntryDecode e) | Inr e \<Rightarrow> Inr e))"

definition st_GetLeafHash :: "'d badger \<Rightarrow> 'd Store \<Rightarrow> u64 \<Rightarrow> storage_error + bytes option" where
  "st_GetLeafHash B s idx =
     (case fetch B (st_db s) (leafKey idx) of
        Inl _ \<Rightarrow> Inl StRead
      | Inr None \<Rightarrow> Inr None
      | Inr (Some val) \<Rightarrow> Inr (if val = [] then None else Some val))"

definition st_PutLeafHash ::
    "'d badger \<Rightarrow> 'd Store \<Rightarrow> u64 \<Rightarrow> bytes \<Rightarrow> 'd Store \<times> storage_error option" where
  "st_PutLeafHash B s idx h = commit B s [WSet (leafKey idx) h]"

definition DeleteLeafHash :: "'d badger \<Rightarrow> 'd Store \<Rightarrow> u64 \<Rightarrow> 'd Store \<times> storage_error option" where
  "DeleteLeafHash B s idx = commit B s [WDelete (leafKey idx)]"

text \<open>
  Iteration over the entries of one snapshot.  The callback threads a state; \<open>cancelled i\<close> says
  whether the context is cancelled before the i-th item.  The error is the store's (\<open>Inl\<close>)
  or the callback's (\<open>Inr\<close>).
\<close>

fun iterate_entries ::
    "'d badger \<Rightarrow> wire \<Rightarrow> 'd \<Rightarrow> (nat \<Rightarrow> bool) \<Rightarrow> ('s \<Rightarrow> Entry \<Rightarrow> 's \<times> 'e option) \<Rightarrow> bytes list \<Rightarrow> nat \<Rightarrow> 's
      \<Rightarrow> 's \<times> (storage_error + 'e) option" where
  "iterate_entries B W d cancelled fn [] i acc = (acc, None)"
| "iterate_entries B W d cancelled fn (k # ks) i acc =
     (if \<not> has_prefix prefixEntry k then (acc, None)
      else if cancelled i then (acc, Some (Inl StCancelled))
      else case bdg_Value B d k of None \<Rightarrow> (acc, Some (Inl StRead))
      | Some val \<Rightarrow>
          (case Unmarshal (unwire_entry W) val of Inl e \<Rightarrow> (acc, Some (Inl (StEntryDecode e)))
           | Inr e \<Rightarrow>
               (case fn acc e of
                  (acc', Some err) \<Rightarrow> (acc', Some (Inr err))
                | (acc', None) \<Rightarrow> iterate_entries B W d cancelled fn ks (i + 1) acc')))"

definition IterateEntries ::
    "'d badger \<Rightarrow> wire \<Rightarrow> (nat \<Rightarrow> bool) \<Rightarrow> 'd Store \<Rightarrow> u64 \<Rightarrow> ('s \<Rightarrow> Entry \<Rightarrow> 's \<times> 'e option) \<Rightarrow> 's
      \<Rightarrow> 's \<times> (storage_error + 'e) option" where
  "IterateEntries B W cancelled s from fn acc =
     iterate_entries B W (st_db s) cancelled fn (bdg_Keys B (st_db s) (entryKey from)) 0 acc"

subsection \<open>Checkpoints and anchors\<close>

definition SaveCheckpoint ::
    "'d badger \<Rightarrow> 'd Store \<Rightarrow> u64 \<Rightarrow> bytes \<Rightarrow> 'd Store \<times> storage_error option" where
  "SaveCheckpoint B s treeSize body = commit B s [WSet (checkpointKey treeSize) body]"

fun checkpoint_scan ::
    "'d badger \<Rightarrow> 'd \<Rightarrow> u64 \<Rightarrow> bytes list \<Rightarrow> u64 \<Rightarrow> storage_error + bytes \<times> u64" where
  "checkpoint_scan B d atSize [] sz = Inr ([], sz)"
| "checkpoint_scan B d atSize (k # ks) sz =
     (if \<not> has_prefix prefixCkpt k then Inr ([], sz)
      else if length k \<noteq> length prefixCkpt + 8 then checkpoint_scan B d atSize ks sz
      else let sz' = uint64_be (drop (length prefixCkpt) k) in
      if sz' > atSize then checkpoint_scan B d atSize ks sz'
      else case bdg_Value B d k of None \<Rightarrow> Inl StRead | Some val \<Rightarrow> Inr (val, sz'))"

definition GetCheckpoint :: "'d badger \<Rightarrow> 'd Store \<Rightarrow> u64 \<Rightarrow> storage_error + bytes \<times> u64" where
  "GetCheckpoint B s atSize =
     checkpoint_scan B (st_db s) atSize (bdg_KeysRev B (st_db s) (checkpointKey atSize)) 0"

definition st_LatestCheckpoint :: "'d badger \<Rightarrow> 'd Store \<Rightarrow> storage_error + bytes \<times> u64" where
  "st_LatestCheckpoint B s =
     (case st_Size B s of Inl e \<Rightarrow> Inl e
      | Inr curSize \<Rightarrow> if curSize = 0 then Inr ([], 0) else GetCheckpoint B s curSize)"

definition SaveAnchor :: "'d badger \<Rightarrow> 'd Store \<Rightarrow> u64 \<Rightarrow> bytes \<Rightarrow> 'd Store \<times> storage_error option" where
  "SaveAnchor B s treeSize body = commit B s [WSet (anchorKey treeSize) body]"

fun iterate_anchors ::
    "'d badger \<Rightarrow> 'd \<Rightarrow> ('s \<Rightarrow> u64 \<Rightarrow> bytes \<Rightarrow> 's \<times> 'e option) \<Rightarrow> bytes list \<Rightarrow> 's
      \<Rightarrow> 's \<times> (storage_error + 'e) option" where
  "iterate_anchors B d fn [] acc = (acc, None)"
| "iterate_anchors B d fn (k # ks) acc =
     (if \<not> has_prefix prefixAnchor k then (acc, None)
      else if length k \<noteq> length prefixAnchor + 8 then iterate_anchors B d fn ks acc
      else case bdg_Value B d k of None \<Rightarrow> (acc, Some (Inl StRead))
      | Some val \<Rightarrow>
          (case fn acc (uint64_be (drop (length prefixAnchor) k)) val of
             (acc', Some err) \<Rightarrow> (acc', Some (Inr err))
           | (acc', None) \<Rightarrow> iterate_anchors B d fn ks acc'))"

definition IterateAnchors ::
    "'d badger \<Rightarrow> 'd Store \<Rightarrow> ('s \<Rightarrow> u64 \<Rightarrow> bytes \<Rightarrow> 's \<times> 'e option) \<Rightarrow> 's
      \<Rightarrow> 's \<times> (storage_error + 'e) option" where
  "IterateAnchors B s fn acc = iterate_anchors B (st_db s) fn (bdg_Keys B (st_db s) prefixAnchor) acc"

subsection \<open>Replay protection\<close>

definition CheckAndRecordEnvelope ::
    "'d badger \<Rightarrow> 'd Store \<Rightarrow> bytes \<Rightarrow> u64 \<Rightarrow> 'd Store \<times> storage_error option" where
  "CheckAndRecordEnvelope B s envelopeHash entryIdx =
     (let k = replayKey envelopeHash
      in case bdg_Get B (st_db s) k of
        Inr True \<Rightarrow>
          (s, Some (StReplay (case bdg_Value B (st_db s) k of None \<Rightarrow> 0
             | Some val \<Rightarrow> if length val = 8 then uint64_be val else 0)))
      | Inl _ \<Rightarrow> (s, Some StRead)
      | Inr False \<Rightarrow>
          if sint (st_replayTTL s) > 0 then commit B s [WSetTTL k (be64 entryIdx) (st_replayTTL s)]
          else commit B s [WSet k (be64 entryIdx)])"

subsection \<open>Producers and witnesses\<close>

text \<open>\<open>RegisterProducer\<close> also stamps the record it is given; the stamped record is returned.\<close>

definition RegisterProducer ::
    "'d badger \<Rightarrow> wire \<Rightarrow> i64 \<Rightarrow> 'd Store \<Rightarrow> Producer option \<Rightarrow> 'd Store \<times> Producer option \<times> storage_error option" where
  "RegisterProducer B W now s po =
     (case po of None \<Rightarrow> (s, po, Some StProducerID)
      | Some p \<Rightarrow>
        if pr_ID p = [] then (s, po, Some StProducerID)
        else if length (pr_PublicKey p) \<noteq> ed25519_PublicKeySize
          then (s, po, Some (StProducerKeyLength (length (pr_PublicKey p))))
        else let p = (if pr_RegisteredAt p = 0 then p\<lparr>pr_RegisteredAt := now\<rparr> else p)
        in case wire_producer W p of None \<Rightarrow> (s, Some p, Some StMarshal)
        | Some body \<Rightarrow>
            (case commit B s [WSet (producerKey (pr_ID p)) body] of (s', err) \<Rightarrow> (s', Some p, err)))"

definition GetProducer :: "'d badger \<Rightarrow> wire \<Rightarrow> 'd Store \<Rightarrow> string \<Rightarrow> storage_error + Producer" where
  "GetProducer B W s i =
     (case fetch B (st_db s) (producerKey i) of
        Inl _ \<Rightarrow> Inl StRead
      | Inr None \<Rightarrow> Inl (StProducerNotRegistered i)
      | Inr (Some val) \<Rightarrow>
          (case unwire_producer W val of None \<Rightarrow> Inl StDecode | Some p \<Rightarrow> Inr p))"

fun list_items ::
    "'d badger \<Rightarrow> 'd \<Rightarrow> bytes \<Rightarrow> (bytes \<Rightarrow> 'a option) \<Rightarrow> ('s \<Rightarrow> 'a \<Rightarrow> 's \<times> 'e option) \<Rightarrow> bytes list \<Rightarrow> 's
      \<Rightarrow> 's \<times> (storage_error + 'e) option" where
  "list_items B d prefix dec fn [] acc = (acc, None)"
| "list_items B d prefix dec fn (k # ks) acc =
     (if \<not> has_prefix prefix k then (acc, None)
      else case bdg_Value B d k of None \<Rightarrow> (acc, Some (Inl StRead))
      | Some val \<Rightarrow>
          (case dec val of None \<Rightarrow> (acc, Some (Inl StDecode))
           | Some x \<Rightarrow>
               (case fn acc x of
                  (acc', Some err) \<Rightarrow> (acc', Some (Inr err))
                | (acc', None) \<Rightarrow> list_items B d prefix dec fn ks acc')))"

definition ListProducers ::
    "'d badger \<Rightarrow> wire \<Rightarrow> 'd Store \<Rightarrow> ('s \<Rightarrow> Producer \<Rightarrow> 's \<times> 'e option) \<Rightarrow> 's \<Rightarrow> 's \<times> (storage_error + 'e) option" where
  "ListProducers B W s fn acc =
     list_items B (st_db s) prefixProducer (unwire_producer W) fn (bdg_Keys B (st_db s) prefixProducer) acc"

definition RevokeProducer ::
    "'d badger \<Rightarrow> wire \<Rightarrow> i64 \<Rightarrow> 'd Store \<Rightarrow> string \<Rightarrow> string \<Rightarrow> 'd Store \<times> storage_error option" where
  "RevokeProducer B W now s i reason =
     (case fetch B (st_db s) (producerKey i) of
        Inl _ \<Rightarrow> (s, Some StRead)
      | Inr None \<Rightarrow> (s, Some StKeyNotFound)
      | Inr (Some val) \<Rightarrow>
          (case unwire_producer W val of None \<Rightarrow> (s, Some StDecode)
           | Some p \<Rightarrow>
               let p = p\<lparr>pr_Revoked := True, pr_RevokedAt := now, pr_RevokeReason := reason\<rparr>
               in case wire_producer W p of None \<Rightarrow> (s, Some StMarshal)
                  | Some body \<Rightarrow> commit B s [WSet (producerKey i) body]))"

definition RegisterWitness ::
    "'d badger \<Rightarrow> wire \<Rightarrow> 'd Store \<Rightarrow> Witness option \<Rightarrow> 'd Store \<times> storage_error option" where
  "RegisterWitness B W s wo =
     (case wo of None \<Rightarrow> (s, Some StWitnessID)
      | Some w \<Rightarrow>
        if wi_ID w = [] then (s, Some StWitnessID)
        else if wi_URL w = [] then (s, Some StWitnessURL)
        else if length (wi_PublicKey w) \<noteq> ed25519_PublicKeySize
          then (s, Some (StWitnessKeyLength (length (wi_PublicKey w))))
        else case wire_witness W w of None \<Rightarrow> (s, Some StMarshal)
        | Some body \<Rightarrow> commit B s [WSet (witnessKey (wi_ID w)) body])"

definition ListWitnesses ::
    "'d badger \<Rightarrow> wire \<Rightarrow> 'd Store \<Rightarrow> ('s \<Rightarrow> Witness \<Rightarrow> 's \<times> 'e option) \<Rightarrow> 's \<Rightarrow> 's \<times> (storage_error + 'e) option" where
  "ListWitnesses B W s fn acc =
     list_items B (st_db s) prefixWitness (unwire_witness W) fn (bdg_Keys B (st_db s) prefixWitness) acc"

definition GetWitness :: "'d badger \<Rightarrow> wire \<Rightarrow> 'd Store \<Rightarrow> string \<Rightarrow> storage_error + Witness" where
  "GetWitness B W s i =
     (case fetch B (st_db s) (witnessKey i) of
        Inl _ \<Rightarrow> Inl StRead
      | Inr None \<Rightarrow> Inl (StWitnessNotRegistered i)
      | Inr (Some val) \<Rightarrow>
          (case unwire_witness W val of None \<Rightarrow> Inl StDecode | Some w \<Rightarrow> Inr w))"

section \<open>What the database promises\<close>

fun plain :: "db_write \<Rightarrow> bool" where
  "plain (WSetTTL k v t) = False"
| "plain (WSet k v) = True"
| "plain (WDelete k) = True"

fun apply_write :: "db_write \<Rightarrow> (bytes \<rightharpoonup> bytes) \<Rightarrow> bytes \<rightharpoonup> bytes" where
  "apply_write (WSet k v) m = m(k \<mapsto> v)"
| "apply_write (WSetTTL k v t) m = m(k \<mapsto> v)"
| "apply_write (WDelete k) m = m(k := None)"

fun write_key :: "db_write \<Rightarrow> bytes" where
  "write_key (WSet k v) = k"
| "write_key (WSetTTL k v t) = k"
| "write_key (WDelete k) = k"

text \<open>
  \<open>view d\<close> is the map a database stands for.  Reads return what is there or fail; iteration is in
  the byte order of the keys; a commit takes effect entirely or not at all.  Nothing is promised of a
  key that was written with an expiry.  A read or a commit may fail at any time.
\<close>

definition badger_ok :: "'d badger \<Rightarrow> ('d \<Rightarrow> bytes \<rightharpoonup> bytes) \<Rightarrow> bool" where
  "badger_ok B view \<longleftrightarrow>
     (\<forall>d. finite (dom (view d)))
     \<and> (\<forall>d k b. bdg_Get B d k = Inr b \<longrightarrow> b = (k \<in> dom (view d)))
     \<and> (\<forall>d k v. bdg_Value B d k = Some v \<longrightarrow> view d k = Some v)
     \<and> (\<forall>d k. bdg_Keys B d k = filter (\<lambda>k'. k \<le> k') (sorted_list_of_set (dom (view d))))
     \<and> (\<forall>d k. bdg_KeysRev B d k = rev (filter (\<lambda>k'. k' \<le> k) (sorted_list_of_set (dom (view d)))))
     \<and> (\<forall>d ws d' ok k. (\<forall>w\<in>set ws. write_key w = k \<longrightarrow> plain w) \<longrightarrow> bdg_Commit B d ws = (d', ok) \<longrightarrow>
          view d' k = (if ok then fold apply_write ws (view d) else view d) k)"

text \<open>No read fails; no commit fails.\<close>

definition badger_reads :: "'d badger \<Rightarrow> ('d \<Rightarrow> bytes \<rightharpoonup> bytes) \<Rightarrow> bool" where
  "badger_reads B view \<longleftrightarrow>
     (\<forall>d k. bdg_Get B d k = Inr (k \<in> dom (view d))) \<and> (\<forall>d k. bdg_Value B d k = view d k)"

definition badger_commits :: "'d badger \<Rightarrow> bool" where
  "badger_commits B \<longleftrightarrow> (\<forall>d ws. snd (bdg_Commit B d ws))"

section \<open>Lemmas\<close>

subsection \<open>The order of keys\<close>

lemma snoc_less_snoc:
  "length xs = length ys \<Longrightarrow> xs @ [a] < ys @ [b] \<longleftrightarrow> xs < ys \<or> xs = ys \<and> (a :: 'a :: linorder) < b"
  by (induction xs ys rule: list_induct2) auto

lemma base256_less:
  fixes a b c d :: nat
  assumes "b < 256" "d < 256"
  shows "256 * a + b < 256 * c + d \<longleftrightarrow> a < c \<or> a = c \<and> b < d"
  using assms by linarith

lemma be_nat_less:
  "x < 256 ^ n \<Longrightarrow> y < 256 ^ n \<Longrightarrow> be_nat n x < be_nat n y \<longleftrightarrow> x < y"
proof (induction n arbitrary: x y)
  case (Suc n)
  have m: "x mod 256 < 256" "y mod 256 < 256" by simp_all
  have d: "x div 256 < 256 ^ n" "y div 256 < 256 ^ n"
    using Suc.prems by (simp_all add: less_mult_imp_div_less mult.commute)
  have eq: "be_nat n (x div 256) = be_nat n (y div 256) \<longleftrightarrow> x div 256 = y div 256"
    using Suc.IH [OF d] Suc.IH [OF d(2,1)] by (metis less_irrefl linorder_neqE_nat)
  have w: "(of_nat (x mod 256) :: byte) < of_nat (y mod 256) \<longleftrightarrow> x mod 256 < y mod 256"
    using m by (simp add: word_less_nat_alt unat_of_nat)
  have "x < y \<longleftrightarrow> x div 256 < y div 256 \<or> x div 256 = y div 256 \<and> x mod 256 < y mod 256"
    using base256_less [OF m, of "x div 256" "y div 256"] by simp
  then show ?case using Suc.IH [OF d] eq w by (simp add: snoc_less_snoc)
qed simp

lemma be64_less: "be64 v < be64 w \<longleftrightarrow> v < w"
  using unsigned_less [of v, where 'a = nat] unsigned_less [of w, where 'a = nat]
  by (simp add: be64_def be_nat_less word_less_nat_alt)

lemma append_less_same: "(p :: 'a :: linorder list) @ xs < p @ ys \<longleftrightarrow> xs < ys"
  by (induction p) auto

lemma entryKey_less: "entryKey i < entryKey j \<longleftrightarrow> i < j"
  by (simp add: entryKey_def append_less_same be64_less)

lemma entryKey_inj [simp]: "entryKey i = entryKey j \<longleftrightarrow> i = j"
  by (simp add: entryKey_def)

lemma leafKey_inj [simp]: "leafKey i = leafKey j \<longleftrightarrow> i = j"
  by (simp add: leafKey_def)

lemma has_prefix_append [simp]: "has_prefix p (p @ x)"
  by (simp add: has_prefix_def)

lemma has_prefix_Cons [simp]:
  "has_prefix [] k" "has_prefix (a # p) [] = False" "has_prefix (a # p) (b # k) \<longleftrightarrow> a = b \<and> has_prefix p k"
  by (auto simp: has_prefix_def)

text \<open>Above \<open>p\<close>, the keys with prefix \<open>p\<close> come before all others.\<close>

lemma prefix_before:
  "has_prefix p e \<Longrightarrow> \<not> has_prefix p k \<Longrightarrow> p \<le> k \<Longrightarrow> e < k"
proof (induction p arbitrary: e k)
  case (Cons a p)
  then obtain e' where e: "e = a # e'" "has_prefix p e'" by (cases e) auto
  obtain b k' where k: "k = b # k'" using Cons.prems by (cases k) auto
  show ?case using Cons e k by (cases "a = b") auto
qed simp

lemma le_append [simp]: "(p :: 'a :: linorder list) \<le> p @ x"
  by (induction p) auto

lemma sorted_split:
  assumes "\<And>x y. x \<in> set xs \<Longrightarrow> y \<in> set xs \<Longrightarrow> P x \<Longrightarrow> \<not> P y \<Longrightarrow> (x :: 'a :: linorder) < y" "sorted xs"
  shows "xs = filter P xs @ filter (\<lambda>x. \<not> P x) xs"
  using assms
proof (induction xs)
  case (Cons x xs)
  have "filter P xs = []" if "\<not> P x"
    using Cons.prems that by (force simp: filter_empty_conv)
  moreover from this have "filter (\<lambda>x. \<not> P x) xs = xs" if "\<not> P x"
    using that by (auto simp: filter_empty_conv filter_id_conv)
  ultimately show ?case using Cons by (cases "P x") simp_all
qed simp

subsection \<open>Distinct keyspaces\<close>

lemmas key_defs = prefixEntry_def prefixLeaf_def prefixCkpt_def prefixAnchor_def keyMetaSize_def
  keyMetaHead_def prefixReplay_def prefixProducer_def prefixWitness_def entryKey_def leafKey_def
  checkpointKey_def anchorKey_def replayKey_def producerKey_def witnessKey_def of_str_def

lemma keyspace [simp]:
  "entryKey i \<noteq> leafKey j" "leafKey j \<noteq> entryKey i" "entryKey i \<noteq> keyMetaSize" "entryKey i \<noteq> keyMetaHead"
  "keyMetaSize \<noteq> entryKey i" "keyMetaHead \<noteq> entryKey i"
  "leafKey i \<noteq> keyMetaSize" "leafKey i \<noteq> keyMetaHead" "keyMetaSize \<noteq> leafKey i" "keyMetaHead \<noteq> leafKey i"
  "keyMetaSize \<noteq> keyMetaHead" "keyMetaHead \<noteq> keyMetaSize"
  by (simp_all add: key_defs)

lemma entry_prefix [simp]:
  "has_prefix prefixEntry (entryKey i)" "\<not> has_prefix prefixEntry (leafKey i)"
  "\<not> has_prefix prefixEntry keyMetaSize" "\<not> has_prefix prefixEntry keyMetaHead"
  "\<not> has_prefix prefixEntry (checkpointKey i)" "\<not> has_prefix prefixEntry (anchorKey i)"
  "\<not> has_prefix prefixEntry (replayKey h)" "\<not> has_prefix prefixEntry (producerKey n)"
  "\<not> has_prefix prefixEntry (witnessKey n)"
  by (simp_all add: key_defs)

text \<open>The keys that carry the log itself; every other write leaves the log alone.\<close>

definition log_key :: "bytes \<Rightarrow> bool" where
  "log_key k \<longleftrightarrow> has_prefix prefixEntry k \<or> has_prefix prefixLeaf k \<or> k = keyMetaSize \<or> k = keyMetaHead"

lemma log_key_simps [simp]:
  "log_key (entryKey i)" "log_key (leafKey i)" "log_key keyMetaSize" "log_key keyMetaHead"
  "\<not> log_key (checkpointKey i)" "\<not> log_key (anchorKey i)" "\<not> log_key (replayKey h)"
  "\<not> log_key (producerKey n)" "\<not> log_key (witnessKey n)"
  by (simp_all add: log_key_def key_defs)

subsection \<open>The log in the database\<close>

definition head_of :: "Entry list \<Rightarrow> bytes" where
  "head_of es = (if es = [] then ZeroHash else ent_EntryHash (last es))"

text \<open>
  The map \<open>m\<close> holds the log \<open>es\<close>: one entry per index, nothing else under the entry prefix, the
  size and the head, and in the leaf mirror no hash other than the entry's.
\<close>

definition holds_log :: "wire \<Rightarrow> (bytes \<rightharpoonup> bytes) \<Rightarrow> Entry list \<Rightarrow> bool" where
  "holds_log W m es \<longleftrightarrow>
     m keyMetaSize = (if es = [] then None else Some (be64 (of_nat (length es))))
     \<and> m keyMetaHead = (if es = [] then None else Some (ent_EntryHash (last es)))
     \<and> (\<forall>i < length es. \<exists>b. m (entryKey (of_nat i)) = Some b \<and> Unmarshal (unwire_entry W) b = Inr (es ! i))
     \<and> (\<forall>k \<in> dom m. has_prefix prefixEntry k \<longrightarrow> (\<exists>i < length es. k = entryKey (of_nat i)))
     \<and> (\<forall>i < length es. \<forall>h. m (leafKey (of_nat i)) = Some h \<longrightarrow> h = ent_LeafHash (es ! i))
     \<and> length es < 2 ^ 64"

definition mirror_full :: "(bytes \<rightharpoonup> bytes) \<Rightarrow> Entry list \<Rightarrow> bool" where
  "mirror_full m es \<longleftrightarrow> (\<forall>i < length es. m (leafKey (of_nat i)) = Some (ent_LeafHash (es ! i)))"

text \<open>An entry survives the JSON encoding.\<close>

definition entry_wires :: "wire \<Rightarrow> Entry \<Rightarrow> bool" where
  "entry_wires W e \<longleftrightarrow> (\<forall>b. wire_entry W e = Some b \<longrightarrow> Unmarshal (unwire_entry W) b = Inr e)"

lemma holds_log_cong:
  assumes "\<And>k. log_key k \<Longrightarrow> m' k = m k"
  shows "holds_log W m' es = holds_log W m es" "mirror_full m' es = mirror_full m es"
proof -
  have "k \<in> dom m' \<longleftrightarrow> k \<in> dom m" if "has_prefix prefixEntry k" for k
    using assms [of k] that by (simp add: log_key_def domIff)
  then have "(\<forall>k \<in> dom m'. has_prefix prefixEntry k \<longrightarrow> Q k) \<longleftrightarrow> (\<forall>k \<in> dom m. has_prefix prefixEntry k \<longrightarrow> Q k)" for Q
    by blast
  then show "holds_log W m' es = holds_log W m es" "mirror_full m' es = mirror_full m es"
    by (simp_all add: holds_log_def mirror_full_def assms)
qed

lemma holds_log_empty: "holds_log W Map.empty []"
  by (simp add: holds_log_def)

subsection \<open>Reading\<close>

lemma badger_okD:
  assumes "badger_ok B view"
  shows "finite (dom (view d))" and "bdg_Get B d k = Inr b \<Longrightarrow> b = (k \<in> dom (view d))"
    and "bdg_Value B d k = Some v \<Longrightarrow> view d k = Some v"
    and "bdg_Keys B d k = filter (\<lambda>k'. k \<le> k') (sorted_list_of_set (dom (view d)))"
    and "bdg_KeysRev B d k = rev (filter (\<lambda>k'. k' \<le> k) (sorted_list_of_set (dom (view d))))"
    and "(\<And>w. w \<in> set ws \<Longrightarrow> write_key w = k \<Longrightarrow> plain w) \<Longrightarrow> bdg_Commit B d ws = (d', ok) \<Longrightarrow>
      view d' k = (if ok then fold apply_write ws (view d) else view d) k"
  using assms unfolding badger_ok_def by blast+

lemma fetch_ok: "badger_ok B view \<Longrightarrow> fetch B d k = Inr v \<Longrightarrow> view d k = v"
  using badger_okD(2) [of B view d k] badger_okD(3) [of B view d k]
  by (auto simp: fetch_def domIff split: sum.splits bool.splits option.splits)

lemma fetch_live: "badger_reads B view \<Longrightarrow> fetch B d k = Inr (view d k)"
  by (auto simp: fetch_def badger_reads_def domIff split: bool.splits option.splits)

lemma commit_key:
  assumes "badger_ok B view" "\<And>w. w \<in> set ws \<Longrightarrow> write_key w = k \<Longrightarrow> plain w" "commit B s ws = (s', r)"
  shows "view (st_db s') k = (if r = None then fold apply_write ws (view (st_db s)) else view (st_db s)) k"
    and "st_replayTTL s' = st_replayTTL s"
  using badger_okD(6) [OF assms(1,2), where d = "st_db s"] assms(3)
  by (auto simp: commit_def split: prod.splits if_splits)

lemma commit_ok:
  assumes "badger_ok B view" "list_all plain ws" "commit B s ws = (s', r)"
  shows "view (st_db s') = (if r = None then fold apply_write ws (view (st_db s)) else view (st_db s))"
    and "st_replayTTL s' = st_replayTTL s"
proof -
  have "plain w" if "w \<in> set ws" for w using assms(2) that by (simp add: list_all_iff)
  with commit_key [OF assms(1) _ assms(3)]
  show "view (st_db s') = (if r = None then fold apply_write ws (view (st_db s)) else view (st_db s))"
    "st_replayTTL s' = st_replayTTL s" by (blast intro: ext)+
qed

lemma commit_live: "badger_commits B \<Longrightarrow> snd (commit B s ws) = None"
  by (auto simp: commit_def badger_commits_def split: prod.splits) (metis snd_conv)

lemma length_head_of:
  "(\<And>e. e \<in> set es \<Longrightarrow> length (ent_EntryHash e) = 32) \<Longrightarrow> length (head_of es) = 32"
  by (simp add: head_of_def)

lemma readSize_log:
  assumes "badger_ok B view" "holds_log W (view d) es" "readSize B d = Inr n"
  shows "n = of_nat (length es)"
  using fetch_ok [OF assms(1), of d keyMetaSize] assms(2,3)
  by (auto simp: readSize_def holds_log_def split: sum.splits option.splits if_splits)

lemma readHead_log:
  assumes "badger_ok B view" "holds_log W (view d) es" "readHead B d = Inr h"
  shows "h = head_of es"
  using fetch_ok [OF assms(1), of d keyMetaHead] assms(2,3)
  by (auto simp: readHead_def holds_log_def head_of_def ZeroHash_def split: sum.splits option.splits if_splits)

lemma reads_live:
  assumes "badger_reads B view" "holds_log W (view d) es" "length (head_of es) = 32"
  shows "readSize B d = Inr (of_nat (length es))" "readHead B d = Inr (head_of es)"
  using assms fetch_live [OF assms(1), of d]
  by (auto simp: readSize_def readHead_def holds_log_def head_of_def ZeroHash_def split: if_splits)

lemma GetEntry_log:
  assumes "badger_ok B view" "holds_log W (view (st_db s)) es" "i < length es"
    and "GetEntry B W s (of_nat i) = Inr e"
  shows "e = es ! i"
  using fetch_ok [OF assms(1), of "st_db s" "entryKey (of_nat i)"] assms(2-4)
  by (fastforce simp: GetEntry_def holds_log_def split: sum.splits option.splits)

lemma st_GetLeafHash_log:
  assumes "badger_ok B view" "holds_log W (view (st_db s)) es" "i < length es"
    and "st_GetLeafHash B s (of_nat i) = Inr (Some h)"
  shows "h = ent_LeafHash (es ! i)"
  using fetch_ok [OF assms(1), of "st_db s" "leafKey (of_nat i)"] assms(2-4)
  by (auto simp: st_GetLeafHash_def holds_log_def split: sum.splits option.splits if_splits)

subsection \<open>Appending\<close>

lemma holds_log_append:
  assumes m: "holds_log W m es" and e: "Unmarshal (unwire_entry W) buf = Inr e" and len: "Suc (length es) < 2 ^ 64"
  defines "n \<equiv> of_nat (length es)"
  shows "holds_log W (m(entryKey n \<mapsto> buf, leafKey n \<mapsto> ent_LeafHash e,
      keyMetaSize \<mapsto> be64 (n + 1), keyMetaHead \<mapsto> ent_EntryHash e)) (es @ [e])" (is "holds_log W ?m _")
    and "mirror_full m es \<Longrightarrow> mirror_full (m(entryKey n \<mapsto> buf, leafKey n \<mapsto> ent_LeafHash e,
      keyMetaSize \<mapsto> be64 (n + 1), keyMetaHead \<mapsto> ent_EntryHash e)) (es @ [e])"
proof -
  have fresh: "of_nat i \<noteq> n" if "i < length es" for i
    using that len of_nat_eq_u64 [of i "length es"] by (simp add: n_def)
  have entries: "\<exists>b. ?m (entryKey (of_nat i)) = Some b \<and> Unmarshal (unwire_entry W) b = Inr ((es @ [e]) ! i)"
    if "i < length (es @ [e])" for i
    using m e that fresh [of i]
    by (cases "i = length es") (auto simp: holds_log_def nth_append n_def less_Suc_eq)
  have only: "\<exists>i < length (es @ [e]). k = entryKey (of_nat i)" if "k \<in> dom ?m" "has_prefix prefixEntry k" for k
  proof (cases "k = entryKey n")
    case True
    then show ?thesis by (auto simp: n_def)
  next
    case False
    with that have "k \<in> dom m" by (auto split: if_splits)
    with m that(2) show ?thesis unfolding holds_log_def by (metis length_append_singleton less_Suc_eq)
  qed
  have leaves: "h = ent_LeafHash ((es @ [e]) ! i)" if "i < length (es @ [e])" "?m (leafKey (of_nat i)) = Some h" for i h
    using m that fresh [of i]
    by (cases "i = length es") (auto simp: holds_log_def nth_append n_def less_Suc_eq)
  show "holds_log W ?m (es @ [e])"
    using entries only leaves len by (simp add: holds_log_def n_def add.commute)
  show "mirror_full ?m (es @ [e])" if "mirror_full m es"
    using that fresh by (auto simp: mirror_full_def nth_append n_def less_Suc_eq)
qed

text \<open>
  The append transaction: on success the log has grown by exactly the entry, which had the next
  index and the current head; on failure the database stands for the same map.
\<close>

lemma AppendEntry_log:
  assumes ok: "badger_ok B view" and log: "holds_log W (view (st_db s)) es" and wires: "entry_wires W e"
    and len: "Suc (length es) < 2 ^ 64" and app: "AppendEntry B W s e = (s', r)"
  shows "r = None \<Longrightarrow> ent_Index e = of_nat (length es) \<and> ent_PrevHash e = head_of es
      \<and> holds_log W (view (st_db s')) (es @ [e])
      \<and> (mirror_full (view (st_db s)) es \<longrightarrow> mirror_full (view (st_db s')) (es @ [e]))
      \<and> (\<forall>k. \<not> log_key k \<longrightarrow> view (st_db s') k = view (st_db s) k)"
    and "r \<noteq> None \<Longrightarrow> view (st_db s') = view (st_db s)"
    and "st_replayTTL s' = st_replayTTL s"
proof -
  have "r = None \<and> ent_Index e = of_nat (length es) \<and> ent_PrevHash e = head_of es
      \<and> holds_log W (view (st_db s')) (es @ [e])
      \<and> (mirror_full (view (st_db s)) es \<longrightarrow> mirror_full (view (st_db s')) (es @ [e]))
      \<and> (\<forall>k. \<not> log_key k \<longrightarrow> view (st_db s') k = view (st_db s) k) \<and> st_replayTTL s' = st_replayTTL s
    \<or> r \<noteq> None \<and> view (st_db s') = view (st_db s) \<and> st_replayTTL s' = st_replayTTL s"
  proof (cases "\<exists>buf n h. readSize B (st_db s) = Inr n \<and> ent_Index e = n \<and> readHead B (st_db s) = Inr h
      \<and> ent_PrevHash e = h \<and> wire_entry W e = Some buf
      \<and> AppendEntry B W s e = commit B s [WSet (entryKey (ent_Index e)) buf, WSet (leafKey (ent_Index e)) (ent_LeafHash e),
                             WSet keyMetaSize (be64 (n + 1)), WSet keyMetaHead (ent_EntryHash e)]")
    case False
    with app show ?thesis
      by (auto simp: AppendEntry_def bytesEqual_iff split: if_splits sum.splits bool.splits option.splits)
  next
    case True
    then obtain buf n h where r: "readSize B (st_db s) = Inr n" "ent_Index e = n" "readHead B (st_db s) = Inr h"
      "ent_PrevHash e = h" "wire_entry W e = Some buf"
      and c: "commit B s [WSet (entryKey n) buf, WSet (leafKey n) (ent_LeafHash e),
                             WSet keyMetaSize (be64 (n + 1)), WSet keyMetaHead (ent_EntryHash e)] = (s', r)"
      using app by auto
    have n: "n = of_nat (length es)" "h = head_of es"
      using readSize_log [OF ok log r(1)] readHead_log [OF ok log r(3)] by auto
    have "Unmarshal (unwire_entry W) buf = Inr e" using wires r(5) by (simp add: entry_wires_def)
    note step = holds_log_append [OF log this len]
    from commit_ok [OF ok _ c] show ?thesis using step n r(2,4) by (cases r) (auto simp: fun_upd_twist)
  qed
  then show "r = None \<Longrightarrow> ent_Index e = of_nat (length es) \<and> ent_PrevHash e = head_of es
      \<and> holds_log W (view (st_db s')) (es @ [e])
      \<and> (mirror_full (view (st_db s)) es \<longrightarrow> mirror_full (view (st_db s')) (es @ [e]))
      \<and> (\<forall>k. \<not> log_key k \<longrightarrow> view (st_db s') k = view (st_db s) k)"
    "r \<noteq> None \<Longrightarrow> view (st_db s') = view (st_db s)" "st_replayTTL s' = st_replayTTL s"
    by blast+
qed

lemma AppendEntry_live:
  assumes "badger_reads B view" "holds_log W (view (st_db s)) es" "length (head_of es) = 32" "badger_commits B"
    and "length es < 2 ^ 64" and "ent_Index e = of_nat (length es)" "ent_PrevHash e = head_of es"
    and "ent_EntryHash e \<noteq> []" "ent_LeafHash e \<noteq> []" "wire_entry W e \<noteq> None"
  shows "snd (AppendEntry B W s e) = None"
proof -
  have "entryKey (of_nat (length es)) \<notin> dom (view (st_db s))"
  proof
    assume "entryKey (of_nat (length es)) \<in> dom (view (st_db s))"
    with assms(2) obtain i where "i < length es" "of_nat (length es) = (of_nat i :: u64)"
      unfolding holds_log_def using entry_prefix(1) entryKey_inj by metis
    with of_nat_eq_u64 [of "length es" i] assms(5) show False by simp
  qed
  with assms(1) have "bdg_Get B (st_db s) (entryKey (of_nat (length es))) = Inr False"
    by (simp add: badger_reads_def)
  with reads_live [OF assms(1-3)] assms(6-10) commit_live [OF assms(4)] show ?thesis
    by (auto simp: AppendEntry_def bytesEqual_iff)
qed

subsection \<open>Iterating\<close>

fun fold_until :: "('s \<Rightarrow> 'a \<Rightarrow> 's \<times> 'e option) \<Rightarrow> 'a list \<Rightarrow> 's \<Rightarrow> 's \<times> 'e option" where
  "fold_until fn [] acc = (acc, None)"
| "fold_until fn (x # xs) acc =
     (case fn acc x of (acc', Some err) \<Rightarrow> (acc', Some err) | (acc', None) \<Rightarrow> fold_until fn xs acc')"

lemma entry_keys:
  assumes "holds_log W m es" "finite (dom m)"
  shows "\<exists>rest. filter (\<lambda>k. entryKey 0 \<le> k) (sorted_list_of_set (dom m))
      = map (\<lambda>i. entryKey (of_nat i)) [0..<length es] @ rest \<and> (\<forall>k\<in>set rest. \<not> has_prefix prefixEntry k)"
proof -
  let ?ks = "filter (\<lambda>k. entryKey 0 \<le> k) (sorted_list_of_set (dom m))" and ?P = "has_prefix prefixEntry"
  let ?es = "map (\<lambda>i. entryKey (of_nat i)) [0..<length es]"
  have len: "length es < 2 ^ 64" using assms(1) by (simp add: holds_log_def)
  have split: "?ks = filter ?P ?ks @ filter (\<lambda>k. \<not> ?P k) ?ks"
  proof (rule sorted_split)
    fix x y assume xy: "y \<in> set ?ks" "?P x" "\<not> ?P y"
    have "prefixEntry \<le> y" using xy(1) order_trans [OF le_append [of prefixEntry "be64 0"]] by (auto simp: entryKey_def)
    with xy show "x < y" by (intro prefix_before)
  qed (simp add: sorted_wrt_filter)
  have "set (filter ?P ?ks) = set ?es"
  proof (intro set_eqI iffI)
    fix k assume "k \<in> set (filter ?P ?ks)"
    then have "k \<in> dom m" "?P k" using assms(2) by auto
    with assms(1) show "k \<in> set ?es" unfolding holds_log_def by auto
  next
    fix k assume "k \<in> set ?es"
    then obtain i where i: "i < length es" "k = entryKey (of_nat i)" by auto
    then have "k \<in> dom m" using assms(1) unfolding holds_log_def by blast
    moreover have "entryKey 0 \<le> k" using entryKey_less [of "of_nat i" 0] i(2) by (simp add: not_less [symmetric])
    ultimately show "k \<in> set (filter ?P ?ks)" using assms(2) i(2) by simp
  qed
  moreover have "sorted ?es" "distinct ?es"
    using len by (auto simp: sorted_iff_nth_mono distinct_map inj_on_def u64_arith not_less [symmetric] entryKey_less)
  ultimately have "filter ?P ?ks = ?es"
    by (intro sorted_distinct_set_unique) (simp_all add: sorted_wrt_filter)
  with split show ?thesis by (metis (mono_tags, lifting) filter_is_subset mem_Collect_eq set_filter)
qed

lemma iterate_entries_log:
  assumes "\<forall>k\<in>set rest. \<not> has_prefix prefixEntry k" "\<And>i. \<not> cancelled i"
    and "\<And>i. i \<in> set is \<Longrightarrow> \<exists>b. bdg_Value B d (entryKey (of_nat i)) = Some b \<and> Unmarshal (unwire_entry W) b = Inr (es ! i)"
  shows "iterate_entries B W d cancelled fn (map (\<lambda>i. entryKey (of_nat i)) is @ rest) j acc
    = (case fold_until fn (map ((!) es) is) acc of (a, r) \<Rightarrow> (a, map_option Inr r))"
  using assms(3)
proof (induction "is" arbitrary: j acc)
  case Nil
  then show ?case using assms(1) by (cases rest) auto
next
  case (Cons i "is")
  from Cons.prems [of i] obtain b where
    "bdg_Value B d (entryKey (of_nat i)) = Some b" "Unmarshal (unwire_entry W) b = Inr (es ! i)" by auto
  with Cons assms(2) show ?case by (auto split: prod.splits option.splits)
qed

lemma IterateEntries_log:
  assumes ok: "badger_ok B view" and log: "holds_log W (view (st_db s)) es"
    and live: "\<And>k. bdg_Value B (st_db s) k = view (st_db s) k" and "\<And>i. \<not> cancelled i"
  shows "IterateEntries B W cancelled s 0 fn acc
    = (case fold_until fn es acc of (a, r) \<Rightarrow> (a, map_option Inr r))"
proof -
  obtain rest where keys: "bdg_Keys B (st_db s) (entryKey 0) = map (\<lambda>i. entryKey (of_nat i)) [0..<length es] @ rest"
    "\<forall>k\<in>set rest. \<not> has_prefix prefixEntry k"
    using entry_keys [OF log badger_okD(1) [OF ok]] badger_okD(4) [OF ok] by auto
  have "iterate_entries B W (st_db s) cancelled fn (map (\<lambda>i. entryKey (of_nat i)) [0..<length es] @ rest) 0 acc
    = (case fold_until fn (map ((!) es) [0..<length es]) acc of (a, r) \<Rightarrow> (a, map_option Inr r))"
    by (rule iterate_entries_log [OF keys(2) assms(4)]) (use log live in \<open>auto simp: holds_log_def\<close>)
  then show ?thesis by (simp add: IterateEntries_def keys(1) map_nth)
qed

subsection \<open>The other keyspaces\<close>

lemma fold_apply_write_other: "k \<notin> write_key ` set ws \<Longrightarrow> fold apply_write ws m k = m k"
proof (induction ws arbitrary: m)
  case (Cons w ws)
  then show ?case by (cases w) auto
qed simp

lemma commit_other:
  assumes "badger_ok B view" "commit B s ws = (s', r)" "k \<notin> write_key ` set ws"
  shows "view (st_db s') k = view (st_db s) k"
proof -
  have "plain w" if "w \<in> set ws" "write_key w = k" for w using that assms(3) by auto
  from commit_key(1) [OF assms(1) this assms(2)] fold_apply_write_other [OF assms(3)] show ?thesis by simp
qed

text \<open>
  The replay check touches the record of the one hash, and only adds to the records of a store that
  keeps them for ever.
\<close>

abbreviation keeps_replays :: "'d Store \<Rightarrow> bool" where
  "keeps_replays s \<equiv> \<not> 0 < sint (st_replayTTL s)"

lemma CheckAndRecord_log:
  assumes ok: "badger_ok B view" and c: "CheckAndRecordEnvelope B s h i = (s', r)"
  shows "r = None \<Longrightarrow> view (st_db s) (replayKey h) = None"
    and "k \<noteq> replayKey h \<Longrightarrow> view (st_db s') k = view (st_db s) k"
    and "keeps_replays s \<Longrightarrow> r = None \<Longrightarrow> view (st_db s') = (view (st_db s))(replayKey h \<mapsto> be64 i)"
    and "keeps_replays s \<Longrightarrow> r \<noteq> None \<Longrightarrow> view (st_db s') = view (st_db s)"
    and "st_replayTTL s' = st_replayTTL s"
proof -
  let ?ws = "if 0 < sint (st_replayTTL s) then [WSetTTL (replayKey h) (be64 i) (st_replayTTL s)] else [WSet (replayKey h) (be64 i)]"
  have cases: "view (st_db s) (replayKey h) = None \<and> commit B s ?ws = (s', r) \<or> r \<noteq> None \<and> s' = s"
    using c badger_okD(2) [OF ok, of "st_db s" "replayKey h"]
    by (auto simp: CheckAndRecordEnvelope_def Let_def domIff split: sum.split_asm bool.split_asm)
  show "view (st_db s) (replayKey h) = None" if "r = None" using cases that by blast
  show "view (st_db s') k = view (st_db s) k" if "k \<noteq> replayKey h"
    using cases
  proof
    assume "view (st_db s) (replayKey h) = None \<and> commit B s ?ws = (s', r)"
    then show ?thesis using that by (intro commit_other [OF ok, where ws = ?ws]) auto
  qed simp
  show "st_replayTTL s' = st_replayTTL s"
    using cases by (auto simp: commit_def split: prod.splits if_splits)
  show "view (st_db s') = (view (st_db s))(replayKey h \<mapsto> be64 i)" if "keeps_replays s" "r = None"
    using cases that commit_ok(1) [OF ok, of "[WSet (replayKey h) (be64 i)]" s s' r] by simp
  show "view (st_db s') = view (st_db s)" if "keeps_replays s" "r \<noteq> None"
    using cases that commit_ok(1) [OF ok, of "[WSet (replayKey h) (be64 i)]" s s' r] by auto
qed

lemma replayKey_inj: "replayKey h = replayKey h' \<longleftrightarrow> h = h'"
  by (simp add: replayKey_def)

end
