(* ===== verification/Merkle.thy ===== *)
theory Merkle
  imports Logentry
begin

text \<open>
  \<open>pkg/merkle\<close>: the bounded-memory RFC 6962 tree of \<open>merkle.go\<close>.  The compact range, the
  proof node lists and the rehashing of \<open>transparency-dev/merkle\<close> are the parameter record
  \<open>tdlib\<close>, with their documented behaviour as the predicate \<open>tdlib_ok\<close>; the leaf
  store is an interface (record \<open>LeafStore\<close>, locale \<open>leaf_store\<close>).  The lemmas show that
  the two least-recently-used caches never exceed their caps and never hold a wrong hash, that
  \<open>subRoot\<close> terminates and computes the RFC 6962 tree hash of its range, and hence that
  evicting nodes is invisible: the proofs do not depend on the caps.
\<close>

section \<open>Definitions\<close>

subsection \<open>The library and the leaf store\<close>

record NodeID =
  Level :: nat
  Index :: u64

datatype merkle_error =
    MkLeafStoreRead u64
  | MkTreeSizeExceeds u64 u64
  | MkOldExceedsNew u64 u64
  | MkNodeList
  | MkMaterialise NodeID merkle_error
  | MkEmptyCoverage NodeID
  | MkMissingLeaf u64
  | MkRehash
  | MkVerify
  | MkPanic

record ('r, 'n) tdlib =
  lib_NewEmptyRange :: 'r
  lib_End :: "'r \<Rightarrow> u64"
  lib_Append :: "LogHasher \<Rightarrow> 'r \<Rightarrow> bytes \<Rightarrow> ('r \<times> (NodeID \<times> bytes) list) option"
  lib_GetRootHash :: "LogHasher \<Rightarrow> 'r \<Rightarrow> bytes option"
  lib_Coverage :: "NodeID \<Rightarrow> u64 \<times> u64"
  lib_Inclusion :: "u64 \<Rightarrow> u64 \<Rightarrow> 'n option"
  lib_Consistency :: "u64 \<Rightarrow> u64 \<Rightarrow> 'n option"
  lib_IDs :: "'n \<Rightarrow> NodeID list"
  lib_Rehash :: "LogHasher \<Rightarrow> 'n \<Rightarrow> bytes list \<Rightarrow> bytes list option"
  lib_VerifyInclusion :: "LogHasher \<Rightarrow> u64 \<Rightarrow> u64 \<Rightarrow> bytes \<Rightarrow> bytes list \<Rightarrow> bytes \<Rightarrow> bool"
  lib_VerifyConsistency :: "LogHasher \<Rightarrow> u64 \<Rightarrow> u64 \<Rightarrow> bytes list \<Rightarrow> bytes \<Rightarrow> bytes \<Rightarrow> bool"

text \<open>The interface \<open>LeafStore\<close>; a failing read is \<open>Inl ()\<close>, a missing leaf \<open>Inr None\<close>.\<close>

record 's LeafStore =
  GetLeafHash :: "'s \<Rightarrow> u64 \<Rightarrow> unit + bytes option"
  PutLeafHash :: "'s \<Rightarrow> u64 \<Rightarrow> bytes \<Rightarrow> 's"

type_synonym memLeafStore = "u64 \<rightharpoonup> bytes"

definition mem_GetLeafHash :: "memLeafStore \<Rightarrow> u64 \<Rightarrow> unit + bytes option" where
  "mem_GetLeafHash m idx = Inr (m idx)"

definition mem_PutLeafHash :: "memLeafStore \<Rightarrow> u64 \<Rightarrow> bytes \<Rightarrow> memLeafStore" where
  "mem_PutLeafHash m idx h = m(idx \<mapsto> h)"

definition mem_store :: "memLeafStore LeafStore" where
  "mem_store = \<lparr>GetLeafHash = mem_GetLeafHash, PutLeafHash = mem_PutLeafHash\<rparr>"

subsection \<open>The caches\<close>

text \<open>
  A \<open>container/list\<close> with a map into it: \<open>items\<close> is the list, front first; \<open>index\<close> is the
  set of keys the map holds, each pointing to the element of the list with that key.
\<close>

record 'k lru =
  items :: "('k \<times> bytes) list"
  index :: "'k set"

definition lru_empty :: "'k lru" where
  "lru_empty = \<lparr>items = [], index = {}\<rparr>"

definition drop_key :: "'k \<Rightarrow> ('k \<times> bytes) list \<Rightarrow> ('k \<times> bytes) list" where
  "drop_key k xs = filter (\<lambda>p. fst p \<noteq> k) xs"

text \<open>\<open>PushFront\<close> or overwrite and \<open>MoveToFront\<close>, then evict the back when over the cap.\<close>

definition lru_put :: "int \<Rightarrow> 'k \<Rightarrow> bytes \<Rightarrow> 'k lru \<Rightarrow> 'k lru" where
  "lru_put cap k h l =
     (if k \<in> index l then l\<lparr>items := (k, h) # drop_key k (items l)\<rparr>
      else let l = \<lparr>items = (k, h) # items l, index = insert k (index l)\<rparr>
      in if cap > 0 \<and> int (length (items l)) > cap
         then \<lparr>items = butlast (items l), index = index l - {fst (last (items l))}\<rparr>
         else l)"

definition lru_get :: "'k \<Rightarrow> 'k lru \<Rightarrow> ('k lru \<times> bytes) option" where
  "lru_get k l =
     (if k \<in> index l then
        (case map_of (items l) k of
           None \<Rightarrow> None
         | Some h \<Rightarrow> Some (l\<lparr>items := (k, h) # drop_key k (items l)\<rparr>, h))
      else None)"

subsection \<open>The tree\<close>

record ('r, 's) Tree =
  rng :: 'r
  leafStore :: 's
  leafLRU :: "u64 lru"
  maxLeaf :: int
  internal :: "NodeID lru"
  maxInternal :: int

definition NewBoundedTreeWithStore :: "('r, 'n) tdlib \<Rightarrow> int \<Rightarrow> int \<Rightarrow> 's \<Rightarrow> ('r, 's) Tree" where
  "NewBoundedTreeWithStore L maxInternalNodes maxLeafNodes ls =
     \<lparr>rng = lib_NewEmptyRange L, leafStore = ls, leafLRU = lru_empty, maxLeaf = maxLeafNodes,
      internal = lru_empty, maxInternal = maxInternalNodes\<rparr>"

definition NewBoundedTree :: "('r, 'n) tdlib \<Rightarrow> int \<Rightarrow> ('r, memLeafStore) Tree" where
  "NewBoundedTree L maxInternalNodes = NewBoundedTreeWithStore L maxInternalNodes 0 Map.empty"

definition NewTree :: "('r, 'n) tdlib \<Rightarrow> ('r, memLeafStore) Tree" where
  "NewTree L = NewBoundedTree L 0"

definition putLeaf :: "'s LeafStore \<Rightarrow> u64 \<Rightarrow> bytes \<Rightarrow> ('r, 's) Tree \<Rightarrow> ('r, 's) Tree" where
  "putLeaf S idx h t =
     t\<lparr>leafStore := PutLeafHash S (leafStore t) idx h,
       leafLRU := lru_put (maxLeaf t) idx h (leafLRU t)\<rparr>"

definition putNode :: "'s LeafStore \<Rightarrow> NodeID \<Rightarrow> bytes \<Rightarrow> ('r, 's) Tree \<Rightarrow> ('r, 's) Tree" where
  "putNode S nid h t =
     (if Level nid = 0 then putLeaf S (Index nid) h t
      else t\<lparr>internal := lru_put (maxInternal t) nid h (internal t)\<rparr>)"

definition CacheSize :: "('r, 's) Tree \<Rightarrow> nat \<times> nat" where
  "CacheSize t = (length (items (leafLRU t)), length (items (internal t)))"

definition Size :: "('r, 'n) tdlib \<Rightarrow> ('r, 's) Tree \<Rightarrow> u64" where
  "Size L t = lib_End L (rng t)"

definition Root :: "('r, 'n) tdlib \<Rightarrow> LogHasher \<Rightarrow> ('r, 's) Tree \<Rightarrow> merkle_error + bytes" where
  "Root L H t =
     (if Size L t = 0 then Inr (EmptyRoot H)
      else (case lib_GetRootHash L H (rng t) of None \<Rightarrow> Inl MkPanic | Some r \<Rightarrow> Inr r))"

definition AppendLeafHash ::
    "('r, 'n) tdlib \<Rightarrow> LogHasher \<Rightarrow> 's LeafStore \<Rightarrow> bytes \<Rightarrow> ('r, 's) Tree
      \<Rightarrow> merkle_error + ('r, 's) Tree \<times> u64" where
  "AppendLeafHash L H S leafHash t =
     (let idx = lib_End L (rng t); t = putNode S \<lparr>Level = 0, Index = idx\<rparr> leafHash t
      in (case lib_Append L H (rng t) leafHash of
            None \<Rightarrow> Inl MkPanic
          | Some (r, visited) \<Rightarrow>
              Inr (foldl (\<lambda>t (nid, h). putNode S nid h t) (t\<lparr>rng := r\<rparr>) visited, idx)))"

definition AppendLeaf ::
    "('r, 'n) tdlib \<Rightarrow> LogHasher \<Rightarrow> 's LeafStore \<Rightarrow> bytes \<Rightarrow> ('r, 's) Tree
      \<Rightarrow> merkle_error + ('r, 's) Tree \<times> bytes \<times> u64" where
  "AppendLeaf L H S dat t =
     (let leafHash = HashLeaf H dat
      in (case AppendLeafHash L H S leafHash t of
            Inl e \<Rightarrow> Inl e | Inr (t, idx) \<Rightarrow> Inr (t, leafHash, idx)))"

definition nodeHash ::
    "'s LeafStore \<Rightarrow> NodeID \<Rightarrow> ('r, 's) Tree \<Rightarrow> ('r, 's) Tree \<times> (merkle_error + bytes option)" where
  "nodeHash S nid t =
     (if Level nid = 0 then
        (case lru_get (Index nid) (leafLRU t) of
           Some (l, h) \<Rightarrow> (t\<lparr>leafLRU := l\<rparr>, Inr (Some h))
         | None \<Rightarrow>
             (case GetLeafHash S (leafStore t) (Index nid) of
                Inl _ \<Rightarrow> (t, Inl (MkLeafStoreRead (Index nid)))
              | Inr None \<Rightarrow> (t, Inr None)
              | Inr (Some h) \<Rightarrow> (putLeaf S (Index nid) h t, Inr (Some h))))
      else
        (case lru_get nid (internal t) of
           None \<Rightarrow> (t, Inr None)
         | Some (l, h) \<Rightarrow> (t\<lparr>internal := l\<rparr>, Inr (Some h))))"

text \<open>
  The split loop of \<open>subRoot\<close>.  On \<open>uint64\<close> the product wraps, so for a span above
  \<open>2^63\<close> the loop would not end; \<open>None\<close> is that case.
\<close>

partial_function (option) split_loop :: "u64 \<Rightarrow> u64 \<Rightarrow> u64 option" where
  "split_loop span k = (if k * 2 < span then split_loop span (k * 2) else Some k)"

partial_function (option) subRoot ::
    "LogHasher \<Rightarrow> 's LeafStore \<Rightarrow> ('r, 's) Tree \<Rightarrow> u64 \<Rightarrow> u64
      \<Rightarrow> (('r, 's) Tree \<times> (merkle_error + bytes)) option" where
  "subRoot H S t b e =
     (if b + 1 = e then
        Some (case nodeHash S \<lparr>Level = 0, Index = b\<rparr> t of
                (t, Inl err) \<Rightarrow> (t, Inl err)
              | (t, Inr None) \<Rightarrow> (t, Inl (MkMissingLeaf b))
              | (t, Inr (Some h)) \<Rightarrow> (t, Inr h))
      else
        Option.bind (split_loop (e - b) 1) (\<lambda>k.
        Option.bind (subRoot H S t b (b + k)) (\<lambda>(t, l).
          case l of Inl err \<Rightarrow> Some (t, Inl err)
          | Inr left \<Rightarrow>
              Option.bind (subRoot H S t (b + k) e) (\<lambda>(t, r).
                case r of Inl err \<Rightarrow> Some (t, Inl err)
                | Inr right \<Rightarrow> Some (t, Inr (HashChildren H left right))))))"

definition computeNode ::
    "('r, 'n) tdlib \<Rightarrow> LogHasher \<Rightarrow> 's LeafStore \<Rightarrow> NodeID \<Rightarrow> ('r, 's) Tree
      \<Rightarrow> (('r, 's) Tree \<times> (merkle_error + bytes)) option" where
  "computeNode L H S nid t =
     (let (b, e) = lib_Coverage L nid; e = (if e > Size L t then Size L t else e)
      in if b \<ge> e then Some (t, Inl (MkEmptyCoverage nid)) else subRoot H S t b e)"

fun materialise_ids ::
    "('r, 'n) tdlib \<Rightarrow> LogHasher \<Rightarrow> 's LeafStore \<Rightarrow> NodeID list \<Rightarrow> ('r, 's) Tree
      \<Rightarrow> (('r, 's) Tree \<times> (merkle_error + bytes list)) option" where
  "materialise_ids L H S [] t = Some (t, Inr [])"
| "materialise_ids L H S (nid # ids) t =
     Option.bind
       (case nodeHash S nid t of
          (t, Inl err) \<Rightarrow> Some (t, Inl err)
        | (t, Inr (Some h)) \<Rightarrow> Some (t, Inr h)
        | (t, Inr None) \<Rightarrow>
            Option.bind (computeNode L H S nid t) (\<lambda>(t, r).
              case r of Inl err \<Rightarrow> Some (t, Inl (MkMaterialise nid err))
              | Inr h \<Rightarrow> Some (t, Inr h)))
       (\<lambda>(t, r). case r of Inl err \<Rightarrow> Some (t, Inl err)
          | Inr h \<Rightarrow>
              Option.bind (materialise_ids L H S ids t) (\<lambda>(t, rs).
                Some (t, case rs of Inl err \<Rightarrow> Inl err | Inr hs \<Rightarrow> Inr (h # hs))))"

definition materialise ::
    "('r, 'n) tdlib \<Rightarrow> LogHasher \<Rightarrow> 's LeafStore \<Rightarrow> 'n \<Rightarrow> ('r, 's) Tree
      \<Rightarrow> (('r, 's) Tree \<times> (merkle_error + bytes list)) option" where
  "materialise L H S nodes t =
     Option.bind (materialise_ids L H S (lib_IDs L nodes) t) (\<lambda>(t, r).
       Some (t, case r of Inl err \<Rightarrow> Inl err
         | Inr hs \<Rightarrow> (case lib_Rehash L H nodes hs of None \<Rightarrow> Inl MkRehash | Some p \<Rightarrow> Inr p)))"

definition InclusionProof ::
    "('r, 'n) tdlib \<Rightarrow> LogHasher \<Rightarrow> 's LeafStore \<Rightarrow> u64 \<Rightarrow> u64 \<Rightarrow> ('r, 's) Tree
      \<Rightarrow> (('r, 's) Tree \<times> (merkle_error + bytes list)) option" where
  "InclusionProof L H S idx treeSize t =
     (if treeSize > Size L t then Some (t, Inl (MkTreeSizeExceeds treeSize (Size L t)))
      else (case lib_Inclusion L idx treeSize of
              None \<Rightarrow> Some (t, Inl MkNodeList)
            | Some nodes \<Rightarrow> materialise L H S nodes t))"

definition ConsistencyProof ::
    "('r, 'n) tdlib \<Rightarrow> LogHasher \<Rightarrow> 's LeafStore \<Rightarrow> u64 \<Rightarrow> u64 \<Rightarrow> ('r, 's) Tree
      \<Rightarrow> (('r, 's) Tree \<times> (merkle_error + bytes list)) option" where
  "ConsistencyProof L H S oldSize newSize t =
     (if oldSize > newSize then Some (t, Inl (MkOldExceedsNew oldSize newSize))
      else if newSize > Size L t then Some (t, Inl (MkTreeSizeExceeds newSize (Size L t)))
      else if oldSize = 0 \<or> oldSize = newSize then Some (t, Inr [])
      else (case lib_Consistency L oldSize newSize of
              None \<Rightarrow> Some (t, Inl MkNodeList)
            | Some nodes \<Rightarrow> materialise L H S nodes t))"

definition VerifyInclusion ::
    "('r, 'n) tdlib \<Rightarrow> LogHasher \<Rightarrow> u64 \<Rightarrow> u64 \<Rightarrow> bytes \<Rightarrow> bytes list \<Rightarrow> bytes \<Rightarrow> merkle_error option" where
  "VerifyInclusion L H idx treeSize leafHash prf root =
     (if lib_VerifyInclusion L H idx treeSize leafHash prf root then None else Some MkVerify)"

definition VerifyConsistency ::
    "('r, 'n) tdlib \<Rightarrow> LogHasher \<Rightarrow> u64 \<Rightarrow> u64 \<Rightarrow> bytes list \<Rightarrow> bytes \<Rightarrow> bytes \<Rightarrow> merkle_error option" where
  "VerifyConsistency L H oldSize newSize prf oldRoot newRoot =
     (if lib_VerifyConsistency L H oldSize newSize prf oldRoot newRoot then None else Some MkVerify)"

subsection \<open>The RFC 6962 tree hash\<close>

text \<open>The specification: the Merkle tree hash over a list of leaf hashes.\<close>

fun pow2_below :: "nat \<Rightarrow> nat" where
  "pow2_below n = (if n \<le> 2 then 1 else 2 * pow2_below ((n + 1) div 2))"

declare pow2_below.simps [simp del]

lemma pow2_below_pos [simp]: "0 < pow2_below n"
  by (induction n rule: pow2_below.induct) (subst pow2_below.simps, simp)

lemma pow2_below_bounds: "2 \<le> n \<Longrightarrow> pow2_below n < n \<and> n \<le> 2 * pow2_below n"
proof (induction n rule: pow2_below.induct)
  case (1 n)
  show ?case
  proof (cases "n \<le> 2")
    case True
    with 1(2) show ?thesis by (simp add: pow2_below.simps)
  next
    case False
    then have "2 \<le> (n + 1) div 2" by simp
    with 1(1) False have "pow2_below ((n + 1) div 2) < (n + 1) div 2"
      "(n + 1) div 2 \<le> 2 * pow2_below ((n + 1) div 2)" by auto
    moreover have "pow2_below n = 2 * pow2_below ((n + 1) div 2)"
      using False by (subst pow2_below.simps) simp
    ultimately show ?thesis by linarith
  qed
qed

function MTH :: "LogHasher \<Rightarrow> bytes list \<Rightarrow> bytes" where
  "MTH H xs =
     (case xs of [] \<Rightarrow> EmptyRoot H
      | [x] \<Rightarrow> x
      | _ \<Rightarrow> let k = pow2_below (length xs)
             in HashChildren H (MTH H (take k xs)) (MTH H (drop k xs)))"
  by pat_completeness auto
termination
  by (relation "measure (\<lambda>(_, xs). length xs)")
    (use pow2_below_bounds in \<open>fastforce+\<close>)

declare MTH.simps [simp del]

section \<open>Lemmas\<close>

subsection \<open>The caches\<close>

text \<open>
  A cache is well formed when its map and its list name the same keys, once each; it respects a
  positive cap.
\<close>

definition lru_wf :: "'k lru \<Rightarrow> bool" where
  "lru_wf l \<longleftrightarrow> index l = set (map fst (items l)) \<and> distinct (map fst (items l))"

definition lru_within :: "int \<Rightarrow> 'k lru \<Rightarrow> bool" where
  "lru_within cap l \<longleftrightarrow> cap > 0 \<longrightarrow> int (length (items l)) \<le> cap"

lemma lru_empty_wf [simp]: "lru_wf lru_empty" "lru_within cap lru_empty"
  by (simp_all add: lru_wf_def lru_within_def lru_empty_def)

lemma set_drop_key: "set (drop_key k xs) = {p \<in> set xs. fst p \<noteq> k}"
  by (auto simp: drop_key_def)

lemma distinct_drop_key: "distinct (map fst xs) \<Longrightarrow> distinct (map fst (drop_key k xs))"
  by (induction xs) (auto simp: drop_key_def)

lemma length_drop_key:
  "distinct (map fst xs) \<Longrightarrow> k \<in> set (map fst xs) \<Longrightarrow> Suc (length (drop_key k xs)) = length xs"
proof (induction xs)
  case (Cons p xs)
  show ?case
  proof (cases "fst p = k")
    case True
    with Cons.prems have "drop_key k xs = xs" 
      by (simp add: drop_key_def filter_id_conv) (metis image_eqI)
    with True show ?thesis by (simp add: drop_key_def)
  next
    case False
    with Cons show ?thesis by (auto simp: drop_key_def)
  qed
qed simp

lemma lru_touch_wf:
  assumes "lru_wf l" "k \<in> index l"
  shows "lru_wf (l\<lparr>items := (k, h) # drop_key k (items l)\<rparr>)"
    and "length (items (l\<lparr>items := (k, h) # drop_key k (items l)\<rparr>)) = length (items l)"
  using assms distinct_drop_key [of "items l" k] length_drop_key [of "items l" k]
  by (auto simp: lru_wf_def set_drop_key)

lemma lru_evict_wf:
  assumes "lru_wf l" "items l \<noteq> []"
  shows "lru_wf \<lparr>items = butlast (items l), index = index l - {fst (last (items l))}\<rparr>"
proof -
  obtain xs p where "items l = xs @ [p]" using assms(2) by (metis rev_exhaust)
  with assms(1) show ?thesis by (auto simp: lru_wf_def)
qed

lemma lru_put_wf:
  assumes "lru_wf l" "lru_within cap l"
  shows "lru_wf (lru_put cap k h l)" "lru_within cap (lru_put cap k h l)"
proof -
  let ?l = "\<lparr>items = (k, h) # items l, index = insert k (index l)\<rparr>"
  have new: "k \<notin> index l \<Longrightarrow> lru_wf ?l" using assms(1) by (auto simp: lru_wf_def)
  show "lru_wf (lru_put cap k h l)"
    using lru_touch_wf(1) [OF assms(1), of k h] new lru_evict_wf [OF new]
    by (auto simp: lru_put_def Let_def)
  show "lru_within cap (lru_put cap k h l)"
    using lru_touch_wf(2) [OF assms(1), of k h] assms(2)
    by (auto simp: lru_put_def Let_def lru_within_def)
qed

lemma lru_get_wf:
  assumes "lru_wf l" "lru_get k l = Some (l', h)"
  shows "lru_wf l'" "length (items l') = length (items l)" "(k, h) \<in> set (items l)"
    "set (items l') \<subseteq> set (items l)"
proof -
  have k: "k \<in> index l" "map_of (items l) k = Some h"
    "l' = l\<lparr>items := (k, h) # drop_key k (items l)\<rparr>"
    using assms(2) by (auto simp: lru_get_def split: if_splits option.splits)
  show "lru_wf l'" "length (items l') = length (items l)"
    using lru_touch_wf [OF assms(1) k(1)] by (simp_all add: k(3))
  show "(k, h) \<in> set (items l)" using k(2) by (rule map_of_SomeD)
  then show "set (items l') \<subseteq> set (items l)" by (auto simp: k(3) set_drop_key)
qed

lemma lru_put_items: "set (items (lru_put cap k h l)) \<subseteq> insert (k, h) (set (items l))"
proof -
  have "set (butlast ((k, h) # items l)) \<subseteq> set ((k, h) # items l)"
    by (meson in_set_butlastD subsetI)
  then show ?thesis by (auto simp: lru_put_def Let_def set_drop_key simp del: butlast.simps)
qed

subsection \<open>The tree hash and its ranges\<close>

definition slice :: "'a list \<Rightarrow> nat \<Rightarrow> nat \<Rightarrow> 'a list" where
  "slice xs b e = take (e - b) (drop b xs)"

lemma length_slice: "e \<le> length xs \<Longrightarrow> length (slice xs b e) = e - b"
  by (simp add: slice_def)

lemma slice_append: "e \<le> length xs \<Longrightarrow> slice (xs @ ys) b e = slice xs b e"
  by (simp add: slice_def)

lemma take_slice: "k \<le> e - b \<Longrightarrow> take k (slice xs b e) = slice xs b (b + k)"
  by (simp add: slice_def)

lemma drop_slice: "drop k (slice xs b e) = slice xs (b + k) e"
  by (simp add: slice_def drop_take add.commute)

lemma slice_one: "b < length xs \<Longrightarrow> slice xs b (Suc b) = [xs ! b]"
  by (simp add: slice_def take_Suc hd_drop_conv_nth)

lemma slice_all: "slice xs 0 (length xs) = xs"
  by (simp add: slice_def)

lemma MTH_one [simp]: "MTH H [x] = x"
  by (simp add: MTH.simps)

lemma MTH_split:
  assumes "2 \<le> length xs"
  shows "MTH H xs = HashChildren H (MTH H (take (pow2_below (length xs)) xs))
    (MTH H (drop (pow2_below (length xs)) xs))"
proof -
  obtain x y zs where "xs = x # y # zs"
    using assms by (metis Suc_le_length_iff numeral_2_eq_2)
  then show ?thesis by (subst MTH.simps) (simp add: Let_def)
qed

subsection \<open>The split loop\<close>

lemma pow2_below_pow: "\<exists>i. pow2_below n = 2 ^ i"
proof (induction n rule: pow2_below.induct)
  case (1 n)
  then show ?case
    by (cases "n \<le> 2") (subst pow2_below.simps, auto intro: exI [of _ 0] exI [of _ "Suc _"])+
qed

lemma pow2_bracket_unique:
  assumes "2 ^ i < n" "n \<le> 2 * 2 ^ i" "2 ^ j < n" "n \<le> 2 * (2::nat) ^ j"
  shows "i = j"
proof -
  have "(2::nat) ^ i < 2 ^ Suc j" "(2::nat) ^ j < 2 ^ Suc i" using assms by simp_all
  then have "i < Suc j" "j < Suc i" by (simp_all only: power_strict_increasing_iff)
  then show ?thesis by simp
qed

lemma split_loop_terminates:
  fixes n :: nat
  assumes "2 ^ i < n" "n \<le> 2 ^ 63"
  shows "split_loop (of_nat n) (2 ^ i) = Some (of_nat (pow2_below n))"
  using assms
proof (induction "n - 2 ^ i" arbitrary: i rule: less_induct)
  case less
  have "(2::nat) ^ i < 2 ^ 63" using less.prems by linarith
  then have "i < 63" by (simp only: power_strict_increasing_iff)
  then have "(2::nat) ^ Suc i \<le> 2 ^ 63" by (intro power_increasing) auto
  then have bound: "(2::nat) ^ Suc i < 2 ^ 64" by simp
  have "((of_nat (2 ^ Suc i) :: u64) < of_nat n) \<longleftrightarrow> 2 ^ Suc i < n"
    using bound less.prems(2) by (intro of_nat_less_u64) simp_all
  then have test: "(2 ^ i * 2 < (of_nat n :: u64)) \<longleftrightarrow> 2 ^ Suc i < n"
    by (simp add: mult.commute)
  show ?case
  proof (cases "2 ^ Suc i < n")
    case True
    have "n - 2 ^ Suc i < n - 2 ^ i" using less.prems(1) by (intro diff_less_mono2) simp_all
    from less.hyps [OF this True less.prems(2)] show ?thesis
      by (subst split_loop.simps) (use True test in \<open>simp add: mult.commute\<close>)
  next
    case False
    obtain j where j: "pow2_below n = 2 ^ j" using pow2_below_pow by blast
    have "2 \<le> n" using less.prems(1) by (metis Suc_leI one_le_power one_le_numeral le_trans
          numeral_2_eq_2 Suc_le_mono One_nat_def)
    from pow2_below_bounds [OF this] have "2 ^ j < n" "n \<le> 2 * 2 ^ j" by (simp_all add: j)
    with False less.prems have "i = j" by (intro pow2_bracket_unique [of i n j]) simp_all
    then show ?thesis by (subst split_loop.simps) (use False test j in simp)
  qed
qed

lemma split_loop_span:
  assumes "2 \<le> n" "n \<le> 2 ^ 63"
  shows "split_loop (of_nat n) 1 = Some (of_nat (pow2_below n))"
  using split_loop_terminates [of 0 n] assms by simp

subsection \<open>What the library documents\<close>

definition node_spec :: "('r, 'n) tdlib \<Rightarrow> LogHasher \<Rightarrow> bytes list \<Rightarrow> NodeID \<Rightarrow> bytes" where
  "node_spec L H ls nid =
     (let (b, e) = lib_Coverage L nid in MTH H (slice ls (unat b) (min (unat e) (length ls))))"

definition node_complete :: "('r, 'n) tdlib \<Rightarrow> bytes list \<Rightarrow> NodeID \<Rightarrow> bool" where
  "node_complete L ls nid \<longleftrightarrow>
     (let (b, e) = lib_Coverage L nid in unat b < unat e \<and> unat e \<le> length ls)"

definition node_covers :: "('r, 'n) tdlib \<Rightarrow> bytes list \<Rightarrow> NodeID \<Rightarrow> bool" where
  "node_covers L ls nid \<longleftrightarrow>
     (let (b, e) = lib_Coverage L nid in unat b < unat e \<and> unat b < length ls)"

text \<open>
  \<open>rep r ls\<close> says that the range \<open>r\<close> covers the leaf hashes \<open>ls\<close>.  The library documents
  that an empty range covers nothing, that \<open>End\<close> is the number of leaves, that \<open>Append\<close>
  extends the range and reports every node it completes with that node's hash, that
  \<open>GetRootHash\<close> is the RFC 6962 root, and that the coverage of a leaf is its own index.
\<close>

definition tdlib_ok :: "('r, 'n) tdlib \<Rightarrow> LogHasher \<Rightarrow> ('r \<Rightarrow> bytes list \<Rightarrow> bool) \<Rightarrow> bool" where
  "tdlib_ok L H rep \<longleftrightarrow>
     rep (lib_NewEmptyRange L) []
     \<and> (\<forall>r ls. rep r ls \<longrightarrow> lib_End L r = of_nat (length ls))
     \<and> (\<forall>r ls h. rep r ls \<longrightarrow> length ls < 2 ^ 63 \<longrightarrow>
          (\<exists>r' vs. lib_Append L H r h = Some (r', vs) \<and> rep r' (ls @ [h])
             \<and> (\<forall>(nid, g) \<in> set vs.
                  node_complete L (ls @ [h]) nid \<and> g = node_spec L H (ls @ [h]) nid)))
     \<and> (\<forall>r ls. rep r ls \<longrightarrow> ls \<noteq> [] \<longrightarrow> length ls \<le> 2 ^ 63 \<longrightarrow> lib_GetRootHash L H r = Some (MTH H ls))
     \<and> (\<forall>i. lib_Coverage L \<lparr>Level = 0, Index = i\<rparr> = (i, i + 1))"

subsection \<open>The invariant of the tree\<close>

definition cache_inv :: "('r, 'n) tdlib \<Rightarrow> LogHasher \<Rightarrow> bytes list \<Rightarrow> ('r, 's) Tree \<Rightarrow> bool" where
  "cache_inv L H ls t \<longleftrightarrow>
     lru_wf (leafLRU t) \<and> lru_within (maxLeaf t) (leafLRU t)
     \<and> lru_wf (internal t) \<and> lru_within (maxInternal t) (internal t)
     \<and> (\<forall>(i, h) \<in> set (items (leafLRU t)). unat i < length ls \<and> h = ls ! unat i)
     \<and> (\<forall>(nid, h) \<in> set (items (internal t)). node_complete L ls nid \<and> h = node_spec L H ls nid)"

definition store_inv :: "('s \<Rightarrow> u64 \<Rightarrow> bytes \<Rightarrow> bool) \<Rightarrow> bytes list \<Rightarrow> ('r, 's) Tree \<Rightarrow> bool" where
  "store_inv holds ls t \<longleftrightarrow> (\<forall>i < length ls. holds (leafStore t) (of_nat i) (ls ! i))"

definition tree_inv ::
    "('r, 'n) tdlib \<Rightarrow> LogHasher \<Rightarrow> ('r \<Rightarrow> bytes list \<Rightarrow> bool) \<Rightarrow> ('s \<Rightarrow> u64 \<Rightarrow> bytes \<Rightarrow> bool)
      \<Rightarrow> bytes list \<Rightarrow> ('r, 's) Tree \<Rightarrow> bool" where
  "tree_inv L H rep holds ls t \<longleftrightarrow>
     rep (rng t) ls \<and> length ls \<le> 2 ^ 63 \<and> cache_inv L H ls t \<and> store_inv holds ls t"

lemma node_spec_append:
  "node_complete L ls nid \<Longrightarrow> node_complete L (ls @ xs) nid"
  "node_complete L ls nid \<Longrightarrow> node_spec L H (ls @ xs) nid = node_spec L H ls nid"
  by (auto simp: node_complete_def node_spec_def Let_def slice_append min_def split: prod.splits)

lemma cache_inv_append:
  assumes "cache_inv L H ls t"
  shows "cache_inv L H (ls @ xs) t"
proof -
  have "unat i < length (ls @ xs) \<and> h = (ls @ xs) ! unat i" if "(i, h) \<in> set (items (leafLRU t))" for i h
    using assms that by (fastforce simp: cache_inv_def nth_append)
  moreover have "node_complete L (ls @ xs) nid \<and> h = node_spec L H (ls @ xs) nid"
    if "(nid, h) \<in> set (items (internal t))" for nid h
    using assms that node_spec_append [of L ls nid] by (fastforce simp: cache_inv_def)
  ultimately show ?thesis using assms by (auto simp: cache_inv_def)
qed

lemma leaf_spec:
  assumes "tdlib_ok L H rep" "Level nid = 0" "node_covers L ls nid"
  shows "unat (Index nid) < length ls" "node_spec L H ls nid = ls ! unat (Index nid)"
proof -
  have nid: "nid = \<lparr>Level = 0, Index = Index nid\<rparr>" using assms(2) by simp
  then have cov: "lib_Coverage L nid = (Index nid, Index nid + 1)"
    using assms(1) unfolding tdlib_ok_def by metis
  with assms(3) have lt: "unat (Index nid) < unat (Index nid + 1)" "unat (Index nid) < length ls"
    by (auto simp: node_covers_def)
  then show "unat (Index nid) < length ls" by simp
  have "unat (Index nid + 1) = Suc (unat (Index nid))"
    using lt(1) by (metis add.commute less_zeroE unat_0 unatSuc)
  with lt(2) cov show "node_spec L H ls nid = ls ! unat (Index nid)"
    by (simp add: node_spec_def min_def Suc_leI slice_one)
qed

lemma node_complete_covers: "node_complete L ls nid \<Longrightarrow> node_covers L ls nid"
  by (auto simp: node_complete_def node_covers_def Let_def)

text \<open>
  The contract of \<open>LeafStore\<close>: a leaf that is held is returned, and writing a leaf the caller
  already holds, or another one, keeps it.  A store may ignore writes, as the database adapter
  does.
\<close>

locale leaf_store =
  fixes S :: "'s LeafStore" and holds :: "'s \<Rightarrow> u64 \<Rightarrow> bytes \<Rightarrow> bool"
  assumes get_held: "holds s i h \<Longrightarrow> GetLeafHash S s i = Inr (Some h)"
    and put_keeps: "holds s j h \<Longrightarrow> (i = j \<Longrightarrow> h' = h) \<Longrightarrow> holds (PutLeafHash S s i h') j h"
begin

lemma putLeaf_inv:
  assumes "cache_inv L H ls t" "store_inv holds ls t" "length ls \<le> 2 ^ 63"
    and "unat i < length ls" "h = ls ! unat i"
  shows "cache_inv L H ls (putLeaf S i h t)" "store_inv holds ls (putLeaf S i h t)"
proof -
  note put = lru_put_items [of "maxLeaf t" i h "leafLRU t"]
  show "cache_inv L H ls (putLeaf S i h t)"
    using assms(1,4,5) put by (fastforce simp: cache_inv_def putLeaf_def lru_put_wf)
  have "holds (PutLeafHash S (leafStore t) i h) (of_nat j) (ls ! j)" if "j < length ls" for j
  proof (rule put_keeps)
    show "holds (leafStore t) (of_nat j) (ls ! j)" using assms(2) that by (simp add: store_inv_def)
    show "h = ls ! j" if "i = of_nat j"
      using that assms(3,5) \<open>j < length ls\<close> by (simp add: unat_of_nat_u64)
  qed
  then show "store_inv holds ls (putLeaf S i h t)" by (simp add: store_inv_def putLeaf_def)
qed

lemma putNode_inv:
  assumes lib: "tdlib_ok L H rep"
    and inv: "cache_inv L H ls t" "store_inv holds ls t" "length ls \<le> 2 ^ 63"
    and node: "node_complete L ls nid" "h = node_spec L H ls nid"
  shows "cache_inv L H ls (putNode S nid h t) \<and> store_inv holds ls (putNode S nid h t)"
proof (cases "Level nid = 0")
  case True
  with leaf_spec [OF lib True node_complete_covers [OF node(1)]] putLeaf_inv [OF inv] node(2)
  show ?thesis by (simp add: putNode_def)
next
  case False
  note put = lru_put_items [of "maxInternal t" nid h "internal t"]
  from False inv node put show ?thesis
    by (fastforce simp: cache_inv_def store_inv_def putNode_def lru_put_wf)
qed

lemma foldl_putNode_inv:
  assumes lib: "tdlib_ok L H rep" and "length ls \<le> 2 ^ 63"
    and "\<forall>(nid, g) \<in> set vs. node_complete L ls nid \<and> g = node_spec L H ls nid"
    and "cache_inv L H ls t" "store_inv holds ls t"
  shows "cache_inv L H ls (foldl (\<lambda>t (nid, h). putNode S nid h t) t vs)
    \<and> store_inv holds ls (foldl (\<lambda>t (nid, h). putNode S nid h t) t vs)"
  using assms(3-5)
proof (induction vs arbitrary: t)
  case (Cons v vs)
  obtain nid g where v: "v = (nid, g)" by force
  with Cons.prems have "node_complete L ls nid" "g = node_spec L H ls nid" by auto
  from putNode_inv [OF lib Cons.prems(2,3) assms(2) this] Cons.IH [of "putNode S nid g t"] Cons.prems(1)
  show ?case by (simp add: v)
qed simp

end

lemma rng_putNode [simp]: "rng (putLeaf S i h t) = rng t" "rng (putNode S nid h t) = rng t"
  by (simp_all add: putLeaf_def putNode_def)

lemma rng_foldl_putNode [simp]:
  "rng (foldl (\<lambda>t (nid, h). putNode S nid h t) t vs) = rng t"
  by (induction vs arbitrary: t) auto

lemma cache_inv_rng [simp]: "cache_inv L H ls (t\<lparr>rng := r\<rparr>) = cache_inv L H ls t"
  "store_inv holds ls (t\<lparr>rng := r\<rparr>) = store_inv holds ls t"
  by (simp_all add: cache_inv_def store_inv_def)

lemma cache_inv_get_leaf:
  assumes inv: "cache_inv L H ls t" and get: "lru_get i (leafLRU t) = Some (l, h)"
  shows "cache_inv L H ls (t\<lparr>leafLRU := l\<rparr>)" "h = ls ! unat i"
proof -
  have "lru_wf (leafLRU t)" using inv by (simp add: cache_inv_def)
  note g = lru_get_wf [OF this get]
  have all: "\<forall>(i, h) \<in> set (items (leafLRU t)). unat i < length ls \<and> h = ls ! unat i"
    using inv by (simp add: cache_inv_def)
  then show "h = ls ! unat i" using g(3) by blast
  have "\<forall>(i, h) \<in> set (items l). unat i < length ls \<and> h = ls ! unat i" using all g(4) by blast
  with inv g(1,2) show "cache_inv L H ls (t\<lparr>leafLRU := l\<rparr>)"
    by (simp add: cache_inv_def lru_within_def)
qed

lemma cache_inv_get_internal:
  assumes inv: "cache_inv L H ls t" and get: "lru_get nid (internal t) = Some (l, h)"
  shows "cache_inv L H ls (t\<lparr>internal := l\<rparr>)" "h = node_spec L H ls nid"
proof -
  have "lru_wf (internal t)" using inv by (simp add: cache_inv_def)
  note g = lru_get_wf [OF this get]
  have all: "\<forall>(nid, h) \<in> set (items (internal t)). node_complete L ls nid \<and> h = node_spec L H ls nid"
    using inv by (simp add: cache_inv_def)
  then show "h = node_spec L H ls nid" using g(3) by blast
  have "\<forall>(nid, h) \<in> set (items l). node_complete L ls nid \<and> h = node_spec L H ls nid"
    using all g(4) by blast
  with inv g(1,2) show "cache_inv L H ls (t\<lparr>internal := l\<rparr>)"
    by (simp add: cache_inv_def lru_within_def)
qed

context leaf_store
begin

lemma nodeHash_inv:
  assumes lib: "tdlib_ok L H rep" and inv: "tree_inv L H rep holds ls t"
    and cov: "node_covers L ls nid"
  obtains t' r where "nodeHash S nid t = (t', Inr r)" "tree_inv L H rep holds ls t'"
    "r = Some (node_spec L H ls nid) \<or> r = None \<and> Level nid \<noteq> 0"
proof (cases "Level nid = 0")
  case leaf: True
  note spec = leaf_spec [OF lib leaf cov]
  have ti: "cache_inv L H ls t" "store_inv holds ls t" "length ls \<le> 2 ^ 63"
    using inv by (auto simp: tree_inv_def)
  show ?thesis
  proof (cases "lru_get (Index nid) (leafLRU t)")
    case None
    have "holds (leafStore t) (of_nat (unat (Index nid))) (ls ! unat (Index nid))"
      using ti(2) spec(1) unfolding store_inv_def by blast
    then have "GetLeafHash S (leafStore t) (Index nid) = Inr (Some (ls ! unat (Index nid)))"
      using get_held by simp
    with None leaf spec(2)
    have eq: "nodeHash S nid t = (putLeaf S (Index nid) (ls ! unat (Index nid)) t, Inr (Some (node_spec L H ls nid)))"
      by (simp add: nodeHash_def)
    have "tree_inv L H rep holds ls (putLeaf S (Index nid) (ls ! unat (Index nid)) t)"
      using putLeaf_inv [OF ti spec(1) refl] inv by (simp add: tree_inv_def)
    with eq show ?thesis by (intro that) auto
  next
    case (Some p)
    obtain l h where p: "p = (l, h)" by force
    note c = cache_inv_get_leaf [OF ti(1) Some [unfolded p]]
    have "nodeHash S nid t = (t\<lparr>leafLRU := l\<rparr>, Inr (Some h))"
      using Some p leaf by (simp add: nodeHash_def)
    moreover have "tree_inv L H rep holds ls (t\<lparr>leafLRU := l\<rparr>)"
      using c(1) inv by (simp add: tree_inv_def store_inv_def)
    ultimately show ?thesis using c(2) spec(2) by (intro that) auto
  qed
next
  case inner: False
  show ?thesis
  proof (cases "lru_get nid (internal t)")
    case None
    with inner have "nodeHash S nid t = (t, Inr None)" by (simp add: nodeHash_def)
    with inner inv show ?thesis by (intro that) auto
  next
    case (Some p)
    obtain l h where p: "p = (l, h)" by force
    have "cache_inv L H ls t" using inv by (simp add: tree_inv_def)
    note c = cache_inv_get_internal [OF this Some [unfolded p]]
    have "nodeHash S nid t = (t\<lparr>internal := l\<rparr>, Inr (Some h))"
      using Some p inner by (simp add: nodeHash_def)
    moreover have "tree_inv L H rep holds ls (t\<lparr>internal := l\<rparr>)"
      using c(1) inv by (simp add: tree_inv_def store_inv_def)
    ultimately show ?thesis using c(2) by (intro that) auto
  qed
qed

lemma subRoot_leaf:
  assumes lib: "tdlib_ok L H rep" and inv: "tree_inv L H rep holds ls t" and i: "i < length ls"
  shows "\<exists>t'. subRoot H S t (of_nat i) (of_nat (Suc i)) = Some (t', Inr (ls ! i))
    \<and> tree_inv L H rep holds ls t'"
proof -
  have len: "length ls \<le> 2 ^ 63" using inv by (simp add: tree_inv_def)
  let ?nid = "\<lparr>Level = 0, Index = of_nat i\<rparr>"
  have u: "unat (of_nat i :: u64) = i" "unat (of_nat (Suc i) :: u64) = Suc i"
    using i len by (intro unat_of_nat_u64; simp)+
  have "lib_Coverage L ?nid = (of_nat i, of_nat i + 1)"
    using lib by (simp add: tdlib_ok_def)
  then have cov: "node_covers L ls ?nid"
    using i u by (simp add: node_covers_def add.commute)
  from nodeHash_inv [OF lib inv cov] obtain t' where
    "nodeHash S ?nid t = (t', Inr (Some (node_spec L H ls ?nid)))" "tree_inv L H rep holds ls t'"
    by auto
  moreover have "node_spec L H ls ?nid = ls ! i" using leaf_spec(2) [OF lib _ cov] u by simp
  ultimately show ?thesis by (subst subRoot.simps) (simp add: add.commute)
qed

lemma subRoot_spec:
  assumes lib: "tdlib_ok L H rep" and "tree_inv L H rep holds ls t"
    and "b < e" "e \<le> length ls"
  shows "\<exists>t'. subRoot H S t (of_nat b) (of_nat e) = Some (t', Inr (MTH H (slice ls b e)))
    \<and> tree_inv L H rep holds ls t'"
  using assms(2-)
proof (induction "e - b" arbitrary: t b e rule: less_induct)
  case less
  have len: "length ls \<le> 2 ^ 63" using less.prems(1) by (simp add: tree_inv_def)
  show ?case
  proof (cases "e = Suc b")
    case True
    with subRoot_leaf [OF lib less.prems(1), of b] less.prems show ?thesis by (simp add: slice_one)
  next
    case False
    define k where "k = pow2_below (e - b)"
    have span: "2 \<le> e - b" "e - b \<le> 2 ^ 63" using False less.prems len by auto
    have k: "0 < k" "k < e - b" using pow2_below_bounds [OF span(1)] by (auto simp: k_def)
    have "split_loop (of_nat e - of_nat b) 1 = Some (of_nat k)"
      using split_loop_span [OF span] less.prems(2) by (simp add: k_def of_nat_diff)
    moreover have "(of_nat b :: u64) + 1 \<noteq> of_nat e"
      using of_nat_eq_u64 [of "Suc b" e] False less.prems len by (simp add: add.commute)
    moreover obtain t1 where t1: "subRoot H S t (of_nat b) (of_nat (b + k)) =
        Some (t1, Inr (MTH H (slice ls b (b + k))))" "tree_inv L H rep holds ls t1"
      using less.hyps [of "b + k" b t] k less.prems by force
    moreover obtain t2 where t2: "subRoot H S t1 (of_nat (b + k)) (of_nat e) =
        Some (t2, Inr (MTH H (slice ls (b + k) e)))" "tree_inv L H rep holds ls t2"
      using less.hyps [of e "b + k" t1] k less.prems t1(2) by force
    moreover have "MTH H (slice ls b e) =
        HashChildren H (MTH H (slice ls b (b + k))) (MTH H (slice ls (b + k) e))"
      using MTH_split [of "slice ls b e" H] span less.prems(3) k
      by (simp add: length_slice take_slice drop_slice k_def)
    ultimately show ?thesis by (subst subRoot.simps) simp
  qed
qed

lemma computeNode_spec:
  assumes lib: "tdlib_ok L H rep" and inv: "tree_inv L H rep holds ls t"
    and cov: "node_covers L ls nid"
  shows "\<exists>t'. computeNode L H S nid t = Some (t', Inr (node_spec L H ls nid))
    \<and> tree_inv L H rep holds ls t'"
proof -
  obtain b e where be: "lib_Coverage L nid = (b, e)" by force
  have size: "Size L t = of_nat (length ls)" and len: "length ls \<le> 2 ^ 63"
    using lib inv by (auto simp: tdlib_ok_def tree_inv_def Size_def)
  have us: "unat (of_nat (length ls) :: u64) = length ls" using len by (intro unat_of_nat_u64) simp
  have c: "unat b < unat e" "unat b < length ls" using cov be by (auto simp: node_covers_def)
  define m where "m = min (unat e) (length ls)"
  have m: "(if e > Size L t then Size L t else e) = of_nat m"
    by (simp add: m_def size min_def word_less_nat_alt us)
  have "unat (of_nat m :: u64) = m" using len by (intro unat_of_nat_u64) (simp add: m_def)
  then have "\<not> of_nat m \<le> b" using c by (simp add: word_le_nat_alt m_def)
  moreover have "\<exists>t'. subRoot H S t (of_nat (unat b)) (of_nat m) =
      Some (t', Inr (MTH H (slice ls (unat b) m))) \<and> tree_inv L H rep holds ls t'"
    by (rule subRoot_spec [OF lib inv]) (use c in \<open>simp_all add: m_def\<close>)
  ultimately show ?thesis
    by (simp add: computeNode_def be m node_spec_def m_def [symmetric] Let_def del: not_le)
qed

lemma materialise_ids_spec:
  assumes lib: "tdlib_ok L H rep" and "tree_inv L H rep holds ls t"
    and "\<forall>nid\<in>set ids. node_covers L ls nid"
  shows "\<exists>t'. materialise_ids L H S ids t = Some (t', Inr (map (node_spec L H ls) ids))
    \<and> tree_inv L H rep holds ls t'"
  using assms(2-)
proof (induction ids arbitrary: t)
  case (Cons nid ids)
  have cov: "node_covers L ls nid" using Cons.prems(2) by simp
  obtain t0 r where n: "nodeHash S nid t = (t0, Inr r)" "tree_inv L H rep holds ls t0"
    and r: "r = Some (node_spec L H ls nid) \<or> r = None \<and> Level nid \<noteq> 0"
    by (rule nodeHash_inv [OF lib Cons.prems(1) cov])
  obtain t1 where step: "(case nodeHash S nid t of
          (t, Inl err) \<Rightarrow> Some (t, Inl err)
        | (t, Inr (Some h)) \<Rightarrow> Some (t, Inr h)
        | (t, Inr None) \<Rightarrow>
            Option.bind (computeNode L H S nid t) (\<lambda>(t, r).
              case r of Inl err \<Rightarrow> Some (t, Inl (MkMaterialise nid err))
              | Inr h \<Rightarrow> Some (t, Inr h))) = Some (t1, Inr (node_spec L H ls nid))"
    and t1: "tree_inv L H rep holds ls t1"
    using computeNode_spec [OF lib n(2) cov] n r by auto
  from Cons.IH [OF t1] Cons.prems(2) obtain t2 where
    "materialise_ids L H S ids t1 = Some (t2, Inr (map (node_spec L H ls) ids))"
    "tree_inv L H rep holds ls t2" by auto
  with step show ?case by simp
qed simp

lemma materialise_spec:
  assumes lib: "tdlib_ok L H rep" and "tree_inv L H rep holds ls t"
    and "\<forall>nid\<in>set (lib_IDs L nodes). node_covers L ls nid"
  shows "\<exists>t'. materialise L H S nodes t =
      Some (t', case lib_Rehash L H nodes (map (node_spec L H ls) (lib_IDs L nodes)) of
        None \<Rightarrow> Inl MkRehash | Some p \<Rightarrow> Inr p) \<and> tree_inv L H rep holds ls t'"
  using materialise_ids_spec [OF assms] by (auto simp: materialise_def)

lemma AppendLeafHash_inv:
  assumes lib: "tdlib_ok L H rep" and inv: "tree_inv L H rep holds ls t"
    and len: "length ls < 2 ^ 63"
    and held: "holds (PutLeafHash S (leafStore t) (of_nat (length ls)) h) (of_nat (length ls)) h"
  shows "\<exists>t'. AppendLeafHash L H S h t = Inr (t', of_nat (length ls))
    \<and> tree_inv L H rep holds (ls @ [h]) t'"
proof -
  let ?n = "of_nat (length ls) :: u64" and ?ls = "ls @ [h]"
  define t1 where "t1 = putLeaf S ?n h t"
  have un: "unat ?n = length ls" using len by (intro unat_of_nat_u64) simp
  have len': "length ?ls \<le> 2 ^ 63" using len by simp
  have eoi: "lib_End L (rng t) = ?n" using lib inv by (auto simp: tdlib_ok_def tree_inv_def)
  have ci: "cache_inv L H ?ls t" and si: "store_inv holds ls t"
    using inv cache_inv_append by (auto simp: tree_inv_def)
  have "cache_inv L H ?ls t1"
  proof -
    note put = lru_put_items [of "maxLeaf t" ?n h "leafLRU t"]
    have "\<forall>(i, g) \<in> set (items (leafLRU t)). unat i < length ?ls \<and> g = ?ls ! unat i"
      using ci by (simp add: cache_inv_def)
    then have "\<forall>(i, g) \<in> set (items (lru_put (maxLeaf t) ?n h (leafLRU t))).
        unat i < length ?ls \<and> g = ?ls ! unat i"
      using put un by fastforce
    with ci show ?thesis by (simp add: cache_inv_def t1_def putLeaf_def lru_put_wf)
  qed
  moreover have "store_inv holds ?ls t1"
  proof -
    have "holds (PutLeafHash S (leafStore t) ?n h) (of_nat j) (?ls ! j)" if "j < length ?ls" for j
    proof (cases "j = length ls")
      case True
      with held show ?thesis by simp
    next
      case False
      with that have j: "j < length ls" by simp
      then have "?n \<noteq> of_nat j" using len by (subst of_nat_eq_u64) simp_all
      moreover have "holds (leafStore t) (of_nat j) (ls ! j)" using si j by (simp add: store_inv_def)
      ultimately show ?thesis using j by (auto intro: put_keeps simp: nth_append)
    qed
    then show ?thesis by (simp add: store_inv_def t1_def putLeaf_def)
  qed
  moreover obtain r vs where r: "lib_Append L H (rng t) h = Some (r, vs)" "rep r ?ls"
    "\<forall>(nid, g) \<in> set vs. node_complete L ?ls nid \<and> g = node_spec L H ?ls nid"
  proof -
    have "rep (rng t) ls" using inv by (simp add: tree_inv_def)
    with lib len show ?thesis using that unfolding tdlib_ok_def by meson
  qed
  moreover define t2 where "t2 = foldl (\<lambda>t (nid, h). putNode S nid h t) (t1\<lparr>rng := r\<rparr>) vs"
  ultimately have "cache_inv L H ?ls t2 \<and> store_inv holds ?ls t2"
    using foldl_putNode_inv [OF lib len' r(3), of "t1\<lparr>rng := r\<rparr>"] by simp
  moreover have "rng t2 = r" by (simp add: t2_def)
  moreover have "AppendLeafHash L H S h t = Inr (t2, ?n)"
  proof -
    have "putNode S \<lparr>Level = 0, Index = ?n\<rparr> h t = t1" by (simp add: putNode_def t1_def)
    moreover have "rng t1 = rng t" by (simp add: t1_def)
    ultimately show ?thesis by (simp add: AppendLeafHash_def eoi Let_def r(1) t2_def)
  qed
  ultimately show ?thesis using len' r(2) by (simp add: tree_inv_def)
qed

end

subsection \<open>The in-memory leaf store\<close>

interpretation mem: leaf_store mem_store "\<lambda>m i h. m i = Some h"
  by unfold_locales (auto simp: mem_store_def mem_GetLeafHash_def mem_PutLeafHash_def)

subsection \<open>Any sequence of appends and proofs\<close>

text \<open>
  The states a tree goes through: it starts empty, and appends and proof requests follow in any
  order.  The list records the leaf hashes appended so far.
\<close>

inductive tree_run ::
    "('r, 'n) tdlib \<Rightarrow> LogHasher \<Rightarrow> 's LeafStore \<Rightarrow> ('r, 's) Tree \<Rightarrow> bytes list \<Rightarrow> ('r, 's) Tree \<Rightarrow> bool"
  for L H S t0 where
  start: "tree_run L H S t0 [] t0"
| append: "tree_run L H S t0 ls t \<Longrightarrow> AppendLeafHash L H S h t = Inr (t', i)
    \<Longrightarrow> tree_run L H S t0 (ls @ [h]) t'"
| inclusion: "tree_run L H S t0 ls t \<Longrightarrow> InclusionProof L H S idx n t = Some (t', r)
    \<Longrightarrow> tree_run L H S t0 ls t'"
| consistency: "tree_run L H S t0 ls t \<Longrightarrow> ConsistencyProof L H S m n t = Some (t', r)
    \<Longrightarrow> tree_run L H S t0 ls t'"

text \<open>
  The library's node lists name subtrees that start inside the tree they were asked for.
\<close>

definition tdlib_nodes_ok :: "('r, 'n) tdlib \<Rightarrow> bool" where
  "tdlib_nodes_ok L \<longleftrightarrow>
     (\<forall>i n nodes ls. lib_Inclusion L i n = Some nodes \<longrightarrow> unat n \<le> length ls \<longrightarrow>
        (\<forall>nid\<in>set (lib_IDs L nodes). node_covers L ls nid))
     \<and> (\<forall>m n nodes ls. lib_Consistency L m n = Some nodes \<longrightarrow> unat n \<le> length ls \<longrightarrow>
        (\<forall>nid\<in>set (lib_IDs L nodes). node_covers L ls nid))"

text \<open>The proofs as a function of the leaves alone, with every node hash recomputed.\<close>

definition rehash_spec ::
    "('r, 'n) tdlib \<Rightarrow> LogHasher \<Rightarrow> bytes list \<Rightarrow> 'n \<Rightarrow> merkle_error + bytes list" where
  "rehash_spec L H ls nodes =
     (case lib_Rehash L H nodes (map (node_spec L H ls) (lib_IDs L nodes)) of
        None \<Rightarrow> Inl MkRehash | Some p \<Rightarrow> Inr p)"

definition inclusion_spec ::
    "('r, 'n) tdlib \<Rightarrow> LogHasher \<Rightarrow> bytes list \<Rightarrow> u64 \<Rightarrow> u64 \<Rightarrow> merkle_error + bytes list" where
  "inclusion_spec L H ls idx n =
     (if n > of_nat (length ls) then Inl (MkTreeSizeExceeds n (of_nat (length ls)))
      else (case lib_Inclusion L idx n of None \<Rightarrow> Inl MkNodeList
            | Some nodes \<Rightarrow> rehash_spec L H ls nodes))"

definition consistency_spec ::
    "('r, 'n) tdlib \<Rightarrow> LogHasher \<Rightarrow> bytes list \<Rightarrow> u64 \<Rightarrow> u64 \<Rightarrow> merkle_error + bytes list" where
  "consistency_spec L H ls m n =
     (if m > n then Inl (MkOldExceedsNew m n)
      else if n > of_nat (length ls) then Inl (MkTreeSizeExceeds n (of_nat (length ls)))
      else if m = 0 \<or> m = n then Inr []
      else (case lib_Consistency L m n of None \<Rightarrow> Inl MkNodeList
            | Some nodes \<Rightarrow> rehash_spec L H ls nodes))"

lemma Size_inv:
  "tdlib_ok L H rep \<Longrightarrow> tree_inv L H rep holds ls t \<Longrightarrow> Size L t = of_nat (length ls)"
  by (auto simp: tdlib_ok_def tree_inv_def Size_def)

context leaf_store
begin

lemma InclusionProof_inv:
  assumes lib: "tdlib_ok L H rep" and nodes: "tdlib_nodes_ok L" and inv: "tree_inv L H rep holds ls t"
  shows "\<exists>t'. InclusionProof L H S idx n t = Some (t', inclusion_spec L H ls idx n)
    \<and> tree_inv L H rep holds ls t'"
proof (cases "n > of_nat (length ls) \<or> lib_Inclusion L idx n = None")
  case True
  with inv show ?thesis
    by (auto simp: InclusionProof_def inclusion_spec_def Size_inv [OF lib inv])
next
  case False
  then obtain ns where ns: "lib_Inclusion L idx n = Some ns" and n: "\<not> n > of_nat (length ls)" by auto
  have "length ls \<le> 2 ^ 63" using inv by (simp add: tree_inv_def)
  with n have "unat n \<le> length ls" by (simp add: not_less word_le_nat_alt unat_of_nat_u64)
  with nodes ns have "\<forall>nid\<in>set (lib_IDs L ns). node_covers L ls nid"
    unfolding tdlib_nodes_ok_def by blast
  from materialise_spec [OF lib inv this] ns n show ?thesis
    by (auto simp: InclusionProof_def inclusion_spec_def rehash_spec_def Size_inv [OF lib inv])
qed

lemma ConsistencyProof_inv:
  assumes lib: "tdlib_ok L H rep" and nodes: "tdlib_nodes_ok L" and inv: "tree_inv L H rep holds ls t"
  shows "\<exists>t'. ConsistencyProof L H S m n t = Some (t', consistency_spec L H ls m n)
    \<and> tree_inv L H rep holds ls t'"
proof (cases "m > n \<or> n > of_nat (length ls) \<or> m = 0 \<or> m = n \<or> lib_Consistency L m n = None")
  case True
  with inv show ?thesis
    by (auto simp: ConsistencyProof_def consistency_spec_def Size_inv [OF lib inv])
next
  case False
  then obtain ns where ns: "lib_Consistency L m n = Some ns" and n: "\<not> n > of_nat (length ls)" by auto
  have "length ls \<le> 2 ^ 63" using inv by (simp add: tree_inv_def)
  with n have "unat n \<le> length ls" by (simp add: not_less word_le_nat_alt unat_of_nat_u64)
  with nodes ns have "\<forall>nid\<in>set (lib_IDs L ns). node_covers L ls nid"
    unfolding tdlib_nodes_ok_def by blast
  from materialise_spec [OF lib inv this] False ns show ?thesis
    by (auto simp: ConsistencyProof_def consistency_spec_def rehash_spec_def Size_inv [OF lib inv])
qed

end

lemma NewTree_inv:
  assumes "tdlib_ok L H rep"
  shows "tree_inv L H rep holds [] (NewBoundedTreeWithStore L m k s)"
  using assms
  by (simp add: tree_inv_def tdlib_ok_def cache_inv_def store_inv_def NewBoundedTreeWithStore_def)
    (simp add: lru_empty_def)

lemma mem_put_held:
  "PutLeafHash mem_store m i h i = Some h"
  by (simp add: mem_store_def mem_PutLeafHash_def)

lemma mem_run_inv:
  assumes lib: "tdlib_ok L H rep" and nodes: "tdlib_nodes_ok L"
    and "tree_run L H mem_store (NewBoundedTreeWithStore L m k Map.empty) ls t"
    and "length ls \<le> 2 ^ 63"
  shows "tree_inv L H rep (\<lambda>m i h. m i = Some h) ls t"
  using assms(3,4)
proof (induction rule: tree_run.induct)
  case start
  show ?case by (rule NewTree_inv [OF lib])
next
  case (append ls t h t' i)
  then have inv: "tree_inv L H rep (\<lambda>m i h. m i = Some h) ls t" and "length ls < 2 ^ 63" by simp_all
  from mem.AppendLeafHash_inv [OF lib this mem_put_held, of h] append.hyps(2) show ?case by auto
next
  case (inclusion ls t idx n t' r)
  then have "tree_inv L H rep (\<lambda>m i h. m i = Some h) ls t" by simp
  from mem.InclusionProof_inv [OF lib nodes this, of idx n] inclusion.hyps(2) show ?case by auto
next
  case (consistency ls t m' n t' r)
  then have "tree_inv L H rep (\<lambda>m i h. m i = Some h) ls t" by simp
  from mem.ConsistencyProof_inv [OF lib nodes this, of m' n] consistency.hyps(2) show ?case by auto
qed

text \<open>
  C33.  Eviction is invisible.  Whatever the caps of the two caches, and after any sequence of
  appends and proof requests, an inclusion or a consistency proof always returns, and its value
  is the one computed from the appended leaves alone, with every node hash the RFC 6962 hash of
  the leaves it covers.
\<close>

theorem tree_proofs_spec:
  assumes "tdlib_ok L H rep" and "tdlib_nodes_ok L"
    and "tree_run L H mem_store (NewBoundedTreeWithStore L m k Map.empty) ls t"
    and "length ls \<le> 2 ^ 63"
  shows "(\<exists>t'. InclusionProof L H mem_store idx n t = Some (t', inclusion_spec L H ls idx n))
    \<and> (\<exists>t'. ConsistencyProof L H mem_store old n t = Some (t', consistency_spec L H ls old n))"
  using mem.InclusionProof_inv [OF assms(1,2) mem_run_inv [OF assms], of idx n]
    mem.ConsistencyProof_inv [OF assms(1,2) mem_run_inv [OF assms], of old n] by blast

text \<open>
  After any sequence of appends and proof requests the tree's size is the number of leaves
  appended, its root is their RFC 6962 tree hash, and each cache with a positive cap holds at
  most that many hashes.
\<close>

theorem tree_root_and_caches:
  assumes "tdlib_ok L H rep" and "tdlib_nodes_ok L"
    and "tree_run L H mem_store (NewBoundedTreeWithStore L m k Map.empty) ls t"
    and "length ls \<le> 2 ^ 63"
  shows "Size L t = of_nat (length ls) \<and> Root L H t = Inr (MTH H ls)
    \<and> lru_within (maxLeaf t) (leafLRU t) \<and> lru_within (maxInternal t) (internal t)"
proof -
  note inv = mem_run_inv [OF assms]
  have "Root L H t = Inr (MTH H ls)"
  proof (cases "ls = []")
    case True
    then show ?thesis by (simp add: Root_def Size_inv [OF assms(1) inv] MTH.simps)
  next
    case False
    then have "(of_nat (length ls) :: u64) \<noteq> 0"
      using of_nat_eq_u64 [of "length ls" 0] assms(4) by simp
    moreover have "rep (rng t) ls" using inv by (simp add: tree_inv_def)
    then have "lib_GetRootHash L H (rng t) = Some (MTH H ls)"
      using assms(1,4) False unfolding tdlib_ok_def by blast
    ultimately show ?thesis by (simp add: Root_def Size_inv [OF assms(1) inv])
  qed
  with inv show ?thesis by (simp add: Size_inv [OF assms(1) inv] tree_inv_def cache_inv_def)
qed

text \<open>
  C37.  \<open>subRoot\<close> terminates on every non-empty range of at most \<open>2^63\<close> leaves, and equals
  the RFC 6962 tree hash of that range: the doubling loop finds the largest power of two below
  the span without wrapping around.
\<close>

theorem subRoot_is_MTH:
  assumes "tdlib_ok L H rep" and "tdlib_nodes_ok L"
    and "tree_run L H mem_store (NewBoundedTreeWithStore L m k Map.empty) ls t"
    and "length ls \<le> 2 ^ 63" and "b < e" and "e \<le> length ls"
  shows "\<exists>t'. subRoot H mem_store t (of_nat b) (of_nat e) = Some (t', Inr (MTH H (slice ls b e)))"
  using mem.subRoot_spec [OF assms(1) mem_run_inv [OF assms(1-4)] assms(5,6)] by blast

subsection \<open>A concrete library, for witnesses\<close>

text \<open>
  A range that keeps its leaves, reports the nodes each append completes, and whose node lists
  name single leaves.  It satisfies what the library documents; it is not part of the program.
\<close>

definition sample_nodes :: "bytes list \<Rightarrow> (NodeID \<times> bytes) list" where
  "sample_nodes ls = [(\<lparr>Level = 0, Index = of_nat (length ls - 1)\<rparr>, last ls)]"

definition sample_tdlib :: "(bytes list, NodeID list) tdlib" where
  "sample_tdlib =
     \<lparr>lib_NewEmptyRange = [], lib_End = (\<lambda>r. of_nat (length r)),
      lib_Append = (\<lambda>H r h. Some (r @ [h], sample_nodes (r @ [h]))),
      lib_GetRootHash = (\<lambda>H r. Some (MTH H r)),
      lib_Coverage = (\<lambda>nid. (push_bit (Level nid) (Index nid), push_bit (Level nid) (Index nid + 1))),
      lib_Inclusion = (\<lambda>i n. if i + 1 < n then Some [\<lparr>Level = 0, Index = i + 1\<rparr>] else if i < n then Some [] else None),
      lib_Consistency = (\<lambda>m n. if m < n then Some [\<lparr>Level = 0, Index = m\<rparr>] else None),
      lib_IDs = (\<lambda>ns. ns), lib_Rehash = (\<lambda>H ns hs. Some hs),
      lib_VerifyInclusion = (\<lambda>H i n h p r. i < n), lib_VerifyConsistency = (\<lambda>H m n p r s. m \<le> n)\<rparr>"

lemma sample_coverage:
  "lib_Coverage sample_tdlib \<lparr>Level = 0, Index = i\<rparr> = (i, i + 1)"
  by (simp add: sample_tdlib_def)

lemma sample_tdlib_sel:
  "lib_Inclusion sample_tdlib i n = (if i + 1 < n then Some [\<lparr>Level = 0, Index = i + 1\<rparr>] else if i < n then Some [] else None)"
  "lib_Consistency sample_tdlib m n = (if m < n then Some [\<lparr>Level = 0, Index = m\<rparr>] else None)"
  "lib_IDs sample_tdlib ns = ns" "lib_Rehash sample_tdlib H ns hs = Some hs"
  by (simp_all add: sample_tdlib_def)

lemma sample_covers:
  assumes "unat i < length ls" "length ls \<le> 2 ^ 63"
  shows "node_complete sample_tdlib ls \<lparr>Level = 0, Index = i\<rparr>"
    and "node_spec sample_tdlib H ls \<lparr>Level = 0, Index = i\<rparr> = ls ! unat i"
proof -
  have "unat (i + 1) = Suc (unat i)"
    using assms unat_of_nat_u64 [of "Suc (unat i)"] by (simp add: add.commute)
  with assms show "node_complete sample_tdlib ls \<lparr>Level = 0, Index = i\<rparr>"
    and "node_spec sample_tdlib H ls \<lparr>Level = 0, Index = i\<rparr> = ls ! unat i"
    by (simp_all add: node_complete_def node_spec_def sample_coverage slice_one min_def)
qed

lemma sample_tdlib_ok: "tdlib_ok sample_tdlib H (\<lambda>r ls. r = ls)"
proof -
  have "node_complete sample_tdlib (ls @ [h]) nid \<and> g = node_spec sample_tdlib H (ls @ [h]) nid"
    if "length ls < 2 ^ 63" "(nid, g) \<in> set (sample_nodes (ls @ [h]))" for ls h nid g
  proof -
    have "unat (of_nat (length ls) :: u64) = length ls" using that(1) by (intro unat_of_nat_u64) simp
    then show ?thesis
      using sample_covers(1) [of "of_nat (length ls)" "ls @ [h]"]
        sample_covers(2) [of "of_nat (length ls)" "ls @ [h]" H] that
      by (simp add: sample_nodes_def)
  qed
  then show ?thesis
    unfolding tdlib_ok_def sample_coverage by (auto simp: sample_tdlib_def)
qed

lemma sample_nodes_cover:
  assumes "i < n" "unat n \<le> length ls"
  shows "node_covers sample_tdlib ls \<lparr>Level = 0, Index = i\<rparr>"
proof -
  have "unat i < unat n" using assms(1) by (simp add: word_less_nat_alt)
  moreover have "unat (i + 1) = Suc (unat i)"
    by (rule unat_plus_one [OF assms(1)])
  ultimately show ?thesis using assms(2) by (simp add: node_covers_def sample_coverage)
qed

lemma sample_tdlib_nodes_ok: "tdlib_nodes_ok sample_tdlib"
  unfolding tdlib_nodes_ok_def
proof (intro conjI allI impI ballI)
  show "node_covers sample_tdlib ls nid"
    if "lib_Inclusion sample_tdlib i n = Some nodes" "unat n \<le> length ls"
      "nid \<in> set (lib_IDs sample_tdlib nodes)" for i n nodes ls nid
    using that sample_nodes_cover [of "i + 1" n ls] by (auto simp: sample_tdlib_sel split: if_splits)
  show "node_covers sample_tdlib ls nid"
    if "lib_Consistency sample_tdlib m n = Some nodes" "unat n \<le> length ls"
      "nid \<in> set (lib_IDs sample_tdlib nodes)" for m n nodes ls nid
    using that sample_nodes_cover [of m n ls] by (auto simp: sample_tdlib_sel split: if_splits)
qed

definition sample_tree0 :: "(bytes list, memLeafStore) Tree" where
  "sample_tree0 = NewBoundedTreeWithStore sample_tdlib 1 1 Map.empty"

definition sample_tree1 :: "(bytes list, memLeafStore) Tree" where
  "sample_tree1 = fst (projr (AppendLeafHash sample_tdlib rfc6962 mem_store [1] sample_tree0))"

definition sample_tree2 :: "(bytes list, memLeafStore) Tree" where
  "sample_tree2 = fst (projr (AppendLeafHash sample_tdlib rfc6962 mem_store [2] sample_tree1))"

lemma sample_AppendLeafHash:
  "AppendLeafHash sample_tdlib H S h t =
     Inr (fst (projr (AppendLeafHash sample_tdlib H S h t)), of_nat (length (rng t)))"
  by (simp add: AppendLeafHash_def sample_tdlib_def Let_def)

lemma sample_run: "tree_run sample_tdlib rfc6962 mem_store sample_tree0 [[1], [2]] sample_tree2"
proof -
  have "tree_run sample_tdlib rfc6962 mem_store sample_tree0 ([] @ [[1]]) sample_tree1"
    unfolding sample_tree1_def by (rule tree_run.append [OF tree_run.start sample_AppendLeafHash])
  from tree_run.append [OF this sample_AppendLeafHash, of "[2]"]
  show ?thesis by (simp add: sample_tree2_def)
qed

lemmas sample_run_facts =
  sample_tdlib_ok [of rfc6962] sample_tdlib_nodes_ok sample_run [unfolded sample_tree0_def]

theorem tree_proofs_spec_witness:
  "(\<exists>t'. InclusionProof sample_tdlib rfc6962 mem_store 0 2 sample_tree2 = Some (t', Inr [[2]]))
   \<and> (\<exists>t'. ConsistencyProof sample_tdlib rfc6962 mem_store 1 2 sample_tree2 = Some (t', Inr [[2]]))"
proof -
  have "node_spec sample_tdlib rfc6962 [[1], [2]] \<lparr>Level = 0, Index = 1\<rparr> = [2]"
    using sample_covers(2) [of 1 "[[1], [2]]" rfc6962] by simp
  then have "inclusion_spec sample_tdlib rfc6962 [[1], [2]] 0 2 = Inr [[2]]"
    and "consistency_spec sample_tdlib rfc6962 [[1], [2]] 1 2 = Inr [[2]]"
    by (simp_all add: inclusion_spec_def consistency_spec_def rehash_spec_def sample_tdlib_sel)
  with tree_proofs_spec [OF sample_run_facts, of 0 2 1] show ?thesis by simp
qed

theorem tree_root_and_caches_witness:
  "Size sample_tdlib sample_tree2 = 2
   \<and> Root sample_tdlib rfc6962 sample_tree2 = Inr (MTH rfc6962 [[1], [2]])
   \<and> lru_within (maxLeaf sample_tree2) (leafLRU sample_tree2)"
  using tree_root_and_caches [OF sample_run_facts] by simp

theorem subRoot_is_MTH_witness:
  "\<exists>t'. subRoot rfc6962 mem_store sample_tree2 0 2 = Some (t', Inr (MTH rfc6962 [[1], [2]]))"
  using subRoot_is_MTH [OF sample_run_facts, of 0 2] by (simp add: slice_def)

end
