(* ===== verification/Keystore.thy ===== *)
theory Keystore
  imports Crypto
begin

text \<open>
  \<open>pkg/fwdsec/keystore.go\<close>: the interfaces \<open>KeyStore\<close> and \<open>LiveKey\<close> and the file-backed
  implementation.  The interface is a record of operations over a world \<open>'w\<close> and key handles
  \<open>'k\<close>; the locale \<open>key_store\<close> is its contract, and \<open>FileKeyStore\<close> interprets it.  The
  world of the file store holds the key objects of the process (a handle is the address of a
  \<open>fileLiveKey\<close>), the key directory, and the environment: random seeds, file names and which
  system calls fail.  A key file is represented by the keys it encodes; its base64 text is not
  modelled.
\<close>

section \<open>Definitions\<close>

subsection \<open>The interfaces\<close>

datatype keystore_error =
    KsKeygen
  | KsWrite
  | KsEmptyLocator
  | KsRead string
  | KsDecode
  | KsKeyLength nat
  | KsDestroyed
  | KsNotHybrid
  | KsOverwrite
  | KsRemove
  | KsRandom

record ('w, 'k) KeyStore =
  ks_Generate :: "'w \<Rightarrow> 'w \<times> (keystore_error + 'k)"
  ks_Load :: "'w \<Rightarrow> string \<Rightarrow> 'w \<times> (keystore_error + 'k)"
  lk_Public :: "'w \<Rightarrow> 'k \<Rightarrow> bytes"
  lk_Sign :: "'w \<Rightarrow> 'k \<Rightarrow> bytes \<Rightarrow> keystore_error + bytes"
  lk_Locator :: "'w \<Rightarrow> 'k \<Rightarrow> string"
  lk_Destroy :: "'w \<Rightarrow> 'k \<Rightarrow> 'w \<times> keystore_error option"
  lk_QuantumPublic :: "'w \<Rightarrow> 'k \<Rightarrow> bytes"
  lk_QuantumSign :: "'w \<Rightarrow> 'k \<Rightarrow> bytes \<Rightarrow> keystore_error + bytes"

subsection \<open>The file-backed store\<close>

datatype KeyFile =
    ClassicalFile bytes
  | HybridFile bytes bytes
  | NoiseFile

record fileLiveKey =
  flk_priv :: bytes
  flk_pub :: bytes
  flk_path :: string
  flk_qPriv :: "bytes option"
  flk_qPub :: bytes

text \<open>
  \<open>env_seed n\<close>, \<open>env_qseed n\<close> and \<open>env_name n\<close> are what the random source and the clock give
  to the n-th generation; \<open>env_fail n\<close> says whether the n-th system call fails.
\<close>

record FileWorld =
  fw_heap :: "fileLiveKey list"
  fw_disk :: "string \<rightharpoonup> KeyFile"
  fw_gen :: nat
  fw_call :: nat
  env_seed :: "nat \<Rightarrow> bytes"
  env_qseed :: "nat \<Rightarrow> bytes"
  env_name :: "nat \<Rightarrow> string"
  env_fail :: "nat \<Rightarrow> bool"

text \<open>One system call: whether it fails, and the next state of the environment.\<close>

definition syscall :: "FileWorld \<Rightarrow> FileWorld \<times> bool" where
  "syscall w = (w\<lparr>fw_call := fw_call w + 1\<rparr>, \<not> env_fail w (fw_call w))"

definition encodePrivate :: "fileLiveKey \<Rightarrow> KeyFile" where
  "encodePrivate k =
     (case flk_qPriv k of None \<Rightarrow> ClassicalFile (flk_priv k)
      | Some q \<Rightarrow> HybridFile (flk_priv k) q)"

definition alloc :: "FileWorld \<Rightarrow> fileLiveKey \<Rightarrow> FileWorld \<times> nat" where
  "alloc w k = (w\<lparr>fw_heap := fw_heap w @ [k]\<rparr>, length (fw_heap w))"

definition file_Generate :: "crypto \<Rightarrow> bool \<Rightarrow> FileWorld \<Rightarrow> FileWorld \<times> (keystore_error + nat)" where
  "file_Generate C hybrid w =
     (let n = fw_gen w; w = w\<lparr>fw_gen := n + 1\<rparr>; (w, ok) = syscall w
      in if \<not> ok then (w, Inl KsKeygen)
      else let priv = ed_newkey C (env_seed w n);
          live = \<lparr>flk_priv = priv, flk_pub = ed_Public priv, flk_path = env_name w n,
                  flk_qPriv = None, flk_qPub = []\<rparr>;
          (w, ok) = (if hybrid then syscall w else (w, True))
      in if \<not> ok then (w, Inl KsKeygen)
      else let live = (if hybrid
               then let (qPub, qPriv) = d3_newkey C (env_qseed w n)
                    in live\<lparr>flk_qPriv := Some qPriv, flk_qPub := qPub\<rparr>
               else live);
          (w, ok) = syscall w
      in if \<not> ok then (w, Inl KsWrite)
      else let w = w\<lparr>fw_disk := (fw_disk w)(flk_path live \<mapsto> encodePrivate live)\<rparr>;
               (w, h) = alloc w live
           in (w, Inr h))"

text \<open>
  \<open>d3_public\<close> is \<open>PrivateKey.Public\<close> of the Dilithium3 package on packed keys, \<open>None\<close> when
  the private key does not unmarshal.
\<close>

definition file_Load ::
    "(bytes \<Rightarrow> bytes option) \<Rightarrow> FileWorld \<Rightarrow> string \<Rightarrow> FileWorld \<times> (keystore_error + nat)" where
  "file_Load d3_public w locator =
     (if locator = [] then (w, Inl KsEmptyLocator)
      else let (w, ok) = syscall w
      in if \<not> ok then (w, Inl (KsRead locator))
      else case fw_disk w locator of
        None \<Rightarrow> (w, Inl (KsRead locator))
      | Some NoiseFile \<Rightarrow> (w, Inl KsDecode)
      | Some (ClassicalFile raw) \<Rightarrow>
          if length raw \<noteq> ed25519_PrivateKeySize then (w, Inl (KsKeyLength (length raw)))
          else let (w, h) = alloc w \<lparr>flk_priv = raw, flk_pub = ed_Public raw, flk_path = locator,
                                     flk_qPriv = None, flk_qPub = []\<rparr>
               in (w, Inr h)
      | Some (HybridFile ed d) \<Rightarrow>
          if length ed \<noteq> ed25519_PrivateKeySize then (w, Inl (KsKeyLength (length ed)))
          else (case d3_public d of None \<Rightarrow> (w, Inl KsDecode)
                | Some qPub \<Rightarrow>
                    let (w, h) = alloc w \<lparr>flk_priv = ed, flk_pub = ed_Public ed, flk_path = locator,
                                          flk_qPriv = Some d, flk_qPub = qPub\<rparr>
                    in (w, Inr h)))"

definition flk_Sign :: "crypto \<Rightarrow> FileWorld \<Rightarrow> nat \<Rightarrow> bytes \<Rightarrow> keystore_error + bytes" where
  "flk_Sign C w h msg =
     (let k = fw_heap w ! h
      in if flk_priv k = [] then Inl KsDestroyed else Inr (ed_sign C (flk_priv k) msg))"

definition flk_QuantumSign :: "crypto \<Rightarrow> FileWorld \<Rightarrow> nat \<Rightarrow> bytes \<Rightarrow> keystore_error + bytes" where
  "flk_QuantumSign C w h msg =
     (case flk_qPriv (fw_heap w ! h) of None \<Rightarrow> Inl KsNotHybrid
      | Some q \<Rightarrow> Inr (d3_sign C q msg))"

text \<open>
  \<open>Destroy\<close> overwrites and removes the key file when \<open>os.Stat\<close> finds it, keeps the first error,
  and forgets the key in memory whatever happened on disk.  When \<open>os.Stat\<close> fails, for whatever
  reason, the file is left alone and no error is reported.
\<close>

definition flk_Destroy :: "FileWorld \<Rightarrow> nat \<Rightarrow> FileWorld \<times> keystore_error option" where
  "flk_Destroy w h =
     (let k = fw_heap w ! h;
          (w, err) =
            (if flk_path k \<noteq> [] then
               let (w, st) = syscall w
               in if st \<and> fw_disk w (flk_path k) \<noteq> None then
                    let (w, rnd) = syscall w;
                        err = (if rnd then None else Some KsRandom);
                        (w, wr) = syscall w;
                        w = (if wr then w\<lparr>fw_disk := (fw_disk w)(flk_path k \<mapsto> NoiseFile)\<rparr> else w);
                        err = (if \<not> wr \<and> err = None then Some KsOverwrite else err);
                        (w, rm) = syscall w;
                        w = (if rm then w\<lparr>fw_disk := (fw_disk w)(flk_path k := None)\<rparr> else w);
                        err = (if \<not> rm \<and> err = None then Some KsRemove else err)
                    in (w, err)
                  else (w, None)
             else (w, None))
      in (w\<lparr>fw_heap := (fw_heap w)[h := k\<lparr>flk_priv := [], flk_qPriv := None\<rparr>]\<rparr>, err))"

definition file_store :: "crypto \<Rightarrow> (bytes \<Rightarrow> bytes option) \<Rightarrow> bool \<Rightarrow> (FileWorld, nat) KeyStore" where
  "file_store C d3_public hybrid =
     \<lparr>ks_Generate = file_Generate C hybrid, ks_Load = file_Load d3_public,
      lk_Public = (\<lambda>w h. flk_pub (fw_heap w ! h)), lk_Sign = flk_Sign C,
      lk_Locator = (\<lambda>w h. flk_path (fw_heap w ! h)), lk_Destroy = flk_Destroy,
      lk_QuantumPublic = (\<lambda>w h. flk_qPub (fw_heap w ! h)), lk_QuantumSign = flk_QuantumSign C\<rparr>"

section \<open>The contract\<close>

text \<open>A key is as it was: the same public halves and the same locator.\<close>

definition same_key :: "('w, 'k) KeyStore \<Rightarrow> 'w \<Rightarrow> 'w \<Rightarrow> 'k \<Rightarrow> bool" where
  "same_key KS w w' k \<longleftrightarrow> lk_Public KS w' k = lk_Public KS w k
     \<and> lk_QuantumPublic KS w' k = lk_QuantumPublic KS w k \<and> lk_Locator KS w' k = lk_Locator KS w k"

text \<open>
  What the forward-secure signer relies on.  \<open>usable w k\<close> says that \<open>k\<close> can sign and is on
  disk.  A generated key is usable and has a locator of its own; a usable key signs messages that
  verify under its public halves; a destroyed key signs nothing, and a successful destruction in
  a world where the store finds the key (\<open>finds w k\<close>) leaves nothing to load; no operation disturbs
  a key with another locator.
\<close>

locale key_store =
  fixes C :: crypto and KS :: "('w, 'k) KeyStore"
    and wf :: "'w \<Rightarrow> bool" and usable :: "'w \<Rightarrow> 'k \<Rightarrow> bool" and finds :: "'w \<Rightarrow> 'k \<Rightarrow> bool"
  assumes generate_wf: "wf w \<Longrightarrow> wf (fst (ks_Generate KS w))"
    and generate_usable: "wf w \<Longrightarrow> ks_Generate KS w = (w', Inr k) \<Longrightarrow> usable w' k"
    and generate_keeps: "wf w \<Longrightarrow> usable w k0 \<Longrightarrow>
      usable (fst (ks_Generate KS w)) k0 \<and> same_key KS w (fst (ks_Generate KS w)) k0"
    and generate_fresh: "wf w \<Longrightarrow> usable w k0 \<Longrightarrow> ks_Generate KS w = (w', Inr k) \<Longrightarrow>
      k \<noteq> k0 \<and> lk_Locator KS w' k \<noteq> lk_Locator KS w k0"
    and sign: "wf w \<Longrightarrow> usable w k \<Longrightarrow> length (lk_Public KS w k) = 32
      \<and> (\<exists>s. lk_Sign KS w k m = Inr s \<and> ed25519_Verify C (lk_Public KS w k) m s)"
    and quantum_sign: "wf w \<Longrightarrow> usable w k \<Longrightarrow> lk_QuantumPublic KS w k \<noteq> [] \<Longrightarrow>
      length (lk_QuantumPublic KS w k) = 1952 \<and> d3_decode C (lk_QuantumPublic KS w k)
      \<and> (\<exists>s. lk_QuantumSign KS w k m = Inr s \<and> length s = 3293
             \<and> d3_verify C (lk_QuantumPublic KS w k) m s)"
    and destroy_wf: "wf w \<Longrightarrow> usable w k \<Longrightarrow> wf (fst (lk_Destroy KS w k))"
    and destroy_dead: "wf w \<Longrightarrow> usable w k \<Longrightarrow>
      (\<exists>e. lk_Sign KS (fst (lk_Destroy KS w k)) k m = Inl e)
      \<and> (\<exists>e. lk_QuantumSign KS (fst (lk_Destroy KS w k)) k m = Inl e)"
    and destroy_gone: "wf w \<Longrightarrow> usable w k \<Longrightarrow> lk_Destroy KS w k = (w', None) \<Longrightarrow> finds w k \<Longrightarrow>
      \<exists>w'' e. ks_Load KS w' (lk_Locator KS w k) = (w'', Inl e)"
    and destroy_keeps: "wf w \<Longrightarrow> usable w k \<Longrightarrow> usable w k0 \<Longrightarrow>
      lk_Locator KS w k0 \<noteq> lk_Locator KS w k \<Longrightarrow>
      usable (fst (lk_Destroy KS w k)) k0 \<and> same_key KS w (fst (lk_Destroy KS w k)) k0"

section \<open>The file store keeps the contract\<close>

text \<open>
  The environment gives every generated key a file name of its own and proper seeds, and every
  key object and key file has one of the names given out so far.
\<close>

definition env_ok :: "crypto \<Rightarrow> bool \<Rightarrow> FileWorld \<Rightarrow> bool" where
  "env_ok C hybrid w \<longleftrightarrow> inj (env_name w)
     \<and> (\<forall>n. env_name w n \<noteq> [] \<and> ed_correct C (ed_newkey C (env_seed w n))
          \<and> (hybrid \<longrightarrow> d3_correct C (fst (d3_newkey C (env_qseed w n))) (snd (d3_newkey C (env_qseed w n)))))"

definition file_wf :: "crypto \<Rightarrow> bool \<Rightarrow> FileWorld \<Rightarrow> bool" where
  "file_wf C hybrid w \<longleftrightarrow> env_ok C hybrid w
     \<and> (\<forall>k\<in>set (fw_heap w). flk_path k \<in> env_name w ` {..<fw_gen w})"

definition key_ok :: "crypto \<Rightarrow> fileLiveKey \<Rightarrow> bool" where
  "key_ok C k \<longleftrightarrow> ed_correct C (flk_priv k) \<and> flk_pub k = ed_Public (flk_priv k)
     \<and> (case flk_qPriv k of None \<Rightarrow> flk_qPub k = [] | Some q \<Rightarrow> d3_correct C (flk_qPub k) q)"

definition file_usable :: "crypto \<Rightarrow> FileWorld \<Rightarrow> nat \<Rightarrow> bool" where
  "file_usable C w h \<longleftrightarrow> h < length (fw_heap w) \<and> key_ok C (fw_heap w ! h)
     \<and> fw_disk w (flk_path (fw_heap w ! h)) = Some (encodePrivate (fw_heap w ! h))"

definition same_env :: "FileWorld \<Rightarrow> FileWorld \<Rightarrow> bool" where
  "same_env w w' \<longleftrightarrow> env_seed w' = env_seed w \<and> env_qseed w' = env_qseed w
     \<and> env_name w' = env_name w \<and> env_fail w' = env_fail w"

definition new_key :: "crypto \<Rightarrow> bool \<Rightarrow> FileWorld \<Rightarrow> fileLiveKey" where
  "new_key C hybrid w =
     (let n = fw_gen w; priv = ed_newkey C (env_seed w n)
      in \<lparr>flk_priv = priv, flk_pub = ed_Public priv, flk_path = env_name w n,
          flk_qPriv = (if hybrid then Some (snd (d3_newkey C (env_qseed w n))) else None),
          flk_qPub = (if hybrid then fst (d3_newkey C (env_qseed w n)) else [])\<rparr>)"

lemma syscall_same [simp]:
  "fw_heap (fst (syscall w)) = fw_heap w" "fw_disk (fst (syscall w)) = fw_disk w"
  "fw_gen (fst (syscall w)) = fw_gen w" "env_name (fst (syscall w)) = env_name w"
  "env_seed (fst (syscall w)) = env_seed w" "env_qseed (fst (syscall w)) = env_qseed w"
  "env_fail (fst (syscall w)) = env_fail w"
  by (simp_all add: syscall_def)

lemma file_Generate_result:
  "(\<exists>e. snd (file_Generate C hybrid w) = Inl e) \<and> fw_heap (fst (file_Generate C hybrid w)) = fw_heap w
     \<and> fw_disk (fst (file_Generate C hybrid w)) = fw_disk w
   \<or> snd (file_Generate C hybrid w) = Inr (length (fw_heap w))
     \<and> fw_heap (fst (file_Generate C hybrid w)) = fw_heap w @ [new_key C hybrid w]
     \<and> fw_disk (fst (file_Generate C hybrid w)) =
        (fw_disk w)(flk_path (new_key C hybrid w) \<mapsto> encodePrivate (new_key C hybrid w))"
  by (cases hybrid) (auto simp: file_Generate_def syscall_def alloc_def new_key_def Let_def split: prod.splits)

lemma file_Generate_env:
  "same_env w (fst (file_Generate C hybrid w))" "fw_gen (fst (file_Generate C hybrid w)) = fw_gen w + 1"
  by (cases hybrid; auto simp: file_Generate_def syscall_def alloc_def same_env_def Let_def split: prod.splits)+

lemma env_ok_same: "same_env w w' \<Longrightarrow> env_ok C hybrid w' = env_ok C hybrid w"
  by (simp add: env_ok_def same_env_def)

lemma new_key_path: "flk_path (new_key C hybrid w) = env_name w (fw_gen w)"
  by (simp add: new_key_def Let_def)

lemma new_key_ok: "env_ok C hybrid w \<Longrightarrow> key_ok C (new_key C hybrid w)"
  by (auto simp: env_ok_def key_ok_def new_key_def Let_def)

lemma new_key_fresh:
  assumes "file_wf C hybrid w" "k \<in> set (fw_heap w)"
  shows "flk_path (new_key C hybrid w) \<noteq> flk_path k"
proof
  assume eq: "flk_path (new_key C hybrid w) = flk_path k"
  from assms obtain m where "m < fw_gen w" "flk_path k = env_name w m"
    by (auto simp: file_wf_def)
  with eq assms(1) show False
    by (auto simp: new_key_path file_wf_def env_ok_def dest: injD)
qed

lemma file_Generate_wf:
  assumes "file_wf C hybrid w"
  shows "file_wf C hybrid (fst (file_Generate C hybrid w))"
proof -
  let ?w = "fst (file_Generate C hybrid w)"
  have name: "env_name ?w = env_name w" using file_Generate_env(1) by (simp add: same_env_def)
  have heap: "set (fw_heap ?w) \<subseteq> insert (new_key C hybrid w) (set (fw_heap w))"
    using file_Generate_result [of C hybrid w] by auto
  have "flk_path k \<in> env_name w ` {..<fw_gen w + 1}" if "k \<in> set (fw_heap ?w)" for k
  proof (cases "k = new_key C hybrid w")
    case False
    with heap that assms obtain m where "m < fw_gen w" "flk_path k = env_name w m"
      by (fastforce simp: file_wf_def)
    then show ?thesis by auto
  qed (simp add: new_key_path)
  with assms show ?thesis
    by (simp add: file_wf_def name env_ok_same [OF file_Generate_env(1)] file_Generate_env(2))
qed

lemma key_ok_sign:
  assumes "key_ok C k"
  shows "flk_priv k \<noteq> []" "length (flk_pub k) = 32"
    "ed25519_Verify C (flk_pub k) m (ed_sign C (flk_priv k) m)"
  using assms ed_correctD [of C "flk_priv k"] by (simp_all add: key_ok_def)

lemma flk_Destroy_heap:
  "fw_heap (fst (flk_Destroy w h)) =
     (fw_heap w)[h := (fw_heap w ! h)\<lparr>flk_priv := [], flk_qPriv := None\<rparr>]"
  by (auto simp: flk_Destroy_def syscall_def Let_def split: prod.splits)

lemma flk_Destroy_disk:
  "p \<noteq> flk_path (fw_heap w ! h) \<Longrightarrow> fw_disk (fst (flk_Destroy w h)) p = fw_disk w p"
  by (auto simp: flk_Destroy_def syscall_def Let_def split: prod.splits)

lemma flk_Destroy_env:
  "same_env w (fst (flk_Destroy w h))" "fw_gen (fst (flk_Destroy w h)) = fw_gen w"
  by (auto simp: flk_Destroy_def syscall_def same_env_def Let_def split: prod.splits)

text \<open>The next system call succeeds; for \<open>Destroy\<close> it is the \<open>os.Stat\<close> of the key file.\<close>

definition next_ok :: "FileWorld \<Rightarrow> bool" where
  "next_ok w \<longleftrightarrow> \<not> env_fail w (fw_call w)"

lemma flk_Destroy_gone:
  assumes "flk_path (fw_heap w ! h) \<noteq> []" "flk_Destroy w h = (w', None)" "next_ok w"
  shows "fw_disk w' (flk_path (fw_heap w ! h)) = None"
  using assms by (auto simp: flk_Destroy_def syscall_def next_ok_def Let_def split: prod.splits if_splits)

lemma flk_Destroy_missed:
  assumes "\<not> next_ok w"
  shows "snd (flk_Destroy w h) = None" "fw_disk (fst (flk_Destroy w h)) = fw_disk w"
  using assms by (auto simp: flk_Destroy_def syscall_def next_ok_def Let_def)

lemma file_Load_absent:
  "fw_disk w p = None \<Longrightarrow> \<exists>w' e. file_Load d w p = (w', Inl e)"
  by (auto simp: file_Load_def syscall_def Let_def)

lemma file_store_sel [simp]:
  "ks_Generate (file_store C d hybrid) = file_Generate C hybrid"
  "ks_Load (file_store C d hybrid) = file_Load d"
  "lk_Public (file_store C d hybrid) w h = flk_pub (fw_heap w ! h)"
  "lk_QuantumPublic (file_store C d hybrid) w h = flk_qPub (fw_heap w ! h)"
  "lk_Locator (file_store C d hybrid) w h = flk_path (fw_heap w ! h)"
  "lk_Sign (file_store C d hybrid) = flk_Sign C"
  "lk_QuantumSign (file_store C d hybrid) = flk_QuantumSign C"
  "lk_Destroy (file_store C d hybrid) = flk_Destroy"
  by (simp_all add: file_store_def)

lemma file_usable_keeps:
  assumes "file_usable C w h" "fw_heap w' ! h = fw_heap w ! h" "h < length (fw_heap w')"
    and "fw_disk w' (flk_path (fw_heap w ! h)) = fw_disk w (flk_path (fw_heap w ! h))"
  shows "file_usable C w' h" "same_key (file_store C d hybrid) w w' h"
  using assms by (simp_all add: file_usable_def same_key_def)

lemma file_Generate_keeps:
  assumes wf: "file_wf C hybrid w" and h: "file_usable C w h"
  shows "file_usable C (fst (file_Generate C hybrid w)) h"
    "same_key (file_store C d hybrid) w (fst (file_Generate C hybrid w)) h"
proof -
  have "fw_heap w ! h \<in> set (fw_heap w)" using h by (simp add: file_usable_def)
  note fresh = new_key_fresh [OF wf this]
  from file_Generate_result [of C hybrid w] h fresh
  have "fw_heap (fst (file_Generate C hybrid w)) ! h = fw_heap w ! h"
    "h < length (fw_heap (fst (file_Generate C hybrid w)))"
    "fw_disk (fst (file_Generate C hybrid w)) (flk_path (fw_heap w ! h)) = fw_disk w (flk_path (fw_heap w ! h))"
    by (auto simp: file_usable_def nth_append)
  from file_usable_keeps [OF h this] show "file_usable C (fst (file_Generate C hybrid w)) h"
    "same_key (file_store C d hybrid) w (fst (file_Generate C hybrid w)) h" .
qed

lemma file_Generate_new:
  assumes wf: "file_wf C hybrid w" and gen: "file_Generate C hybrid w = (w', Inr h)"
  shows "h = length (fw_heap w)" "fw_heap w' ! h = new_key C hybrid w" "file_usable C w' h"
  using file_Generate_result [of C hybrid w] gen new_key_ok [of C hybrid w] wf
  by (auto simp: file_usable_def file_wf_def)

lemma flk_Destroy_keeps:
  assumes h: "file_usable C w h" and h0: "file_usable C w h0"
    and ne: "flk_path (fw_heap w ! h0) \<noteq> flk_path (fw_heap w ! h)"
  shows "file_usable C (fst (flk_Destroy w h)) h0"
    "same_key (file_store C d hybrid) w (fst (flk_Destroy w h)) h0"
proof -
  have "h0 \<noteq> h" using ne by auto
  then have "fw_heap (fst (flk_Destroy w h)) ! h0 = fw_heap w ! h0"
    "h0 < length (fw_heap (fst (flk_Destroy w h)))"
    using h0 by (simp_all add: flk_Destroy_heap file_usable_def)
  from file_usable_keeps [OF h0 this flk_Destroy_disk [OF ne]]
  show "file_usable C (fst (flk_Destroy w h)) h0"
    "same_key (file_store C d hybrid) w (fst (flk_Destroy w h)) h0" .
qed

lemma flk_Destroy_wf:
  assumes "file_wf C hybrid w" "file_usable C w h"
  shows "file_wf C hybrid (fst (flk_Destroy w h))"
proof -
  have "set (fw_heap (fst (flk_Destroy w h))) \<subseteq>
      insert ((fw_heap w ! h)\<lparr>flk_priv := [], flk_qPriv := None\<rparr>) (set (fw_heap w))"
    by (simp add: flk_Destroy_heap set_update_subset_insert)
  moreover have "flk_path (fw_heap w ! h) \<in> env_name w ` {..<fw_gen w}"
    using assms by (simp add: file_wf_def file_usable_def)
  ultimately show ?thesis
    using assms(1) flk_Destroy_env [of w h] by (fastforce simp: file_wf_def env_ok_def same_env_def)
qed

interpretation file_ks: key_store C "file_store C d hybrid" "file_wf C hybrid" "file_usable C" "\<lambda>w k. next_ok w"
  for C d hybrid
proof unfold_locales
  fix w w' k k0 m
  show "file_wf C hybrid w \<Longrightarrow> file_wf C hybrid (fst (ks_Generate (file_store C d hybrid) w))"
    by (simp add: file_Generate_wf)
  show "file_wf C hybrid w \<Longrightarrow> ks_Generate (file_store C d hybrid) w = (w', Inr k) \<Longrightarrow> file_usable C w' k"
    by (simp add: file_Generate_new(3))
  show "file_wf C hybrid w \<Longrightarrow> file_usable C w k0 \<Longrightarrow>
      file_usable C (fst (ks_Generate (file_store C d hybrid) w)) k0
      \<and> same_key (file_store C d hybrid) w (fst (ks_Generate (file_store C d hybrid) w)) k0"
    by (simp add: file_Generate_keeps)
  show "file_wf C hybrid w \<Longrightarrow> file_usable C w k0 \<Longrightarrow> ks_Generate (file_store C d hybrid) w = (w', Inr k) \<Longrightarrow>
      k \<noteq> k0 \<and> lk_Locator (file_store C d hybrid) w' k \<noteq> lk_Locator (file_store C d hybrid) w k0"
    using file_Generate_new [of C hybrid w w' k] new_key_fresh [of C hybrid w "fw_heap w ! k0"]
    by (auto simp: file_usable_def)
  show "file_wf C hybrid w \<Longrightarrow> file_usable C w k \<Longrightarrow> length (lk_Public (file_store C d hybrid) w k) = 32
      \<and> (\<exists>s. lk_Sign (file_store C d hybrid) w k m = Inr s
           \<and> ed25519_Verify C (lk_Public (file_store C d hybrid) w k) m s)"
    using key_ok_sign [of C "fw_heap w ! k"] by (simp add: file_usable_def flk_Sign_def Let_def)
  show "file_wf C hybrid w \<Longrightarrow> file_usable C w k \<Longrightarrow> lk_QuantumPublic (file_store C d hybrid) w k \<noteq> [] \<Longrightarrow>
      length (lk_QuantumPublic (file_store C d hybrid) w k) = 1952
      \<and> d3_decode C (lk_QuantumPublic (file_store C d hybrid) w k)
      \<and> (\<exists>s. lk_QuantumSign (file_store C d hybrid) w k m = Inr s \<and> length s = 3293
             \<and> d3_verify C (lk_QuantumPublic (file_store C d hybrid) w k) m s)"
    by (auto simp: file_usable_def key_ok_def flk_QuantumSign_def d3_correctD(1,2) dest: d3_correctD split: option.splits)
  show "file_wf C hybrid w \<Longrightarrow> file_usable C w k \<Longrightarrow> file_wf C hybrid (fst (lk_Destroy (file_store C d hybrid) w k))"
    by (simp add: flk_Destroy_wf)
  show "file_wf C hybrid w \<Longrightarrow> file_usable C w k \<Longrightarrow>
      (\<exists>e. lk_Sign (file_store C d hybrid) (fst (lk_Destroy (file_store C d hybrid) w k)) k m = Inl e)
      \<and> (\<exists>e. lk_QuantumSign (file_store C d hybrid) (fst (lk_Destroy (file_store C d hybrid) w k)) k m = Inl e)"
    by (simp add: file_usable_def flk_Destroy_heap flk_Sign_def flk_QuantumSign_def Let_def)
  show "file_wf C hybrid w \<Longrightarrow> file_usable C w k \<Longrightarrow> lk_Destroy (file_store C d hybrid) w k = (w', None) \<Longrightarrow> next_ok w \<Longrightarrow>
      \<exists>w'' e. ks_Load (file_store C d hybrid) w' (lk_Locator (file_store C d hybrid) w k) = (w'', Inl e)"
    using flk_Destroy_gone [of w k w'] file_Load_absent [of w' "flk_path (fw_heap w ! k)" d]
    by (auto simp: file_wf_def env_ok_def file_usable_def) (metis imageE nth_mem)
  show "file_wf C hybrid w \<Longrightarrow> file_usable C w k \<Longrightarrow> file_usable C w k0 \<Longrightarrow>
      lk_Locator (file_store C d hybrid) w k0 \<noteq> lk_Locator (file_store C d hybrid) w k \<Longrightarrow>
      file_usable C (fst (lk_Destroy (file_store C d hybrid) w k)) k0
      \<and> same_key (file_store C d hybrid) w (fst (lk_Destroy (file_store C d hybrid) w k)) k0"
    by (simp add: flk_Destroy_keeps)
qed

end
