(* ===== verification/Threshold.thy ===== *)
theory Threshold
  imports Crypto "HOL-Library.Multiset"
begin

text \<open>
  \<open>pkg/threshold\<close>: signing groups and their canonical digest (\<open>group.go\<close>), verification of
  a t-of-N set of member signatures (\<open>multisig.go\<close>), the operator's coordinator
  (\<open>coordinator.go\<close>) and the cosigner with its HTTP handlers (\<open>cosigner.go\<close>).  The lemmas
  show that the digest is independent of member order and determines the membership, that
  \<open>VerifyMulti\<close> accepts exactly when enough distinct members signed, that two quorums over a
  majority threshold share a signer, and what the coordinator's answer guarantees.  A member
  list entry or a group pointer that is nil where the code dereferences it is outside the
  model; a nil signature is skipped by the code and is \<open>None\<close> here.
\<close>

section \<open>Definitions\<close>

subsection \<open>Groups\<close>

record Member =
  mem_ID :: string
  mem_PublicKey :: bytes
  mem_QuantumPublicKey :: bytes
  mem_Endpoint :: string
  mem_Description :: string

record Group =
  grp_Version :: u32
  grp_Origin :: string
  grp_Members :: "Member list"
  grp_Threshold :: u32
  grp_CreatedAt :: i64

datatype group_error =
    GrpNil
  | GrpVersion u32
  | GrpNoOrigin
  | GrpNoMembers
  | GrpBadThreshold u32 nat
  | GrpEmptyID
  | GrpDuplicateID string
  | GrpBadKeyLength string nat
  | GrpDuplicateKey string

fun validate_members :: "string set \<Rightarrow> string set \<Rightarrow> Member list \<Rightarrow> group_error option" where
  "validate_members seenID seenPub [] = None"
| "validate_members seenID seenPub (m # ms) =
     (if mem_ID m = [] then Some GrpEmptyID
      else if mem_ID m \<in> seenID then Some (GrpDuplicateID (mem_ID m))
      else if length (mem_PublicKey m) \<noteq> ed25519_PublicKeySize
        then Some (GrpBadKeyLength (mem_ID m) (length (mem_PublicKey m)))
      else let pkHex = hex (mem_PublicKey m) in
      if pkHex \<in> seenPub then Some (GrpDuplicateKey (mem_ID m))
      else validate_members (insert (mem_ID m) seenID) (insert pkHex seenPub) ms)"

definition Validate :: "Group option \<Rightarrow> group_error option" where
  "Validate go =
     (case go of None \<Rightarrow> Some GrpNil
      | Some g \<Rightarrow>
        if grp_Version g \<noteq> 1 then Some (GrpVersion (grp_Version g))
        else if grp_Origin g = [] then Some GrpNoOrigin
        else if length (grp_Members g) = 0 then Some GrpNoMembers
        else if grp_Threshold g = 0 \<or> unat (grp_Threshold g) > length (grp_Members g)
          then Some (GrpBadThreshold (grp_Threshold g) (length (grp_Members g)))
        else validate_members {} {} (grp_Members g))"

definition put_member :: "Member \<Rightarrow> bytes" where
  "put_member m =
     put (of_str (mem_ID m)) @ put (mem_PublicKey m) @ put (mem_QuantumPublicKey m)"

definition grp_Canonical :: "Group \<Rightarrow> bytes" where
  "grp_Canonical g =
     (let members = sort_key mem_ID (grp_Members g)
      in be32 (grp_Version g) @ put (of_str (grp_Origin g)) @ be32 (grp_Threshold g)
         @ be64 (grp_CreatedAt g) @ be32 (of_nat (length members))
         @ concat (map put_member members))"

definition grp_Digest :: "Group \<Rightarrow> bytes" where
  "grp_Digest g = sha256 (grp_Canonical g)"

definition DigestHex :: "Group \<Rightarrow> string" where
  "DigestHex g = hex (grp_Digest g)"

definition MemberByID :: "Group \<Rightarrow> string \<Rightarrow> Member option" where
  "MemberByID g i = find (\<lambda>m. mem_ID m = i) (grp_Members g)"

text \<open>\<open>json.Unmarshal\<close> is the argument; a parsed group is validated.\<close>

definition grp_Unmarshal :: "(bytes \<Rightarrow> Group option) \<Rightarrow> bytes \<Rightarrow> (group_error option) + Group" where
  "grp_Unmarshal json dat =
     (case json dat of None \<Rightarrow> Inl None
      | Some g \<Rightarrow> (case Validate (Some g) of Some err \<Rightarrow> Inl (Some err) | None \<Rightarrow> Inr g))"

subsection \<open>Member signatures\<close>

record MemberSig =
  ms_MemberID :: string
  ms_PublicKey :: bytes
  ms_Signature :: bytes
  ms_SignedAt :: i64
  ms_QuantumPublicKey :: bytes
  ms_QuantumSignature :: bytes

datatype membersig_error =
    MsBadKeyLength string nat
  | MsBadSigLength string nat
  | MsInvalid string

definition ms_Verify :: "crypto \<Rightarrow> MemberSig \<Rightarrow> bytes \<Rightarrow> membersig_error option" where
  "ms_Verify C s msg =
     (if length (ms_PublicKey s) \<noteq> ed25519_PublicKeySize
        then Some (MsBadKeyLength (ms_MemberID s) (length (ms_PublicKey s)))
      else if length (ms_Signature s) \<noteq> ed25519_SignatureSize
        then Some (MsBadSigLength (ms_MemberID s) (length (ms_Signature s)))
      else if \<not> ed25519_Verify C (ms_PublicKey s) msg (ms_Signature s)
        then Some (MsInvalid (ms_MemberID s))
      else None)"

datatype reject =
    RejUnknownMember string
  | RejKeyMismatch string
  | RejSignature membersig_error
  | RejClassicalOnly string
  | RejQuantumKeyMismatch string
  | RejQuantumDecode string
  | RejQuantumInvalid string

datatype multisig_error =
    MultiInvalidGroup group_error
  | MultiNoSignatures
  | MultiTooFew nat u32 "reject option"

text \<open>The tests one signature must pass, in the order of the loop body.\<close>

definition check_sig :: "crypto \<Rightarrow> Group \<Rightarrow> bytes \<Rightarrow> MemberSig \<Rightarrow> reject option" where
  "check_sig C g msg s =
     (case MemberByID g (ms_MemberID s) of
        None \<Rightarrow> Some (RejUnknownMember (ms_MemberID s))
      | Some m \<Rightarrow>
          if hex (ms_PublicKey s) \<noteq> hex (mem_PublicKey m) then Some (RejKeyMismatch (ms_MemberID s))
          else case ms_Verify C s msg of Some err \<Rightarrow> Some (RejSignature err)
          | None \<Rightarrow>
              if 0 < length (mem_QuantumPublicKey m) then
                (if length (ms_QuantumPublicKey s) = 0 \<or> length (ms_QuantumSignature s) = 0
                   then Some (RejClassicalOnly (ms_MemberID s))
                 else if hex (ms_QuantumPublicKey s) \<noteq> hex (mem_QuantumPublicKey m)
                   then Some (RejQuantumKeyMismatch (ms_MemberID s))
                 else if \<not> d3_decode C (ms_QuantumPublicKey s)
                   then Some (RejQuantumDecode (ms_MemberID s))
                 else if \<not> d3_verify C (ms_QuantumPublicKey s) msg (ms_QuantumSignature s)
                   then Some (RejQuantumInvalid (ms_MemberID s))
                 else None)
              else None)"

fun verify_multi_loop ::
    "crypto \<Rightarrow> Group \<Rightarrow> bytes \<Rightarrow> string set \<Rightarrow> nat \<Rightarrow> reject option \<Rightarrow> MemberSig option list
      \<Rightarrow> string set \<times> nat \<times> reject option" where
  "verify_multi_loop C g msg counted valid rej [] = (counted, valid, rej)"
| "verify_multi_loop C g msg counted valid rej (None # sigs) =
     verify_multi_loop C g msg counted valid rej sigs"
| "verify_multi_loop C g msg counted valid rej (Some s # sigs) =
     (if ms_MemberID s \<in> counted then verify_multi_loop C g msg counted valid rej sigs
      else case check_sig C g msg s of
             Some r \<Rightarrow>
               verify_multi_loop C g msg counted valid (if rej = None then Some r else rej) sigs
           | None \<Rightarrow>
               verify_multi_loop C g msg (insert (ms_MemberID s) counted) (valid + 1) rej sigs)"

definition VerifyMulti ::
    "crypto \<Rightarrow> Group option \<Rightarrow> bytes \<Rightarrow> MemberSig option list \<Rightarrow> multisig_error option" where
  "VerifyMulti C go msg sigs =
     (case Validate go of Some err \<Rightarrow> Some (MultiInvalidGroup err)
      | None \<Rightarrow>
        if length sigs = 0 then Some MultiNoSignatures
        else let g = the go; (_, valid, rej) = verify_multi_loop C g msg {} 0 None sigs
        in if valid < unat (grp_Threshold g) then Some (MultiTooFew valid (grp_Threshold g) rej)
           else None)"

subsection \<open>The coordinator\<close>

text \<open>
  The results of the concurrent requests are an argument, in the order in which they reach the
  channel: what \<open>signOne\<close> returned for each member that was contacted.
\<close>

datatype coordinator_error =
    CoordInvalidGroup group_error
  | CoordNotReached nat nat u32

datatype sign_failure =
    SignOneFailed string
  | SignReturnedInvalid membersig_error
  | SignMismatchedKey string

fun collect ::
    "crypto \<Rightarrow> Group \<Rightarrow> bytes \<Rightarrow> (string + MemberSig) list \<Rightarrow> MemberSig list \<Rightarrow> sign_failure list
      \<Rightarrow> MemberSig list \<times> sign_failure list" where
  "collect C g msg [] gathered errs = (gathered, errs)"
| "collect C g msg (Inl e # rs) gathered errs = collect C g msg rs gathered (errs @ [SignOneFailed e])"
| "collect C g msg (Inr s # rs) gathered errs =
     (case ms_Verify C s msg of
        Some e \<Rightarrow> collect C g msg rs gathered (errs @ [SignReturnedInvalid e])
      | None \<Rightarrow>
          (case MemberByID g (ms_MemberID s) of
             None \<Rightarrow> collect C g msg rs gathered (errs @ [SignMismatchedKey (ms_MemberID s)])
           | Some m \<Rightarrow>
               if \<not> bytesEqual (mem_PublicKey m) (ms_PublicKey s)
                 then collect C g msg rs gathered (errs @ [SignMismatchedKey (ms_MemberID s)])
               else collect C g msg rs (gathered @ [s]) errs))"

definition coord_Sign ::
    "crypto \<Rightarrow> Group option \<Rightarrow> bytes \<Rightarrow> (string + MemberSig) list
      \<Rightarrow> MemberSig list \<times> coordinator_error option" where
  "coord_Sign C go msg results =
     (case Validate go of Some err \<Rightarrow> ([], Some (CoordInvalidGroup err))
      | None \<Rightarrow>
        let g = the go; (gathered, errs) = collect C g msg results [] []
        in if (of_nat (length gathered) :: u32) < grp_Threshold g
           then (gathered, Some (CoordNotReached (length gathered) (length (grp_Members g)) (grp_Threshold g)))
           else (gathered, None))"

text \<open>
  A coordinator holds its group; what the cosigners answer to a message, in the order the
  answers arrive, is the field \<open>co_replies\<close>.
\<close>

record Coordinator =
  co_Group :: "Group option"
  co_replies :: "bytes \<Rightarrow> (string + MemberSig) list"

subsection \<open>The cosigner\<close>

record Cosigner =
  cs_id :: string
  cs_priv :: bytes
  cs_pub :: bytes
  cs_qPriv :: "bytes option"
  cs_qPub :: bytes
  cs_trustedCallers :: "string list"

definition cs_IsHybrid :: "Cosigner \<Rightarrow> bool" where
  "cs_IsHybrid c \<longleftrightarrow> cs_qPriv c \<noteq> None"

definition cs_KeyID :: "Cosigner \<Rightarrow> string" where
  "cs_KeyID c = hex (take 8 (sha256 (cs_pub c)))"

definition cs_Sign :: "crypto \<Rightarrow> i64 \<Rightarrow> Cosigner \<Rightarrow> bytes \<Rightarrow> MemberSig" where
  "cs_Sign C now c msg =
     (let sig = ed_sign C (cs_priv c) msg;
          ms = \<lparr>ms_MemberID = cs_id c, ms_PublicKey = cs_pub c, ms_Signature = sig,
                ms_SignedAt = now, ms_QuantumPublicKey = [], ms_QuantumSignature = []\<rparr>
      in case cs_qPriv c of None \<Rightarrow> ms
         | Some q \<Rightarrow> ms\<lparr>ms_QuantumPublicKey := cs_qPub c, ms_QuantumSignature := d3_sign C q msg\<rparr>)"

text \<open>
  A request to \<open>/cosigner/v0/sign\<close>: method, the \<open>X-Stele-Caller\<close> header (empty when
  absent) and the message the JSON body decodes to (\<open>None\<close> when decoding fails).
\<close>

record SignHTTPRequest =
  req_Method :: string
  req_Caller :: string
  req_Message :: "bytes option"

datatype cosigner_response =
    CsMethodNotAllowed
  | CsForbidden
  | CsBadRequest
  | CsSigned MemberSig

definition authoriseRequest :: "Cosigner \<Rightarrow> string \<Rightarrow> bool" where
  "authoriseRequest c tok =
     (if length (cs_trustedCallers c) = 0 then True
      else if tok = [] then False
      else tok \<in> set (cs_trustedCallers c))"

definition cosigner_sign_handler :: "crypto \<Rightarrow> i64 \<Rightarrow> Cosigner \<Rightarrow> SignHTTPRequest \<Rightarrow> cosigner_response" where
  "cosigner_sign_handler C now c r =
     (if req_Method r \<noteq> ''POST'' then CsMethodNotAllowed
      else if \<not> authoriseRequest c (req_Caller r) then CsForbidden
      else case req_Message r of None \<Rightarrow> CsBadRequest
      | Some msg \<Rightarrow> if length msg = 0 then CsBadRequest else CsSigned (cs_Sign C now c msg))"

section \<open>Lemmas\<close>

subsection \<open>Groups\<close>

lemma validate_members_None:
  "validate_members A B ms = None \<longleftrightarrow>
     (\<forall>m\<in>set ms. mem_ID m \<noteq> [] \<and> mem_ID m \<notin> A \<and> length (mem_PublicKey m) = 32 \<and> hex (mem_PublicKey m) \<notin> B)
     \<and> distinct (map mem_ID ms) \<and> distinct (map (\<lambda>m. hex (mem_PublicKey m)) ms)"
  by (induction A B ms rule: validate_members.induct)
    (auto simp: Let_def ed25519_PublicKeySize_def rev_image_eqI)

definition grp_ok :: "Group \<Rightarrow> bool" where
  "grp_ok g \<longleftrightarrow> grp_Version g = 1 \<and> grp_Origin g \<noteq> [] \<and> 0 < grp_Threshold g
     \<and> unat (grp_Threshold g) \<le> length (grp_Members g)
     \<and> (\<forall>m\<in>set (grp_Members g). mem_ID m \<noteq> [] \<and> length (mem_PublicKey m) = 32)
     \<and> distinct (map mem_ID (grp_Members g)) \<and> distinct (map mem_PublicKey (grp_Members g))"

lemma hex_inj_on: "distinct (map (\<lambda>m. hex (f m)) ms) \<longleftrightarrow> distinct (map f ms)"
proof -
  have "inj_on hex (set (map f ms))" by (rule inj_onI) simp
  then show ?thesis by (simp add: distinct_map [of hex "map f ms", simplified, unfolded comp_def])
qed

lemma Validate_ok: "Validate (Some g) = None \<longleftrightarrow> grp_ok g"
proof -
  have "0 < grp_Threshold g \<Longrightarrow> unat (grp_Threshold g) \<le> length (grp_Members g) \<Longrightarrow> grp_Members g \<noteq> []"
    by (auto simp: word_less_nat_alt)
  then show ?thesis
    by (auto simp: Validate_def grp_ok_def validate_members_None hex_inj_on word_greater_zero_iff
        split: if_splits)
qed

lemma MemberByID_Some:
  "MemberByID g i = Some m \<Longrightarrow> m \<in> set (grp_Members g) \<and> mem_ID m = i"
  by (auto simp: MemberByID_def find_Some_iff)

lemma MemberByID_member:
  assumes "grp_ok g" "m \<in> set (grp_Members g)"
  shows "MemberByID g (mem_ID m) = Some m"
proof (cases "MemberByID g (mem_ID m)")
  case None
  with assms(2) show ?thesis by (auto simp: MemberByID_def find_None_iff)
next
  case (Some m')
  from MemberByID_Some [OF Some] assms have "m' = m"
    by (auto simp: grp_ok_def distinct_map inj_on_def)
  with Some show ?thesis by simp
qed

subsection \<open>The canonical encoding of a group\<close>

definition mem_key :: "Member \<Rightarrow> string \<times> bytes \<times> bytes" where
  "mem_key m = (mem_ID m, mem_PublicKey m, mem_QuantumPublicKey m)"

definition mem_fits :: "Member \<Rightarrow> bool" where
  "mem_fits m \<longleftrightarrow> fits (of_str (mem_ID m)) \<and> fits (mem_PublicKey m) \<and> fits (mem_QuantumPublicKey m)"

definition grp_fits :: "Group \<Rightarrow> bool" where
  "grp_fits g \<longleftrightarrow> fits (of_str (grp_Origin g)) \<and> length (grp_Members g) < 2 ^ 32
     \<and> (\<forall>m\<in>set (grp_Members g). mem_fits m)"

lemma put_member_append:
  assumes "mem_fits m" "mem_fits n"
  shows "put_member m @ r = put_member n @ q \<longleftrightarrow> mem_key m = mem_key n \<and> r = q"
  using assms by (auto simp: put_member_def mem_key_def mem_fits_def frame)

lemma concat_put_member_inj:
  assumes "length ms = length ns" "\<forall>m\<in>set ms \<union> set ns. mem_fits m"
    and "concat (map put_member ms) = concat (map put_member ns)"
  shows "map mem_key ms = map mem_key ns"
  using assms by (induction ms ns rule: list_induct2) (auto simp: put_member_append)

lemma filter_eq_one: "distinct zs \<Longrightarrow> k \<in> set zs \<Longrightarrow> filter (\<lambda>x. x = k) zs = [k]"
  by (induction zs) (auto simp: filter_empty_conv)

lemma sort_key_unique:
  assumes "mset xs = mset ys" "distinct (map f xs)"
  shows "sort_key f xs = sort_key f ys"
proof (rule properties_for_sort_key)
  show "mset (sort_key f ys) = mset xs" using assms(1) by simp
  show "sorted (map f (sort_key f ys))" by simp
  fix k assume "k \<in> set (sort_key f ys)"
  then have k: "k \<in> set xs" using assms(1) by (metis mset_eq_setD set_sort)
  have inj: "inj_on f (set xs)" and dx: "distinct xs" using assms(2) by (auto simp: distinct_map)
  have one: "filter (\<lambda>x. f k = f x) zs = [k]" if "mset zs = mset xs" for zs
  proof -
    have "set zs = set xs" "distinct zs"
      using that dx by (metis mset_eq_setD, metis mset_eq_imp_distinct_iff)
    then have "filter (\<lambda>x. f k = f x) zs = filter (\<lambda>x. x = k) zs"
      using inj k by (intro filter_cong) (auto simp: inj_on_def)
    also have "\<dots> = [k]"
      using \<open>distinct zs\<close> k \<open>set zs = set xs\<close>
      by (simp add: filter_eq_one)
    finally show ?thesis .
  qed
  show "filter (\<lambda>x. f k = f x) (sort_key f ys) = filter (\<lambda>x. f k = f x) xs"
    using one [of "sort_key f ys"] one [of xs] assms(1) by simp
qed

lemma map_insort_key: "map f (insort_key (\<lambda>x. k (f x)) x xs) = insort_key k (f x) (map f xs)"
  by (induction xs) auto

lemma map_sort_key: "map f (sort_key (\<lambda>x. k (f x)) xs) = sort_key k (map f xs)"
  by (induction xs) (simp_all add: map_insort_key)

lemma sorted_members: "map mem_key (sort_key mem_ID ms) = sort_key fst (map mem_key ms)"
  using map_sort_key [of mem_key fst ms] by (simp add: mem_key_def)

lemma put_member_key: "mem_key m = mem_key n \<Longrightarrow> put_member m = put_member n"
  by (simp add: put_member_def mem_key_def)

lemma concat_put_member:
  "map mem_key ms = map mem_key ns \<Longrightarrow> concat (map put_member ms) = concat (map put_member ns)"
proof (induction ms arbitrary: ns)
  case (Cons m ms)
  then obtain n ns' where ns: "ns = n # ns'" by (cases ns) auto
  with Cons put_member_key [of m n] show ?case by simp
qed simp

text \<open>
  For validated groups whose fields fit their length prefixes, the canonical bytes (and so
  the message the group digest hashes) agree exactly when the groups have the same version,
  origin, threshold and creation time and the same members with the same keys, in whatever order
  each lists them.
\<close>

lemma grp_Canonical_inj:
  assumes "Validate (Some g) = None" "Validate (Some h) = None" and fit: "grp_fits g" "grp_fits h"
  shows "grp_Canonical g = grp_Canonical h \<longleftrightarrow>
    grp_Version g = grp_Version h \<and> grp_Origin g = grp_Origin h
    \<and> grp_Threshold g = grp_Threshold h \<and> grp_CreatedAt g = grp_CreatedAt h
    \<and> mset (map mem_key (grp_Members g)) = mset (map mem_key (grp_Members h))"
proof -
  let ?G = "sort_key mem_ID (grp_Members g)" and ?H = "sort_key mem_ID (grp_Members h)"
  have len: "(of_nat (length ?G) :: u32) = of_nat (length ?H) \<longleftrightarrow> length ?G = length ?H"
    using fit by (simp add: grp_fits_def word_of_nat_eq_iff take_bit_nat_eq_self)
  have "length ?G = length ?H \<Longrightarrow> concat (map put_member ?G) = concat (map put_member ?H) \<Longrightarrow>
      map mem_key ?G = map mem_key ?H"
    using fit by (intro concat_put_member_inj) (auto simp: grp_fits_def)
  then have conc: "length ?G = length ?H \<and> concat (map put_member ?G) = concat (map put_member ?H)
      \<longleftrightarrow> map mem_key ?G = map mem_key ?H"
    using concat_put_member [of ?G ?H] map_eq_imp_length_eq [of mem_key ?G mem_key ?H] by blast
  have "map mem_key ?G = map mem_key ?H \<longleftrightarrow>
      mset (map mem_key (grp_Members g)) = mset (map mem_key (grp_Members h))"
  proof
    assume "map mem_key ?G = map mem_key ?H"
    then have "mset (map mem_key ?G) = mset (map mem_key ?H)" by simp
    then show "mset (map mem_key (grp_Members g)) = mset (map mem_key (grp_Members h))" by simp
  next
    assume eq: "mset (map mem_key (grp_Members g)) = mset (map mem_key (grp_Members h))"
    have "distinct (map fst (map mem_key (grp_Members g)))"
      using assms(1) by (simp add: Validate_ok grp_ok_def mem_key_def comp_def)
    from sort_key_unique [OF eq this] show "map mem_key ?G = map mem_key ?H"
      by (simp only: sorted_members)
  qed
  moreover have "grp_Canonical g = grp_Canonical h \<longleftrightarrow>
      grp_Version g = grp_Version h \<and> grp_Origin g = grp_Origin h
      \<and> grp_Threshold g = grp_Threshold h \<and> grp_CreatedAt g = grp_CreatedAt h
      \<and> (of_nat (length ?G) :: u32) = of_nat (length ?H)
      \<and> concat (map put_member ?G) = concat (map put_member ?H)"
    using fit unfolding grp_Canonical_def Let_def grp_fits_def
    by (simp only: be32_append be64_append put_append of_str_inj conj_assoc)
  ultimately show ?thesis unfolding len conc by blast
qed

subsection \<open>Threshold verification\<close>

text \<open>The members of a group with an acceptable signature in the list.\<close>

definition signers :: "crypto \<Rightarrow> Group \<Rightarrow> bytes \<Rightarrow> MemberSig option list \<Rightarrow> string set" where
  "signers C g msg sigs =
     ms_MemberID ` {s. Some s \<in> set sigs \<and> check_sig C g msg s = None}"

lemma signers_simps [simp]:
  "signers C g msg [] = {}" "signers C g msg (None # sigs) = signers C g msg sigs"
  "signers C g msg (Some s # sigs) =
     (if check_sig C g msg s = None then insert (ms_MemberID s) (signers C g msg sigs)
      else signers C g msg sigs)"
  by (auto simp: signers_def)

lemma finite_signers [simp]: "finite (signers C g msg sigs)"
proof (induction sigs)
  case (Cons x sigs)
  then show ?case by (cases x) simp_all
qed simp

lemma verify_multi_loop_count:
  "finite counted \<Longrightarrow>
   verify_multi_loop C g msg counted valid rej sigs = (counted', valid', rej') \<Longrightarrow>
   counted' = counted \<union> signers C g msg sigs \<and> valid' + card counted = valid + card counted'"
proof (induction sigs arbitrary: counted valid rej)
  case (Cons x sigs)
  show ?case
  proof (cases x)
    case None
    with Cons.IH [OF Cons.prems(1)] Cons.prems(2) show ?thesis by simp
  next
    case (Some s)
    consider (dup) "ms_MemberID s \<in> counted"
      | (bad) r where "ms_MemberID s \<notin> counted" "check_sig C g msg s = Some r"
      | (good) "ms_MemberID s \<notin> counted" "check_sig C g msg s = None"
      by (cases "check_sig C g msg s") auto
    then show ?thesis
    proof cases
      case dup
      with Cons.IH [OF Cons.prems(1)] Cons.prems(2) Some show ?thesis by auto
    next
      case bad
      with Cons.IH [OF Cons.prems(1)] Cons.prems(2) Some show ?thesis by auto
    next
      case good
      have "finite (insert (ms_MemberID s) counted)" using Cons.prems(1) by simp
      from Cons.IH [OF this] Cons.prems good Some show ?thesis by fastforce
    qed
  qed
qed simp

lemma VerifyMulti_iff:
  "VerifyMulti C (Some g) msg sigs = None \<longleftrightarrow>
     grp_ok g \<and> unat (grp_Threshold g) \<le> card (signers C g msg sigs)"
proof -
  obtain cnt v r where loop: "verify_multi_loop C g msg {} 0 None sigs = (cnt, v, r)"
    by (metis prod_cases3)
  from verify_multi_loop_count [OF _ loop] have v: "v = card (signers C g msg sigs)" by simp
  have "grp_ok g \<Longrightarrow> 0 < unat (grp_Threshold g)" by (simp add: grp_ok_def word_less_nat_alt)
  with v loop show ?thesis
    by (auto simp: VerifyMulti_def Validate_ok [symmetric] Let_def split: option.splits)
qed

text \<open>What a counted signature is: the registered key of a listed member, over the message.\<close>

lemma check_sig_None:
  "check_sig C g msg s = None \<longleftrightarrow>
     (\<exists>m. MemberByID g (ms_MemberID s) = Some m \<and> ms_PublicKey s = mem_PublicKey m
        \<and> ms_Verify C s msg = None
        \<and> (mem_QuantumPublicKey m \<noteq> [] \<longrightarrow>
             ms_QuantumSignature s \<noteq> [] \<and> ms_QuantumPublicKey s = mem_QuantumPublicKey m
             \<and> d3_decode C (mem_QuantumPublicKey m)
             \<and> d3_verify C (mem_QuantumPublicKey m) msg (ms_QuantumSignature s)))"
  by (auto simp: check_sig_def split: option.splits if_splits)

lemma signers_members: "signers C g msg sigs \<subseteq> set (map mem_ID (grp_Members g))"
proof
  fix i assume "i \<in> signers C g msg sigs"
  then obtain s :: MemberSig and m where "i = ms_MemberID s" "MemberByID g (ms_MemberID s) = Some m"
    unfolding signers_def check_sig_None by blast
  with MemberByID_Some [of g "ms_MemberID s" m] show "i \<in> set (map mem_ID (grp_Members g))" by force
qed

text \<open>
  C35.  \<open>VerifyMulti\<close> accepts exactly when the group is valid and the number of distinct listed
  members for whom the list holds a signature that verifies under that member's registered key,
  together with a matching Dilithium3 signature where the group registered a quantum key, reaches
  the threshold: duplicates, strangers, substituted keys and classical-only signatures of hybrid
  members count for nothing, and extra bad signatures do no harm.
\<close>

theorem VerifyMulti_quorum:
  "VerifyMulti C (Some g) msg sigs = None \<longleftrightarrow>
     Validate (Some g) = None \<and>
     unat (grp_Threshold g) \<le> card {i. \<exists>m s. MemberByID g i = Some m \<and> Some s \<in> set sigs
       \<and> ms_MemberID s = i \<and> ms_PublicKey s = mem_PublicKey m \<and> ms_Verify C s msg = None
       \<and> (mem_QuantumPublicKey m = [] \<or> ms_QuantumSignature s \<noteq> []
            \<and> ms_QuantumPublicKey s = mem_QuantumPublicKey m \<and> d3_decode C (mem_QuantumPublicKey m)
            \<and> d3_verify C (mem_QuantumPublicKey m) msg (ms_QuantumSignature s))}"
    (is "_ \<longleftrightarrow> _ \<and> _ \<le> card ?S")
proof -
  have "signers C g msg sigs = ?S" unfolding signers_def check_sig_None by blast
  then show ?thesis by (simp add: VerifyMulti_iff Validate_ok)
qed

text \<open>
  Quorums intersect.  If a group's threshold is more than half its size and two messages are
  both accepted by \<open>VerifyMulti\<close>, then some member's registered key verifies a signature on each of
  them: two conflicting checkpoints require a member that signed both.
\<close>

theorem quorum_intersection:
  assumes "VerifyMulti C (Some g) msg sigs = None" and "VerifyMulti C (Some g) msg' sigs' = None"
    and "length (grp_Members g) < 2 * unat (grp_Threshold g)"
  shows "\<exists>m s s'. m \<in> set (grp_Members g) \<and> Some s \<in> set sigs \<and> Some s' \<in> set sigs'
    \<and> ed_verify C (mem_PublicKey m) msg (ms_Signature s)
    \<and> ed_verify C (mem_PublicKey m) msg' (ms_Signature s')"
proof -
  let ?A = "signers C g msg sigs" and ?B = "signers C g msg' sigs'" and ?U = "set (map mem_ID (grp_Members g))"
  have "card ?U \<le> length (grp_Members g)" using card_length [of "map mem_ID (grp_Members g)"] by simp
  moreover have "card (?A \<union> ?B) \<le> card ?U"
    using signers_members by (intro card_mono) auto
  moreover have "unat (grp_Threshold g) \<le> card ?A" "unat (grp_Threshold g) \<le> card ?B"
    using assms(1,2) by (simp_all add: VerifyMulti_iff)
  ultimately have "?A \<inter> ?B \<noteq> {}"
    using assms(3) card_Un_disjoint [of ?A ?B] by force
  then obtain s s' m where s: "Some s \<in> set sigs" "Some s' \<in> set sigs'"
    and m: "MemberByID g (ms_MemberID s) = Some m" "ms_MemberID s = ms_MemberID s'"
    and k: "check_sig C g msg s = None" "check_sig C g msg' s' = None"
    unfolding signers_def check_sig_None by fastforce
  then have "ms_Verify C s msg = None" "ms_Verify C s' msg' = None"
    "ms_PublicKey s = mem_PublicKey m" "ms_PublicKey s' = mem_PublicKey m"
    by (auto simp: check_sig_None)
  then show ?thesis
    using s MemberByID_Some [OF m(1)]
    by (fastforce simp: ms_Verify_def ed25519_Verify_def split: if_splits)
qed

subsection \<open>Cosigners\<close>

definition cs_wf :: "crypto \<Rightarrow> Cosigner \<Rightarrow> bool" where
  "cs_wf C c \<longleftrightarrow> ed_correct C (cs_priv c) \<and> cs_pub c = ed_Public (cs_priv c)
     \<and> (case cs_qPriv c of None \<Rightarrow> cs_qPub c = [] | Some q \<Rightarrow> d3_correct C (cs_qPub c) q)"

text \<open>The group lists the cosigner with the keys it signs with.\<close>

definition registered :: "Group \<Rightarrow> Cosigner \<Rightarrow> bool" where
  "registered g c \<longleftrightarrow>
     (case MemberByID g (cs_id c) of None \<Rightarrow> False
      | Some m \<Rightarrow> mem_PublicKey m = cs_pub c \<and> mem_QuantumPublicKey m = cs_qPub c)"

lemma ms_Verify_cs_Sign: "cs_wf C c \<Longrightarrow> ms_Verify C (cs_Sign C now c msg) msg = None"
  using ed_correctD(1,2) [of C "cs_priv c" msg] ed_correctD(3) [of C "cs_priv c"]
  by (auto simp: cs_wf_def cs_Sign_def ms_Verify_def Let_def key_sizes split: option.splits)

lemma cs_Sign_MemberID [simp]: "ms_MemberID (cs_Sign C now c msg) = cs_id c"
  "ms_PublicKey (cs_Sign C now c msg) = cs_pub c"
  by (simp_all add: cs_Sign_def Let_def split: option.splits)

lemma cs_Sign_counts:
  assumes "cs_wf C c" "registered g c"
  shows "check_sig C g msg (cs_Sign C now c msg) = None"
proof -
  obtain m where m: "MemberByID g (cs_id c) = Some m" "mem_PublicKey m = cs_pub c"
    "mem_QuantumPublicKey m = cs_qPub c"
    using assms(2) by (auto simp: registered_def split: option.splits)
  have "cs_qPub c \<noteq> [] \<longrightarrow>
      ms_QuantumSignature (cs_Sign C now c msg) \<noteq> [] \<and> ms_QuantumPublicKey (cs_Sign C now c msg) = cs_qPub c
      \<and> d3_decode C (cs_qPub c) \<and> d3_verify C (cs_qPub c) msg (ms_QuantumSignature (cs_Sign C now c msg))"
  proof (cases "cs_qPriv c")
    case (Some q)
    with assms(1) have "d3_correct C (cs_qPub c) q" by (simp add: cs_wf_def)
    from d3_correctD(1,2) [OF this, of msg] d3_correctD(4) [OF this] Some show ?thesis by (auto simp: cs_Sign_def Let_def)
  qed (use assms(1) in \<open>simp add: cs_wf_def\<close>)
  then show ?thesis
    unfolding check_sig_None using m ms_Verify_cs_Sign [OF assms(1)] by simp
qed

text \<open>
  If at least threshold many cosigners with distinct identities, each listed in a valid group
  with the keys it holds, sign the same message, \<open>VerifyMulti\<close> accepts their signatures, in any
  mix of classical and hybrid members.
\<close>

theorem cosigners_reach_threshold:
  assumes "Validate (Some g) = None" and "distinct (map cs_id cs)"
    and "\<forall>c\<in>set cs. cs_wf C c \<and> registered g c" and "unat (grp_Threshold g) \<le> length cs"
  shows "VerifyMulti C (Some g) msg (map (\<lambda>c. Some (cs_Sign C now c msg)) cs) = None"
proof -
  have "cs_id ` set cs \<subseteq> signers C g msg (map (\<lambda>c. Some (cs_Sign C now c msg)) cs)"
    using assms(3) cs_Sign_counts by (force simp: signers_def)
  then have "card (cs_id ` set cs) \<le> card (signers C g msg (map (\<lambda>c. Some (cs_Sign C now c msg)) cs))"
    by (intro card_mono) simp_all
  moreover have "card (cs_id ` set cs) = length cs"
    using distinct_card [OF assms(2)] by simp
  ultimately show ?thesis using assms(1,4) by (simp add: VerifyMulti_iff Validate_ok)
qed

subsection \<open>The coordinator\<close>

definition coord_ok :: "crypto \<Rightarrow> Group \<Rightarrow> bytes \<Rightarrow> MemberSig \<Rightarrow> bool" where
  "coord_ok C g msg s \<longleftrightarrow> ms_Verify C s msg = None
     \<and> (\<exists>m. MemberByID g (ms_MemberID s) = Some m \<and> mem_PublicKey m = ms_PublicKey s)"

lemma collect_gathered:
  "fst (collect C g msg rs gathered errs) =
     gathered @ concat (map (\<lambda>r. case r of Inl _ \<Rightarrow> [] | Inr s \<Rightarrow> if coord_ok C g msg s then [s] else []) rs)"
proof (induction rs arbitrary: gathered errs)
  case (Cons r rs)
  show ?case
  proof (cases r)
    case (Inr s)
    then show ?thesis
      using Cons.IH by (auto simp: coord_ok_def bytesEqual_iff split: option.splits)
  qed (simp add: Cons.IH)
qed simp

lemma coord_Sign_gathered:
  assumes "coord_Sign C (Some g) msg rs = (sigs, None)"
  shows "grp_ok g" "sigs = fst (collect C g msg rs [] [])" "\<not> (of_nat (length sigs) :: u32) < grp_Threshold g"
  using assms by (auto simp: coord_Sign_def Validate_ok [symmetric] Let_def split: option.splits prod.splits if_splits)

text \<open>
  When the coordinator reports success, every signature it hands on came from a cosigner's
  answer, verifies over the message and carries the key the group registered for its member; if
  moreover no member appears twice and the group is classical, \<open>VerifyMulti\<close> accepts the result.
\<close>

theorem coord_Sign_sound:
  assumes "coord_Sign C (Some g) msg rs = (sigs, None)" and "length sigs < 2 ^ 32"
  shows "(\<forall>s\<in>set sigs. Inr s \<in> set rs \<and> coord_ok C g msg s)
    \<and> (distinct (map ms_MemberID sigs) \<and> (\<forall>m\<in>set (grp_Members g). mem_QuantumPublicKey m = [])
       \<longrightarrow> VerifyMulti C (Some g) msg (map Some sigs) = None)"
proof -
  note g = coord_Sign_gathered [OF assms(1)]
  have all: "\<forall>s\<in>set sigs. Inr s \<in> set rs \<and> coord_ok C g msg s"
    unfolding g(2) collect_gathered by (auto split: sum.splits if_splits)
  have "VerifyMulti C (Some g) msg (map Some sigs) = None"
    if dist: "distinct (map ms_MemberID sigs)"
      and cl: "\<forall>m\<in>set (grp_Members g). mem_QuantumPublicKey m = []"
  proof -
    have "check_sig C g msg s = None" if "s \<in> set sigs" for s
      using all that cl MemberByID_Some unfolding check_sig_None coord_ok_def by metis
    then have "ms_MemberID ` set sigs \<subseteq> signers C g msg (map Some sigs)"
      by (auto simp: signers_def)
    then have "card (set (map ms_MemberID sigs)) \<le> card (signers C g msg (map Some sigs))"
      by (intro card_mono) simp_all
    moreover have "unat (of_nat (length sigs) :: u32) = length sigs"
      using assms(2) by (simp add: unat_of_nat)
    ultimately show ?thesis
      using g(1,3) distinct_card [OF dist] by (simp add: VerifyMulti_iff word_less_nat_alt)
  qed
  with all show ?thesis by blast
qed

subsection \<open>Sample group and witnesses\<close>

definition sample_member :: "string \<Rightarrow> byte \<Rightarrow> Member" where
  "sample_member i b = \<lparr>mem_ID = i, mem_PublicKey = replicate 32 b, mem_QuantumPublicKey = [],
     mem_Endpoint = ''e'', mem_Description = []\<rparr>"

definition sample_group :: Group where
  "sample_group = \<lparr>grp_Version = 1, grp_Origin = ''log'',
     grp_Members = [sample_member ''a'' 1, sample_member ''b'' 2], grp_Threshold = 2, grp_CreatedAt = 0\<rparr>"

definition sample_cosigner :: "string \<Rightarrow> byte \<Rightarrow> Cosigner" where
  "sample_cosigner i b = \<lparr>cs_id = i, cs_priv = replicate 64 b, cs_pub = replicate 32 b,
     cs_qPriv = None, cs_qPub = [], cs_trustedCallers = []\<rparr>"

lemma sample_group_ok: "grp_ok sample_group"
  by (simp add: grp_ok_def sample_group_def sample_member_def replicate_eq_replicate)

lemma sample_cosigner_wf: "cs_wf sample_crypto (sample_cosigner i b)"
  by (simp add: cs_wf_def sample_cosigner_def sample_ed_correct ed_Public_def)

lemma sample_registered:
  "registered sample_group (sample_cosigner ''a'' 1)" "registered sample_group (sample_cosigner ''b'' 2)"
  by (simp_all add: registered_def MemberByID_def sample_group_def sample_member_def sample_cosigner_def)

definition sample_sigs :: "bytes \<Rightarrow> MemberSig option list" where
  "sample_sigs msg = map (\<lambda>c. Some (cs_Sign sample_crypto 0 c msg))
     [sample_cosigner ''a'' 1, sample_cosigner ''b'' 2]"

lemma sample_VerifyMulti: "VerifyMulti sample_crypto (Some sample_group) msg (sample_sigs msg) = None"
proof -
  have "{''a'', ''b''} \<subseteq> signers sample_crypto sample_group msg (sample_sigs msg)"
    using cs_Sign_counts [OF sample_cosigner_wf sample_registered(1), of msg 0]
      cs_Sign_counts [OF sample_cosigner_wf sample_registered(2), of msg 0]
    by (simp add: sample_sigs_def) (simp add: sample_cosigner_def)
  then have "card {''a'', ''b''} \<le> card (signers sample_crypto sample_group msg (sample_sigs msg))"
    by (intro card_mono) simp_all
  with sample_group_ok show ?thesis by (simp add: VerifyMulti_iff) (simp add: sample_group_def)
qed

theorem cosigners_reach_threshold_witness:
  "VerifyMulti sample_crypto (Some sample_group) [7] (sample_sigs [7]) = None"
  unfolding sample_sigs_def
  by (rule cosigners_reach_threshold)
    (use sample_group_ok sample_cosigner_wf sample_registered in
      \<open>simp_all add: Validate_ok, simp_all add: sample_cosigner_def sample_group_def\<close>)

theorem quorum_intersection_witness:
  "\<exists>m s s'. m \<in> set (grp_Members sample_group) \<and> Some s \<in> set (sample_sigs [1]) \<and> Some s' \<in> set (sample_sigs [2])
    \<and> ed_verify sample_crypto (mem_PublicKey m) [1] (ms_Signature s)
    \<and> ed_verify sample_crypto (mem_PublicKey m) [2] (ms_Signature s')"
  by (rule quorum_intersection [OF sample_VerifyMulti sample_VerifyMulti])
    (simp add: sample_group_def)

lemma grp_Canonical_inj_witness:
  "grp_Canonical sample_group =
     grp_Canonical (sample_group\<lparr>grp_Members := [sample_member ''b'' 2, sample_member ''a'' 1]\<rparr>)"
proof -
  let ?h = "sample_group\<lparr>grp_Members := [sample_member ''b'' 2, sample_member ''a'' 1]\<rparr>"
  have "grp_ok ?h"
    by (simp add: grp_ok_def sample_group_def sample_member_def replicate_eq_replicate)
  then have v: "Validate (Some sample_group) = None" "Validate (Some ?h) = None"
    using sample_group_ok by (simp_all add: Validate_ok)
  have f: "grp_fits sample_group" "grp_fits ?h"
    by (simp_all add: grp_fits_def mem_fits_def fits_def sample_group_def sample_member_def)
  from grp_Canonical_inj [OF v f] show ?thesis by (simp add: sample_group_def)
qed

lemma sample_coord_ok:
  "coord_ok sample_crypto sample_group msg (cs_Sign sample_crypto 0 (sample_cosigner ''a'' 1) msg)"
  "coord_ok sample_crypto sample_group msg (cs_Sign sample_crypto 0 (sample_cosigner ''b'' 2) msg)"
  using ms_Verify_cs_Sign [OF sample_cosigner_wf] sample_registered
  by (auto simp: coord_ok_def registered_def split: option.splits)

lemma sample_coord_Sign:
  assumes "coord_ok sample_crypto sample_group msg s" "coord_ok sample_crypto sample_group msg s'"
  shows "coord_Sign sample_crypto (Some sample_group) msg [Inr s, Inr s'] = ([s, s'], None)"
proof -
  have "fst (collect sample_crypto sample_group msg [Inr s, Inr s'] [] []) = [s, s']"
    using assms unfolding collect_gathered by simp
  then obtain errs where "collect sample_crypto sample_group msg [Inr s, Inr s'] [] [] = ([s, s'], errs)"
    by (metis prod.collapse)
  moreover have "Validate (Some sample_group) = None" using sample_group_ok by (simp only: Validate_ok)
  moreover have "grp_Threshold sample_group = 2" by (simp add: sample_group_def)
  ultimately show ?thesis by (simp add: coord_Sign_def del: collect.simps)
qed

theorem coord_Sign_sound_witness:
  "(let sigs = [cs_Sign sample_crypto 0 (sample_cosigner ''a'' 1) [7],
                cs_Sign sample_crypto 0 (sample_cosigner ''b'' 2) [7]]
    in coord_Sign sample_crypto (Some sample_group) [7] (map Inr sigs) = (sigs, None)
       \<and> VerifyMulti sample_crypto (Some sample_group) [7] (map Some sigs) = None)"
proof -
  note eq = sample_coord_Sign [OF sample_coord_ok(1) sample_coord_ok(2), of "[7]"]
  from coord_Sign_sound [OF eq] eq show ?thesis
    by (simp add: Let_def) (simp add: sample_cosigner_def sample_group_def sample_member_def)
qed

text \<open>
  The coordinator counts signatures, not members: when two of the contacted endpoints answer
  with the same member's signature, it reports that a threshold of two is reached with a result
  that \<open>VerifyMulti\<close> rejects.
\<close>

lemma coord_Sign_counts_duplicates:
  "(let s = cs_Sign sample_crypto 0 (sample_cosigner ''a'' 1) [7]
    in coord_Sign sample_crypto (Some sample_group) [7] [Inr s, Inr s] = ([s, s], None)
       \<and> VerifyMulti sample_crypto (Some sample_group) [7] [Some s, Some s] \<noteq> None)"
proof -
  let ?s = "cs_Sign sample_crypto 0 (sample_cosigner ''a'' 1) [7]"
  have "card (signers sample_crypto sample_group [7] [Some ?s, Some ?s]) \<le> 1"
    by simp
  moreover have "unat (grp_Threshold sample_group) = 2" by (simp add: sample_group_def)
  ultimately have "VerifyMulti sample_crypto (Some sample_group) [7] [Some ?s, Some ?s] \<noteq> None"
    unfolding VerifyMulti_iff by linarith
  with sample_coord_Sign [OF sample_coord_ok(1) sample_coord_ok(1), of "[7]"] show ?thesis
    by (simp add: Let_def)
qed

end
