(* ===== verification/Fwdsec.thy ===== *)
theory Fwdsec
  imports Keystore Threshold
begin

text \<open>
  \<open>pkg/fwdsec/fwdsec.go\<close>: rotation certificates, the rotation chain and its verification, and
  the forward-secure signer over a \<open>KeyStore\<close>.  The persisted \<open>chain.json\<close> is the field
  \<open>sg_file\<close>; whether writing it succeeds is an argument, as is the clock.  The threshold
  rotator is an interface whose answers are an argument.  The lemmas show that an accepted chain
  numbers its epochs from zero and that each certificate is signed by its predecessor's key, that
  a rotation extends an accepted chain to an accepted chain and destroys the previous key, and
  two situations in which it does not.
\<close>

section \<open>Definitions\<close>

subsection \<open>Rotation certificates\<close>

record RotationCert =
  rc_Epoch :: u64
  rc_PublicKey :: bytes
  rc_StartedAt :: i64
  rc_SignedBy :: bytes
  rc_Signature :: bytes
  rc_QuantumPublicKey :: bytes
  rc_QuantumSignedBy :: bytes
  rc_QuantumSignature :: bytes
  rc_ThresholdGroupDigest :: string
  rc_MemberSigs :: "MemberSig option list"

datatype quantum_error =
    QPublicKeyLength nat
  | QSignedByLength nat
  | QSignatureLength nat
  | QDecode
  | QInvalid

datatype cert_error =
    CertPublicKeyLength u64
  | CertNeedsGroup u64
  | CertSignedByLength u64
  | CertClassicalInvalid u64
  | CertQuantum u64 quantum_error
  | CertDigestMismatch u64
  | CertMulti multisig_error

definition rc_text :: "RotationCert \<Rightarrow> string" where
  "rc_text c =
     (let q = (if 0 < length (rc_QuantumPublicKey c) then hex (rc_QuantumPublicKey c) else ''none'');
          tg = (if rc_ThresholdGroupDigest c = [] then ''none'' else rc_ThresholdGroupDigest c)
      in ''stele-rotation/v0'' @ nl
         @ ''epoch: '' @ dec_u64 (rc_Epoch c) @ nl
         @ ''public_key: '' @ hex (rc_PublicKey c) @ nl
         @ ''started_at: '' @ dec_i64 (rc_StartedAt c) @ nl
         @ ''signed_by: '' @ hex (rc_SignedBy c) @ nl
         @ ''quantum_public_key: '' @ q @ nl
         @ ''threshold_group: '' @ tg @ nl)"

definition rc_Canonical :: "RotationCert \<Rightarrow> bytes" where
  "rc_Canonical c = of_str (rc_text c)"

definition verifyQuantumCert :: "crypto \<Rightarrow> RotationCert \<Rightarrow> bytes \<Rightarrow> quantum_error option" where
  "verifyQuantumCert C c canon =
     (if length (rc_QuantumPublicKey c) \<noteq> mode3_PublicKeySize
        then Some (QPublicKeyLength (length (rc_QuantumPublicKey c)))
      else if length (rc_QuantumSignedBy c) \<noteq> mode3_PublicKeySize
        then Some (QSignedByLength (length (rc_QuantumSignedBy c)))
      else if length (rc_QuantumSignature c) \<noteq> mode3_SignatureSize
        then Some (QSignatureLength (length (rc_QuantumSignature c)))
      else if \<not> d3_decode C (rc_QuantumSignedBy c) then Some QDecode
      else if \<not> d3_verify C (rc_QuantumSignedBy c) canon (rc_QuantumSignature c) then Some QInvalid
      else None)"

definition rc_Verify :: "crypto \<Rightarrow> RotationCert \<Rightarrow> cert_error option" where
  "rc_Verify C c =
     (if length (rc_PublicKey c) \<noteq> ed25519_PublicKeySize then Some (CertPublicKeyLength (rc_Epoch c))
      else if 0 < length (rc_MemberSigs c) then Some (CertNeedsGroup (rc_Epoch c))
      else if length (rc_SignedBy c) \<noteq> ed25519_PublicKeySize then Some (CertSignedByLength (rc_Epoch c))
      else let canon = rc_Canonical c in
      if \<not> ed25519_Verify C (rc_SignedBy c) canon (rc_Signature c)
        then Some (CertClassicalInvalid (rc_Epoch c))
      else if 0 < length (rc_QuantumPublicKey c) \<or> 0 < length (rc_QuantumSignature c)
          \<or> 0 < length (rc_QuantumSignedBy c)
        then (case verifyQuantumCert C c canon of
                Some e \<Rightarrow> Some (CertQuantum (rc_Epoch c) e) | None \<Rightarrow> None)
      else None)"

definition VerifyWithGroup :: "crypto \<Rightarrow> RotationCert \<Rightarrow> Group option \<Rightarrow> cert_error option" where
  "VerifyWithGroup C c go =
     (if length (rc_MemberSigs c) = 0 then rc_Verify C c
      else case go of None \<Rightarrow> Some (CertNeedsGroup (rc_Epoch c))
      | Some g \<Rightarrow>
          if rc_ThresholdGroupDigest c \<noteq> hex (grp_Digest g)
            then Some (CertDigestMismatch (rc_Epoch c))
          else (case VerifyMulti C (Some g) (rc_Canonical c) (rc_MemberSigs c) of
                  None \<Rightarrow> None | Some e \<Rightarrow> Some (CertMulti e)))"

subsection \<open>The chain\<close>

record Chain =
  ch_Origin :: string
  ch_Certs :: "RotationCert list"
  ch_ActiveLocator :: string

datatype chain_error =
    ChNoCerts
  | ChFirstEpoch u64
  | ChGenesisKey
  | ChGenesisNotSelfSigned
  | ChGenesisQuantum
  | ChNoGroup u64
  | ChCert cert_error
  | ChEpochJump u64 u64
  | ChStartedBefore u64
  | ChUnexpectedKey u64
  | ChUnexpectedQuantumKey u64

definition RootPublicKey :: "Chain \<Rightarrow> bytes" where
  "RootPublicKey c = (if length (ch_Certs c) = 0 then [] else rc_PublicKey (ch_Certs c ! 0))"

definition ActivePublicKey :: "Chain \<Rightarrow> bytes" where
  "ActivePublicKey c =
     (if length (ch_Certs c) = 0 then [] else rc_PublicKey (ch_Certs c ! (length (ch_Certs c) - 1)))"

definition ActiveEpoch :: "Chain \<Rightarrow> u64" where
  "ActiveEpoch c =
     (if length (ch_Certs c) = 0 then 0 else rc_Epoch (ch_Certs c ! (length (ch_Certs c) - 1)))"

definition PublicKeyAt :: "Chain \<Rightarrow> u64 \<Rightarrow> bytes" where
  "PublicKeyAt c epoch =
     (case find (\<lambda>cert. rc_Epoch cert = epoch) (ch_Certs c) of
        Some cert \<Rightarrow> rc_PublicKey cert | None \<Rightarrow> [])"

definition QuantumPublicKeyAt :: "Chain \<Rightarrow> u64 \<Rightarrow> bytes" where
  "QuantumPublicKeyAt c epoch =
     (case find (\<lambda>cert. rc_Epoch cert = epoch) (ch_Certs c) of
        Some cert \<Rightarrow> rc_QuantumPublicKey cert | None \<Rightarrow> [])"

text \<open>The link of a certificate to its predecessor.\<close>

definition verify_link :: "RotationCert \<Rightarrow> RotationCert \<Rightarrow> chain_error option" where
  "verify_link prev cert =
     (if rc_Epoch cert \<noteq> rc_Epoch prev + 1 then Some (ChEpochJump (rc_Epoch prev) (rc_Epoch cert))
      else if sint (rc_StartedAt cert) < sint (rc_StartedAt prev)
        then Some (ChStartedBefore (rc_Epoch cert))
      else if length (rc_MemberSigs cert) = 0 then
        (if \<not> bytesEqual (rc_SignedBy cert) (rc_PublicKey prev)
           then Some (ChUnexpectedKey (rc_Epoch cert))
         else if (0 < length (rc_QuantumPublicKey cert) \<or> 0 < length (rc_QuantumSignedBy cert))
             \<and> \<not> bytesEqual (rc_QuantumSignedBy cert) (rc_QuantumPublicKey prev)
           then Some (ChUnexpectedQuantumKey (rc_Epoch cert))
         else None)
      else None)"

definition verify_cert :: "crypto \<Rightarrow> Group option \<Rightarrow> RotationCert \<Rightarrow> chain_error option" where
  "verify_cert C go cert =
     (if 0 < length (rc_MemberSigs cert)
      then (if go = None then Some (ChNoGroup (rc_Epoch cert))
            else map_option ChCert (VerifyWithGroup C cert go))
      else map_option ChCert (rc_Verify C cert))"

fun verify_certs ::
    "crypto \<Rightarrow> Group option \<Rightarrow> RotationCert option \<Rightarrow> RotationCert list \<Rightarrow> chain_error option" where
  "verify_certs C go prev [] = None"
| "verify_certs C go prev (cert # certs) =
     (case verify_cert C go cert of
        Some e \<Rightarrow> Some e
      | None \<Rightarrow>
          (case prev of None \<Rightarrow> verify_certs C go (Some cert) certs
           | Some p \<Rightarrow>
               (case verify_link p cert of Some e \<Rightarrow> Some e
                | None \<Rightarrow> verify_certs C go (Some cert) certs)))"

definition verifyChain :: "crypto \<Rightarrow> Chain \<Rightarrow> bytes \<Rightarrow> Group option \<Rightarrow> chain_error option" where
  "verifyChain C c rootPub go =
     (if length (ch_Certs c) = 0 then Some ChNoCerts
      else let c0 = ch_Certs c ! 0 in
      if rc_Epoch c0 \<noteq> 0 then Some (ChFirstEpoch (rc_Epoch c0))
      else if \<not> bytesEqual (rc_PublicKey c0) rootPub then Some ChGenesisKey
      else if \<not> bytesEqual (rc_SignedBy c0) rootPub then Some ChGenesisNotSelfSigned
      else if 0 < length (rc_QuantumPublicKey c0)
          \<and> \<not> bytesEqual (rc_QuantumPublicKey c0) (rc_QuantumSignedBy c0) then Some ChGenesisQuantum
      else verify_certs C go None (ch_Certs c))"

definition ch_VerifyChain :: "crypto \<Rightarrow> Chain \<Rightarrow> bytes \<Rightarrow> chain_error option" where
  "ch_VerifyChain C c rootPub = verifyChain C c rootPub None"

definition VerifyChainWithGroup :: "crypto \<Rightarrow> Chain \<Rightarrow> bytes \<Rightarrow> Group option \<Rightarrow> chain_error option" where
  "VerifyChainWithGroup C c rootPub go = verifyChain C c rootPub go"

definition KeyID :: "bytes \<Rightarrow> string" where
  "KeyID pub = hex (take 8 (sha256 pub))"

subsection \<open>The signer\<close>

record ThresholdRotator =
  tr_Group :: "Group option"
  tr_Sign :: "bytes \<Rightarrow> string + MemberSig option list"

record 'k Signer =
  sg_origin :: string
  sg_chain :: Chain
  sg_active :: "'k option"
  sg_threshRotator :: "ThresholdRotator option"
  sg_file :: "Chain option"

datatype fwdsec_error =
    FwMkdir
  | FwGenerate keystore_error
  | FwSelfSignClassical keystore_error
  | FwSelfSignQuantum keystore_error
  | FwWriteChain
  | FwEmptyChain
  | FwOriginMismatch
  | FwNoLocator
  | FwLoadActive keystore_error
  | FwKeyMismatch
  | FwNoActive
  | FwSign keystore_error
  | FwNilGroup
  | FwThresholdSign string
  | FwDestroy keystore_error

definition empty_cert :: RotationCert where
  "empty_cert = \<lparr>rc_Epoch = 0, rc_PublicKey = [], rc_StartedAt = 0, rc_SignedBy = [], rc_Signature = [],
     rc_QuantumPublicKey = [], rc_QuantumSignedBy = [], rc_QuantumSignature = [],
     rc_ThresholdGroupDigest = [], rc_MemberSigs = []\<rparr>"

text \<open>\<open>writeChain\<close> replaces \<open>chain.json\<close> or leaves it as it was.\<close>

definition writeChain :: "bool \<Rightarrow> 'k Signer \<Rightarrow> 'k Signer \<times> fwdsec_error option" where
  "writeChain wr_ok s =
     (if wr_ok then (s\<lparr>sg_file := Some (sg_chain s)\<rparr>, None) else (s, Some FwWriteChain))"

definition createGenesis ::
    "('w, 'k) KeyStore \<Rightarrow> i64 \<Rightarrow> bool \<Rightarrow> string \<Rightarrow> 'w \<Rightarrow> 'w \<times> (fwdsec_error + 'k Signer)" where
  "createGenesis KS now wr_ok origin w =
     (case ks_Generate KS w of (w, Inl e) \<Rightarrow> (w, Inl (FwGenerate e))
      | (w, Inr active) \<Rightarrow>
        let pub = lk_Public KS w active; qpub = lk_QuantumPublic KS w active;
            cert = empty_cert\<lparr>rc_Epoch := 0, rc_PublicKey := pub, rc_StartedAt := now, rc_SignedBy := pub\<rparr>;
            cert = (if qpub \<noteq> [] then cert\<lparr>rc_QuantumPublicKey := qpub, rc_QuantumSignedBy := qpub\<rparr> else cert);
            canon = rc_Canonical cert
        in case lk_Sign KS w active canon of
             Inl e \<Rightarrow> (fst (lk_Destroy KS w active), Inl (FwSelfSignClassical e))
           | Inr sig \<Rightarrow>
             let cert = cert\<lparr>rc_Signature := sig\<rparr>
             in case (if qpub \<noteq> [] then lk_QuantumSign KS w active canon else Inr []) of
                  Inl e \<Rightarrow> (fst (lk_Destroy KS w active), Inl (FwSelfSignQuantum e))
                | Inr qsig \<Rightarrow>
                  let cert = cert\<lparr>rc_QuantumSignature := qsig\<rparr>;
                      s = \<lparr>sg_origin = origin,
                           sg_chain = \<lparr>ch_Origin = origin, ch_Certs = [cert],
                                       ch_ActiveLocator = lk_Locator KS w active\<rparr>,
                           sg_active = Some active, sg_threshRotator = None, sg_file = None\<rparr>
                  in case writeChain wr_ok s of
                       (s, Some e) \<Rightarrow> (w, Inl e) | (s, None) \<Rightarrow> (w, Inr s))"

definition loadActive ::
    "('w, 'k) KeyStore \<Rightarrow> string \<Rightarrow> Chain \<Rightarrow> 'w \<Rightarrow> 'w \<times> (fwdsec_error + 'k Signer)" where
  "loadActive KS origin chain w =
     (if length (ch_Certs chain) = 0 then (w, Inl FwEmptyChain)
      else if ch_Origin chain \<noteq> [] \<and> ch_Origin chain \<noteq> origin then (w, Inl FwOriginMismatch)
      else if ch_ActiveLocator chain = [] then (w, Inl FwNoLocator)
      else case ks_Load KS w (ch_ActiveLocator chain) of
        (w, Inl e) \<Rightarrow> (w, Inl (FwLoadActive e))
      | (w, Inr active) \<Rightarrow>
          if \<not> bytesEqual (lk_Public KS w active) (ActivePublicKey chain)
            then (fst (lk_Destroy KS w active), Inl FwKeyMismatch)
          else (w, Inr \<lparr>sg_origin = origin, sg_chain = chain, sg_active = Some active,
                         sg_threshRotator = None, sg_file = Some chain\<rparr>))"

definition NewSignerWithStore ::
    "('w, 'k) KeyStore \<Rightarrow> bool \<Rightarrow> i64 \<Rightarrow> bool \<Rightarrow> string \<Rightarrow> Chain option \<Rightarrow> 'w
      \<Rightarrow> 'w \<times> (fwdsec_error + 'k Signer)" where
  "NewSignerWithStore KS mkdir_ok now wr_ok origin file w =
     (if \<not> mkdir_ok then (w, Inl FwMkdir)
      else case file of None \<Rightarrow> createGenesis KS now wr_ok origin w
      | Some chain \<Rightarrow> loadActive KS origin chain w)"

definition sg_Sign :: "('w, 'k) KeyStore \<Rightarrow> 'w \<Rightarrow> 'k Signer \<Rightarrow> bytes \<Rightarrow> fwdsec_error + u64 \<times> bytes" where
  "sg_Sign KS w s message =
     (case sg_active s of None \<Rightarrow> Inl FwNoActive
      | Some k \<Rightarrow>
          (case lk_Sign KS w k message of Inl e \<Rightarrow> Inl (FwSign e)
           | Inr out \<Rightarrow> Inr (ActiveEpoch (sg_chain s), out)))"

text \<open>The certificate for the new key, before it is signed.\<close>

definition rotate_cert ::
    "('w, 'k) KeyStore \<Rightarrow> i64 \<Rightarrow> 'w \<Rightarrow> 'k \<Rightarrow> RotationCert \<Rightarrow> RotationCert" where
  "rotate_cert KS now w newActive prevCert =
     (let qpub = lk_QuantumPublic KS w newActive;
          cert = empty_cert\<lparr>rc_Epoch := rc_Epoch prevCert + 1, rc_PublicKey := lk_Public KS w newActive,
                   rc_StartedAt := now, rc_SignedBy := rc_PublicKey prevCert\<rparr>
      in if qpub \<noteq> [] then cert\<lparr>rc_QuantumPublicKey := qpub,
                                rc_QuantumSignedBy := rc_QuantumPublicKey prevCert\<rparr>
         else cert)"

definition rotate_sign ::
    "('w, 'k) KeyStore \<Rightarrow> 'w \<Rightarrow> 'k \<Rightarrow> RotationCert \<Rightarrow> ThresholdRotator option \<Rightarrow> RotationCert
      \<Rightarrow> fwdsec_error + RotationCert" where
  "rotate_sign KS w prevActive prevCert rotator cert =
     (case rotator of
        Some tr \<Rightarrow>
          (case tr_Group tr of None \<Rightarrow> Inl FwNilGroup
           | Some g \<Rightarrow>
               let cert = cert\<lparr>rc_ThresholdGroupDigest := hex (grp_Digest g)\<rparr>
               in case tr_Sign tr (rc_Canonical cert) of
                    Inl e \<Rightarrow> Inl (FwThresholdSign e)
                  | Inr sigs \<Rightarrow> Inr (cert\<lparr>rc_MemberSigs := sigs\<rparr>))
      | None \<Rightarrow>
          let canon = rc_Canonical cert
          in case lk_Sign KS w prevActive canon of
               Inl e \<Rightarrow> Inl (FwSelfSignClassical e)
             | Inr sig \<Rightarrow>
                 let cert = cert\<lparr>rc_Signature := sig\<rparr>
                 in if 0 < length (rc_QuantumPublicKey cert) \<and> 0 < length (rc_QuantumPublicKey prevCert)
                    then (case lk_QuantumSign KS w prevActive canon of
                            Inl e \<Rightarrow> Inl (FwSelfSignQuantum e)
                          | Inr qsig \<Rightarrow> Inr (cert\<lparr>rc_QuantumSignature := qsig\<rparr>))
                    else Inr cert)"

definition Rotate ::
    "('w, 'k) KeyStore \<Rightarrow> i64 \<Rightarrow> bool \<Rightarrow> 'w \<Rightarrow> 'k Signer
      \<Rightarrow> 'w \<times> 'k Signer \<times> (fwdsec_error + RotationCert)" where
  "Rotate KS now wr_ok w s =
     (case sg_active s of None \<Rightarrow> (w, s, Inl FwNoActive)
      | Some prevActive \<Rightarrow>
        let prevCert = ch_Certs (sg_chain s) ! (length (ch_Certs (sg_chain s)) - 1)
        in case ks_Generate KS w of
             (w, Inl e) \<Rightarrow> (w, s, Inl (FwGenerate e))
           | (w, Inr newActive) \<Rightarrow>
             (case rotate_sign KS w prevActive prevCert (sg_threshRotator s)
                     (rotate_cert KS now w newActive prevCert) of
                Inl e \<Rightarrow> (fst (lk_Destroy KS w newActive), s, Inl e)
              | Inr cert \<Rightarrow>
                let chain = (sg_chain s)\<lparr>ch_Certs := ch_Certs (sg_chain s) @ [cert],
                                         ch_ActiveLocator := lk_Locator KS w newActive\<rparr>
                in case writeChain wr_ok (s\<lparr>sg_chain := chain\<rparr>) of
                     (s', Some e) \<Rightarrow>
                       (fst (lk_Destroy KS w newActive),
                        s\<lparr>sg_chain := (sg_chain s)\<lparr>ch_ActiveLocator := lk_Locator KS w prevActive\<rparr>\<rparr>,
                        Inl e)
                   | (s', None) \<Rightarrow>
                       (case lk_Destroy KS w prevActive of
                          (w, Some e) \<Rightarrow> (w, s', Inl (FwDestroy e))
                        | (w, None) \<Rightarrow> (w, s'\<lparr>sg_active := Some newActive\<rparr>, Inr cert))))"

definition sg_Public :: "'k Signer \<Rightarrow> bytes" where
  "sg_Public s = ActivePublicKey (sg_chain s)"

definition sg_ActiveEpoch :: "'k Signer \<Rightarrow> u64" where
  "sg_ActiveEpoch s = ActiveEpoch (sg_chain s)"

definition sg_Hybrid :: "('w, 'k) KeyStore \<Rightarrow> 'w \<Rightarrow> 'k Signer \<Rightarrow> bool" where
  "sg_Hybrid KS w s =
     (case sg_active s of None \<Rightarrow> False | Some k \<Rightarrow> lk_QuantumPublic KS w k \<noteq> [])"

definition sg_QuantumSign :: "('w, 'k) KeyStore \<Rightarrow> 'w \<Rightarrow> 'k Signer \<Rightarrow> bytes \<Rightarrow> fwdsec_error + bytes" where
  "sg_QuantumSign KS w s message =
     (case sg_active s of None \<Rightarrow> Inl FwNoActive
      | Some k \<Rightarrow>
          (case lk_QuantumSign KS w k message of Inl e \<Rightarrow> Inl (FwSign e) | Inr out \<Rightarrow> Inr out))"

definition UseThresholdRotation :: "ThresholdRotator \<Rightarrow> 'k Signer \<Rightarrow> 'k Signer" where
  "UseThresholdRotation rotator s = s\<lparr>sg_threshRotator := Some rotator\<rparr>"

section \<open>Lemmas\<close>

subsection \<open>The canonical text\<close>

definition digest_ok :: "string \<Rightarrow> bool" where
  "digest_ok d \<longleftrightarrow> CHR 0x0A \<notin> set d \<and> d \<noteq> ''none''"

lemma hex_not_none: "hex b \<noteq> ''none''"
  using set_hex [of b] by (auto simp: hextable_def)

lemma or_none_inj:
  "hex a \<noteq> ''none'' \<Longrightarrow> (if 0 < length a then hex a else ''none'') = (if 0 < length b then hex b else ''none'')
     \<longleftrightarrow> a = b"
  using hex_not_none [of b] hex_not_none [of b, symmetric] by auto

lemma digest_or_none_inj:
  "digest_ok d \<Longrightarrow> digest_ok e \<Longrightarrow>
     (if d = [] then ''none'' else d) = (if e = [] then ''none'' else e) \<longleftrightarrow> d = e"
  by (auto simp: digest_ok_def)

text \<open>
  The text a rotation certificate's signatures cover determines its epoch, both its public
  keys, its start time, its signer and its group, for certificates whose group digest is not the
  word none and has no line break (a hexadecimal digest is neither).
\<close>

lemma rc_Canonical_inj:
  assumes "digest_ok (rc_ThresholdGroupDigest c)" and "digest_ok (rc_ThresholdGroupDigest d)"
  shows "rc_Canonical c = rc_Canonical d \<longleftrightarrow>
    rc_Epoch c = rc_Epoch d \<and> rc_PublicKey c = rc_PublicKey d \<and> rc_StartedAt c = rc_StartedAt d
    \<and> rc_SignedBy c = rc_SignedBy d \<and> rc_QuantumPublicKey c = rc_QuantumPublicKey d
    \<and> rc_ThresholdGroupDigest c = rc_ThresholdGroupDigest d"
proof -
  let ?q = "\<lambda>c. if 0 < length (rc_QuantumPublicKey c) then hex (rc_QuantumPublicKey c) else ''none''"
  let ?t = "\<lambda>c. if rc_ThresholdGroupDigest c = [] then ''none'' else rc_ThresholdGroupDigest c"
  have q: "CHR 0x0A \<notin> set (?q c)" "CHR 0x0A \<notin> set (?q d)" by auto
  have "rc_text c = rc_text d \<longleftrightarrow>
      rc_Epoch c = rc_Epoch d \<and> rc_PublicKey c = rc_PublicKey d \<and> rc_StartedAt c = rc_StartedAt d
      \<and> rc_SignedBy c = rc_SignedBy d \<and> ?q c = ?q d \<and> ?t c = ?t d"
    unfolding rc_text_def Let_def
    by (simp only: same_append_eq line_append [OF dec_u64_no_nl dec_u64_no_nl] dec_u64_inj
        line_append [OF hex_no_nl hex_no_nl] hex_inj line_append [OF dec_i64_no_nl dec_i64_no_nl]
        dec_i64_inj line_append [OF q] line_end conj_assoc)
  also have "?q c = ?q d \<longleftrightarrow> rc_QuantumPublicKey c = rc_QuantumPublicKey d"
    by (rule or_none_inj [OF hex_not_none])
  also have "?t c = ?t d \<longleftrightarrow> rc_ThresholdGroupDigest c = rc_ThresholdGroupDigest d"
    by (rule digest_or_none_inj [OF assms])
  finally show ?thesis by (simp add: rc_Canonical_def)
qed

subsection \<open>Accepted chains\<close>

lemma verify_certs_snoc:
  "verify_certs C go p (certs @ [c]) = None \<longleftrightarrow>
     verify_certs C go p certs = None \<and> verify_cert C go c = None
     \<and> (case (if certs = [] then p else Some (last certs)) of
          None \<Rightarrow> True | Some l \<Rightarrow> verify_link l c = None)"
  by (induction certs arbitrary: p) (auto split: option.splits)

lemma verify_certs_append:
  "verify_certs C go p (xs @ ys) = None \<Longrightarrow> verify_certs C go p xs = None"
  by (induction xs arbitrary: p) (auto split: option.splits)

lemma verify_certs_nth:
  assumes "verify_certs C go None certs = None" "i < length certs"
  shows "verify_cert C go (certs ! i) = None"
    and "0 < i \<Longrightarrow> verify_link (certs ! (i - 1)) (certs ! i) = None"
proof -
  have "verify_certs C go None (take (Suc i) certs @ drop (Suc i) certs) = None"
    using assms(1) by simp
  from verify_certs_append [OF this]
  have *: "verify_certs C go None (take i certs @ [certs ! i]) = None"
    using assms(2) by (simp add: take_Suc_conv_app_nth)
  then show "verify_cert C go (certs ! i) = None" by (simp add: verify_certs_snoc)
  assume "0 < i"
  then have ne: "take i certs \<noteq> []" using assms(2) by auto
  then have "last (take i certs) = certs ! (i - 1)"
    using \<open>0 < i\<close> assms(2) by (simp add: last_conv_nth [OF ne] min_def)
  with * ne show "verify_link (certs ! (i - 1)) (certs ! i) = None" by (simp add: verify_certs_snoc)
qed

lemma verifyChain_None:
  "verifyChain C c root go = None \<longleftrightarrow>
     ch_Certs c \<noteq> [] \<and> rc_Epoch (ch_Certs c ! 0) = 0 \<and> rc_PublicKey (ch_Certs c ! 0) = root
     \<and> rc_SignedBy (ch_Certs c ! 0) = root
     \<and> (rc_QuantumPublicKey (ch_Certs c ! 0) \<noteq> [] \<longrightarrow>
          rc_QuantumSignedBy (ch_Certs c ! 0) = rc_QuantumPublicKey (ch_Certs c ! 0))
     \<and> verify_certs C go None (ch_Certs c) = None"
  by (auto simp: verifyChain_def Let_def bytesEqual_iff)

lemma verify_cert_single:
  "verify_cert C None c = None \<longleftrightarrow> rc_MemberSigs c = [] \<and> rc_Verify C c = None"
  by (auto simp: verify_cert_def)

lemma verify_link_None:
  "rc_MemberSigs c = [] \<Longrightarrow> verify_link p c = None \<longleftrightarrow>
     rc_Epoch c = rc_Epoch p + 1 \<and> sint (rc_StartedAt p) \<le> sint (rc_StartedAt c)
     \<and> rc_SignedBy c = rc_PublicKey p
     \<and> (rc_QuantumPublicKey c \<noteq> [] \<or> rc_QuantumSignedBy c \<noteq> [] \<longrightarrow>
          rc_QuantumSignedBy c = rc_QuantumPublicKey p)"
  by (auto simp: verify_link_def bytesEqual_iff)

lemma rc_Verify_None:
  "rc_Verify C c = None \<longleftrightarrow>
     length (rc_PublicKey c) = 32 \<and> rc_MemberSigs c = [] \<and> length (rc_SignedBy c) = 32
     \<and> ed25519_Verify C (rc_SignedBy c) (rc_Canonical c) (rc_Signature c)
     \<and> (rc_QuantumPublicKey c \<noteq> [] \<or> rc_QuantumSignature c \<noteq> [] \<or> rc_QuantumSignedBy c \<noteq> [] \<longrightarrow>
          verifyQuantumCert C c (rc_Canonical c) = None)"
  by (auto simp: rc_Verify_def Let_def key_sizes split: option.splits)

lemma chain_epochs:
  assumes "verifyChain C c root None = None" "i < length (ch_Certs c)"
  shows "rc_Epoch (ch_Certs c ! i) = of_nat i"
  using assms(2)
proof (induction i)
  case 0
  with assms(1) show ?case by (simp add: verifyChain_None)
next
  case (Suc i)
  have v: "verify_certs C None None (ch_Certs c) = None" using assms(1) by (simp add: verifyChain_None)
  note l = verify_certs_nth [OF v Suc.prems]
  have "rc_MemberSigs (ch_Certs c ! Suc i) = []" using l(1) by (simp add: verify_cert_single)
  from verify_link_None [OF this] l(2) Suc show ?case by simp
qed

lemma find_epoch:
  assumes "verifyChain C c root None = None" "i < length (ch_Certs c)" "length (ch_Certs c) \<le> 2 ^ 64"
  shows "find (\<lambda>cert. rc_Epoch cert = of_nat i) (ch_Certs c) = Some (ch_Certs c ! i)"
proof -
  have "rc_Epoch (ch_Certs c ! j) \<noteq> of_nat i" if "j < i" for j
    using chain_epochs [OF assms(1), of j] of_nat_eq_u64 [of j i] that assms(2,3) by simp
  then show ?thesis
    using assms(2) chain_epochs [OF assms(1,2)] by (auto simp: find_Some_iff intro!: exI [of _ i])
qed

text \<open>
  In a chain that \<open>VerifyChain\<close> accepts, the i-th certificate is epoch i, lookups by epoch
  return its keys, and its classical signature verifies under the key of epoch i-1, or, for the
  genesis, under the trusted root: every epoch's key is authorised from the root by an unbroken
  sequence of signatures.
\<close>

theorem accepted_chain:
  assumes "ch_VerifyChain C c root = None" and "i < length (ch_Certs c)" and "length (ch_Certs c) \<le> 2 ^ 64"
  shows "rc_Epoch (ch_Certs c ! i) = of_nat i
    \<and> PublicKeyAt c (of_nat i) = rc_PublicKey (ch_Certs c ! i) \<and> length (rc_PublicKey (ch_Certs c ! i)) = 32
    \<and> QuantumPublicKeyAt c (of_nat i) = rc_QuantumPublicKey (ch_Certs c ! i)
    \<and> ed_verify C (if i = 0 then root else rc_PublicKey (ch_Certs c ! (i - 1)))
        (rc_Canonical (ch_Certs c ! i)) (rc_Signature (ch_Certs c ! i))"
proof -
  have vc: "verifyChain C c root None = None" using assms(1) by (simp add: ch_VerifyChain_def)
  have v: "verify_certs C None None (ch_Certs c) = None" using vc by (simp add: verifyChain_None)
  note n = verify_certs_nth [OF v assms(2)]
  have single: "rc_MemberSigs (ch_Certs c ! i) = []" "rc_Verify C (ch_Certs c ! i) = None"
    using n(1) by (simp_all add: verify_cert_single)
  have "rc_SignedBy (ch_Certs c ! i) = (if i = 0 then root else rc_PublicKey (ch_Certs c ! (i - 1)))"
    using n(2) vc verify_link_None [OF single(1)] by (auto simp: verifyChain_None)
  with single(2) show ?thesis
    by (simp add: rc_Verify_None ed25519_Verify_def PublicKeyAt_def QuantumPublicKeyAt_def
        find_epoch [OF vc assms(2,3)] chain_epochs [OF vc assms(2)])
qed

subsection \<open>The signer\<close>

text \<open>The state of a running signer in single-signature mode.\<close>

definition signer_inv ::
    "crypto \<Rightarrow> ('w, 'k) KeyStore \<Rightarrow> ('w \<Rightarrow> 'k \<Rightarrow> bool) \<Rightarrow> 'w \<Rightarrow> 'k Signer \<Rightarrow> bool" where
  "signer_inv C KS usable w s \<longleftrightarrow>
     verifyChain C (sg_chain s) (RootPublicKey (sg_chain s)) None = None
     \<and> sg_file s = Some (sg_chain s) \<and> ch_Origin (sg_chain s) = sg_origin s
     \<and> (\<exists>k. sg_active s = Some k \<and> usable w k
          \<and> ch_ActiveLocator (sg_chain s) = lk_Locator KS w k
          \<and> rc_PublicKey (last (ch_Certs (sg_chain s))) = lk_Public KS w k
          \<and> rc_QuantumPublicKey (last (ch_Certs (sg_chain s))) = lk_QuantumPublic KS w k)"

text \<open>The clock did not step back between the certificates of a chain.\<close>

definition clock_ok :: "RotationCert list \<Rightarrow> bool" where
  "clock_ok certs \<longleftrightarrow> sorted (map (\<lambda>c. sint (rc_StartedAt c)) certs)"

text \<open>The same without the clock: the chain would be accepted if the clock did not step back.\<close>

definition live_inv ::
    "crypto \<Rightarrow> ('w, 'k) KeyStore \<Rightarrow> ('w \<Rightarrow> 'k \<Rightarrow> bool) \<Rightarrow> 'w \<Rightarrow> 'k Signer \<Rightarrow> bool" where
  "live_inv C KS usable w s \<longleftrightarrow>
     ch_Certs (sg_chain s) \<noteq> []
     \<and> (clock_ok (ch_Certs (sg_chain s)) \<longrightarrow> verifyChain C (sg_chain s) (RootPublicKey (sg_chain s)) None = None)
     \<and> sg_file s = Some (sg_chain s) \<and> ch_Origin (sg_chain s) = sg_origin s
     \<and> (\<exists>k. sg_active s = Some k \<and> usable w k
          \<and> ch_ActiveLocator (sg_chain s) = lk_Locator KS w k
          \<and> rc_PublicKey (last (ch_Certs (sg_chain s))) = lk_Public KS w k
          \<and> rc_QuantumPublicKey (last (ch_Certs (sg_chain s))) = lk_QuantumPublic KS w k)"

lemma verifyChain_clock:
  assumes "verifyChain C ch root go = None"
  shows "clock_ok (ch_Certs ch)"
proof -
  have v: "verify_certs C go None (ch_Certs ch) = None" using assms by (simp add: verifyChain_None)
  have "sint (rc_StartedAt (ch_Certs ch ! i)) \<le> sint (rc_StartedAt (ch_Certs ch ! Suc i))"
    if "Suc i < length (ch_Certs ch)" for i
    using verify_certs_nth(2) [OF v that] by (auto simp: verify_link_def split: if_splits)
  then show ?thesis by (simp add: clock_ok_def sorted_iff_nth_Suc)
qed

lemma signer_inv_live: "signer_inv C KS u w s \<longleftrightarrow> live_inv C KS u w s \<and> clock_ok (ch_Certs (sg_chain s))"
  using verifyChain_clock [of C "sg_chain s"] by (auto simp: signer_inv_def live_inv_def verifyChain_None)

lemma clock_ok_snoc:
  "certs \<noteq> [] \<Longrightarrow> clock_ok (certs @ [c]) \<longleftrightarrow> clock_ok certs \<and> sint (rc_StartedAt (last certs)) \<le> sint (rc_StartedAt c)"
proof -
  assume "certs \<noteq> []"
  then have "clock_ok certs \<Longrightarrow> x \<in> set certs \<Longrightarrow> sint (rc_StartedAt x) \<le> sint (rc_StartedAt (last certs))" for x
    by (induction certs rule: rev_induct) (auto simp: clock_ok_def sorted_append)
  moreover have "last certs \<in> set certs" using \<open>certs \<noteq> []\<close> by simp
  ultimately show ?thesis by (fastforce simp: clock_ok_def sorted_append)
qed

lemma empty_cert_simps [simp]:
  "rc_QuantumPublicKey empty_cert = []" "rc_QuantumSignedBy empty_cert = []"
  "rc_QuantumSignature empty_cert = []" "rc_ThresholdGroupDigest empty_cert = []"
  "rc_MemberSigs empty_cert = []" "rc_Signature empty_cert = []" "rc_PublicKey empty_cert = []"
  by (simp_all add: empty_cert_def)

lemma rc_Canonical_sigs [simp]:
  "rc_Canonical (c\<lparr>rc_Signature := x\<rparr>) = rc_Canonical c"
  "rc_Canonical (c\<lparr>rc_QuantumSignature := x\<rparr>) = rc_Canonical c"
  "rc_Canonical (c\<lparr>rc_MemberSigs := y\<rparr>) = rc_Canonical c"
  by (simp_all add: rc_Canonical_def rc_text_def Let_def)

lemma rotate_cert_simps [simp]:
  "rc_Epoch (rotate_cert KS now w k p) = rc_Epoch p + 1"
  "rc_PublicKey (rotate_cert KS now w k p) = lk_Public KS w k"
  "rc_StartedAt (rotate_cert KS now w k p) = now"
  "rc_SignedBy (rotate_cert KS now w k p) = rc_PublicKey p"
  "rc_QuantumPublicKey (rotate_cert KS now w k p) = lk_QuantumPublic KS w k"
  "rc_QuantumSignedBy (rotate_cert KS now w k p) =
     (if lk_QuantumPublic KS w k = [] then [] else rc_QuantumPublicKey p)"
  "rc_MemberSigs (rotate_cert KS now w k p) = []"
  "rc_QuantumSignature (rotate_cert KS now w k p) = []"
  by (simp_all add: rotate_cert_def Let_def)

lemma verifyChain_snoc:
  assumes "verifyChain C ch root None = None" "verify_cert C None c = None"
    and "verify_link (last (ch_Certs ch)) c = None"
  shows "verifyChain C (ch\<lparr>ch_Certs := ch_Certs ch @ [c], ch_ActiveLocator := x\<rparr>) root None = None"
  using assms by (auto simp: verifyChain_None verify_certs_snoc nth_append)

text \<open>
  What a rotation in single-signature mode did that wrote its certificate to the chain: it succeeded, or
  it failed to destroy the old key and kept that key as the active one.
\<close>

lemma rotate_sign_error: "rotate_sign KS w k p None c = Inl e \<Longrightarrow> \<forall>x. e \<noteq> FwDestroy x"
  by (auto simp: rotate_sign_def Let_def split: sum.splits if_splits)

lemma Rotate_written:
  assumes "Rotate KS now wr_ok w s = (w', s', r)" "(\<exists>cert. r = Inr cert) \<or> (\<exists>e. r = Inl (FwDestroy e))"
    and "sg_threshRotator s = None" "sg_active s = Some k" "ch_Certs (sg_chain s) \<noteq> []"
  obtains w1 new cert res where "ks_Generate KS w = (w1, Inr new)"
    "rotate_sign KS w1 k (last (ch_Certs (sg_chain s))) None
       (rotate_cert KS now w1 new (last (ch_Certs (sg_chain s)))) = Inr cert"
    "lk_Destroy KS w1 k = (w', res)"
    "r = (case res of None \<Rightarrow> Inr cert | Some e \<Rightarrow> Inl (FwDestroy e))"
    "s' = s\<lparr>sg_chain := (sg_chain s)\<lparr>ch_Certs := ch_Certs (sg_chain s) @ [cert],
                ch_ActiveLocator := lk_Locator KS w1 new\<rparr>,
             sg_file := Some ((sg_chain s)\<lparr>ch_Certs := ch_Certs (sg_chain s) @ [cert],
                ch_ActiveLocator := lk_Locator KS w1 new\<rparr>), sg_active := Some (if res = None then new else k)\<rparr>"
proof -
  let ?p = "last (ch_Certs (sg_chain s))"
  obtain w1 g where g: "ks_Generate KS w = (w1, g)" by force
  with assms obtain new where new: "g = Inr new" by (cases g) (auto simp: Rotate_def Let_def)
  obtain cert where cert: "rotate_sign KS w1 k ?p None (rotate_cert KS now w1 new ?p) = Inr cert"
    using assms g new rotate_sign_error [of KS w1 k ?p "rotate_cert KS now w1 new ?p"]
    by (cases "rotate_sign KS w1 k ?p None (rotate_cert KS now w1 new ?p)") (auto simp: Rotate_def Let_def last_conv_nth)
  have wr: "wr_ok" using assms g new cert by (auto simp: Rotate_def writeChain_def Let_def last_conv_nth split: if_splits)
  obtain w2 res where d: "lk_Destroy KS w1 k = (w2, res)" by force
  show ?thesis
    by (rule that [OF g [unfolded new] cert, of res])
      (use assms g new cert wr d in \<open>auto simp: Rotate_def writeChain_def Let_def last_conv_nth split: option.splits\<close>)
qed

lemma Rotate_success:
  assumes "Rotate KS now wr_ok w s = (w', s', Inr cert)" "sg_threshRotator s = None"
    and "sg_active s = Some k" "ch_Certs (sg_chain s) \<noteq> []"
  obtains w1 new where "ks_Generate KS w = (w1, Inr new)"
    "rotate_sign KS w1 k (last (ch_Certs (sg_chain s))) None
       (rotate_cert KS now w1 new (last (ch_Certs (sg_chain s)))) = Inr cert"
    "lk_Destroy KS w1 k = (w', None)"
    "s' = s\<lparr>sg_chain := (sg_chain s)\<lparr>ch_Certs := ch_Certs (sg_chain s) @ [cert],
                ch_ActiveLocator := lk_Locator KS w1 new\<rparr>,
             sg_file := Some ((sg_chain s)\<lparr>ch_Certs := ch_Certs (sg_chain s) @ [cert],
                ch_ActiveLocator := lk_Locator KS w1 new\<rparr>), sg_active := Some new\<rparr>"
  by (rule Rotate_written [OF assms(1) _ assms(2-4)]) (auto intro: that split: option.splits)

lemma rotate_sign_fields:
  assumes "rotate_sign KS w k p None c = Inr cert"
  shows "rc_Epoch cert = rc_Epoch c" "rc_PublicKey cert = rc_PublicKey c"
    "rc_StartedAt cert = rc_StartedAt c" "rc_SignedBy cert = rc_SignedBy c"
    "rc_QuantumPublicKey cert = rc_QuantumPublicKey c" "rc_QuantumSignedBy cert = rc_QuantumSignedBy c"
    "rc_MemberSigs cert = rc_MemberSigs c" "rc_Canonical cert = rc_Canonical c"
    "lk_Sign KS w k (rc_Canonical c) = Inr (rc_Signature cert)"
    "rc_QuantumPublicKey c \<noteq> [] \<and> rc_QuantumPublicKey p \<noteq> [] \<Longrightarrow>
       lk_QuantumSign KS w k (rc_Canonical c) = Inr (rc_QuantumSignature cert)"
    "rc_QuantumPublicKey c = [] \<or> rc_QuantumPublicKey p = [] \<Longrightarrow>
       rc_QuantumSignature cert = rc_QuantumSignature c"
  using assms by (auto simp: rotate_sign_def Let_def split: sum.splits if_splits)

context key_store
begin

lemma rotate_cert_verifies:
  assumes wf: "wf w" and k: "usable w k" and new: "usable w new"
    and p: "rc_PublicKey p = lk_Public KS w k" "rc_QuantumPublicKey p = lk_QuantumPublic KS w k"
    and hyb: "lk_QuantumPublic KS w new \<noteq> [] \<longrightarrow> lk_QuantumPublic KS w k \<noteq> []"
    and sig: "rotate_sign KS w k p None (rotate_cert KS now w new p) = Inr cert"
  shows "rc_Verify C cert = None"
proof -
  note f = rotate_sign_fields [OF sig]
  let ?m = "rc_Canonical (rotate_cert KS now w new p)"
  have cl: "ed25519_Verify C (lk_Public KS w k) ?m (rc_Signature cert)" "length (lk_Public KS w k) = 32"
    "length (lk_Public KS w new) = 32"
    using sign [OF wf k, of ?m] sign [OF wf new, of ?m] f(9) by auto
  have "verifyQuantumCert C cert ?m = None" if q: "lk_QuantumPublic KS w new \<noteq> []"
  proof -
    have qk: "lk_QuantumPublic KS w k \<noteq> []" using hyb q by blast
    have "lk_QuantumSign KS w k ?m = Inr (rc_QuantumSignature cert)"
      using f(10) q qk p(2) by simp
    with quantum_sign [OF wf k qk, of ?m] quantum_sign [OF wf new q, of ?m] f(5,6) q p(2)
    show ?thesis by (simp add: verifyQuantumCert_def key_sizes)
  qed
  moreover have "rc_QuantumSignature cert = []" if "lk_QuantumPublic KS w new = []"
    using f(11) that by simp
  ultimately show ?thesis using cl f p(1) by (auto simp: rc_Verify_None)
qed

text \<open>
  Whenever the certificate was written, the chain is as good as before; a successful rotation also leaves
  the new key in charge.
\<close>

lemma Rotate_written_inv:
  assumes wf: "wf w" and inv: "live_inv C KS usable w s" and single: "sg_threshRotator s = None"
    and rot: "Rotate KS now wr_ok w s = (w', s', r)" "(\<exists>cert. r = Inr cert) \<or> (\<exists>e. r = Inl (FwDestroy e))"
    and hyb: "\<And>w1 new. ks_Generate KS w = (w1, Inr new) \<Longrightarrow> lk_QuantumPublic KS w1 new \<noteq> [] \<Longrightarrow>
      rc_QuantumPublicKey (last (ch_Certs (sg_chain s))) \<noteq> []"
  shows "wf w' \<and> ch_Certs (sg_chain s') \<noteq> []
    \<and> (clock_ok (ch_Certs (sg_chain s')) \<longrightarrow> verifyChain C (sg_chain s') (RootPublicKey (sg_chain s')) None = None)
    \<and> sg_file s' = Some (sg_chain s') \<and> ch_Origin (sg_chain s') = sg_origin s'
    \<and> (\<forall>cert. r = Inr cert \<longrightarrow> live_inv C KS usable w' s')"
proof -
  let ?p = "last (ch_Certs (sg_chain s))"
  obtain k where k: "sg_active s = Some k" "usable w k"
    "rc_PublicKey ?p = lk_Public KS w k" "rc_QuantumPublicKey ?p = lk_QuantumPublic KS w k"
    using inv by (auto simp: live_inv_def)
  have ne: "ch_Certs (sg_chain s) \<noteq> []" using inv by (auto simp: live_inv_def)
  obtain w1 new cert res where gen: "ks_Generate KS w = (w1, Inr new)"
    and sig: "rotate_sign KS w1 k ?p None (rotate_cert KS now w1 new ?p) = Inr cert"
    and des: "lk_Destroy KS w1 k = (w', res)"
    and r: "r = (case res of None \<Rightarrow> Inr cert | Some e \<Rightarrow> Inl (FwDestroy e))"
    and s': "s' = s\<lparr>sg_chain := (sg_chain s)\<lparr>ch_Certs := ch_Certs (sg_chain s) @ [cert],
                ch_ActiveLocator := lk_Locator KS w1 new\<rparr>,
             sg_file := Some ((sg_chain s)\<lparr>ch_Certs := ch_Certs (sg_chain s) @ [cert],
                ch_ActiveLocator := lk_Locator KS w1 new\<rparr>), sg_active := Some (if res = None then new else k)\<rparr>"
    by (rule Rotate_written [OF rot single k(1) ne])
  have w1: "wf w1" "usable w1 new" "usable w1 k" "same_key KS w w1 k"
    "lk_Locator KS w1 new \<noteq> lk_Locator KS w1 k"
    using generate_wf [OF wf] generate_usable [OF wf gen] generate_keeps [OF wf k(2)]
      generate_fresh [OF wf k(2) gen] gen by (auto simp: same_key_def)
  have p1: "rc_PublicKey ?p = lk_Public KS w1 k" "rc_QuantumPublicKey ?p = lk_QuantumPublic KS w1 k"
    using k w1(4) by (simp_all add: same_key_def)
  have v: "rc_Verify C cert = None"
    by (rule rotate_cert_verifies [OF w1(1,3,2) p1 _ sig]) (use hyb [OF gen] p1 in auto)
  note f = rotate_sign_fields [OF sig]
  have root: "RootPublicKey (sg_chain s') = RootPublicKey (sg_chain s)"
    using ne by (simp add: RootPublicKey_def s' nth_append)
  have chain: "verifyChain C (sg_chain s') (RootPublicKey (sg_chain s)) None = None" if "clock_ok (ch_Certs (sg_chain s'))"
  proof -
    have "clock_ok (ch_Certs (sg_chain s))" "verify_link ?p cert = None"
      using that f by (simp_all add: s' clock_ok_snoc [OF ne] verify_link_None)
    then show ?thesis using verifyChain_snoc [of C "sg_chain s"] v f(7) inv by (simp add: s' verify_cert_single live_inv_def)
  qed
  have "wf w'" "usable w' new" "same_key KS w1 w' new"
    using destroy_wf [OF w1(1,3)] destroy_keeps [OF w1(1,3,2)] w1(5) des by auto
  with chain root show ?thesis
    using inv f r by (auto simp: live_inv_def s' same_key_def split: option.splits)
qed

lemma Rotate_forward_secure:
  assumes wf: "wf w" and inv: "live_inv C KS usable w s" and single: "sg_threshRotator s = None"
    and rot: "Rotate KS now wr_ok w s = (w', s', Inr cert)" and k: "sg_active s = Some k"
  shows "(\<exists>e. lk_Sign KS w' k m = Inl e) \<and> (\<exists>e. lk_QuantumSign KS w' k m = Inl e)
    \<and> (finds (fst (ks_Generate KS w)) k \<longrightarrow> (\<exists>w'' e. ks_Load KS w' (ch_ActiveLocator (sg_chain s)) = (w'', Inl e)))"
proof -
  have u: "usable w k" and loc: "ch_ActiveLocator (sg_chain s) = lk_Locator KS w k"
    and ne: "ch_Certs (sg_chain s) \<noteq> []"
    using inv k by (auto simp: live_inv_def)
  obtain w1 new where gen: "ks_Generate KS w = (w1, Inr new)" and des: "lk_Destroy KS w1 k = (w', None)"
    by (rule Rotate_success [OF rot single k ne])
  have w1: "wf w1" "usable w1 k" "same_key KS w w1 k"
    using generate_wf [OF wf] generate_keeps [OF wf u] gen by auto
  show ?thesis
    using destroy_dead [OF w1(1,2), of m] destroy_gone [OF w1(1,2) des] des w1(3) loc gen
    by (simp add: same_key_def)
qed

end

lemma Rotate_failure:
  assumes "Rotate KS now wr_ok w s = (w', s', Inl e)" "\<forall>d. e \<noteq> FwDestroy d"
    and "sg_active s = Some k" "ch_ActiveLocator (sg_chain s) = lk_Locator KS w k"
    and "\<And>w1 r. ks_Generate KS w = (w1, r) \<Longrightarrow> lk_Locator KS w1 k = lk_Locator KS w k"
  shows "s' = s \<and> ((\<exists>g. ks_Generate KS w = (w', Inl g))
    \<or> (\<exists>w1 new. ks_Generate KS w = (w1, Inr new) \<and> w' = fst (lk_Destroy KS w1 new)))"
  using assms
  by (auto simp: Rotate_def writeChain_def Let_def split: prod.splits sum.splits option.splits if_splits)

context key_store
begin

lemma Rotate_failure_keeps_inv:
  assumes wf: "wf w" and inv: "live_inv C KS usable w s"
    and rot: "Rotate KS now wr_ok w s = (w', s', Inl e)" and e: "\<forall>d. e \<noteq> FwDestroy d"
  shows "wf w' \<and> s' = s \<and> live_inv C KS usable w' s"
proof -
  obtain k where k: "sg_active s = Some k" "usable w k" "ch_ActiveLocator (sg_chain s) = lk_Locator KS w k"
    using inv by (auto simp: live_inv_def)
  have loc: "lk_Locator KS w1 k = lk_Locator KS w k" if "ks_Generate KS w = (w1, r)" for w1 r
    using generate_keeps [OF wf k(2)] that by (simp add: same_key_def)
  from Rotate_failure [OF rot e k(1,3) loc] have "s' = s"
    and cases: "(\<exists>g. ks_Generate KS w = (w', Inl g))
      \<or> (\<exists>w1 new. ks_Generate KS w = (w1, Inr new) \<and> w' = fst (lk_Destroy KS w1 new))" by auto
  from cases have "wf w' \<and> usable w' k \<and> same_key KS w w' k"
  proof (elim disjE exE conjE)
    fix g assume "ks_Generate KS w = (w', Inl g)"
    then show ?thesis using generate_wf [OF wf] generate_keeps [OF wf k(2)] by simp
  next
    fix w1 new assume gen: "ks_Generate KS w = (w1, Inr new)" and w': "w' = fst (lk_Destroy KS w1 new)"
    have w1: "wf w1" "usable w1 new" "usable w1 k" "same_key KS w w1 k"
      "lk_Locator KS w1 k \<noteq> lk_Locator KS w1 new"
      using generate_wf [OF wf] generate_usable [OF wf gen] generate_keeps [OF wf k(2)]
        generate_fresh [OF wf k(2) gen] gen by (auto simp: same_key_def)
    from destroy_wf [OF w1(1,2)] destroy_keeps [OF w1(1,2,3,5)] w1(4) show ?thesis
      by (simp add: w' same_key_def)
  qed
  with \<open>s' = s\<close> inv k(1) show ?thesis by (auto simp: live_inv_def same_key_def)
qed

lemma createGenesis_inv:
  assumes wf: "wf w" and gen: "createGenesis KS now True origin w = (w', Inr s)"
  shows "wf w' \<and> signer_inv C KS usable w' s \<and> sg_threshRotator s = None
    \<and> length (ch_Certs (sg_chain s)) = 1"
proof -
  obtain k where g: "ks_Generate KS w = (w', Inr k)"
    using gen by (auto simp: createGenesis_def writeChain_def Let_def split: prod.splits sum.splits if_splits)
  have w': "wf w'" "usable w' k" using generate_wf [OF wf] generate_usable [OF wf g] g by auto
  let ?pub = "lk_Public KS w' k" and ?q = "lk_QuantumPublic KS w' k"
  define c where "c = (if ?q \<noteq> [] then empty_cert\<lparr>rc_Epoch := 0, rc_PublicKey := ?pub, rc_StartedAt := now,
      rc_SignedBy := ?pub, rc_QuantumPublicKey := ?q, rc_QuantumSignedBy := ?q\<rparr>
    else empty_cert\<lparr>rc_Epoch := 0, rc_PublicKey := ?pub, rc_StartedAt := now, rc_SignedBy := ?pub\<rparr>)"
  have c: "rc_Epoch c = 0" "rc_PublicKey c = ?pub" "rc_SignedBy c = ?pub" "rc_QuantumPublicKey c = ?q"
    "rc_QuantumSignedBy c = ?q" "rc_MemberSigs c = []"
    by (simp_all add: c_def)
  obtain sig where sig: "lk_Sign KS w' k (rc_Canonical c) = Inr sig"
    "ed25519_Verify C ?pub (rc_Canonical c) sig" "length ?pub = 32"
    using sign [OF w', of "rc_Canonical c"] by auto
  define qs where "qs = (if ?q \<noteq> [] then lk_QuantumSign KS w' k (rc_Canonical c) else Inr [])"
  obtain qsig where qsig: "qs = Inr qsig"
    using quantum_sign [OF w', of "rc_Canonical c"] by (cases "?q = []") (auto simp: qs_def)
  let ?c = "c\<lparr>rc_Signature := sig, rc_QuantumSignature := qsig\<rparr>"
  have s: "s = \<lparr>sg_origin = origin, sg_chain = \<lparr>ch_Origin = origin, ch_Certs = [?c],
      ch_ActiveLocator = lk_Locator KS w' k\<rparr>, sg_active = Some k, sg_threshRotator = None,
      sg_file = Some \<lparr>ch_Origin = origin, ch_Certs = [?c], ch_ActiveLocator = lk_Locator KS w' k\<rparr>\<rparr>"
    using gen sig(1) qsig unfolding createGenesis_def g qs_def c_def
    by (auto simp: writeChain_def Let_def split: if_splits)
  have "verifyQuantumCert C ?c (rc_Canonical c) = None" if "?q \<noteq> []"
    using quantum_sign [OF w' that, of "rc_Canonical c"] qsig that c
    by (auto simp: qs_def verifyQuantumCert_def key_sizes)
  moreover have "qsig = []" if "?q = []" using qsig that by (simp add: qs_def)
  ultimately have "rc_Verify C ?c = None" using sig c by (auto simp: rc_Verify_None)
  then have "verify_cert C None ?c = None" using c(6) by (simp add: verify_cert_single)
  then have "verifyChain C (sg_chain s) (RootPublicKey (sg_chain s)) None = None"
    using c by (simp add: s verifyChain_None RootPublicKey_def)
  with w' c show ?thesis by (simp add: signer_inv_def s)
qed

end

subsection \<open>The signer over the file store\<close>

text \<open>
  The states a file-backed signer in single-signature mode goes through: a genesis, then rotations at any
  clock and with any outcome.  \<open>rs\<close> lists what the rotations returned.
\<close>

inductive signer_run ::
    "crypto \<Rightarrow> (bytes \<Rightarrow> bytes option) \<Rightarrow> bool \<Rightarrow> FileWorld \<Rightarrow> (fwdsec_error + RotationCert) list \<Rightarrow> FileWorld \<Rightarrow> nat Signer \<Rightarrow> bool"
  for C d hybrid w0 where
  genesis: "createGenesis (file_store C d hybrid) now wr_ok origin w0 = (w, Inr s)
    \<Longrightarrow> signer_run C d hybrid w0 [] w s"
| rotate: "signer_run C d hybrid w0 rs w s
    \<Longrightarrow> Rotate (file_store C d hybrid) now wr_ok w s = (w', s', r)
    \<Longrightarrow> signer_run C d hybrid w0 (rs @ [r]) w' s'"

text \<open>No rotation failed to destroy the old key, after which the signer is left with a dead key.\<close>

definition all_destroyed :: "(fwdsec_error + RotationCert) list \<Rightarrow> bool" where
  "all_destroyed rs \<longleftrightarrow> list_all (\<lambda>r. case r of Inl (FwDestroy _) \<Rightarrow> False | _ \<Rightarrow> True) rs"

lemma new_key_quantum: "env_ok C hybrid w \<Longrightarrow> flk_qPub (new_key C hybrid w) \<noteq> [] \<longleftrightarrow> hybrid"
  by (auto simp: new_key_def Let_def env_ok_def dest: d3_correctD(5))

lemma file_Generate_hybrid:
  assumes "file_wf C hybrid w" "ks_Generate (file_store C d hybrid) w = (w1, Inr new)"
  shows "lk_QuantumPublic (file_store C d hybrid) w1 new \<noteq> [] \<longleftrightarrow> hybrid"
  using file_Generate_new [OF assms(1), of w1 new] assms new_key_quantum by (simp add: file_wf_def)

lemma last_quantum:
  assumes "file_wf C hybrid w" "ks_Generate (file_store C d hybrid) w = (w1, Inr new)"
    and "rotate_sign (file_store C d hybrid) w1 k p None (rotate_cert (file_store C d hybrid) now w1 new p) = Inr cert"
  shows "rc_QuantumPublicKey cert \<noteq> [] \<longleftrightarrow> hybrid"
  using rotate_sign_fields(5) [OF assms(3)] file_Generate_hybrid [OF assms(1,2)] by simp

text \<open>A signer with a dead key: its memory holds no private key, and it stays that way.\<close>

definition dead_key :: "FileWorld \<Rightarrow> nat \<Rightarrow> bool" where
  "dead_key w k \<longleftrightarrow> k < length (fw_heap w) \<and> flk_priv (fw_heap w ! k) = []"

lemma flk_Destroy_kills: "k < length (fw_heap w) \<Longrightarrow> dead_key (fst (flk_Destroy w k)) k"
  by (simp add: dead_key_def flk_Destroy_heap)

lemma Rotate_dead:
  assumes "file_wf C hybrid w" "dead_key w k" "sg_active s = Some k" "sg_threshRotator s = None"
    and "Rotate (file_store C d hybrid) now wr_ok w s = (w', s', r)"
  shows "s' = s \<and> file_wf C hybrid w' \<and> dead_key w' k \<and> all_destroyed [r] \<and> (\<forall>cert. r \<noteq> Inr cert)"
proof -
  obtain w1 g where g: "file_Generate C hybrid w = (w1, g)" by force
  have wf: "file_wf C hybrid w1" using file_Generate_wf [OF assms(1)] g by (metis fst_conv)
  have d1: "dead_key w1 k" "flk_Sign C w1 k m = Inl KsDestroyed" for m
    using file_Generate_result [of C hybrid w] g assms(2) by (auto simp: dead_key_def nth_append flk_Sign_def Let_def)
  show ?thesis
  proof (cases g)
    case (Inl e)
    with g assms(3,5) d1 wf show ?thesis by (auto simp: Rotate_def Let_def all_destroyed_def)
  next
    case (Inr new)
    note n = file_Generate_new [OF assms(1) g [unfolded Inr]]
    have "k \<noteq> new" using n(1) assms(2) by (simp add: dead_key_def)
    then have "dead_key (fst (flk_Destroy w1 new)) k" using d1(1) by (simp add: dead_key_def flk_Destroy_heap)
    with g Inr assms(3-5) d1 flk_Destroy_wf [OF wf n(3)] show ?thesis
      by (auto simp: Rotate_def rotate_sign_def Let_def all_destroyed_def)
  qed
qed

text \<open>What holds in every state.\<close>

definition run_inv :: "crypto \<Rightarrow> (bytes \<Rightarrow> bytes option) \<Rightarrow> bool \<Rightarrow> (fwdsec_error + RotationCert) list \<Rightarrow> FileWorld \<Rightarrow> nat Signer \<Rightarrow> bool" where
  "run_inv C d hybrid rs w s \<longleftrightarrow>
     file_wf C hybrid w \<and> ch_Certs (sg_chain s) \<noteq> []
     \<and> (clock_ok (ch_Certs (sg_chain s)) \<longrightarrow> verifyChain C (sg_chain s) (RootPublicKey (sg_chain s)) None = None)
     \<and> sg_file s = Some (sg_chain s) \<and> ch_Origin (sg_chain s) = sg_origin s
     \<and> sg_threshRotator s = None \<and> (rc_QuantumPublicKey (last (ch_Certs (sg_chain s))) \<noteq> [] \<longleftrightarrow> hybrid)
     \<and> (if all_destroyed rs then live_inv C (file_store C d hybrid) (file_usable C) w s
        else \<exists>k. sg_active s = Some k \<and> dead_key w k)"

lemma all_destroyed_snoc: "all_destroyed (rs @ [r]) \<longleftrightarrow> all_destroyed rs \<and> all_destroyed [r]"
  by (simp add: all_destroyed_def)

lemma run_inv_rotate:
  assumes inv: "run_inv C d hybrid rs w s" and rot: "Rotate (file_store C d hybrid) now wr_ok w s = (w', s', r)"
    and live: "all_destroyed rs"
  shows "run_inv C d hybrid (rs @ [r]) w' s'"
proof (cases "(\<exists>cert. r = Inr cert) \<or> (\<exists>e. r = Inl (FwDestroy e))")
  case True
  have i: "file_wf C hybrid w" "live_inv C (file_store C d hybrid) (file_usable C) w s" "sg_threshRotator s = None"
    "ch_Certs (sg_chain s) \<noteq> []" "rc_QuantumPublicKey (last (ch_Certs (sg_chain s))) \<noteq> [] \<longleftrightarrow> hybrid"
    using inv live by (auto simp: run_inv_def)
  have hyb: "rc_QuantumPublicKey (last (ch_Certs (sg_chain s))) \<noteq> []"
    if "ks_Generate (file_store C d hybrid) w = (w1, Inr new)"
      "lk_QuantumPublic (file_store C d hybrid) w1 new \<noteq> []" for w1 new
    using file_Generate_hybrid [OF i(1) that(1)] that(2) i(5) by simp
  note k = file_ks.Rotate_written_inv [OF i(1-3) rot True hyb]
  obtain a where a: "sg_active s = Some a" "file_usable C w a" using i(2) by (auto simp: live_inv_def)
  obtain w1 new cert res where gen: "ks_Generate (file_store C d hybrid) w = (w1, Inr new)"
    and sig: "rotate_sign (file_store C d hybrid) w1 a (last (ch_Certs (sg_chain s))) None
      (rotate_cert (file_store C d hybrid) now w1 new (last (ch_Certs (sg_chain s)))) = Inr cert"
    and des: "lk_Destroy (file_store C d hybrid) w1 a = (w', res)"
    and r: "r = (case res of None \<Rightarrow> Inr cert | Some e \<Rightarrow> Inl (FwDestroy e))"
    and s': "ch_Certs (sg_chain s') = ch_Certs (sg_chain s) @ [cert]" "sg_threshRotator s' = None"
      "sg_active s' = Some (if res = None then new else a)"
    by (rule Rotate_written [OF rot True i(3) a(1) i(4)]) (use i(3) in auto)
  have "a < length (fw_heap w1)" using file_Generate_result [of C hybrid w] gen a(2) by (auto simp: file_usable_def)
  then have "dead_key w' a" using flk_Destroy_kills des by (metis file_store_sel(8) fst_conv)
  with k s' r last_quantum [OF i(1) gen sig] live show ?thesis
    by (cases res) (auto simp: run_inv_def all_destroyed_snoc all_destroyed_def)
next
  case False
  have i: "file_wf C hybrid w" "live_inv C (file_store C d hybrid) (file_usable C) w s" using inv live by (auto simp: run_inv_def)
  obtain e where e: "r = Inl e" "\<forall>x. e \<noteq> FwDestroy x" using False by (cases r) auto
  from file_ks.Rotate_failure_keeps_inv [OF i rot [unfolded e(1)] e(2)] inv live e show ?thesis
    by (auto simp: run_inv_def all_destroyed_snoc all_destroyed_def split: fwdsec_error.splits)
qed

lemma signer_run_inv_all:
  assumes "signer_run C d hybrid w0 rs w s" "file_wf C hybrid w0"
  shows "run_inv C d hybrid rs w s"
  using assms
proof (induction rule: signer_run.induct)
  case (genesis now wr_ok origin w s)
  have wr: "wr_ok" using genesis(1)
    by (auto simp: createGenesis_def writeChain_def Let_def split: prod.splits sum.splits if_splits)
  note g = file_ks.createGenesis_inv [OF genesis(2) genesis(1) [unfolded eqTrueI [OF wr]]]
  obtain k where k: "ks_Generate (file_store C d hybrid) w0 = (w, Inr k)" "sg_active s = Some k"
    using genesis(1) by (auto simp: createGenesis_def writeChain_def Let_def split: prod.splits sum.splits if_splits)
  have "live_inv C (file_store C d hybrid) (file_usable C) w s" using g by (simp add: signer_inv_live)
  moreover have "rc_QuantumPublicKey (last (ch_Certs (sg_chain s))) \<noteq> [] \<longleftrightarrow> hybrid"
    using g file_Generate_hybrid [OF genesis(2) k(1)] k(2) by (auto simp: signer_inv_def)
  ultimately show ?case using g by (auto simp: run_inv_def all_destroyed_def live_inv_def)
next
  case (rotate rs w s now wr_ok w' s' r)
  then have inv: "run_inv C d hybrid rs w s" by blast
  show ?case
  proof (cases "all_destroyed rs")
    case True
    from run_inv_rotate [OF inv rotate.hyps(2) True] show ?thesis .
  next
    case False
    then obtain k where k: "sg_active s = Some k" "dead_key w k" using inv by (auto simp: run_inv_def)
    from Rotate_dead [OF _ k(2,1) _ rotate.hyps(2)] inv False k show ?thesis
      by (auto simp: run_inv_def all_destroyed_snoc)
  qed
qed

text \<open>The states in which the signer is in order.\<close>

lemma signer_run_inv:
  assumes "signer_run C d hybrid w0 rs w s" "file_wf C hybrid w0" "all_destroyed rs" "clock_ok (ch_Certs (sg_chain s))"
  shows "file_wf C hybrid w \<and> signer_inv C (file_store C d hybrid) (file_usable C) w s
    \<and> sg_threshRotator s = None
    \<and> (rc_QuantumPublicKey (last (ch_Certs (sg_chain s))) \<noteq> [] \<longleftrightarrow> hybrid)"
  using signer_run_inv_all [OF assms(1,2)] assms(3,4) by (simp add: run_inv_def signer_inv_live)

text \<open>A signature is only made by a signer whose keys were all destroyed in time.\<close>

lemma sign_all_destroyed:
  assumes "signer_run C d hybrid w0 rs w s" "file_wf C hybrid w0" "sg_Sign (file_store C d hybrid) w s m = Inr r"
  shows "all_destroyed rs"
proof (rule ccontr)
  assume "\<not> all_destroyed rs"
  then obtain k where "sg_active s = Some k" "dead_key w k"
    using signer_run_inv_all [OF assms(1,2)] by (auto simp: run_inv_def)
  with assms(3) show False by (simp add: sg_Sign_def flk_Sign_def dead_key_def Let_def)
qed

lemma file_Generate_live:
  "env_fail w = (\<lambda>_. False) \<Longrightarrow> \<exists>w1 k. file_Generate C hybrid w = (w1, Inr k)"
  by (cases hybrid) (auto simp: file_Generate_def syscall_def alloc_def Let_def split: prod.splits)

lemma flk_Destroy_live:
  "env_fail w = (\<lambda>_. False) \<Longrightarrow> snd (flk_Destroy w h) = None"
  by (auto simp: flk_Destroy_def syscall_def Let_def)

lemma rotate_sign_live:
  assumes "file_wf C hybrid w" "file_usable C w k"
    and "rc_QuantumPublicKey p = lk_QuantumPublic (file_store C d hybrid) w k"
  shows "\<exists>cert. rotate_sign (file_store C d hybrid) w k p None c = Inr cert"
proof -
  obtain s where s: "lk_Sign (file_store C d hybrid) w k (rc_Canonical c) = Inr s"
    using file_ks.sign [OF assms(1,2)] by blast
  show ?thesis
  proof (cases "rc_QuantumPublicKey p = []")
    case True
    with s show ?thesis by (simp add: rotate_sign_def Let_def)
  next
    case False
    then obtain q where "lk_QuantumSign (file_store C d hybrid) w k (rc_Canonical c) = Inr q"
      using file_ks.quantum_sign [OF assms(1,2)] assms(3) by metis
    with s show ?thesis by (simp add: rotate_sign_def Let_def)
  qed
qed

lemma Rotate_ready:
  assumes "file_wf C hybrid w" and "live_inv C (file_store C d hybrid) (file_usable C) w s"
    and "sg_active s = Some k" and "env_fail w = (\<lambda>_. False)"
  obtains w1 new cert where "file_Generate C hybrid w = (w1, Inr new)" "env_fail w1 = (\<lambda>_. False)"
    "rotate_sign (file_store C d hybrid) w1 k (last (ch_Certs (sg_chain s))) None
       (rotate_cert (file_store C d hybrid) now w1 new (last (ch_Certs (sg_chain s)))) = Inr cert"
proof -
  let ?p = "last (ch_Certs (sg_chain s))"
  have k: "file_usable C w k" "rc_QuantumPublicKey ?p = lk_QuantumPublic (file_store C d hybrid) w k"
    using assms(2,3) by (auto simp: live_inv_def)
  obtain w1 new where gen: "file_Generate C hybrid w = (w1, Inr new)"
    using file_Generate_live [OF assms(4)] by blast
  have w1: "file_wf C hybrid w1" "file_usable C w1 k" "same_key (file_store C d hybrid) w w1 k"
    "env_fail w1 = (\<lambda>_. False)"
    using file_Generate_wf [OF assms(1)] file_Generate_keeps [OF assms(1) k(1)]
      file_Generate_env(1) [of w C hybrid] assms(4) gen by (auto simp: same_env_def)
  obtain cert where "rotate_sign (file_store C d hybrid) w1 k ?p None
      (rotate_cert (file_store C d hybrid) now w1 new ?p) = Inr cert"
    using rotate_sign_live [OF w1(1,2), of ?p d] k(2) w1(3) by (auto simp: same_key_def)
  with gen w1(4) show ?thesis by (rule that)
qed

lemma Rotate_live:
  assumes "file_wf C hybrid w" and "live_inv C (file_store C d hybrid) (file_usable C) w s"
    and "sg_threshRotator s = None" and "env_fail w = (\<lambda>_. False)"
  shows "\<exists>w' s' cert. Rotate (file_store C d hybrid) now True w s = (w', s', Inr cert)"
    and "\<exists>w' s'. Rotate (file_store C d hybrid) now False w s = (w', s', Inl FwWriteChain)"
proof -
  obtain k where k: "sg_active s = Some k" and ne: "ch_Certs (sg_chain s) \<noteq> []"
    using assms(2) by (auto simp: live_inv_def)
  obtain w1 new cert where ready: "file_Generate C hybrid w = (w1, Inr new)" "env_fail w1 = (\<lambda>_. False)"
    "rotate_sign (file_store C d hybrid) w1 k (last (ch_Certs (sg_chain s))) None
       (rotate_cert (file_store C d hybrid) now w1 new (last (ch_Certs (sg_chain s)))) = Inr cert"
    by (rule Rotate_ready [OF assms(1,2) k assms(4)])
  obtain w2 where "flk_Destroy w1 k = (w2, None)"
    using flk_Destroy_live [OF ready(2), of k] by (metis prod.collapse)
  with k ready assms(3) ne
  show "\<exists>w' s' cert. Rotate (file_store C d hybrid) now True w s = (w', s', Inr cert)"
    and "\<exists>w' s'. Rotate (file_store C d hybrid) now False w s = (w', s', Inl FwWriteChain)"
    by (simp_all add: Rotate_def writeChain_def Let_def last_conv_nth)
qed

text \<open>
  While no system call fails, a file-backed signer can always rotate: \<open>Rotate\<close> returns a
  certificate.
\<close>

theorem Rotate_succeeds:
  assumes "file_wf C hybrid w" and "live_inv C (file_store C d hybrid) (file_usable C) w s"
    and "sg_threshRotator s = None" and "env_fail w = (\<lambda>_. False)"
  shows "\<exists>w' s' cert. Rotate (file_store C d hybrid) now True w s = (w', s', Inr cert)"
  by (rule Rotate_live(1) [OF assms])

text \<open>
  C34.  When a chain of rotations is good.  After a genesis and any sequence of rotations of a file-backed
  signer in single-signature mode, at any clocks and with any outcomes, the chain is the one on disk;
  \<open>VerifyChain\<close> accepts it under its own genesis key exactly if the clock did not step back from one
  certificate to the next; and the signer makes a signature that verifies for the last epoch exactly if
  no rotation failed to destroy its old key.
\<close>

theorem signer_chain_verdict:
  assumes "signer_run C d hybrid w0 rs w s" and "file_wf C hybrid w0"
  shows "(ch_VerifyChain C (sg_chain s) (RootPublicKey (sg_chain s)) = None \<longleftrightarrow> clock_ok (ch_Certs (sg_chain s)))
    \<and> sg_file s = Some (sg_chain s)
    \<and> ((\<exists>sig. sg_Sign (file_store C d hybrid) w s m = Inr (ActiveEpoch (sg_chain s), sig)
          \<and> ed25519_Verify C (ActivePublicKey (sg_chain s)) m sig) \<longleftrightarrow> all_destroyed rs)"
proof -
  note i = signer_run_inv_all [OF assms]
  have "\<exists>sig. sg_Sign (file_store C d hybrid) w s m = Inr (ActiveEpoch (sg_chain s), sig)
      \<and> ed25519_Verify C (ActivePublicKey (sg_chain s)) m sig" if "all_destroyed rs"
  proof -
    have live: "live_inv C (file_store C d hybrid) (file_usable C) w s" "file_wf C hybrid w" using i that by (auto simp: run_inv_def)
    then obtain k where k: "sg_active s = Some k" "file_usable C w k"
      "rc_PublicKey (last (ch_Certs (sg_chain s))) = lk_Public (file_store C d hybrid) w k"
      and ne: "ch_Certs (sg_chain s) \<noteq> []" by (auto simp: live_inv_def)
    from file_ks.sign [OF live(2) k(2), of d m] obtain sig where
      "lk_Sign (file_store C d hybrid) w k m = Inr sig"
      "ed25519_Verify C (lk_Public (file_store C d hybrid) w k) m sig" by blast
    with k ne show ?thesis by (auto simp: sg_Sign_def ActivePublicKey_def last_conv_nth)
  qed
  moreover have "ch_VerifyChain C (sg_chain s) (RootPublicKey (sg_chain s)) = None \<longleftrightarrow> clock_ok (ch_Certs (sg_chain s))"
    using i verifyChain_clock [of C "sg_chain s"] by (auto simp: run_inv_def ch_VerifyChain_def)
  ultimately show ?thesis using i sign_all_destroyed [OF assms] by (auto simp: run_inv_def)
qed

text \<open>
  C36.  Forward security of a rotation.  Once \<open>Rotate\<close> has returned a certificate, the key that was
  active before it signs nothing, classical or quantum.  Its locator no longer opens a key if the
  \<open>os.Stat\<close> of the key file, the first system call after the new key was generated, succeeded; if that
  call failed, the rotation is reported as a success and the old key file is still there as it was.
\<close>

theorem rotation_destroys_previous_key:
  assumes "signer_run C d hybrid w0 rs w s" and "file_wf C hybrid w0"
    and "Rotate (file_store C d hybrid) now wr_ok w s = (w', s', Inr cert)" and "sg_active s = Some k"
  shows "(\<exists>e. flk_Sign C w' k m = Inl e) \<and> (\<exists>e. flk_QuantumSign C w' k m = Inl e)
    \<and> (if next_ok (fst (file_Generate C hybrid w)) then \<exists>w'' e. file_Load d w' (ch_ActiveLocator (sg_chain s)) = (w'', Inl e)
       else fw_disk w' (ch_ActiveLocator (sg_chain s)) = Some (encodePrivate (fw_heap w ! k)))"
proof -
  note i = signer_run_inv_all [OF assms(1,2)]
  have live: "all_destroyed rs"
  proof (rule ccontr)
    assume "\<not> all_destroyed rs"
    then have "dead_key w k" using i assms(4) by (auto simp: run_inv_def)
    from Rotate_dead [OF _ this assms(4) _ assms(3)] i show False by (simp add: run_inv_def)
  qed
  have inv: "file_wf C hybrid w" "live_inv C (file_store C d hybrid) (file_usable C) w s" "sg_threshRotator s = None"
    using i live by (auto simp: run_inv_def)
  obtain w1 new where gen: "ks_Generate (file_store C d hybrid) w = (w1, Inr new)"
    and des: "lk_Destroy (file_store C d hybrid) w1 k = (w', None)"
    by (rule Rotate_success [OF assms(3) inv(3) assms(4)]) (use inv(2) in \<open>auto simp: live_inv_def\<close>)
  have u: "file_usable C w k" "ch_ActiveLocator (sg_chain s) = flk_path (fw_heap w ! k)"
    using inv(2) assms(4) by (auto simp: live_inv_def)
  have "file_usable C w1 k" "same_key (file_store C d hybrid) w w1 k"
    using file_Generate_keeps [OF inv(1) u(1)] gen by auto
  moreover have "fw_heap w1 ! k = fw_heap w ! k"
    using file_Generate_result [of C hybrid w] gen u(1) by (auto simp: file_usable_def nth_append)
  ultimately have "fw_disk w' (ch_ActiveLocator (sg_chain s)) = Some (encodePrivate (fw_heap w ! k))" if "\<not> next_ok w1"
    using flk_Destroy_missed(2) [OF that, of k] des u(2) by (simp add: file_usable_def)
  with file_ks.Rotate_forward_secure [OF inv assms(3,4), of m] gen show ?thesis by simp
qed

text \<open>
  A rotation that fails before the old key is touched (the new key cannot be generated, the
  certificate cannot be signed or the chain cannot be written) leaves the signer exactly as it was,
  still able to sign.
\<close>

theorem failed_rotation_is_atomic:
  assumes "signer_run C d hybrid w0 rs w s" and "file_wf C hybrid w0" and "all_destroyed rs"
    and "Rotate (file_store C d hybrid) now wr_ok w s = (w', s', Inl e)" and "\<forall>x. e \<noteq> FwDestroy x"
  shows "s' = s \<and> live_inv C (file_store C d hybrid) (file_usable C) w' s"
  using file_ks.Rotate_failure_keeps_inv [OF _ _ assms(4,5)] signer_run_inv_all [OF assms(1,2)] assms(3)
  by (auto simp: run_inv_def)

subsection \<open>Rotations that break the chain\<close>

text \<open>
  \<open>Rotate\<close> does not compare the clock with the previous certificate.  If the clock has
  stepped back behind the start of the current epoch, the rotation succeeds, the old key is
  destroyed, and the chain it leaves behind is one that \<open>VerifyChain\<close> rejects.
\<close>

lemma rotation_with_clock_step_back:
  assumes "signer_run C d hybrid w0 rs w s" and "file_wf C hybrid w0"
    and "Rotate (file_store C d hybrid) now wr_ok w s = (w', s', Inr cert)"
    and "sint now < sint (rc_StartedAt (last (ch_Certs (sg_chain s))))"
  shows "ch_VerifyChain C (sg_chain s') (RootPublicKey (sg_chain s)) \<noteq> None"
proof -
  note i = signer_run_inv_all [OF assms(1,2)]
  obtain k where k: "sg_active s = Some k" and ne: "ch_Certs (sg_chain s) \<noteq> []"
    using i by (auto simp: run_inv_def live_inv_def split: if_splits)
  obtain w1 new where
    sig: "rotate_sign (file_store C d hybrid) w1 k (last (ch_Certs (sg_chain s))) None
      (rotate_cert (file_store C d hybrid) now w1 new (last (ch_Certs (sg_chain s)))) = Inr cert"
    and s': "ch_Certs (sg_chain s') = ch_Certs (sg_chain s) @ [cert]"
    by (rule Rotate_success [OF assms(3) _ k ne]) (use i in \<open>auto simp: run_inv_def\<close>)
  have "verify_link (last (ch_Certs (sg_chain s))) cert \<noteq> None"
    using rotate_sign_fields(1,3) [OF sig] assms(4) by (simp add: verify_link_def)
  then show ?thesis
    using ne by (auto simp: ch_VerifyChain_def verifyChain_None s' verify_certs_snoc)
qed

text \<open>
  Switching an existing classical log to a hybrid key store breaks its chain: the first
  rotation succeeds and destroys the classical key, but its certificate names a quantum key and
  carries no quantum signature, so \<open>VerifyChain\<close> rejects the chain from then on.
\<close>

theorem rotation_to_hybrid_breaks_chain:
  assumes "file_wf C True w" and "live_inv C (file_store C d True) (file_usable C) w s"
    and "sg_threshRotator s = None" and "rc_QuantumPublicKey (last (ch_Certs (sg_chain s))) = []"
    and "Rotate (file_store C d True) now wr_ok w s = (w', s', Inr cert)"
  shows "ch_VerifyChain C (sg_chain s') (RootPublicKey (sg_chain s)) \<noteq> None"
proof -
  obtain k where k: "sg_active s = Some k" and ne: "ch_Certs (sg_chain s) \<noteq> []"
    using assms(2) by (auto simp: live_inv_def)
  obtain w1 new where gen: "ks_Generate (file_store C d True) w = (w1, Inr new)"
    and sig: "rotate_sign (file_store C d True) w1 k (last (ch_Certs (sg_chain s))) None
      (rotate_cert (file_store C d True) now w1 new (last (ch_Certs (sg_chain s)))) = Inr cert"
    and s': "ch_Certs (sg_chain s') = ch_Certs (sg_chain s) @ [cert]"
    by (rule Rotate_success [OF assms(5,3) k ne]) auto
  have "lk_QuantumPublic (file_store C d True) w1 new \<noteq> []"
    using file_Generate_hybrid [OF assms(1) gen] by simp
  then have "rc_QuantumPublicKey cert \<noteq> []" "rc_QuantumSignedBy cert = []" "rc_MemberSigs cert = []"
    using rotate_sign_fields(5,6,7) [OF sig] assms(4) by simp_all
  then have "verify_cert C None cert \<noteq> None"
    by (auto simp: verify_cert_single rc_Verify_None verifyQuantumCert_def key_sizes)
  then show ?thesis
    using ne by (auto simp: ch_VerifyChain_def verifyChain_None s' verify_certs_snoc)
qed

subsection \<open>A sample signer, for witnesses\<close>

definition sample_world :: FileWorld where
  "sample_world =
     \<lparr>fw_heap = [], fw_disk = Map.empty, fw_gen = 0, fw_call = 0,
      env_seed = (\<lambda>n. replicate 32 (of_nat n)), env_qseed = (\<lambda>n. []),
      env_name = (\<lambda>n. CHR ''k'' # dec_nat n), env_fail = (\<lambda>_. False)\<rparr>"

abbreviation sample_store :: "bool \<Rightarrow> (FileWorld, nat) KeyStore" where
  "sample_store hybrid \<equiv> file_store sample_crypto (\<lambda>_. None) hybrid"

lemma sample_env_ok:
  assumes "env_seed w = env_seed sample_world" "env_qseed w = env_qseed sample_world"
    "env_name w = env_name sample_world"
  shows "env_ok sample_crypto hybrid w"
proof -
  have "d3_newkey sample_crypto x = (replicate 1952 0, replicate 1952 0)"
    "ed_newkey sample_crypto x = x @ x" for x
    by (simp_all add: sample_crypto_def)
  then show ?thesis
    using assms by (simp add: env_ok_def sample_world_def inj_def sample_d3_correct sample_ed_correct)
qed

lemma sample_world_wf: "file_wf sample_crypto hybrid sample_world"
  using sample_env_ok [of sample_world hybrid] by (simp add: file_wf_def) (simp add: sample_world_def)

lemma createGenesis_live:
  assumes "file_wf C hybrid w" "env_fail w = (\<lambda>_. False)"
  shows "\<exists>w' s. createGenesis (file_store C d hybrid) now True origin w = (w', Inr s)
    \<and> rc_StartedAt (last (ch_Certs (sg_chain s))) = now"
proof -
  obtain w1 k where gen: "file_Generate C hybrid w = (w1, Inr k)"
    using file_Generate_live [OF assms(2)] by blast
  have w1: "file_wf C hybrid w1" "file_usable C w1 k"
    using file_Generate_wf [OF assms(1)] file_Generate_new(3) [OF assms(1) gen] gen by auto
  have "\<exists>s. flk_Sign C w1 k m = Inr s" for m using file_ks.sign [OF w1, of d m] by auto
  moreover have "\<exists>s. flk_QuantumSign C w1 k m = Inr s" if "flk_qPub (fw_heap w1 ! k) \<noteq> []" for m
    using file_ks.quantum_sign [OF w1, of d m] that by auto
  ultimately show ?thesis
    by (auto simp: createGenesis_def gen writeChain_def Let_def empty_cert_def split: sum.splits)
      (metis sum.distinct(1))+
qed

definition sample_run0 :: "FileWorld \<times> nat Signer" where
  "sample_run0 =
     (let r = createGenesis (sample_store False) 100 True ''log'' sample_world in (fst r, projr (snd r)))"

lemma sample_genesis:
  "createGenesis (sample_store False) 100 True ''log'' sample_world = (fst sample_run0, Inr (snd sample_run0))"
  "rc_StartedAt (last (ch_Certs (sg_chain (snd sample_run0)))) = 100"
proof -
  have "env_fail sample_world = (\<lambda>_. False)" by (simp add: sample_world_def)
  from createGenesis_live [OF sample_world_wf [of False] this, of "\<lambda>_. None" 100 "''log''"]
  show "createGenesis (sample_store False) 100 True ''log'' sample_world = (fst sample_run0, Inr (snd sample_run0))"
    "rc_StartedAt (last (ch_Certs (sg_chain (snd sample_run0)))) = 100"
    by (auto simp: sample_run0_def Let_def)
qed

lemma sample_signer_run:
  "signer_run sample_crypto (\<lambda>_. None) False sample_world [] (fst sample_run0) (snd sample_run0)"
  by (rule signer_run.genesis [OF sample_genesis(1)])

lemma sample_clock: "all_destroyed []" "clock_ok (ch_Certs (sg_chain (snd sample_run0)))"
  using file_ks.createGenesis_inv [OF sample_world_wf sample_genesis(1)]
  by (simp_all add: all_destroyed_def signer_inv_live)

lemmas sample_run_inv = signer_run_inv [OF sample_signer_run sample_world_wf sample_clock]

lemma sample_run_env: "same_env sample_world (fst sample_run0)"
proof -
  have "\<exists>k. file_Generate sample_crypto False sample_world = (fst sample_run0, Inr k)"
    using sample_genesis(1)
    by (auto simp: createGenesis_def writeChain_def Let_def split: prod.splits sum.splits if_splits)
  then show ?thesis using file_Generate_env(1) by (metis fst_conv)
qed

lemma sample_run_fail: "env_fail (fst sample_run0) = (\<lambda>_. False)"
  using sample_run_env by (simp add: same_env_def sample_world_def)

lemma sample_run_wf: "file_wf sample_crypto hybrid (fst sample_run0)"
proof -
  have "env_ok sample_crypto hybrid (fst sample_run0)"
    by (rule sample_env_ok) (use sample_run_env in \<open>simp_all add: same_env_def\<close>)
  with sample_run_inv show ?thesis by (simp add: file_wf_def)
qed

lemma sample_run_signer_inv:
  "signer_inv sample_crypto (sample_store hybrid) (file_usable sample_crypto) (fst sample_run0) (snd sample_run0)"
  using sample_run_inv by (auto simp: signer_inv_def)

lemma sample_Rotate:
  obtains w s cert where
    "Rotate (sample_store hybrid) now True (fst sample_run0) (snd sample_run0) = (w, s, Inr cert)"
proof -
  obtain k where k: "sg_active (snd sample_run0) = Some k" "file_usable sample_crypto (fst sample_run0) k"
    using sample_run_inv by (auto simp: signer_inv_def)
  show ?thesis using that sample_run_wf sample_run_signer_inv sample_run_inv sample_run_fail
    by (metis Rotate_live(1) signer_inv_live)
qed

theorem Rotate_succeeds_witness:
  "\<exists>w s cert. Rotate (sample_store False) 200 True (fst sample_run0) (snd sample_run0) = (w, s, Inr cert)"
  by (rule Rotate_succeeds) (use sample_run_wf sample_run_signer_inv sample_run_inv sample_run_fail in \<open>auto simp: signer_inv_live\<close>)

theorem signer_chain_verdict_witness:
  "ch_VerifyChain sample_crypto (sg_chain (snd sample_run0)) (RootPublicKey (sg_chain (snd sample_run0))) = None
   \<and> (\<exists>sig. sg_Sign (sample_store False) (fst sample_run0) (snd sample_run0) [1]
        = Inr (ActiveEpoch (sg_chain (snd sample_run0)), sig))
   \<and> (\<exists>w s cert. Rotate (sample_store False) 50 True (fst sample_run0) (snd sample_run0) = (w, s, Inr cert)
        \<and> ch_VerifyChain sample_crypto (sg_chain s) (RootPublicKey (sg_chain s)) \<noteq> None)"
proof -
  note g = signer_chain_verdict [OF sample_signer_run sample_world_wf, of "[1]"]
  obtain w s cert where r: "Rotate (sample_store False) 50 True (fst sample_run0) (snd sample_run0) = (w, s, Inr cert)"
    by (rule sample_Rotate)
  note run = signer_run.rotate [OF sample_signer_run r]
  obtain k where k: "sg_active (snd sample_run0) = Some k" and ne: "ch_Certs (sg_chain (snd sample_run0)) \<noteq> []"
    using sample_run_inv by (auto simp: signer_inv_def verifyChain_None)
  have "\<not> clock_ok (ch_Certs (sg_chain s))"
    by (rule Rotate_success [OF r _ k ne])
      (use sample_run_inv in \<open>auto simp: clock_ok_snoc [OF ne] sample_genesis(2) dest: rotate_sign_fields(3)\<close>)
  with signer_chain_verdict [OF run sample_world_wf] g r sample_clock show ?thesis by blast
qed

theorem rotation_destroys_previous_key_witness:
  "\<exists>w s cert k. Rotate (sample_store False) 200 True (fst sample_run0) (snd sample_run0) = (w, s, Inr cert)
     \<and> sg_active (snd sample_run0) = Some k \<and> (\<exists>e. flk_Sign sample_crypto w k [1] = Inl e)
     \<and> (\<exists>w' e. file_Load (\<lambda>_. None) w (ch_ActiveLocator (sg_chain (snd sample_run0))) = (w', Inl e))"
proof -
  obtain w s cert where r: "Rotate (sample_store False) 200 True (fst sample_run0) (snd sample_run0) = (w, s, Inr cert)"
    by (rule sample_Rotate)
  obtain k where k: "sg_active (snd sample_run0) = Some k"
    using sample_run_inv by (auto simp: signer_inv_def)
  have "next_ok (fst (file_Generate sample_crypto False (fst sample_run0)))"
    using file_Generate_env(1) [of "fst sample_run0" sample_crypto False] sample_run_fail by (simp add: next_ok_def same_env_def)
  with rotation_destroys_previous_key [OF sample_signer_run sample_world_wf r k, of "[1]"] r k show ?thesis by auto
qed

lemma rotation_with_clock_step_back_witness:
  "\<exists>w s cert. Rotate (sample_store False) 50 True (fst sample_run0) (snd sample_run0) = (w, s, Inr cert)
     \<and> ch_VerifyChain sample_crypto (sg_chain s) (RootPublicKey (sg_chain (snd sample_run0))) \<noteq> None"
proof -
  obtain w s cert where r: "Rotate (sample_store False) 50 True (fst sample_run0) (snd sample_run0) = (w, s, Inr cert)"
    by (rule sample_Rotate)
  from rotation_with_clock_step_back [OF sample_signer_run sample_world_wf r] r show ?thesis
    by (auto simp: sample_genesis(2))
qed

theorem rotation_to_hybrid_breaks_chain_witness:
  "\<exists>w s cert. Rotate (sample_store True) 200 True (fst sample_run0) (snd sample_run0) = (w, s, Inr cert)
     \<and> ch_VerifyChain sample_crypto (sg_chain s) (RootPublicKey (sg_chain (snd sample_run0))) \<noteq> None"
proof -
  obtain w s cert where r: "Rotate (sample_store True) 200 True (fst sample_run0) (snd sample_run0) = (w, s, Inr cert)"
    by (rule sample_Rotate)
  from rotation_to_hybrid_breaks_chain [OF sample_run_wf _ _ _ r] sample_run_signer_inv [of True] sample_run_inv r
  show ?thesis by (auto simp: signer_inv_live)
qed

theorem failed_rotation_is_atomic_witness:
  "\<exists>w s. Rotate (sample_store False) 200 False (fst sample_run0) (snd sample_run0) = (w, s, Inl FwWriteChain)
     \<and> s = snd sample_run0"
proof -
  obtain w s where r: "Rotate (sample_store False) 200 False (fst sample_run0) (snd sample_run0) = (w, s, Inl FwWriteChain)"
    using Rotate_live(2) [OF sample_run_wf _ _ sample_run_fail] sample_run_signer_inv [of False] sample_run_inv
    by (metis signer_inv_live)
  from failed_rotation_is_atomic [OF sample_signer_run sample_world_wf sample_clock(1) r] r show ?thesis by simp
qed

theorem accepted_chain_witness:
  "rc_Epoch (ch_Certs (sg_chain (snd sample_run0)) ! 0) = 0
   \<and> ed_verify sample_crypto (RootPublicKey (sg_chain (snd sample_run0)))
       (rc_Canonical (ch_Certs (sg_chain (snd sample_run0)) ! 0)) (rc_Signature (ch_Certs (sg_chain (snd sample_run0)) ! 0))"
proof -
  have v: "ch_VerifyChain sample_crypto (sg_chain (snd sample_run0)) (RootPublicKey (sg_chain (snd sample_run0))) = None"
    using sample_run_signer_inv [of False] by (simp add: signer_inv_def ch_VerifyChain_def)
  have "length (ch_Certs (sg_chain (snd sample_run0))) = 1"
    using file_ks.createGenesis_inv [OF sample_world_wf sample_genesis(1)] by simp
  with accepted_chain [OF v, of 0] show ?thesis by simp
qed

lemma rc_Canonical_inj_witness:
  "rc_Canonical empty_cert \<noteq> rc_Canonical (empty_cert\<lparr>rc_QuantumPublicKey := [1]\<rparr>)"
  using rc_Canonical_inj [of empty_cert "empty_cert\<lparr>rc_QuantumPublicKey := [1]\<rparr>"]
  by (simp add: digest_ok_def)

end
