(* ===== verification/Checkpoint.thy ===== *)
theory Checkpoint
  imports Fwdsec
begin

text \<open>
  Package \<open>checkpoint\<close>: the signed tree heads of the log, their textual encoding, the signer
  that wraps the forward-secure signer or a threshold coordinator, the verification of the
  operator's signatures, and the verification of witness countersignatures.
\<close>

section \<open>Definitions\<close>

record Beacon =
  bc_Source :: string
  bc_Round :: u64
  bc_Value :: bytes
  bc_Signature :: bytes
  bc_ChainHash :: bytes

record WitnessSig =
  ws_WitnessID :: string
  ws_PublicKey :: bytes
  ws_KeyID :: string
  ws_Signature :: bytes
  ws_SignedAt :: i64
  ws_QuantumPublicKey :: bytes
  ws_QuantumSignature :: bytes

record Checkpoint =
  cp_Origin :: string
  cp_Size :: u64
  cp_RootHash :: bytes
  cp_HeadHash :: bytes
  cp_TimeNanos :: i64
  cp_EpochIdx :: u64
  cp_KeyID :: string
  cp_Beacon :: "Beacon option"
  cp_Signature :: bytes
  cp_QuantumSignature :: bytes
  cp_ThresholdGroupDigest :: string
  cp_MemberSigs :: "MemberSig option list"
  cp_Witnesses :: "WitnessSig option list"

definition beacon_text :: "Beacon option \<Rightarrow> string" where
  "beacon_text b =
     (case b of None \<Rightarrow> ''none''
      | Some b \<Rightarrow> bc_Source b @ '':'' @ dec_u64 (bc_Round b) @ '':'' @ hex (bc_Value b))"

definition cp_text :: "Checkpoint \<Rightarrow> string" where
  "cp_text c =
     (let tg = (if cp_ThresholdGroupDigest c = [] then ''none'' else cp_ThresholdGroupDigest c)
      in ''stele/v1'' @ nl
         @ ''origin: '' @ cp_Origin c @ nl
         @ ''size: '' @ dec_u64 (cp_Size c) @ nl
         @ ''root: '' @ hex (cp_RootHash c) @ nl
         @ ''head: '' @ hex (cp_HeadHash c) @ nl
         @ ''time: '' @ dec_i64 (cp_TimeNanos c) @ nl
         @ ''epoch: '' @ dec_u64 (cp_EpochIdx c) @ nl
         @ ''beacon: '' @ beacon_text (cp_Beacon c) @ nl
         @ ''threshold_group: '' @ tg @ nl)"

definition cp_Canonical :: "Checkpoint \<Rightarrow> bytes" where
  "cp_Canonical c = of_str (cp_text c)"

definition CanonicalForWitness :: "Checkpoint \<Rightarrow> bytes" where
  "CanonicalForWitness c =
     cp_Canonical c @ of_str ''operator_sig: '' @ of_str (hex (cp_Signature c)) @ of_str nl"

subsection \<open>The signer\<close>

record 'k CheckpointSigner =
  csg_fws :: "'k Signer"
  csg_threshGroup :: "Group option"
  csg_coord :: "Coordinator option"

datatype checkpoint_error =
    CpNeedsGroupAndCoordinator
  | CpGroup group_error
  | CpThresholdSign coordinator_error
  | CpSign fwdsec_error
  | CpHybridSign fwdsec_error
  | CpNoGroup
  | CpGroupDigest string
  | CpMulti multisig_error
  | CpNoChain
  | CpChain chain_error
  | CpNoEpoch u64
  | CpKeyID string u64
  | CpClassicalInvalid
  | CpMissingQuantum u64
  | CpQuantumDecode
  | CpQuantumInvalid
  | CpUnexpectedQuantum u64
  | CpNilPointer

definition cp_NewSigner :: "'k Signer \<Rightarrow> 'k CheckpointSigner" where
  "cp_NewSigner fws = \<lparr>csg_fws = fws, csg_threshGroup = None, csg_coord = None\<rparr>"

definition NewThresholdSigner ::
    "'k Signer \<Rightarrow> Group option \<Rightarrow> Coordinator option \<Rightarrow> checkpoint_error + 'k CheckpointSigner" where
  "NewThresholdSigner fws go coord =
     (if go = None \<or> coord = None then Inl CpNeedsGroupAndCoordinator
      else case Validate go of Some e \<Rightarrow> Inl (CpGroup e)
      | None \<Rightarrow> Inr \<lparr>csg_fws = fws, csg_threshGroup = go, csg_coord = coord\<rparr>)"

definition csg_Mode :: "'k CheckpointSigner \<Rightarrow> string" where
  "csg_Mode s = (if csg_threshGroup s \<noteq> None then ''threshold'' else ''single'')"

text \<open>The checkpoint \<open>Sign\<close> builds before any signature.\<close>

definition unsigned_checkpoint ::
    "i64 \<Rightarrow> 'k Signer \<Rightarrow> u64 \<Rightarrow> bytes \<Rightarrow> bytes \<Rightarrow> Beacon option \<Rightarrow> Checkpoint" where
  "unsigned_checkpoint now fws sz root head beacon =
     \<lparr>cp_Origin = sg_origin fws, cp_Size = sz, cp_RootHash = root, cp_HeadHash = head,
      cp_TimeNanos = now, cp_EpochIdx = sg_ActiveEpoch fws, cp_KeyID = KeyID (sg_Public fws),
      cp_Beacon = beacon, cp_Signature = [], cp_QuantumSignature = [],
      cp_ThresholdGroupDigest = [], cp_MemberSigs = [], cp_Witnesses = []\<rparr>"

definition cp_Sign ::
    "crypto \<Rightarrow> ('w, 'k) KeyStore \<Rightarrow> 'w \<Rightarrow> i64 \<Rightarrow> 'k CheckpointSigner \<Rightarrow> u64 \<Rightarrow> bytes \<Rightarrow> bytes \<Rightarrow> Beacon option
      \<Rightarrow> checkpoint_error + Checkpoint" where
  "cp_Sign C KS w now s sz root head beacon =
     (let fws = csg_fws s; c = unsigned_checkpoint now fws sz root head beacon
      in case csg_threshGroup s of
        Some g \<Rightarrow>
          let c = c\<lparr>cp_ThresholdGroupDigest := hex (grp_Digest g)\<rparr>
          in (case csg_coord s of None \<Rightarrow> Inl CpNilPointer
              | Some co \<Rightarrow>
                (case coord_Sign C (co_Group co) (cp_Canonical c) (co_replies co (cp_Canonical c)) of
                   (sigs, Some e) \<Rightarrow> Inl (CpThresholdSign e)
                 | (sigs, None) \<Rightarrow> Inr (c\<lparr>cp_MemberSigs := map Some sigs\<rparr>)))
      | None \<Rightarrow>
          let canon = cp_Canonical c
          in case sg_Sign KS w fws canon of
               Inl e \<Rightarrow> Inl (CpSign e)
             | Inr (_, sig) \<Rightarrow>
                 let c = c\<lparr>cp_Signature := sig\<rparr>
                 in if sg_Hybrid KS w fws
                    then (case sg_QuantumSign KS w fws canon of
                            Inl e \<Rightarrow> Inl (CpHybridSign e)
                          | Inr qsig \<Rightarrow> Inr (c\<lparr>cp_QuantumSignature := qsig\<rparr>))
                    else Inr c)"

subsection \<open>Verification of the operator's signatures\<close>

definition verifyQuantumCheckpoint ::
    "crypto \<Rightarrow> bytes \<Rightarrow> bytes \<Rightarrow> bytes \<Rightarrow> checkpoint_error option" where
  "verifyQuantumCheckpoint C pubBytes msg sig =
     (if \<not> d3_decode C pubBytes then Some CpQuantumDecode
      else if \<not> d3_verify C pubBytes msg sig then Some CpQuantumInvalid
      else None)"

definition cp_Verify ::
    "crypto \<Rightarrow> Checkpoint \<Rightarrow> Chain option \<Rightarrow> bytes \<Rightarrow> Group option \<Rightarrow> checkpoint_error option" where
  "cp_Verify C c chain rootPub go =
     (if 0 < length (cp_MemberSigs c) then
        (case go of None \<Rightarrow> Some CpNoGroup
         | Some g \<Rightarrow>
             (case Validate go of Some e \<Rightarrow> Some (CpGroup e)
              | None \<Rightarrow>
                  if cp_ThresholdGroupDigest c \<noteq> hex (grp_Digest g)
                    then Some (CpGroupDigest (cp_ThresholdGroupDigest c))
                  else map_option CpMulti (VerifyMulti C go (cp_Canonical c) (cp_MemberSigs c))))
      else
        (case chain of None \<Rightarrow> Some CpNoChain
         | Some ch \<Rightarrow>
             (case ch_VerifyChain C ch rootPub of Some e \<Rightarrow> Some (CpChain e)
              | None \<Rightarrow>
                let pub = PublicKeyAt ch (cp_EpochIdx c); canon = cp_Canonical c;
                    qChainPub = QuantumPublicKeyAt ch (cp_EpochIdx c)
                in if pub = [] then Some (CpNoEpoch (cp_EpochIdx c))
                else if KeyID pub \<noteq> cp_KeyID c then Some (CpKeyID (cp_KeyID c) (cp_EpochIdx c))
                else if \<not> ed25519_Verify C pub canon (cp_Signature c) then Some CpClassicalInvalid
                else if 0 < length qChainPub then
                  (if length (cp_QuantumSignature c) = 0 then Some (CpMissingQuantum (cp_EpochIdx c))
                   else verifyQuantumCheckpoint C qChainPub canon (cp_QuantumSignature c))
                else if 0 < length (cp_QuantumSignature c) then Some (CpUnexpectedQuantum (cp_EpochIdx c))
                else None)))"

subsection \<open>Witness countersignatures\<close>

text \<open>
  The trust callback returns the trusted keys of a witness, or an error (\<open>None\<close>).  A null
  element of \<open>Witnesses\<close> is dereferenced: the result \<open>None\<close> of the count is that panic.
\<close>

definition witness_counts ::
    "crypto \<Rightarrow> bytes \<Rightarrow> (string \<Rightarrow> (bytes \<times> bytes) option) \<Rightarrow> WitnessSig \<Rightarrow> bool" where
  "witness_counts C msg trust w =
     (case trust (ws_WitnessID w) of None \<Rightarrow> False
      | Some (pub, qpub) \<Rightarrow>
          if length (ws_PublicKey w) \<noteq> ed25519_PublicKeySize \<or> \<not> bytesEqual (ws_PublicKey w) pub then False
          else if \<not> ed25519_Verify C pub msg (ws_Signature w) then False
          else if 0 < length qpub then
            (if length (ws_QuantumPublicKey w) = 0 \<or> length (ws_QuantumSignature w) = 0 then False
             else if \<not> bytesEqual (ws_QuantumPublicKey w) qpub then False
             else if \<not> d3_decode C (ws_QuantumPublicKey w) then False
             else d3_verify C (ws_QuantumPublicKey w) msg (ws_QuantumSignature w))
          else True)"

fun count_witnesses ::
    "crypto \<Rightarrow> bytes \<Rightarrow> (string \<Rightarrow> (bytes \<times> bytes) option) \<Rightarrow> WitnessSig option list \<Rightarrow> nat \<Rightarrow> nat option" where
  "count_witnesses C msg trust [] n = Some n"
| "count_witnesses C msg trust (None # ws) n = None"
| "count_witnesses C msg trust (Some w # ws) n =
     (if witness_counts C msg trust w then count_witnesses C msg trust ws (n + 1)
      else count_witnesses C msg trust ws n)"

definition VerifyWitnessesHybrid ::
    "crypto \<Rightarrow> Checkpoint \<Rightarrow> (string \<Rightarrow> (bytes \<times> bytes) option) \<Rightarrow> nat option" where
  "VerifyWitnessesHybrid C c trust =
     count_witnesses C (CanonicalForWitness c) trust (cp_Witnesses c) 0"

definition VerifyWitnesses :: "crypto \<Rightarrow> Checkpoint \<Rightarrow> (string \<Rightarrow> bytes option) \<Rightarrow> nat option" where
  "VerifyWitnesses C c trust =
     VerifyWitnessesHybrid C c (\<lambda>i. map_option (\<lambda>ed. (ed, [])) (trust i))"

section \<open>Lemmas\<close>

subsection \<open>The canonical text\<close>

definition beacon_ok :: "Beacon option \<Rightarrow> bool" where
  "beacon_ok b \<longleftrightarrow> (case b of None \<Rightarrow> True | Some b \<Rightarrow> CHR 0x0A \<notin> set (bc_Source b))"

definition cp_ok :: "Checkpoint \<Rightarrow> bool" where
  "cp_ok c \<longleftrightarrow> CHR 0x0A \<notin> set (cp_Origin c) \<and> beacon_ok (cp_Beacon c)
     \<and> digest_ok (cp_ThresholdGroupDigest c)"

definition beacon_key :: "Beacon \<Rightarrow> string \<times> u64 \<times> bytes" where
  "beacon_key b = (bc_Source b, bc_Round b, bc_Value b)"

lemma none_not_beacon: "''none'' \<noteq> a @ '':'' @ b" "a @ '':'' @ b \<noteq> ''none''"
  by (auto simp: append_eq_Cons_conv Cons_eq_append_conv)

lemma beacon_text_inj:
  "beacon_text a = beacon_text b \<longleftrightarrow> map_option beacon_key a = map_option beacon_key b"
proof (cases a; cases b)
  fix x y assume [simp]: "a = Some x" "b = Some y"
  have "beacon_text a = beacon_text b \<longleftrightarrow>
      (bc_Source x @ '':'' @ dec_u64 (bc_Round x)) @ CHR '':'' # hex (bc_Value x)
      = (bc_Source y @ '':'' @ dec_u64 (bc_Round y)) @ CHR '':'' # hex (bc_Value y)"
    by (simp add: beacon_text_def)
  also have "\<dots> \<longleftrightarrow> bc_Source x @ CHR '':'' # dec_u64 (bc_Round x) = bc_Source y @ CHR '':'' # dec_u64 (bc_Round y)
      \<and> hex (bc_Value x) = hex (bc_Value y)"
    by (subst sep_last) simp_all
  also have "\<dots> \<longleftrightarrow> beacon_key x = beacon_key y"
    by (subst sep_last) (simp_all add: beacon_key_def)
  finally show ?thesis by simp
qed (use none_not_beacon in \<open>auto simp: beacon_text_def\<close>)

lemma beacon_text_no_nl: "beacon_ok b \<Longrightarrow> CHR 0x0A \<notin> set (beacon_text b)"
  by (auto simp: beacon_ok_def beacon_text_def split: option.splits)

text \<open>
  The bytes the operator signs for a checkpoint determine its origin, size, root, head, time,
  epoch, beacon value and group, when the origin and the beacon's source contain no line break and
  the group digest is hexadecimal: one signature cannot be read as covering two tree heads.
\<close>

theorem cp_Canonical_inj:
  assumes "cp_ok c" and "cp_ok d"
  shows "cp_Canonical c = cp_Canonical d \<longleftrightarrow>
    cp_Origin c = cp_Origin d \<and> cp_Size c = cp_Size d \<and> cp_RootHash c = cp_RootHash d
    \<and> cp_HeadHash c = cp_HeadHash d \<and> cp_TimeNanos c = cp_TimeNanos d \<and> cp_EpochIdx c = cp_EpochIdx d
    \<and> map_option beacon_key (cp_Beacon c) = map_option beacon_key (cp_Beacon d)
    \<and> cp_ThresholdGroupDigest c = cp_ThresholdGroupDigest d"
proof -
  have nl: "CHR 0x0A \<notin> set (cp_Origin c)" "CHR 0x0A \<notin> set (cp_Origin d)"
    "CHR 0x0A \<notin> set (beacon_text (cp_Beacon c))" "CHR 0x0A \<notin> set (beacon_text (cp_Beacon d))"
    "digest_ok (cp_ThresholdGroupDigest c)" "digest_ok (cp_ThresholdGroupDigest d)"
    using assms beacon_text_no_nl by (auto simp: cp_ok_def)
  let ?t = "\<lambda>c. if cp_ThresholdGroupDigest c = [] then ''none'' else cp_ThresholdGroupDigest c"
  have "cp_text c = cp_text d \<longleftrightarrow>
      cp_Origin c = cp_Origin d \<and> cp_Size c = cp_Size d \<and> cp_RootHash c = cp_RootHash d
      \<and> cp_HeadHash c = cp_HeadHash d \<and> cp_TimeNanos c = cp_TimeNanos d \<and> cp_EpochIdx c = cp_EpochIdx d
      \<and> beacon_text (cp_Beacon c) = beacon_text (cp_Beacon d) \<and> ?t c = ?t d"
    unfolding cp_text_def Let_def
    by (simp only: same_append_eq line_append [OF nl(1,2)] line_append [OF dec_u64_no_nl dec_u64_no_nl]
        dec_u64_inj line_append [OF hex_no_nl hex_no_nl] hex_inj
        line_append [OF dec_i64_no_nl dec_i64_no_nl] dec_i64_inj line_append [OF nl(3,4)] line_end conj_assoc)
  then show ?thesis
    using digest_or_none_inj [OF nl(5,6)] by (simp add: cp_Canonical_def beacon_text_inj)
qed

subsection \<open>Accepted checkpoints\<close>

lemma PublicKeyAt_found:
  assumes "PublicKeyAt ch e \<noteq> []"
  obtains i where "i < length (ch_Certs ch)" "rc_Epoch (ch_Certs ch ! i) = e"
proof -
  obtain cert where "find (\<lambda>c. rc_Epoch c = e) (ch_Certs ch) = Some cert"
    using assms by (auto simp: PublicKeyAt_def split: option.splits)
  then show ?thesis using that by (auto simp: find_Some_iff)
qed

lemma cp_Verify_single:
  "cp_MemberSigs c = [] \<Longrightarrow> cp_Verify C c (Some ch) root go = None \<longleftrightarrow>
     ch_VerifyChain C ch root = None \<and> PublicKeyAt ch (cp_EpochIdx c) \<noteq> []
     \<and> KeyID (PublicKeyAt ch (cp_EpochIdx c)) = cp_KeyID c
     \<and> ed25519_Verify C (PublicKeyAt ch (cp_EpochIdx c)) (cp_Canonical c) (cp_Signature c)
     \<and> (if QuantumPublicKeyAt ch (cp_EpochIdx c) = [] then cp_QuantumSignature c = []
        else cp_QuantumSignature c \<noteq> [] \<and> d3_decode C (QuantumPublicKeyAt ch (cp_EpochIdx c))
          \<and> d3_verify C (QuantumPublicKeyAt ch (cp_EpochIdx c)) (cp_Canonical c) (cp_QuantumSignature c))"
  by (auto simp: cp_Verify_def verifyQuantumCheckpoint_def Let_def split: option.splits)

lemma cp_Verify_threshold:
  "cp_MemberSigs c \<noteq> [] \<Longrightarrow> cp_Verify C c ch root go = None \<longleftrightarrow>
     (\<exists>g. go = Some g \<and> cp_ThresholdGroupDigest c = hex (grp_Digest g)
        \<and> VerifyMulti C go (cp_Canonical c) (cp_MemberSigs c) = None)"
  by (auto simp: cp_Verify_def VerifyMulti_def split: option.splits)

text \<open>
  What an accepted checkpoint guarantees.  In single-signature mode the key of the checkpoint's
  epoch is in the chain, that chain is rooted in the trusted key, the operator's signature over
  the checkpoint verifies under the key of that epoch, and so does the quantum signature whenever
  that epoch has a quantum key, so stripping it is not possible.  In threshold mode at least
  the threshold of distinct members of the supplied group signed, and the group is the one whose
  digest the checkpoint names.
\<close>

theorem accepted_checkpoint:
  assumes "cp_Verify C c (Some ch) root go = None" and "length (ch_Certs ch) \<le> 2 ^ 64"
  shows "(cp_MemberSigs c = [] \<longrightarrow>
      (\<exists>i < length (ch_Certs ch). cp_EpochIdx c = of_nat i \<and> ch_VerifyChain C ch root = None
         \<and> ed_verify C (rc_PublicKey (ch_Certs ch ! i)) (cp_Canonical c) (cp_Signature c)
         \<and> (rc_QuantumPublicKey (ch_Certs ch ! i) \<noteq> [] \<longrightarrow>
              d3_verify C (rc_QuantumPublicKey (ch_Certs ch ! i)) (cp_Canonical c) (cp_QuantumSignature c))))
    \<and> (cp_MemberSigs c \<noteq> [] \<longrightarrow>
      (\<exists>g. go = Some g \<and> cp_ThresholdGroupDigest c = hex (grp_Digest g)
         \<and> unat (grp_Threshold g) \<le> card (signers C g (cp_Canonical c) (cp_MemberSigs c))))"
proof (intro conjI impI)
  assume single: "cp_MemberSigs c = []"
  with assms(1) have v: "ch_VerifyChain C ch root = None" "PublicKeyAt ch (cp_EpochIdx c) \<noteq> []"
    "ed25519_Verify C (PublicKeyAt ch (cp_EpochIdx c)) (cp_Canonical c) (cp_Signature c)"
    "QuantumPublicKeyAt ch (cp_EpochIdx c) \<noteq> [] \<longrightarrow>
       d3_verify C (QuantumPublicKeyAt ch (cp_EpochIdx c)) (cp_Canonical c) (cp_QuantumSignature c)"
    by (auto simp: cp_Verify_single)
  from v(2) obtain i where i: "i < length (ch_Certs ch)" "rc_Epoch (ch_Certs ch ! i) = cp_EpochIdx c"
    by (rule PublicKeyAt_found)
  have vc: "verifyChain C ch root None = None" using v(1) by (simp add: ch_VerifyChain_def)
  have e: "cp_EpochIdx c = of_nat i" using chain_epochs [OF vc i(1)] i(2) by simp
  have "PublicKeyAt ch (of_nat i) = rc_PublicKey (ch_Certs ch ! i)"
    "QuantumPublicKeyAt ch (of_nat i) = rc_QuantumPublicKey (ch_Certs ch ! i)"
    by (simp_all add: PublicKeyAt_def QuantumPublicKeyAt_def find_epoch [OF vc i(1) assms(2)])
  with v i e show "\<exists>i < length (ch_Certs ch). cp_EpochIdx c = of_nat i \<and> ch_VerifyChain C ch root = None
         \<and> ed_verify C (rc_PublicKey (ch_Certs ch ! i)) (cp_Canonical c) (cp_Signature c)
         \<and> (rc_QuantumPublicKey (ch_Certs ch ! i) \<noteq> [] \<longrightarrow>
              d3_verify C (rc_QuantumPublicKey (ch_Certs ch ! i)) (cp_Canonical c) (cp_QuantumSignature c))"
    by (auto simp: ed25519_Verify_def)
next
  assume "cp_MemberSigs c \<noteq> []"
  with assms(1) show "\<exists>g. go = Some g \<and> cp_ThresholdGroupDigest c = hex (grp_Digest g)
         \<and> unat (grp_Threshold g) \<le> card (signers C g (cp_Canonical c) (cp_MemberSigs c))"
    by (auto simp: cp_Verify_threshold VerifyMulti_iff)
qed

subsection \<open>What the signer issues is accepted\<close>

lemma cp_Canonical_sigs [simp]:
  "cp_Canonical (c\<lparr>cp_Signature := x\<rparr>) = cp_Canonical c"
  "cp_Canonical (c\<lparr>cp_QuantumSignature := x\<rparr>) = cp_Canonical c"
  "cp_Canonical (c\<lparr>cp_MemberSigs := y\<rparr>) = cp_Canonical c"
  "cp_Canonical (c\<lparr>cp_Witnesses := z\<rparr>) = cp_Canonical c"
  by (simp_all add: cp_Canonical_def cp_text_def Let_def)

lemma cp_Verify_Witnesses [simp]: "cp_Verify C (c\<lparr>cp_Witnesses := w\<rparr>) chain root go = cp_Verify C c chain root go"
  by (simp add: cp_Verify_def Let_def split: option.splits)

text \<open>
  The active epoch of a signer, looked up in a later chain of the same signer.
\<close>

lemma later_lookup:
  assumes "verifyChain C ch (RootPublicKey ch) None = None"
    and "verifyChain C ch' (RootPublicKey ch') None = None" and "ch_Certs ch' = ch_Certs ch @ later"
    and "length (ch_Certs ch') \<le> 2 ^ 64"
  shows "PublicKeyAt ch' (ActiveEpoch ch) = ActivePublicKey ch"
    and "QuantumPublicKeyAt ch' (ActiveEpoch ch) = rc_QuantumPublicKey (last (ch_Certs ch))"
proof -
  let ?i = "length (ch_Certs ch) - 1"
  have ne: "ch_Certs ch \<noteq> []" using assms(1) by (simp add: verifyChain_None)
  then have i: "?i < length (ch_Certs ch)" "?i < length (ch_Certs ch')"
    "ch_Certs ch' ! ?i = ch_Certs ch ! ?i" using assms(3) by (auto simp: nth_append trans_less_add1)
  have "ActiveEpoch ch = of_nat ?i"
    using chain_epochs [OF assms(1) i(1)] ne by (simp add: ActiveEpoch_def)
  with find_epoch [OF assms(2) i(2) assms(4)] i(3)
  have "find (\<lambda>c. rc_Epoch c = ActiveEpoch ch) (ch_Certs ch') = Some (ch_Certs ch ! ?i)" by simp
  with ne show "PublicKeyAt ch' (ActiveEpoch ch) = ActivePublicKey ch"
    "QuantumPublicKeyAt ch' (ActiveEpoch ch) = rc_QuantumPublicKey (last (ch_Certs ch))"
    by (simp_all add: PublicKeyAt_def QuantumPublicKeyAt_def ActivePublicKey_def last_conv_nth)
qed

lemma signer_inv_active:
  assumes "signer_inv C KS usable w s"
  obtains k where "sg_active s = Some k" "usable w k" "ActivePublicKey (sg_chain s) = lk_Public KS w k"
    "rc_QuantumPublicKey (last (ch_Certs (sg_chain s))) = lk_QuantumPublic KS w k"
proof -
  obtain k where "sg_active s = Some k" "usable w k"
    "rc_PublicKey (last (ch_Certs (sg_chain s))) = lk_Public KS w k"
    "rc_QuantumPublicKey (last (ch_Certs (sg_chain s))) = lk_QuantumPublic KS w k"
    and "ch_Certs (sg_chain s) \<noteq> []"
    using assms by (auto simp: signer_inv_def verifyChain_None)
  then show ?thesis using that by (simp add: ActivePublicKey_def last_conv_nth)
qed

context key_store
begin

lemma cp_Sign_single:
  assumes wf: "wf w" and inv: "signer_inv C KS usable w s"
  obtains c where "cp_Sign C KS w now (cp_NewSigner s) sz root head beacon = Inr c"
    "cp_Canonical c = cp_Canonical (unsigned_checkpoint now s sz root head beacon)"
    "cp_Size c = sz" "cp_RootHash c = root" "cp_HeadHash c = head" "cp_Origin c = sg_origin s"
    "cp_EpochIdx c = ActiveEpoch (sg_chain s)" "cp_KeyID c = KeyID (ActivePublicKey (sg_chain s))"
    "cp_MemberSigs c = []" "cp_Witnesses c = []"
    "ed25519_Verify C (ActivePublicKey (sg_chain s)) (cp_Canonical c) (cp_Signature c)"
    "let q = rc_QuantumPublicKey (last (ch_Certs (sg_chain s))) in
       if q = [] then cp_QuantumSignature c = []
       else cp_QuantumSignature c \<noteq> [] \<and> d3_decode C q \<and> d3_verify C q (cp_Canonical c) (cp_QuantumSignature c)"
proof -
  let ?c = "unsigned_checkpoint now s sz root head beacon" and ?q = "rc_QuantumPublicKey (last (ch_Certs (sg_chain s)))"
  obtain k where k: "sg_active s = Some k" "usable w k" "ActivePublicKey (sg_chain s) = lk_Public KS w k"
    "?q = lk_QuantumPublic KS w k"
    using inv by (rule signer_inv_active)
  obtain sig where sig: "lk_Sign KS w k (cp_Canonical ?c) = Inr sig"
    "ed25519_Verify C (lk_Public KS w k) (cp_Canonical ?c) sig"
    using sign [OF wf k(2)] by blast
  have fields: "cp_Size ?c = sz" "cp_RootHash ?c = root" "cp_HeadHash ?c = head" "cp_Origin ?c = sg_origin s"
    "cp_EpochIdx ?c = ActiveEpoch (sg_chain s)" "cp_KeyID ?c = KeyID (ActivePublicKey (sg_chain s))"
    "cp_MemberSigs ?c = []" "cp_Witnesses ?c = []" "cp_QuantumSignature ?c = []"
    by (simp_all add: unsigned_checkpoint_def sg_ActiveEpoch_def sg_Public_def)
  show ?thesis
  proof (cases "?q = []")
    case True
    show ?thesis
      by (rule that [of "?c\<lparr>cp_Signature := sig\<rparr>"])
        (use True k sig fields in \<open>simp_all add: cp_Sign_def cp_NewSigner_def sg_Sign_def sg_Hybrid_def Let_def\<close>)
  next
    case False
    then obtain qsig where q: "lk_QuantumSign KS w k (cp_Canonical ?c) = Inr qsig" "length qsig = 3293"
      "d3_decode C ?q" "d3_verify C ?q (cp_Canonical ?c) qsig"
      using quantum_sign [OF wf k(2), of "cp_Canonical ?c"] k(4) by auto
    then have "qsig \<noteq> []" by auto
    show ?thesis
      by (rule that [of "?c\<lparr>cp_Signature := sig, cp_QuantumSignature := qsig\<rparr>"])
        (use False k sig fields q \<open>qsig \<noteq> []\<close> in \<open>simp_all add: cp_Sign_def cp_NewSigner_def sg_Sign_def
          sg_Hybrid_def sg_QuantumSign_def Let_def\<close>)
  qed
qed

lemma cp_Sign_accepted_later:
  assumes "wf w" "signer_inv C KS usable w s" "verifyChain C (sg_chain s') (RootPublicKey (sg_chain s')) None = None"
    and "ch_Certs (sg_chain s') = ch_Certs (sg_chain s) @ later" "length (ch_Certs (sg_chain s')) \<le> 2 ^ 64"
  shows "\<exists>c. cp_Sign C KS w now (cp_NewSigner s) sz root head beacon = Inr c
    \<and> cp_Size c = sz \<and> cp_RootHash c = root \<and> cp_HeadHash c = head \<and> cp_Origin c = sg_origin s
    \<and> cp_Witnesses c = []
    \<and> cp_Verify C c (Some (sg_chain s')) (RootPublicKey (sg_chain s')) go = None"
proof -
  have ch: "verifyChain C (sg_chain s) (RootPublicKey (sg_chain s)) None = None"
    "verifyChain C (sg_chain s') (RootPublicKey (sg_chain s')) None = None"
    using assms(2,3) by (simp_all add: signer_inv_def)
  note l = later_lookup [OF ch assms(4,5)]
  obtain k where k: "usable w k" "ActivePublicKey (sg_chain s) = lk_Public KS w k"
    using assms(2) by (rule signer_inv_active)
  then have "ActivePublicKey (sg_chain s) \<noteq> []" using sign [OF assms(1) k(1)] by auto
  moreover obtain c where c: "cp_Sign C KS w now (cp_NewSigner s) sz root head beacon = Inr c"
    "cp_Size c = sz" "cp_RootHash c = root" "cp_HeadHash c = head" "cp_Origin c = sg_origin s"
    "cp_EpochIdx c = ActiveEpoch (sg_chain s)" "cp_KeyID c = KeyID (ActivePublicKey (sg_chain s))"
    "cp_MemberSigs c = []" "cp_Witnesses c = []"
    "ed25519_Verify C (ActivePublicKey (sg_chain s)) (cp_Canonical c) (cp_Signature c)"
    "let q = rc_QuantumPublicKey (last (ch_Certs (sg_chain s))) in
       if q = [] then cp_QuantumSignature c = []
       else cp_QuantumSignature c \<noteq> [] \<and> d3_decode C q \<and> d3_verify C q (cp_Canonical c) (cp_QuantumSignature c)"
    by (rule cp_Sign_single [OF assms(1,2)])
  ultimately have "cp_Verify C c (Some (sg_chain s')) (RootPublicKey (sg_chain s')) go = None"
    using l ch(2) by (simp add: cp_Verify_single ch_VerifyChain_def Let_def)
  with c show ?thesis by blast
qed

lemma cp_Sign_accepted:
  assumes "wf w" "signer_inv C KS usable w s" "signer_inv C KS usable w' s'"
    and "ch_Certs (sg_chain s') = ch_Certs (sg_chain s) @ later" "length (ch_Certs (sg_chain s')) \<le> 2 ^ 64"
  shows "\<exists>c. cp_Sign C KS w now (cp_NewSigner s) sz root head beacon = Inr c
    \<and> cp_Size c = sz \<and> cp_RootHash c = root \<and> cp_HeadHash c = head \<and> cp_Origin c = sg_origin s
    \<and> cp_Witnesses c = []
    \<and> cp_Verify C c (Some (sg_chain s')) (RootPublicKey (sg_chain s')) go = None"
  using cp_Sign_accepted_later [OF assms(1,2) _ assms(4,5)] assms(3) by (simp add: signer_inv_def)

end

text \<open>
  C30.  A checkpoint outlives its key.  What a file-backed signer in single-signature mode signs, in any
  state in which its keys were all destroyed in time, is accepted at once and after any number of later
  rotations, successful or not, as long as the clock of the rotations does not step back: it verifies
  against every longer chain of the signer under the same root key, although its signing key is gone.
  Without the condition on the clock no chain is accepted any more, and so no checkpoint.
\<close>

theorem checkpoint_outlives_rotations:
  assumes "signer_run C d hybrid w0 rs w s" and "signer_run C d hybrid w0 rs' w' s'" and "file_wf C hybrid w0"
    and "ch_Certs (sg_chain s') = ch_Certs (sg_chain s) @ later" and "length (ch_Certs (sg_chain s')) \<le> 2 ^ 64"
    and "all_destroyed rs" and "clock_ok (ch_Certs (sg_chain s))"
  shows "\<exists>c. cp_Sign C (file_store C d hybrid) w now (cp_NewSigner s) sz root head beacon = Inr c
    \<and> cp_Size c = sz \<and> cp_RootHash c = root \<and> cp_HeadHash c = head
    \<and> cp_Verify C c (Some (sg_chain s)) (RootPublicKey (sg_chain s)) None = None
    \<and> (cp_Verify C c (Some (sg_chain s')) (RootPublicKey (sg_chain s)) None = None \<longleftrightarrow> clock_ok (ch_Certs (sg_chain s')))"
proof -
  note i = signer_run_inv [OF assms(1,3,6,7)] and i' = signer_run_inv_all [OF assms(2,3)]
  have ne: "ch_Certs (sg_chain s) \<noteq> []" using i by (auto simp: signer_inv_def verifyChain_None)
  have root: "RootPublicKey (sg_chain s') = RootPublicKey (sg_chain s)"
    using ne assms(4) by (simp add: RootPublicKey_def nth_append)
  have len: "length (ch_Certs (sg_chain s)) \<le> 2 ^ 64" using assms(4,5) by simp
  have inv: "file_wf C hybrid w" "signer_inv C (file_store C d hybrid) (file_usable C) w s" using i by auto
  obtain c where c: "cp_Sign C (file_store C d hybrid) w now (cp_NewSigner s) sz root head beacon = Inr c"
    "cp_Size c = sz" "cp_RootHash c = root" "cp_HeadHash c = head"
    "cp_Verify C c (Some (sg_chain s)) (RootPublicKey (sg_chain s)) None = None"
    using file_ks.cp_Sign_accepted [OF inv inv(2), of "[]" now sz root head beacon None] len by auto
  have "cp_Verify C c (Some (sg_chain s')) (RootPublicKey (sg_chain s)) None = None" if "clock_ok (ch_Certs (sg_chain s'))"
  proof -
    have "verifyChain C (sg_chain s') (RootPublicKey (sg_chain s')) None = None" using i' that by (simp add: run_inv_def)
    from file_ks.cp_Sign_accepted_later [OF inv this assms(4,5), of now sz root head beacon None] c(1) root
    show ?thesis by auto
  qed
  moreover have "clock_ok (ch_Certs (sg_chain s'))"
    if "cp_Verify C c (Some (sg_chain s')) (RootPublicKey (sg_chain s)) None = None"
  proof -
    obtain c' where c': "cp_Sign C (file_store C d hybrid) w now (cp_NewSigner s) sz root head beacon = Inr c'" "cp_MemberSigs c' = []"
      by (rule file_ks.cp_Sign_single [OF inv])
    then have m: "cp_MemberSigs c = []" using c(1) by simp
    show ?thesis using that m by (auto simp: cp_Verify_single ch_VerifyChain_def dest: verifyChain_clock)
  qed
  ultimately have "cp_Verify C c (Some (sg_chain s')) (RootPublicKey (sg_chain s)) None = None \<longleftrightarrow> clock_ok (ch_Certs (sg_chain s'))" by (rule iffI [rotated])
  with c show ?thesis by (intro exI [of _ c] conjI)
qed

subsection \<open>Counting witnesses\<close>

lemma count_witnesses_eq:
  "count_witnesses C msg trust ws n =
     (if None \<in> set ws then None
      else Some (n + length (filter (\<lambda>w. witness_counts C msg trust (the w)) ws)))"
  by (induction C msg trust ws n rule: count_witnesses.induct) auto

text \<open>The distinct witnesses among the countersignatures that count.\<close>

definition valid_witnesses :: "crypto \<Rightarrow> Checkpoint \<Rightarrow> (string \<Rightarrow> (bytes \<times> bytes) option) \<Rightarrow> string set" where
  "valid_witnesses C c trust =
     {ws_WitnessID w | w. Some w \<in> set (cp_Witnesses c) \<and> witness_counts C (CanonicalForWitness c) trust w}"

text \<open>
  The number of valid witness signatures is at least the number of distinct trusted witnesses
  whose signatures verify, and equal to it when no witness appears twice; a repeated signature
  is counted every time it appears, so that \<open>n\<close> copies of one signature count as \<open>n\<close>.
\<close>

theorem witness_count:
  assumes "None \<notin> set (cp_Witnesses c)"
  shows "\<exists>n. VerifyWitnessesHybrid C c trust = Some n \<and> card (valid_witnesses C c trust) \<le> n
    \<and> (distinct (map (\<lambda>w. ws_WitnessID (the w)) (cp_Witnesses c)) \<longrightarrow> n = card (valid_witnesses C c trust))
    \<and> (\<forall>w k. cp_Witnesses c = replicate k (Some w) \<and> witness_counts C (CanonicalForWitness c) trust w \<longrightarrow> n = k)"
proof -
  let ?P = "\<lambda>w. witness_counts C (CanonicalForWitness c) trust (the w)"
  let ?id = "\<lambda>w. ws_WitnessID (the w)"
  let ?f = "filter ?P (cp_Witnesses c)"
  have set: "valid_witnesses C c trust = set (map ?id ?f)"
  proof (intro set_eqI iffI)
    fix x assume "x \<in> set (map ?id ?f)"
    then obtain o' where o: "o' \<in> set (cp_Witnesses c)" "?P o'" "x = ?id o'" by auto
    with assms obtain w where "o' = Some w" by (cases o') auto
    with o show "x \<in> valid_witnesses C c trust" by (auto simp: valid_witnesses_def)
  qed (force simp: valid_witnesses_def image_iff)
  have "card (valid_witnesses C c trust) \<le> length ?f" unfolding set using card_length [of "map ?id ?f"] by simp
  moreover have "length ?f = card (valid_witnesses C c trust)" if "distinct (map ?id (cp_Witnesses c))"
    unfolding set using distinct_card [OF distinct_map_filter [OF that, of ?P]] by simp
  ultimately show ?thesis
    using assms by (auto simp: VerifyWitnessesHybrid_def count_witnesses_eq filter_replicate)
qed

subsection \<open>Witnesses\<close>

definition sample_checkpoint :: Checkpoint where
  "sample_checkpoint =
     projr (cp_Sign sample_crypto (sample_store False) (fst sample_run0) 300 (cp_NewSigner (snd sample_run0))
              1 (replicate 32 7) (replicate 32 9) None)"

lemma sample_later:
  obtains w s cert where "signer_run sample_crypto (\<lambda>_. None) False sample_world [Inr cert] w s"
    "ch_Certs (sg_chain s) = ch_Certs (sg_chain (snd sample_run0)) @ [cert]"
    "length (ch_Certs (sg_chain s)) = 2" "clock_ok (ch_Certs (sg_chain s))"
proof -
  obtain w s cert where r: "Rotate (sample_store False) 200 True (fst sample_run0) (snd sample_run0) = (w, s, Inr cert)"
    by (rule sample_Rotate)
  have run: "signer_run sample_crypto (\<lambda>_. None) False sample_world [Inr cert] w s"
    using signer_run.rotate [OF sample_signer_run r] by simp
  obtain k where k: "sg_active (snd sample_run0) = Some k" and ne: "ch_Certs (sg_chain (snd sample_run0)) \<noteq> []"
    using sample_run_inv by (auto simp: signer_inv_def verifyChain_None)
  have "ch_Certs (sg_chain s) = ch_Certs (sg_chain (snd sample_run0)) @ [cert]"
    by (rule Rotate_success [OF r _ k ne]) (use sample_run_inv in auto)
  moreover have "length (ch_Certs (sg_chain (snd sample_run0))) = 1"
    using file_ks.createGenesis_inv [OF sample_world_wf sample_genesis(1)] by simp
  moreover have "rc_StartedAt cert = 200"
    by (rule Rotate_success [OF r _ k ne]) (use sample_run_inv in \<open>auto dest: rotate_sign_fields(3)\<close>)
  ultimately show ?thesis using run that sample_clock(2) by (simp add: clock_ok_snoc [OF ne] sample_genesis(2))
qed

lemma sample_checkpoint_signed:
  "cp_Sign sample_crypto (sample_store False) (fst sample_run0) 300 (cp_NewSigner (snd sample_run0))
     1 (replicate 32 7) (replicate 32 9) None = Inr sample_checkpoint"
  "cp_Verify sample_crypto sample_checkpoint (Some (sg_chain (snd sample_run0)))
     (RootPublicKey (sg_chain (snd sample_run0))) go = None"
  "cp_MemberSigs sample_checkpoint = []" "cp_Witnesses sample_checkpoint = []" "cp_Size sample_checkpoint = 1"
  "length (ch_Certs (sg_chain (snd sample_run0))) = 1"
proof -
  show len: "length (ch_Certs (sg_chain (snd sample_run0))) = 1"
    using file_ks.createGenesis_inv [OF sample_world_wf sample_genesis(1)] by simp
  note inv = sample_run_wf [of False] sample_run_signer_inv [of False]
  have "\<exists>c. cp_Sign sample_crypto (sample_store False) (fst sample_run0) 300 (cp_NewSigner (snd sample_run0))
     1 (replicate 32 7) (replicate 32 9) None = Inr c \<and> cp_Size c = 1
    \<and> cp_Verify sample_crypto c (Some (sg_chain (snd sample_run0))) (RootPublicKey (sg_chain (snd sample_run0))) go = None"
    for go using file_ks.cp_Sign_accepted [OF inv inv(2), of "[]" 300 1 "replicate 32 7" "replicate 32 9" None go] len by auto
  then show "cp_Sign sample_crypto (sample_store False) (fst sample_run0) 300 (cp_NewSigner (snd sample_run0))
     1 (replicate 32 7) (replicate 32 9) None = Inr sample_checkpoint"
    "cp_Verify sample_crypto sample_checkpoint (Some (sg_chain (snd sample_run0)))
     (RootPublicKey (sg_chain (snd sample_run0))) go = None" "cp_Size sample_checkpoint = 1"
    by (force simp: sample_checkpoint_def)+
  then show "cp_MemberSigs sample_checkpoint = []" "cp_Witnesses sample_checkpoint = []"
    using file_ks.cp_Sign_single [OF inv, of 300 1 "replicate 32 7" "replicate 32 9" None]
    by (metis sum.inject(2))+
qed

lemma createGenesis_origin: "createGenesis KS now ok origin w = (w', Inr s) \<Longrightarrow> sg_origin s = origin"
  by (auto simp: createGenesis_def writeChain_def Let_def split: prod.splits sum.splits if_splits)

theorem cp_Canonical_inj_witness:
  "cp_Canonical (unsigned_checkpoint 1 (snd sample_run0) 5 [1] [2] None)
     \<noteq> cp_Canonical (unsigned_checkpoint 1 (snd sample_run0) 6 [1] [2] None)"
proof -
  have "CHR 0x0A \<notin> set (sg_origin (snd sample_run0))"
    using createGenesis_origin [OF sample_genesis(1)] by simp
  then show ?thesis
    using cp_Canonical_inj [of "unsigned_checkpoint 1 (snd sample_run0) 5 [1] [2] None"
        "unsigned_checkpoint 1 (snd sample_run0) 6 [1] [2] None"]
    by (simp add: cp_ok_def beacon_ok_def digest_ok_def unsigned_checkpoint_def)
qed

theorem accepted_checkpoint_witness:
  "cp_MemberSigs sample_checkpoint = []
   \<and> ed_verify sample_crypto (rc_PublicKey (ch_Certs (sg_chain (snd sample_run0)) ! 0))
       (cp_Canonical sample_checkpoint) (cp_Signature sample_checkpoint)"
  using accepted_checkpoint [OF sample_checkpoint_signed(2) [of None]] sample_checkpoint_signed(3,6) by auto

theorem checkpoint_outlives_rotations_witness:
  "\<exists>rs w s. signer_run sample_crypto (\<lambda>_. None) False sample_world rs w s
     \<and> length (ch_Certs (sg_chain s)) = 2
     \<and> cp_Verify sample_crypto sample_checkpoint (Some (sg_chain s)) (RootPublicKey (sg_chain (snd sample_run0))) None = None"
proof -
  obtain w s cert where s: "signer_run sample_crypto (\<lambda>_. None) False sample_world [Inr cert] w s"
    "ch_Certs (sg_chain s) = ch_Certs (sg_chain (snd sample_run0)) @ [cert]" "length (ch_Certs (sg_chain s)) = 2"
    "clock_ok (ch_Certs (sg_chain s))"
    by (rule sample_later)
  have "cp_Verify sample_crypto sample_checkpoint (Some (sg_chain s)) (RootPublicKey (sg_chain (snd sample_run0))) None = None"
    using checkpoint_outlives_rotations [OF sample_signer_run s(1) sample_world_wf s(2) _ sample_clock, of 300 1 "replicate 32 7" "replicate 32 9" None]
      s(3,4) sample_checkpoint_signed(1) by auto
  with s show ?thesis by blast
qed

definition sample_ws :: "Checkpoint \<Rightarrow> WitnessSig" where
  "sample_ws c = \<lparr>ws_WitnessID = ''w'', ws_PublicKey = replicate 32 1, ws_KeyID = KeyID (replicate 32 1),
     ws_Signature = ed_sign sample_crypto (replicate 64 1) (CanonicalForWitness c), ws_SignedAt = 1,
     ws_QuantumPublicKey = [], ws_QuantumSignature = []\<rparr>"

lemma CanonicalForWitness_Witnesses [simp]: "CanonicalForWitness (c\<lparr>cp_Witnesses := ws\<rparr>) = CanonicalForWitness c"
  by (simp add: CanonicalForWitness_def)

lemma sample_ws_counts:
  "trust ''w'' = Some (replicate 32 1, []) \<Longrightarrow>
     witness_counts sample_crypto (CanonicalForWitness c) trust (sample_ws c)"
  by (simp add: witness_counts_def sample_ws_def bytesEqual_iff ed25519_Verify_def key_sizes sample_crypto_def)

theorem witness_count_witness:
  "VerifyWitnessesHybrid sample_crypto
     (sample_checkpoint\<lparr>cp_Witnesses := replicate 2 (Some (sample_ws sample_checkpoint))\<rparr>)
     (\<lambda>i. if i = ''w'' then Some (replicate 32 1, []) else None) = Some 2"
  using witness_count [of "sample_checkpoint\<lparr>cp_Witnesses := replicate 2 (Some (sample_ws sample_checkpoint))\<rparr>"
      sample_crypto "\<lambda>i. if i = ''w'' then Some (replicate 32 1, []) else None"]
    sample_ws_counts [of "\<lambda>i. if i = ''w'' then Some (replicate 32 1, []) else None" sample_checkpoint]
  by (auto simp: in_set_replicate)

end
