(* ===== verification/Anchor.thy ===== *)
theory Anchor
  imports Checkpoint
begin

text \<open>
  Package \<open>anchor\<close>: the records that wrap a published checkpoint, the append-only file sink with
  its head pointer, the Rekor sink with its local fallback, and the fan-out to several sinks.
  The JSON encoding of a record is an argument; so is what the file system and the network do.
\<close>

section \<open>Definitions\<close>

record Record =
  rec_Checkpoint :: "Checkpoint option"
  rec_SinkName :: string
  rec_SinkRef :: string
  rec_AnchoredAt :: i64
  rec_RecordHash :: string

datatype anchor_error =
    AnUnsigned
  | AnOpen
  | AnSeek
  | AnMarshal
  | AnWrite
  | AnSync
  | AnHead
  | AnRename
  | AnRead
  | AnMalformed
  | AnMalformedTrailing
  | AnNetwork string
  | AnHTTP nat
  | AnJoined "(string \<times> anchor_error) list"

definition RecordHash :: "Checkpoint \<Rightarrow> string" where
  "RecordHash c = hex (sha256 (cp_Canonical c))"

subsection \<open>The file sink\<close>

text \<open>The sink's two files; the head file may not exist yet.\<close>

record FileSink =
  fs_path :: string
  fs_file :: bytes
  fs_head :: "bytes option"

text \<open>
  What the system calls of one \<open>Publish\<close> do; a failing write has stored the given number of
  bytes.
\<close>

record sink_io =
  io_open :: bool
  io_seek :: bool
  io_write :: "nat option"
  io_sync :: bool
  io_head :: bool
  io_rename :: bool

definition fs_Name :: "FileSink \<Rightarrow> string" where
  "fs_Name s = ''file:'' @ fs_path s"

definition file_record :: "FileSink \<Rightarrow> i64 \<Rightarrow> Checkpoint \<Rightarrow> Record" where
  "file_record s now c =
     \<lparr>rec_Checkpoint = Some c, rec_SinkName = fs_Name s,
      rec_SinkRef = ''offset='' @ dec_i64 (of_nat (length (fs_file s))), rec_AnchoredAt = now,
      rec_RecordHash = RecordHash c\<rparr>"

definition fs_Publish ::
    "(Record \<Rightarrow> bytes option) \<Rightarrow> sink_io \<Rightarrow> i64 \<Rightarrow> FileSink \<Rightarrow> Checkpoint option
      \<Rightarrow> FileSink \<times> (anchor_error + Record)" where
  "fs_Publish enc io now s co =
     (case co of None \<Rightarrow> (s, Inl AnUnsigned)
      | Some c \<Rightarrow>
        if cp_Signature c = [] then (s, Inl AnUnsigned)
        else if \<not> io_open io then (s, Inl AnOpen)
        else if \<not> io_seek io then (s, Inl AnSeek)
        else let r = file_record s now c in
        case enc r of None \<Rightarrow> (s, Inl AnMarshal)
        | Some l \<Rightarrow>
          let line = l @ of_str nl in
          (case io_write io of
             Some n \<Rightarrow> (s\<lparr>fs_file := fs_file s @ take n line\<rparr>, Inl AnWrite)
           | None \<Rightarrow>
             let s = s\<lparr>fs_file := fs_file s @ line\<rparr> in
             if \<not> io_sync io then (s, Inl AnSync)
             else if \<not> io_head io then (s, Inl AnHead)
             else if \<not> io_rename io then (s, Inl AnRename)
             else (s\<lparr>fs_head := Some (of_str (rec_RecordHash r @ nl))\<rparr>, Inr r)))"

fun read_lines ::
    "(bytes \<Rightarrow> Record option) \<Rightarrow> bytes \<Rightarrow> bytes \<Rightarrow> Record list \<Rightarrow> anchor_error + Record list" where
  "read_lines dec [] line out =
     (if 0 < length line
      then (case dec line of None \<Rightarrow> Inl AnMalformedTrailing | Some r \<Rightarrow> Inr (out @ [r]))
      else Inr out)"
| "read_lines dec (b # bs) line out =
     (if b = 0x0A then
        (if 0 < length line
         then (case dec line of None \<Rightarrow> Inl AnMalformed | Some r \<Rightarrow> read_lines dec bs [] (out @ [r]))
         else read_lines dec bs [] out)
      else read_lines dec bs (line @ [b]) out)"

text \<open>The content of the file: absent, unreadable, or there.\<close>

definition ReadAll :: "(bytes \<Rightarrow> Record option) \<Rightarrow> (unit + bytes option) \<Rightarrow> anchor_error + Record list" where
  "ReadAll dec file =
     (case file of Inl _ \<Rightarrow> Inl AnRead | Inr None \<Rightarrow> Inr [] | Inr (Some bs) \<Rightarrow> read_lines dec bs [] [])"

definition fs_HeadHash :: "FileSink \<Rightarrow> bytes" where
  "fs_HeadHash s =
     (case fs_head s of None \<Rightarrow> []
      | Some buf \<Rightarrow> filter (\<lambda>b. \<not> (b = 0x0A \<or> b = 0x0D \<or> b = 0x20)) buf)"

subsection \<open>The Rekor sink\<close>

record RekorSink =
  rk_Endpoint :: string
  rk_FallbackPath :: string
  rk_StrictRekor :: bool
  rk_SignatureFormat :: string

datatype http_result =
    NetError string
  | Response nat bytes

definition NewRekorSink :: "string \<Rightarrow> string \<Rightarrow> RekorSink" where
  "NewRekorSink endpoint fallbackPath =
     \<lparr>rk_Endpoint = (if endpoint = [] then ''https://rekor.sigstore.dev'' else endpoint),
      rk_FallbackPath = fallbackPath, rk_StrictRekor = False, rk_SignatureFormat = ''raw''\<rparr>"

definition rk_Name :: "RekorSink \<Rightarrow> string" where
  "rk_Name s = ''rekor:'' @ rk_Endpoint s"

definition truncate_text :: "string \<Rightarrow> nat \<Rightarrow> string" where
  "truncate_text b n = (if length b \<le> n then b else take n b @ ''...(truncated)'')"

text \<open>\<open>fallback\<close> appends the line to the fallback file, ignoring failures, when a path is set.\<close>

definition rk_fallback ::
    "(Record \<Rightarrow> string \<Rightarrow> bytes) \<Rightarrow> i64 \<Rightarrow> RekorSink \<Rightarrow> bytes list \<Rightarrow> Checkpoint \<Rightarrow> string
      \<Rightarrow> bytes list \<times> (anchor_error + Record)" where
  "rk_fallback line now s lines c reason =
     (let r = \<lparr>rec_Checkpoint = Some c, rec_SinkName = rk_Name s, rec_SinkRef = ''fallback: '' @ reason,
               rec_AnchoredAt = now, rec_RecordHash = RecordHash c\<rparr>
      in (if rk_FallbackPath s \<noteq> [] then lines @ [line r reason] else lines, Inr r))"

definition rk_Publish ::
    "(Checkpoint \<Rightarrow> bytes option) \<Rightarrow> (Record \<Rightarrow> string \<Rightarrow> bytes) \<Rightarrow> (bytes \<Rightarrow> string list) \<Rightarrow> (bytes \<Rightarrow> http_result)
      \<Rightarrow> (bytes \<Rightarrow> string) \<Rightarrow> i64 \<Rightarrow> RekorSink \<Rightarrow> bytes list \<Rightarrow> Checkpoint option
      \<Rightarrow> bytes list \<times> (anchor_error + Record)" where
  "rk_Publish enc line keys http to_str now s lines co =
     (case co of None \<Rightarrow> (lines, Inl AnUnsigned)
      | Some c \<Rightarrow>
        if cp_Signature c = [] then (lines, Inl AnUnsigned)
        else case enc c of None \<Rightarrow> (lines, Inl AnMarshal)
        | Some body \<Rightarrow>
          (case http body of
             NetError e \<Rightarrow>
               if rk_StrictRekor s then (lines, Inl (AnNetwork e))
               else rk_fallback line now s lines c (''network: '' @ e)
           | Response status resp \<Rightarrow>
               if status div 100 \<noteq> 2 then
                 (if rk_StrictRekor s then (lines, Inl (AnHTTP status))
                  else rk_fallback line now s lines c
                         (''rekor HTTP '' @ dec_nat status @ '': '' @ truncate_text (to_str resp) 200))
               else
                 let uuid = (case keys resp of [] \<Rightarrow> [] | k # _ \<Rightarrow> k)
                 in (lines, Inr \<lparr>rec_Checkpoint = Some c, rec_SinkName = rk_Name s,
                       rec_SinkRef = ''rekor_uuid='' @ uuid, rec_AnchoredAt = now, rec_RecordHash = RecordHash c\<rparr>)))"

subsection \<open>Several sinks\<close>

text \<open>The answers of the sinks, each under its name, in the order they are asked.\<close>

fun publish_all ::
    "(string \<times> (anchor_error + Record)) list \<Rightarrow> Record option \<Rightarrow> (string \<times> anchor_error) list
      \<Rightarrow> Record option \<times> (string \<times> anchor_error) list" where
  "publish_all [] first errs = (first, errs)"
| "publish_all ((n, Inl e) # rs) first errs = publish_all rs first (errs @ [(n, e)])"
| "publish_all ((n, Inr r) # rs) first errs =
     publish_all rs (case first of None \<Rightarrow> Some r | Some f \<Rightarrow> Some f) errs"

definition ms_Publish ::
    "(string \<times> (anchor_error + Record)) list \<Rightarrow> Record option \<times> anchor_error option" where
  "ms_Publish results =
     (case publish_all results None [] of
        (None, errs) \<Rightarrow> (None, if errs = [] then None else Some (AnJoined errs))
      | (Some r, errs) \<Rightarrow> (Some r, if errs = [] then None else Some (AnJoined errs)))"

section \<open>Lemmas\<close>

lemma read_lines_line:
  assumes "0x0A \<notin> set l" "l \<noteq> [] \<or> acc \<noteq> []" "dec (acc @ l) = Some r"
  shows "read_lines dec (l @ 0x0A # rest) acc out = read_lines dec rest [] (out @ [r])"
  using assms
proof (induction l arbitrary: acc)
  case (Cons b l)
  then show ?case using Cons.IH [of "acc @ [b]"] by simp
qed simp

text \<open>What the encoding of records promises: a non-empty line that decodes to the record.\<close>

definition line_codec :: "(Record \<Rightarrow> bytes option) \<Rightarrow> (bytes \<Rightarrow> Record option) \<Rightarrow> Record \<Rightarrow> bool" where
  "line_codec enc dec r \<longleftrightarrow> (\<forall>l. enc r = Some l \<longrightarrow> l \<noteq> [] \<and> 0x0A \<notin> set l \<and> dec l = Some r)"

lemma of_str_nl [simp]: "of_str nl = [0x0A]"
  by (simp add: of_str_def nl_def)

lemma fs_Publish_success:
  assumes "fs_Publish enc io now s (Some c) = (s', Inr r)"
  obtains l where "r = file_record s now c" "enc r = Some l" "cp_Signature c \<noteq> []"
    "s' = s\<lparr>fs_file := fs_file s @ l @ [0x0A], fs_head := Some (of_str (rec_RecordHash r @ nl))\<rparr>"
  using assms by (auto simp: fs_Publish_def Let_def split: if_splits option.splits)

text \<open>The states of a sink that starts empty and into which every publication succeeds.\<close>

inductive published :: "(Record \<Rightarrow> bytes option) \<Rightarrow> string \<Rightarrow> FileSink \<Rightarrow> Record list \<Rightarrow> bool" for enc path where
  fresh: "published enc path \<lparr>fs_path = path, fs_file = [], fs_head = None\<rparr> []"
| publish: "published enc path s rs \<Longrightarrow> fs_Publish enc io now s (Some c) = (s', Inr r)
    \<Longrightarrow> published enc path s' (rs @ [r])"

lemma read_lines_append:
  assumes "\<And>rest out. read_lines dec (f @ rest) [] out = read_lines dec rest [] (out @ rs)"
    and "l \<noteq> []" "0x0A \<notin> set l" "dec l = Some r"
  shows "read_lines dec ((f @ l @ [0x0A]) @ rest) [] out = read_lines dec rest [] (out @ rs @ [r])"
  using assms(1) [of "l @ 0x0A # rest" out] read_lines_line [of l "[]" dec r rest "out @ rs"] assms(2-4) by simp

lemma hex_no_blank: "b \<in> set (of_str (hex h)) \<Longrightarrow> \<not> (b = 0x0A \<or> b = 0x0D \<or> b = 0x20)"
proof -
  assume "b \<in> set (of_str (hex h))"
  then obtain ch where "ch \<in> set (hex h)" "b = of_char ch" by (auto simp: of_str_def)
  with set_hex [of h] have "ch \<in> set hextable" by auto
  with \<open>b = of_char ch\<close> show ?thesis by (auto simp: hextable_def)
qed

text \<open>
  The anchor file is an exact record of what was published: after any sequence of successful
  publications into a fresh sink, reading the file back gives the records in order, and the head
  pointer names the SHA-256 of the last checkpoint.
\<close>

theorem anchor_file_roundtrip:
  assumes "published enc path s rs" and "\<forall>r. line_codec enc dec r"
  shows "ReadAll dec (Inr (Some (fs_file s))) = Inr rs
    \<and> (\<forall>r c. rs \<noteq> [] \<and> last rs = r \<and> rec_Checkpoint r = Some c \<longrightarrow> fs_HeadHash s = of_str (hex (sha256 (cp_Canonical c))))"
proof -
  have "(\<forall>rest out. read_lines dec (fs_file s @ rest) [] out = read_lines dec rest [] (out @ rs))
    \<and> (rs \<noteq> [] \<longrightarrow> (\<exists>c. rec_Checkpoint (last rs) = Some c \<and> fs_head s = Some (of_str (RecordHash c @ nl))))"
    using assms(1)
  proof induction
    case (publish s rs io now c s' r)
    obtain l where l: "r = file_record s now c" "enc r = Some l"
      and s': "s' = s\<lparr>fs_file := fs_file s @ l @ [0x0A], fs_head := Some (of_str (rec_RecordHash r @ nl))\<rparr>"
      using publish.hyps(2) by (rule fs_Publish_success)
    have c: "l \<noteq> []" "0x0A \<notin> set l" "dec l = Some r" using assms(2) l(2) by (auto simp: line_codec_def)
    have IH: "read_lines dec (fs_file s @ rest) [] out = read_lines dec rest [] (out @ rs)" for rest out
      using publish.IH by blast
    have "read_lines dec (fs_file s' @ rest) [] out = read_lines dec rest [] (out @ rs @ [r])" for rest out
      using read_lines_append [where f = "fs_file s" and rs = rs, OF IH c] by (simp add: s')
    then show ?case by (simp add: s' l(1) file_record_def)
  qed simp
  then have lines: "\<And>rest out. read_lines dec (fs_file s @ rest) [] out = read_lines dec rest [] (out @ rs)"
    and head: "rs \<noteq> [] \<Longrightarrow> \<exists>c. rec_Checkpoint (last rs) = Some c \<and> fs_head s = Some (of_str (RecordHash c @ nl))"
    by blast+
  have "filter (\<lambda>b. \<not> (b = 0x0A \<or> b = 0x0D \<or> b = 0x20)) (of_str (RecordHash c @ nl)) = of_str (RecordHash c)" for c
    using hex_no_blank [of _ "sha256 (cp_Canonical c)"]
    by (simp add: RecordHash_def of_str_def nl_def filter_id_conv)
  with head have "fs_HeadHash s = of_str (hex (sha256 (cp_Canonical c)))"
    if "rs \<noteq> []" "rec_Checkpoint (last rs) = Some c" for c
    using that by (auto simp: fs_HeadHash_def RecordHash_def)
  moreover have "ReadAll dec (Inr (Some (fs_file s))) = Inr rs"
    using lines [of "[]" "[]"] by (simp add: ReadAll_def)
  ultimately show ?thesis by blast
qed

subsection \<open>Witness\<close>

definition sample_io :: sink_io where
  "sample_io = \<lparr>io_open = True, io_seek = True, io_write = None, io_sync = True, io_head = True, io_rename = True\<rparr>"

definition sample_sink :: FileSink where
  "sample_sink = \<lparr>fs_path = ''a'', fs_file = [], fs_head = None\<rparr>"

theorem anchor_file_roundtrip_witness:
  "\<exists>s r enc dec. published enc ''a'' s [r] \<and> rec_Checkpoint r = Some (sample_checkpoint\<lparr>cp_Signature := [1]\<rparr>)
     \<and> ReadAll dec (Inr (Some (fs_file s))) = Inr [r]"
proof -
  let ?c = "sample_checkpoint\<lparr>cp_Signature := [1]\<rparr>"
  let ?r = "file_record sample_sink 5 ?c"
  let ?enc = "\<lambda>r. if r = ?r then Some [1] else None" and ?dec = "\<lambda>b :: bytes. Some ?r"
  obtain s where "fs_Publish ?enc sample_io 5 sample_sink (Some ?c) = (s, Inr ?r)"
    by (simp add: fs_Publish_def sample_io_def Let_def)
  then have "published ?enc ''a'' s ([] @ [?r])"
    using published.publish [OF published.fresh [of ?enc "''a''"]] by (simp only: sample_sink_def)
  moreover have "\<forall>r. line_codec ?enc ?dec r" by (auto simp: line_codec_def)
  ultimately have "ReadAll ?dec (Inr (Some (fs_file s))) = Inr [?r]"
    using anchor_file_roundtrip [of ?enc "''a''" s "[?r]" ?dec] by simp
  moreover have "rec_Checkpoint ?r = Some ?c" by (simp add: file_record_def)
  ultimately show ?thesis using \<open>published ?enc ''a'' s ([] @ [?r])\<close> by (metis append_Nil)
qed

end
