(* ===== verification/Core.thy ===== *)
theory Core
  imports Storage Merkle Anchor
begin

text \<open>
  Package \<open>core\<close>: the log instance that joins the store, the Merkle tree, the checkpoint signer,
  the witnesses and the anchor sinks.

  The tree reads evicted leaves through \<open>leafStoreAdapter\<close>, which points to the very store the
  log appends to; in the model the store is therefore the tree's leaf store, and
  \<open>lg_store\<close> is that field.  The clock, the random source, the network and the sinks are
  arguments of the operations that use them.
\<close>

section \<open>Definitions\<close>

text \<open>The parameters of the model that stand for code outside the repository.\<close>

record ('d, 'r, 'n, 'w, 'k) sys =
  sys_db :: "'d badger"
  sys_wire :: wire
  sys_lib :: "('r, 'n) tdlib"
  sys_hasher :: LogHasher
  sys_crypto :: crypto
  sys_keys :: "('w, 'k) KeyStore"
  sys_wire_checkpoint :: "Checkpoint \<Rightarrow> bytes option"
  sys_unwire_checkpoint :: "bytes \<Rightarrow> Checkpoint option"
  sys_wire_record :: "Record \<Rightarrow> bytes option"

record pendingEnrollment =
  pe_challengeID :: bytes
  pe_prod :: Producer
  pe_expiresAt :: int

record ('d, 'r, 'k) Log =
  lg_tree :: "('r, 'd Store) Tree"
  lg_signer :: "'k CheckpointSigner"
  lg_requireEnrollment :: bool
  lg_pending :: "string \<rightharpoonup> pendingEnrollment"

abbreviation lg_store :: "('d, 'r, 'k) Log \<Rightarrow> 'd Store" where
  "lg_store l \<equiv> leafStore (lg_tree l)"

definition with_store :: "('d, 'r, 'k) Log \<Rightarrow> 'd Store \<Rightarrow> ('d, 'r, 'k) Log" where
  "with_store l s = l\<lparr>lg_tree := (lg_tree l)\<lparr>leafStore := s\<rparr>\<rparr>"

definition defaultChallengeTTL :: int where
  "defaultChallengeTTL = 5 * 60 * 1000000000"

datatype core_error =
    CoStoreRequired
  | CoSignerRequired
  | CoStore storage_error
  | CoNilEnvelope
  | CoEnvelope envelope_error
  | CoRevoked string
  | CoKeyMismatch string
  | CoHybridMissing string
  | CoQuantumMismatch string
  | CoNotEnrolled string
  | CoExpired string i64
  | CoEnrollment string producer_error
  | CoReplayEntry u64 entry_error
  | CoReplayChain entry_error
  | CoReplaySize u64 u64
  | CoPanic
  | CoEnrollID
  | CoEnrollKey
  | CoEnrollSign fwdsec_error
  | CoEnrollEpoch u64 u64
  | CoEnrollQuantum fwdsec_error
  | CoNonce
  | CoChallenge
  | CoUnknownChallenge
  | CoChallengeExpired
  | CoQuantumChallenge
  | CoConsent producer_error
  | CoClockSkew u64 i64
  | CoSign checkpoint_error
  | CoMarshal
  | CoDecode
  | CoNoCheckpoint
  | CoAnchor "(string \<times> anchor_error) list"

subsection \<open>The leaf store of the tree\<close>

definition adapter_GetLeafHash :: "'d badger \<Rightarrow> 'd Store \<Rightarrow> u64 \<Rightarrow> unit + bytes option" where
  "adapter_GetLeafHash B s idx = (case st_GetLeafHash B s idx of Inl _ \<Rightarrow> Inl () | Inr h \<Rightarrow> Inr h)"

definition adapter_PutLeafHash :: "'d Store \<Rightarrow> u64 \<Rightarrow> bytes \<Rightarrow> 'd Store" where
  "adapter_PutLeafHash s idx h = s"

definition leafStoreAdapter :: "'d badger \<Rightarrow> 'd Store LeafStore" where
  "leafStoreAdapter B = \<lparr>GetLeafHash = adapter_GetLeafHash B, PutLeafHash = adapter_PutLeafHash\<rparr>"

subsection \<open>Start\<close>

text \<open>
  The closure \<open>replay\<close> passes to \<open>IterateEntries\<close>: its state is the log, the previous entry
  and the count.
\<close>

definition replay_entry ::
    "('d, 'r, 'n, 'w, 'k) sys \<Rightarrow> ('d, 'r, 'k) Log \<times> Entry option \<times> nat \<Rightarrow> Entry
      \<Rightarrow> (('d, 'r, 'k) Log \<times> Entry option \<times> nat) \<times> core_error option" where
  "replay_entry P st e =
     (case st of (l, prev, cnt) \<Rightarrow>
        (case ent_Verify (sys_crypto P) (sys_hasher P) e of
           Some err \<Rightarrow> (st, Some (CoReplayEntry (ent_Index e) err))
         | None \<Rightarrow>
        (case VerifyChain e prev of Some err \<Rightarrow> (st, Some (CoReplayChain err))
         | None \<Rightarrow>
        (case st_GetLeafHash (sys_db P) (lg_store l) (ent_Index e) of
           Inl err \<Rightarrow> (st, Some (CoStore err))
         | Inr found \<Rightarrow>
           (case (if found = None then st_PutLeafHash (sys_db P) (lg_store l) (ent_Index e) (ent_LeafHash e)
                  else (lg_store l, None)) of
              (s, Some err) \<Rightarrow> ((with_store l s, prev, cnt), Some (CoStore err))
            | (s, None) \<Rightarrow>
              let l = with_store l s
              in case AppendLeafHash (sys_lib P) (sys_hasher P) (leafStoreAdapter (sys_db P)) (ent_LeafHash e) (lg_tree l) of
                   Inl _ \<Rightarrow> ((l, prev, cnt), Some CoPanic)
                 | Inr (t, _) \<Rightarrow> ((l\<lparr>lg_tree := t\<rparr>, Some e, cnt + 1), None))))))"

definition replay ::
    "('d, 'r, 'n, 'w, 'k) sys \<Rightarrow> (nat \<Rightarrow> bool) \<Rightarrow> ('d, 'r, 'k) Log \<Rightarrow> ('d, 'r, 'k) Log \<times> core_error option" where
  "replay P cancelled l =
     (case IterateEntries (sys_db P) (sys_wire P) cancelled (lg_store l) 0 (replay_entry P) (l, None, 0) of
        ((l, _, _), Some (Inl err)) \<Rightarrow> (l, Some (CoStore err))
      | ((l, _, _), Some (Inr err)) \<Rightarrow> (l, Some err)
      | ((l, _, cnt), None) \<Rightarrow>
          if of_nat cnt \<noteq> Size (sys_lib P) (lg_tree l)
            then (l, Some (CoReplaySize (Size (sys_lib P) (lg_tree l)) (of_nat cnt)))
          else (l, None))"

record ('d, 'k) Options =
  opt_Store :: "'d Store option"
  opt_Signer :: "'k CheckpointSigner option"
  opt_RequireEnrollment :: bool
  opt_MerkleCacheNodes :: int
  opt_MerkleLeafCacheNodes :: int

definition core_New ::
    "('d, 'r, 'n, 'w, 'k) sys \<Rightarrow> (nat \<Rightarrow> bool) \<Rightarrow> ('d, 'k) Options \<Rightarrow> core_error + ('d, 'r, 'k) Log" where
  "core_New P cancelled opts =
     (case opt_Store opts of None \<Rightarrow> Inl CoStoreRequired
      | Some s \<Rightarrow>
        (case opt_Signer opts of None \<Rightarrow> Inl CoSignerRequired
         | Some sg \<Rightarrow>
           let l = \<lparr>lg_tree = NewBoundedTreeWithStore (sys_lib P) (opt_MerkleCacheNodes opts) (opt_MerkleLeafCacheNodes opts) s,
                    lg_signer = sg, lg_requireEnrollment = opt_RequireEnrollment opts, lg_pending = Map.empty\<rparr>
           in case replay P cancelled l of (_, Some err) \<Rightarrow> Inl err | (l, None) \<Rightarrow> Inr l))"

subsection \<open>Append\<close>

text \<open>The checks \<open>AppendCtx\<close> makes before it takes the lock; \<open>now\<close> is the time of the expiry check.\<close>

definition admit ::
    "('d, 'r, 'n, 'w, 'k) sys \<Rightarrow> i64 \<Rightarrow> ('d, 'r, 'k) Log \<Rightarrow> Envelope \<Rightarrow> core_error option" where
  "admit P now l env =
     (case env_Verify (sys_crypto P) env of Some err \<Rightarrow> Some (CoEnvelope err)
      | None \<Rightarrow>
     (case GetProducer (sys_db P) (sys_wire P) (lg_store l) (env_ProducerID env) of Inl err \<Rightarrow> Some (CoStore err)
      | Inr pr \<Rightarrow>
        if pr_Revoked pr then Some (CoRevoked (env_ProducerID env))
        else if \<not> bytesEqual (pr_PublicKey pr) (env_PublicKey env) then Some (CoKeyMismatch (env_ProducerID env))
        else if 0 < length (pr_QuantumPublicKey pr) \<and> length (env_QuantumPublicKey env) = 0
          then Some (CoHybridMissing (env_ProducerID env))
        else if 0 < length (pr_QuantumPublicKey pr) \<and> \<not> bytesEqual (pr_QuantumPublicKey pr) (env_QuantumPublicKey env)
          then Some (CoQuantumMismatch (env_ProducerID env))
        else if lg_requireEnrollment l then
          (if \<not> HasEnrollment pr then Some (CoNotEnrolled (env_ProducerID env))
           else if IsExpired pr now then Some (CoExpired (env_ProducerID env) (pr_ExpiresAt pr))
           else let chain = sg_chain (csg_fws (lg_signer l))
           in map_option (CoEnrollment (env_ProducerID env))
                (VerifyEnrollment (sys_crypto P) (PublicKeyAt chain) (QuantumPublicKeyAt chain) pr))
        else None))"

definition prev_entry :: "u64 \<Rightarrow> bytes \<Rightarrow> Entry option" where
  "prev_entry idx head =
     (if idx = 0 then None
      else Some \<lparr>ent_Index = idx - 1, ent_TimeNanos = 0, ent_PrevHash = [], ent_Envelope = None,
                 ent_Honeypot = False, ent_EntryHash = head, ent_LeafHash = []\<rparr>)"

definition AppendCtx ::
    "('d, 'r, 'n, 'w, 'k) sys \<Rightarrow> i64 \<Rightarrow> i64 \<Rightarrow> ('d, 'r, 'k) Log \<Rightarrow> Envelope option \<Rightarrow> bool
      \<Rightarrow> ('d, 'r, 'k) Log \<times> (core_error + Entry)" where
  "AppendCtx P now entry_now l eo honeypot =
     (case eo of None \<Rightarrow> (l, Inl CoNilEnvelope)
      | Some env \<Rightarrow>
        (case admit P now l env of Some err \<Rightarrow> (l, Inl err)
         | None \<Rightarrow>
           let idx = Size (sys_lib P) (lg_tree l)
           in case CheckAndRecordEnvelope (sys_db P) (lg_store l) (env_Hash env) idx of
                (s, Some err) \<Rightarrow> (with_store l s, Inl (CoStore err))
              | (s, None) \<Rightarrow>
                let l = with_store l s
                in case HeadHash (sys_db P) (lg_store l) of
                     Inl err \<Rightarrow> (l, Inl (CoStore err))
                   | Inr head \<Rightarrow>
                     let entry = ent_New (sys_hasher P) entry_now idx (prev_entry idx head) (Some env) honeypot
                     in case AppendEntry (sys_db P) (sys_wire P) (lg_store l) entry of
                          (s, Some err) \<Rightarrow> (with_store l s, Inl (CoStore err))
                        | (s, None) \<Rightarrow>
                          let l = with_store l s
                          in case AppendLeafHash (sys_lib P) (sys_hasher P) (leafStoreAdapter (sys_db P))
                                    (ent_LeafHash entry) (lg_tree l) of
                               Inl _ \<Rightarrow> (l, Inl CoPanic)
                             | Inr (t, _) \<Rightarrow> (l\<lparr>lg_tree := t\<rparr>, Inr entry)))"

subsection \<open>Producers\<close>

definition core_RegisterProducer ::
    "('d, 'r, 'n, 'w, 'k) sys \<Rightarrow> i64 \<Rightarrow> ('d, 'r, 'k) Log \<Rightarrow> Producer option \<Rightarrow> ('d, 'r, 'k) Log \<times> core_error option" where
  "core_RegisterProducer P now l po =
     (case RegisterProducer (sys_db P) (sys_wire P) now (lg_store l) po of
        (s, _, err) \<Rightarrow> (with_store l s, map_option CoStore err))"

definition core_RevokeProducer ::
    "('d, 'r, 'n, 'w, 'k) sys \<Rightarrow> i64 \<Rightarrow> ('d, 'r, 'k) Log \<Rightarrow> string \<Rightarrow> string \<Rightarrow> ('d, 'r, 'k) Log \<times> core_error option" where
  "core_RevokeProducer P now l i reason =
     (case RevokeProducer (sys_db P) (sys_wire P) now (lg_store l) i reason of
        (s, err) \<Rightarrow> (with_store l s, map_option CoStore err))"

definition core_ListProducers ::
    "('d, 'r, 'n, 'w, 'k) sys \<Rightarrow> ('d, 'r, 'k) Log \<Rightarrow> ('s \<Rightarrow> Producer \<Rightarrow> 's \<times> 'e option) \<Rightarrow> 's
      \<Rightarrow> 's \<times> (storage_error + 'e) option" where
  "core_ListProducers P l fn acc = ListProducers (sys_db P) (sys_wire P) (lg_store l) fn acc"

record EnrollmentRequest =
  er_ID :: string
  er_PublicKey :: bytes
  er_QuantumPublicKey :: bytes
  er_AttestationType :: string
  er_Description :: string
  er_Scope :: string
  er_Validity :: i64

definition expires_at :: "i64 \<Rightarrow> i64 \<Rightarrow> i64" where
  "expires_at now validity = (if sint validity > 0 then now + validity else 0)"

definition new_producer :: "EnrollmentRequest \<Rightarrow> i64 \<Rightarrow> u64 \<Rightarrow> bytes \<Rightarrow> Producer" where
  "new_producer req now epoch nonce =
     \<lparr>pr_ID = er_ID req, pr_PublicKey = er_PublicKey req, pr_QuantumPublicKey = er_QuantumPublicKey req,
      pr_AttestationType = er_AttestationType req, pr_Description = er_Description req, pr_RegisteredAt = now,
      pr_Scope = er_Scope req, pr_IssuedAt = now, pr_ExpiresAt = expires_at now (er_Validity req),
      pr_OperatorEpoch = epoch, pr_Signature = [], pr_QuantumOperatorPubKey = [], pr_QuantumSignature = [],
      pr_Revoked = False, pr_RevokedAt = 0, pr_RevokeReason = [], pr_ChallengeNonce = nonce,
      pr_ChallengeSignature = [], pr_QuantumChallengeSignature = []\<rparr>"

text \<open>The operator's signatures on an enrollment, shared by the two ways to enroll.\<close>

definition operator_sign ::
    "('d, 'r, 'n, 'w, 'k) sys \<Rightarrow> 'w \<Rightarrow> 'k Signer \<Rightarrow> Producer \<Rightarrow> core_error + Producer" where
  "operator_sign P w fws pr =
     (let canon = CanonicalEnrollment pr
      in case sg_Sign (sys_keys P) w fws canon of
        Inl e \<Rightarrow> Inl (CoEnrollSign e)
      | Inr (epoch, sig) \<Rightarrow>
        if epoch \<noteq> pr_OperatorEpoch pr then Inl (CoEnrollEpoch epoch (pr_OperatorEpoch pr))
        else let pr = pr\<lparr>pr_Signature := sig\<rparr> in
        if sg_Hybrid (sys_keys P) w fws \<and> 0 < length (pr_QuantumPublicKey pr) then
          (case sg_QuantumSign (sys_keys P) w fws canon of
             Inl e \<Rightarrow> Inl (CoEnrollQuantum e)
           | Inr qsig \<Rightarrow>
               Inr (pr\<lparr>pr_QuantumOperatorPubKey := QuantumPublicKeyAt (sg_chain fws) (pr_OperatorEpoch pr),
                       pr_QuantumSignature := qsig\<rparr>))
        else Inr pr)"

definition register_signed ::
    "('d, 'r, 'n, 'w, 'k) sys \<Rightarrow> i64 \<Rightarrow> ('d, 'r, 'k) Log \<Rightarrow> Producer \<Rightarrow> ('d, 'r, 'k) Log \<times> (core_error + Producer)" where
  "register_signed P now l pr =
     (case RegisterProducer (sys_db P) (sys_wire P) now (lg_store l) (Some pr) of
        (s, _, Some err) \<Rightarrow> (with_store l s, Inl (CoStore err))
      | (s, po, None) \<Rightarrow> (with_store l s, Inr (the po)))"

definition IssueEnrollment ::
    "('d, 'r, 'n, 'w, 'k) sys \<Rightarrow> 'w \<Rightarrow> i64 \<Rightarrow> i64 \<Rightarrow> ('d, 'r, 'k) Log \<Rightarrow> EnrollmentRequest
      \<Rightarrow> ('d, 'r, 'k) Log \<times> (core_error + Producer)" where
  "IssueEnrollment P w now store_now l req =
     (if er_ID req = [] then (l, Inl CoEnrollID)
      else if length (er_PublicKey req) = 0 then (l, Inl CoEnrollKey)
      else let fws = csg_fws (lg_signer l) in
      case operator_sign P w fws (new_producer req now (ActiveEpoch (sg_chain fws)) []) of
        Inl err \<Rightarrow> (l, Inl err)
      | Inr pr \<Rightarrow> register_signed P store_now l pr)"

record BeginEnrollmentResult =
  be_ChallengeID :: string
  be_ChallengeBytes :: bytes
  be_ExpiresAt :: int

text \<open>
  The random source gives 16 bytes for the identifier and 32 for the nonce, or fails; the clock
  is read for the record and again for the expiry of the challenge.
\<close>

definition BeginEnrollment ::
    "bytes option \<Rightarrow> bytes option \<Rightarrow> i64 \<Rightarrow> i64 \<Rightarrow> ('d, 'r, 'k) Log \<Rightarrow> EnrollmentRequest
      \<Rightarrow> ('d, 'r, 'k) Log \<times> (core_error + BeginEnrollmentResult)" where
  "BeginEnrollment id_rand nonce_rand now now' l req =
     (if er_ID req = [] then (l, Inl CoEnrollID)
      else if length (er_PublicKey req) = 0 then (l, Inl CoEnrollKey)
      else case id_rand of None \<Rightarrow> (l, Inl CoNonce)
      | Some idRaw \<Rightarrow>
        (case nonce_rand of None \<Rightarrow> (l, Inl CoNonce)
         | Some nonce \<Rightarrow>
           let pr = new_producer req now (ActiveEpoch (sg_chain (csg_fws (lg_signer l)))) nonce;
               challenge = ChallengeBytes pr
           in if length challenge = 0 then (l, Inl CoChallenge)
           else let chID = hex idRaw; expiresAt = sint now' + defaultChallengeTTL
           in (l\<lparr>lg_pending := (lg_pending l)(chID \<mapsto>
                   \<lparr>pe_challengeID = idRaw, pe_prod = pr, pe_expiresAt = expiresAt\<rparr>)\<rparr>,
               Inr \<lparr>be_ChallengeID = chID, be_ChallengeBytes = challenge, be_ExpiresAt = expiresAt\<rparr>)))"

definition ConfirmEnrollment ::
    "('d, 'r, 'n, 'w, 'k) sys \<Rightarrow> 'w \<Rightarrow> i64 \<Rightarrow> i64 \<Rightarrow> ('d, 'r, 'k) Log \<Rightarrow> string \<Rightarrow> bytes \<Rightarrow> bytes
      \<Rightarrow> ('d, 'r, 'k) Log \<times> (core_error + Producer)" where
  "ConfirmEnrollment P w now store_now l challengeID classicalSig quantumSig =
     (case lg_pending l challengeID of None \<Rightarrow> (l, Inl CoUnknownChallenge)
      | Some pending \<Rightarrow>
        let l = l\<lparr>lg_pending := (lg_pending l)(challengeID := None)\<rparr> in
        if sint now > pe_expiresAt pending then (l, Inl CoChallengeExpired)
        else let pr = (pe_prod pending)\<lparr>pr_ChallengeSignature := classicalSig\<rparr> in
        if 0 < length (pr_QuantumPublicKey pr) \<and> length quantumSig = 0 then (l, Inl CoQuantumChallenge)
        else let pr = (if 0 < length (pr_QuantumPublicKey pr)
                       then pr\<lparr>pr_QuantumChallengeSignature := quantumSig\<rparr> else pr) in
        case VerifyConsent (sys_crypto P) pr of Some err \<Rightarrow> (l, Inl (CoConsent err))
        | None \<Rightarrow>
          (case operator_sign P w (csg_fws (lg_signer l)) pr of
             Inl err \<Rightarrow> (l, Inl err)
           | Inr pr \<Rightarrow> register_signed P store_now l pr))"

text \<open>One tick of \<open>StartEnrollmentJanitor\<close>.\<close>

definition janitor_tick :: "i64 \<Rightarrow> ('d, 'r, 'k) Log \<Rightarrow> ('d, 'r, 'k) Log" where
  "janitor_tick now l =
     l\<lparr>lg_pending := (\<lambda>i. case lg_pending l i of None \<Rightarrow> None
        | Some p \<Rightarrow> if sint now > pe_expiresAt p then None else Some p)\<rparr>"

subsection \<open>Queries\<close>

definition core_Get :: "('d, 'r, 'n, 'w, 'k) sys \<Rightarrow> ('d, 'r, 'k) Log \<Rightarrow> u64 \<Rightarrow> storage_error + Entry" where
  "core_Get P l idx = GetEntry (sys_db P) (sys_wire P) (lg_store l) idx"

definition core_Size :: "('d, 'r, 'n, 'w, 'k) sys \<Rightarrow> ('d, 'r, 'k) Log \<Rightarrow> u64" where
  "core_Size P l = Size (sys_lib P) (lg_tree l)"

definition core_Root :: "('d, 'r, 'n, 'w, 'k) sys \<Rightarrow> ('d, 'r, 'k) Log \<Rightarrow> merkle_error + bytes" where
  "core_Root P l = Root (sys_lib P) (sys_hasher P) (lg_tree l)"

definition core_InclusionProof ::
    "('d, 'r, 'n, 'w, 'k) sys \<Rightarrow> ('d, 'r, 'k) Log \<Rightarrow> u64 \<Rightarrow> u64 \<Rightarrow> (('d, 'r, 'k) Log \<times> (merkle_error + bytes list)) option" where
  "core_InclusionProof P l idx treeSize =
     map_option (\<lambda>(t, r). (l\<lparr>lg_tree := t\<rparr>, r))
       (InclusionProof (sys_lib P) (sys_hasher P) (leafStoreAdapter (sys_db P)) idx treeSize (lg_tree l))"

definition core_ConsistencyProof ::
    "('d, 'r, 'n, 'w, 'k) sys \<Rightarrow> ('d, 'r, 'k) Log \<Rightarrow> u64 \<Rightarrow> u64 \<Rightarrow> (('d, 'r, 'k) Log \<times> (merkle_error + bytes list)) option" where
  "core_ConsistencyProof P l oldSize newSize =
     map_option (\<lambda>(t, r). (l\<lparr>lg_tree := t\<rparr>, r))
       (ConsistencyProof (sys_lib P) (sys_hasher P) (leafStoreAdapter (sys_db P)) oldSize newSize (lg_tree l))"

subsection \<open>Witnesses\<close>

definition core_RegisterWitness ::
    "('d, 'r, 'n, 'w, 'k) sys \<Rightarrow> ('d, 'r, 'k) Log \<Rightarrow> Witness option \<Rightarrow> ('d, 'r, 'k) Log \<times> core_error option" where
  "core_RegisterWitness P l wo =
     (case RegisterWitness (sys_db P) (sys_wire P) (lg_store l) wo of
        (s, err) \<Rightarrow> (with_store l s, map_option CoStore err))"

definition core_ListWitnesses ::
    "('d, 'r, 'n, 'w, 'k) sys \<Rightarrow> ('d, 'r, 'k) Log \<Rightarrow> Witness list \<times> (storage_error + unit) option" where
  "core_ListWitnesses P l =
     ListWitnesses (sys_db P) (sys_wire P) (lg_store l) (\<lambda>out w. (out @ [w], None)) []"

datatype validate_error =
    WvUnknown string
  | WvDifferentKey
  | WvInvalid
  | WvPanic

definition validateWitnessSig ::
    "crypto \<Rightarrow> Checkpoint \<Rightarrow> WitnessSig \<Rightarrow> Witness list \<Rightarrow> validate_error option" where
  "validateWitnessSig C c sig witnesses =
     (let pub = (case find (\<lambda>w. wi_ID w = ws_WitnessID sig) witnesses of None \<Rightarrow> [] | Some w \<Rightarrow> wi_PublicKey w)
      in if pub = [] then Some (WvUnknown (ws_WitnessID sig))
      else if ws_PublicKey sig \<noteq> pub then Some WvDifferentKey
      else if length pub \<noteq> ed25519_PublicKeySize then Some WvPanic
      else if \<not> ed25519_Verify C pub (CanonicalForWitness c) (ws_Signature sig) then Some WvInvalid
      else None)"

text \<open>
  The answers in the order they arrive, each with the identifier of the witness that was asked.
  The outcome \<open>None\<close> is a panic of \<open>ed25519.Verify\<close>.
\<close>

datatype gather_status =
    GatherFailed string
  | GatherRejected validate_error
  | GatherOk

fun gather ::
    "crypto \<Rightarrow> Witness list \<Rightarrow> (string \<times> (string + WitnessSig)) list \<Rightarrow> Checkpoint \<Rightarrow> (string \<rightharpoonup> gather_status)
      \<Rightarrow> (Checkpoint \<times> (string \<rightharpoonup> gather_status)) option" where
  "gather C witnesses [] c status = Some (c, status)"
| "gather C witnesses ((i, Inl e) # rs) c status = gather C witnesses rs c (status(i \<mapsto> GatherFailed e))"
| "gather C witnesses ((i, Inr sig) # rs) c status =
     (case validateWitnessSig C c sig witnesses of
        Some WvPanic \<Rightarrow> None
      | Some err \<Rightarrow> gather C witnesses rs c (status(i \<mapsto> GatherRejected err))
      | None \<Rightarrow> gather C witnesses rs (c\<lparr>cp_Witnesses := cp_Witnesses c @ [Some sig]\<rparr>) (status(i \<mapsto> GatherOk)))"

definition GatherWitnessSignatures ::
    "('d, 'r, 'n, 'w, 'k) sys \<Rightarrow> (Witness list \<Rightarrow> Checkpoint \<Rightarrow> (string \<times> (string + WitnessSig)) list)
      \<Rightarrow> ('d, 'r, 'k) Log \<Rightarrow> Checkpoint \<Rightarrow> (Checkpoint \<times> (string \<rightharpoonup> gather_status)) option" where
  "GatherWitnessSignatures P replies l c =
     (case core_ListWitnesses P l of
        (_, Some _) \<Rightarrow> Some (c, Map.empty)
      | (witnesses, None) \<Rightarrow>
          if length witnesses = 0 then Some (c, Map.empty)
          else gather (sys_crypto P) witnesses (replies witnesses c) c Map.empty)"

subsection \<open>Checkpoints and anchors\<close>

definition DefaultMaxClockSkew :: i64 where
  "DefaultMaxClockSkew = 5 * 60"

definition drandGenesis :: i64 where "drandGenesis = 1692489600"
definition drandPeriod :: i64 where "drandPeriod = 3"

definition clock_skew :: "i64 \<Rightarrow> Beacon \<Rightarrow> i64" where
  "clock_skew nowSec b =
     (let expected = drandGenesis + drandPeriod * bc_Round b; skew = nowSec - expected
      in if sint skew < 0 then - skew else skew)"

text \<open>\<open>beacon\<close> is the hook: absent, failing, or returning a beacon that may be nil.\<close>

definition fetch_beacon :: "(unit + Beacon option) option \<Rightarrow> Beacon option" where
  "fetch_beacon hook = (case hook of Some (Inr b) \<Rightarrow> b | _ \<Rightarrow> None)"

definition CheckpointCtx ::
    "('d, 'r, 'n, 'w, 'k) sys \<Rightarrow> 'w \<Rightarrow> (unit + Beacon option) option \<Rightarrow> i64 \<Rightarrow> i64
      \<Rightarrow> (Witness list \<Rightarrow> Checkpoint \<Rightarrow> (string \<times> (string + WitnessSig)) list) \<Rightarrow> ('d, 'r, 'k) Log
      \<Rightarrow> ('d, 'r, 'k) Log \<times> (core_error + Checkpoint)" where
  "CheckpointCtx P w hook nowSec now replies l =
     (case core_Root P l of Inl _ \<Rightarrow> (l, Inl CoPanic)
      | Inr root \<Rightarrow>
     (case HeadHash (sys_db P) (lg_store l) of Inl err \<Rightarrow> (l, Inl (CoStore err))
      | Inr head \<Rightarrow>
        let sz = core_Size P l; beacon = fetch_beacon hook
        in if (case beacon of None \<Rightarrow> False
               | Some b \<Rightarrow> bc_Round b > 0 \<and> bc_Source b = ''drand'' \<and> sint (clock_skew nowSec b) > sint DefaultMaxClockSkew)
           then (l, Inl (CoClockSkew (bc_Round (the beacon)) (clock_skew nowSec (the beacon))))
           else case cp_Sign (sys_crypto P) (sys_keys P) w now (lg_signer l) sz root head beacon of
             Inl err \<Rightarrow> (l, Inl (CoSign err))
           | Inr c \<Rightarrow>
             (case GatherWitnessSignatures P replies l c of None \<Rightarrow> (l, Inl CoPanic)
              | Some (c, _) \<Rightarrow>
                (case sys_wire_checkpoint P c of None \<Rightarrow> (l, Inl CoMarshal)
                 | Some body \<Rightarrow>
                   (case SaveCheckpoint (sys_db P) (lg_store l) (cp_Size c) body of
                      (s, Some err) \<Rightarrow> (with_store l s, Inl (CoStore err))
                    | (s, None) \<Rightarrow> (with_store l s, Inr c))))))"

definition core_Rotate ::
    "('d, 'r, 'n, 'w, 'k) sys \<Rightarrow> i64 \<Rightarrow> bool \<Rightarrow> 'w \<Rightarrow> ('d, 'r, 'k) Log
      \<Rightarrow> 'w \<times> ('d, 'r, 'k) Log \<times> fwdsec_error option" where
  "core_Rotate P now wr_ok w l =
     (case Rotate (sys_keys P) now wr_ok w (csg_fws (lg_signer l)) of
        (w, fws, r) \<Rightarrow>
          (w, l\<lparr>lg_signer := (lg_signer l)\<lparr>csg_fws := fws\<rparr>\<rparr>, (case r of Inl e \<Rightarrow> Some e | Inr _ \<Rightarrow> None)))"

definition core_LatestCheckpoint ::
    "('d, 'r, 'n, 'w, 'k) sys \<Rightarrow> ('d, 'r, 'k) Log \<Rightarrow> core_error + Checkpoint option" where
  "core_LatestCheckpoint P l =
     (case st_LatestCheckpoint (sys_db P) (lg_store l) of Inl err \<Rightarrow> Inl (CoStore err)
      | Inr (body, _) \<Rightarrow>
          if body = [] then Inr None
          else (case sys_unwire_checkpoint P body of None \<Rightarrow> Inl CoDecode | Some c \<Rightarrow> Inr (Some c)))"

text \<open>The sinks: a name and what publishing answers.\<close>

fun anchor_sinks ::
    "('d, 'r, 'n, 'w, 'k) sys \<Rightarrow> Checkpoint \<Rightarrow> (string \<times> (Checkpoint \<Rightarrow> anchor_error + Record)) list
      \<Rightarrow> 'd Store \<Rightarrow> (string \<rightharpoonup> Record) \<Rightarrow> (string \<times> anchor_error) list
      \<Rightarrow> 'd Store \<times> (string \<rightharpoonup> Record) \<times> (string \<times> anchor_error) list" where
  "anchor_sinks P c [] s results errs = (s, results, errs)"
| "anchor_sinks P c ((name, publish) # sinks) s results errs =
     (case publish c of
        Inl e \<Rightarrow> anchor_sinks P c sinks s results (errs @ [(name, e)])
      | Inr r \<Rightarrow>
          anchor_sinks P c sinks
            (case sys_wire_record P r of None \<Rightarrow> s | Some body \<Rightarrow> fst (SaveAnchor (sys_db P) s (cp_Size c) body))
            (results(name \<mapsto> r)) errs)"

definition core_Anchor ::
    "('d, 'r, 'n, 'w, 'k) sys \<Rightarrow> (string \<times> (Checkpoint \<Rightarrow> anchor_error + Record)) list \<Rightarrow> ('d, 'r, 'k) Log
      \<Rightarrow> ('d, 'r, 'k) Log \<times> (string \<rightharpoonup> Record) \<times> core_error option" where
  "core_Anchor P sinks l =
     (case core_LatestCheckpoint P l of Inl err \<Rightarrow> (l, Map.empty, Some err)
      | Inr None \<Rightarrow> (l, Map.empty, Some CoNoCheckpoint)
      | Inr (Some c) \<Rightarrow>
          (case anchor_sinks P c sinks (lg_store l) Map.empty [] of
             (s, results, errs) \<Rightarrow> (with_store l s, results, if errs = [] then None else Some (CoAnchor errs))))"

definition CheckpointAndAnchor ::
    "('d, 'r, 'n, 'w, 'k) sys \<Rightarrow> 'w \<Rightarrow> (unit + Beacon option) option \<Rightarrow> i64 \<Rightarrow> i64
      \<Rightarrow> (Witness list \<Rightarrow> Checkpoint \<Rightarrow> (string \<times> (string + WitnessSig)) list)
      \<Rightarrow> (string \<times> (Checkpoint \<Rightarrow> anchor_error + Record)) list \<Rightarrow> ('d, 'r, 'k) Log
      \<Rightarrow> ('d, 'r, 'k) Log \<times> Checkpoint option \<times> (string \<rightharpoonup> Record) \<times> core_error option" where
  "CheckpointAndAnchor P w hook nowSec now replies sinks l =
     (case CheckpointCtx P w hook nowSec now replies l of
        (l, Inl err) \<Rightarrow> (l, None, Map.empty, Some err)
      | (l, Inr c) \<Rightarrow> (case core_Anchor P sinks l of (l, recs, err) \<Rightarrow> (l, Some c, recs, err)))"

section \<open>The invariant\<close>

subsection \<open>The adapter is a leaf store\<close>

interpretation adapter: leaf_store "leafStoreAdapter B" "\<lambda>s i h. st_GetLeafHash B s i = Inr (Some h)" for B
  by unfold_locales (auto simp: leafStoreAdapter_def adapter_GetLeafHash_def adapter_PutLeafHash_def)

lemma adapter_put: "PutLeafHash (leafStoreAdapter B) s i h = s"
  by (simp add: leafStoreAdapter_def adapter_PutLeafHash_def)

lemma AppendLeafHash_store:
  assumes "AppendLeafHash L H (leafStoreAdapter B) h t = Inr (t', i)"
  shows "leafStore t' = leafStore t"
proof -
  have put: "leafStore (putNode (leafStoreAdapter B) nid g u) = leafStore u" for nid g and u :: "('a, 'b Store) Tree"
    by (simp add: putNode_def putLeaf_def adapter_put)
  have "leafStore (foldl (\<lambda>t (nid, h). putNode (leafStoreAdapter B) nid h t) u vs) = leafStore u"
    for vs and u :: "('a, 'b Store) Tree"
    by (induction vs arbitrary: u) (auto simp: put)
  with assms put show ?thesis by (auto simp: AppendLeafHash_def Let_def split: option.splits)
qed

subsection \<open>The log a running instance stands for\<close>

text \<open>
  \<open>log_inv P view rep l es\<close>: the database holds the entries \<open>es\<close> and their leaf hashes, the
  entries verify and form a chain, the tree and its caches stand for their leaf hashes, and, where
  replay records do not expire, every envelope among them is in the replay table.
\<close>

definition log_inv ::
    "('d, 'r, 'n, 'w, 'k) sys \<Rightarrow> ('d \<Rightarrow> bytes \<rightharpoonup> bytes) \<Rightarrow> ('r \<Rightarrow> bytes list \<Rightarrow> bool) \<Rightarrow> ('d, 'r, 'k) Log \<Rightarrow> Entry list \<Rightarrow> bool" where
  "log_inv P view rep l es \<longleftrightarrow>
     holds_log (sys_wire P) (view (st_db (lg_store l))) es \<and> mirror_full (view (st_db (lg_store l))) es
     \<and> entries.chained (sys_crypto P) (sys_hasher P) None es
     \<and> rep (rng (lg_tree l)) (map ent_LeafHash es)
     \<and> cache_inv (sys_lib P) (sys_hasher P) (map ent_LeafHash es) (lg_tree l)
     \<and> length es \<le> 2 ^ 63
     \<and> (keeps_replays (lg_store l) \<longrightarrow> (\<forall>e\<in>set es. view (st_db (lg_store l)) (replayKey (env_hash_of (ent_Envelope e))) \<noteq> None))"

text \<open>
  What the surroundings promise: the database and the Merkle library behave as documented, the
  hasher produces 32-byte digests, and reads do not fail (commits may).
\<close>

definition sys_ok ::
    "('d, 'r, 'n, 'w, 'k) sys \<Rightarrow> ('d \<Rightarrow> bytes \<rightharpoonup> bytes) \<Rightarrow> ('r \<Rightarrow> bytes list \<Rightarrow> bool) \<Rightarrow> bool" where
  "sys_ok P view rep \<longleftrightarrow>
     badger_ok (sys_db P) view \<and> badger_reads (sys_db P) view
     \<and> tdlib_ok (sys_lib P) (sys_hasher P) rep \<and> tdlib_nodes_ok (sys_lib P)
     \<and> (\<forall>d. length (HashLeaf (sys_hasher P) d) = 32)"

lemma sys_okD:
  assumes "sys_ok P view rep"
  shows "badger_ok (sys_db P) view" "badger_reads (sys_db P) view" "tdlib_ok (sys_lib P) (sys_hasher P) rep"
    "tdlib_nodes_ok (sys_lib P)" "length (HashLeaf (sys_hasher P) d) = 32"
  using assms by (auto simp: sys_ok_def)

lemma chained_hashes:
  assumes "entries.chained C H None es" "e \<in> set es"
  shows "length (ent_EntryHash e) = 32" "ent_LeafHash e = HashLeaf H (ent_Canonical e)"
  using entries.chained_valid [OF assms] by (auto simp: ent_Verify_None)

lemma log_inv_head: "log_inv P view rep l es \<Longrightarrow> length (head_of es) = 32"
  by (rule length_head_of) (auto simp: log_inv_def chained_hashes)

lemma GetLeafHash_full:
  assumes "sys_ok P view rep" "mirror_full (view (st_db s)) es" "i < length es"
    and "entries.chained (sys_crypto P) (sys_hasher P) None es"
  shows "st_GetLeafHash (sys_db P) s (of_nat i) = Inr (Some (ent_LeafHash (es ! i)))"
proof -
  have "length (ent_LeafHash (es ! i)) = 32"
    using chained_hashes(2) [OF assms(4), of "es ! i"] assms(3) sys_okD(5) [OF assms(1)] by simp
  then have "ent_LeafHash (es ! i) \<noteq> []" by auto
  moreover have "fetch (sys_db P) (st_db s) (leafKey (of_nat i)) = Inr (Some (ent_LeafHash (es ! i)))"
    using fetch_live [OF sys_okD(2) [OF assms(1)]] assms(2,3) by (simp add: mirror_full_def)
  ultimately show ?thesis by (simp add: st_GetLeafHash_def)
qed

lemma log_inv_tree:
  assumes "sys_ok P view rep" "log_inv P view rep l es"
  shows "tree_inv (sys_lib P) (sys_hasher P) rep (\<lambda>s i h. st_GetLeafHash (sys_db P) s i = Inr (Some h))
    (map ent_LeafHash es) (lg_tree l)"
  using assms(2) GetLeafHash_full [OF assms(1), of "lg_store l" es]
  by (simp add: tree_inv_def store_inv_def log_inv_def)

lemma with_store_simps [simp]:
  "lg_store (with_store l s) = s" "rng (lg_tree (with_store l s)) = rng (lg_tree l)"
  "lg_signer (with_store l s) = lg_signer l" "lg_requireEnrollment (with_store l s) = lg_requireEnrollment l"
  "lg_pending (with_store l s) = lg_pending l" "Size L (lg_tree (with_store l s)) = Size L (lg_tree l)"
  "cache_inv L H ls (lg_tree (with_store l s)) = cache_inv L H ls (lg_tree l)"
  by (simp_all add: with_store_def Size_def cache_inv_def)

text \<open>A change of the database outside the log and the replay table.\<close>

lemma log_inv_store:
  assumes "log_inv P view rep l es" "st_replayTTL s = st_replayTTL (lg_store l)"
    and "\<And>k. log_key k \<Longrightarrow> view (st_db s) k = view (st_db (lg_store l)) k"
    and "\<And>h. keeps_replays s \<Longrightarrow> view (st_db (lg_store l)) (replayKey h) \<noteq> None \<Longrightarrow> view (st_db s) (replayKey h) \<noteq> None"
  shows "log_inv P view rep (with_store l s) es"
  using assms(1,2,4) holds_log_cong [of "view (st_db s)" "view (st_db (lg_store l))", OF assms(3)]
  by (simp add: log_inv_def)

lemma log_inv_Size: "sys_ok P view rep \<Longrightarrow> log_inv P view rep l es \<Longrightarrow> Size (sys_lib P) (lg_tree l) = of_nat (length es)"
  using Size_inv [OF sys_okD(3) log_inv_tree] by fastforce

subsection \<open>Append\<close>

text \<open>Entries around this envelope survive the JSON encoding.\<close>

definition env_wires :: "wire \<Rightarrow> Envelope \<Rightarrow> bool" where
  "env_wires W env \<longleftrightarrow> (\<forall>e. ent_Envelope e = Some env \<longrightarrow> entry_wires W e)"

text \<open>The tree follows an entry the store has just appended.\<close>

lemma tree_follows:
  assumes ok: "sys_ok P view rep" and tree: "rep (rng t) (map ent_LeafHash es)"
    "cache_inv (sys_lib P) (sys_hasher P) (map ent_LeafHash es) t"
    and full: "mirror_full (view (st_db (leafStore t))) (es @ [e])"
    and ch: "entries.chained (sys_crypto P) (sys_hasher P) None (es @ [e])" and len: "length es < 2 ^ 63"
  shows "\<exists>t' i. AppendLeafHash (sys_lib P) (sys_hasher P) (leafStoreAdapter (sys_db P)) (ent_LeafHash e) t = Inr (t', i)
    \<and> leafStore t' = leafStore t \<and> rep (rng t') (map ent_LeafHash (es @ [e]))
    \<and> cache_inv (sys_lib P) (sys_hasher P) (map ent_LeafHash (es @ [e])) t'"
proof -
  have leaf: "st_GetLeafHash (sys_db P) (leafStore t) (of_nat i) = Inr (Some (ent_LeafHash ((es @ [e]) ! i)))"
    if "i < length (es @ [e])" for i
    using GetLeafHash_full [OF ok full that ch] .
  have inv: "tree_inv (sys_lib P) (sys_hasher P) rep (\<lambda>s i h. st_GetLeafHash (sys_db P) s i = Inr (Some h))
      (map ent_LeafHash es) t"
    using tree len leaf by (simp add: tree_inv_def store_inv_def nth_append)
  have held: "st_GetLeafHash (sys_db P) (PutLeafHash (leafStoreAdapter (sys_db P)) (leafStore t)
      (of_nat (length (map ent_LeafHash es))) (ent_LeafHash e)) (of_nat (length (map ent_LeafHash es)))
    = Inr (Some (ent_LeafHash e))"
    using leaf [of "length es"] by (simp add: adapter_put nth_append)
  have "length (map ent_LeafHash es) < 2 ^ 63" using len by simp
  from adapter.AppendLeafHash_inv [OF sys_okD(3) [OF ok] inv this held] show ?thesis
    using AppendLeafHash_store by (force simp: tree_inv_def)
qed

lemma AppendCtx_step:
  assumes "AppendCtx P now enow l (Some env) hp = (l', r)" "admit P now l env = None"
    and "CheckAndRecordEnvelope (sys_db P) (lg_store l) (env_Hash env) (Size (sys_lib P) (lg_tree l)) = (s1, None)"
    and "HeadHash (sys_db P) s1 = Inr head"
    and "AppendEntry (sys_db P) (sys_wire P) s1
      (ent_New (sys_hasher P) enow (Size (sys_lib P) (lg_tree l)) (prev_entry (Size (sys_lib P) (lg_tree l)) head) (Some env) hp) = (s2, a)"
  shows "a \<noteq> None \<Longrightarrow> l' = with_store l s2 \<and> r = Inl (CoStore (the a))"
    and "a = None \<Longrightarrow> AppendLeafHash (sys_lib P) (sys_hasher P) (leafStoreAdapter (sys_db P))
      (ent_LeafHash (ent_New (sys_hasher P) enow (Size (sys_lib P) (lg_tree l)) (prev_entry (Size (sys_lib P) (lg_tree l)) head) (Some env) hp))
      (lg_tree (with_store l s2)) = Inr (t, i) \<Longrightarrow>
      l' = (with_store l s2)\<lparr>lg_tree := t\<rparr>
      \<and> r = Inr (ent_New (sys_hasher P) enow (Size (sys_lib P) (lg_tree l)) (prev_entry (Size (sys_lib P) (lg_tree l)) head) (Some env) hp)"
  using assms by (auto simp: AppendCtx_def Let_def with_store_def)

lemma next_chained:
  assumes ch: "entries.chained C H None es" and "length es < 2 ^ 64"
    and e: "ent_Verify C H e = None" "ent_Index e = of_nat (length es)" "ent_PrevHash e = head_of es"
  shows "entries.chained C H None (es @ [e])"
proof (cases es rule: rev_cases)
  case Nil
  with e show ?thesis by (simp add: VerifyChain_None head_of_def)
next
  case (snoc ys y)
  have "ent_Index y = of_nat (length ys)" using entries.index_last [of C H ys y] ch snoc by simp
  with e snoc ch have "VerifyChain e (entries.last_of None es) = None"
    by (simp add: entries.last_of_def VerifyChain_Some head_of_def)
  with ch e show ?thesis by (simp add: entries.chained_snoc)
qed

lemma prev_entry_head:
  assumes "length es < 2 ^ 63"
  shows "ent_PrevHash (ent_New H now (of_nat (length es)) (prev_entry (of_nat (length es)) (head_of es)) env hp) = head_of es"
proof -
  have "(of_nat (length es) :: u64) = 0 \<longleftrightarrow> es = []"
    using of_nat_eq_u64 [of "length es" 0] assms by simp
  then show ?thesis by (simp add: prev_entry_def head_of_def)
qed

lemma admit_verifies: "admit P now l env = None \<Longrightarrow> env_Verify (sys_crypto P) env = None"
  by (auto simp: admit_def split: option.splits)

lemma HeadHash_log:
  assumes "sys_ok P view rep" "log_inv P view rep l es"
  shows "HeadHash (sys_db P) (lg_store l) = Inr (head_of es)"
  using reads_live(2) [OF sys_okD(2) [OF assms(1)]] log_inv_head [OF assms(2)] assms(2)
  by (auto simp: HeadHash_def log_inv_def)

lemma AppendCtx_recorded:
  assumes ok: "sys_ok P view rep" and inv: "log_inv P view rep (with_store l s1) es" and len: "length es < 2 ^ 63"
    and wires: "env_wires (sys_wire P) env" and env: "env_Verify (sys_crypto P) env = None"
    and replay: "keeps_replays s1 \<Longrightarrow> view (st_db s1) (replayKey (env_Hash env)) \<noteq> None"
    and e: "e = ent_New (sys_hasher P) enow (of_nat (length es)) (prev_entry (of_nat (length es)) (head_of es)) (Some env) hp"
    and app: "AppendEntry (sys_db P) (sys_wire P) s1 e = (s2, a)"
  shows "a \<noteq> None \<Longrightarrow> log_inv P view rep (with_store l s2) es"
    and "a = None \<Longrightarrow> \<exists>t i. AppendLeafHash (sys_lib P) (sys_hasher P) (leafStoreAdapter (sys_db P)) (ent_LeafHash e)
        (lg_tree (with_store l s2)) = Inr (t, i) \<and> log_inv P view rep ((with_store l s2)\<lparr>lg_tree := t\<rparr>) (es @ [e])"
proof -
  have log: "holds_log (sys_wire P) (view (st_db s1)) es" "mirror_full (view (st_db s1)) es"
    using inv by (simp_all add: log_inv_def)
  have "entry_wires (sys_wire P) e" using wires by (simp add: env_wires_def e)
  note step = AppendEntry_log [OF sys_okD(1) [OF ok] log(1) this _ app]
  have len': "Suc (length es) < 2 ^ 64" using len by simp
  show "log_inv P view rep (with_store l s2) es" if "a \<noteq> None"
  proof -
    have "log_inv P view rep (with_store (with_store l s1) s2) es"
      using step(2) [OF len' that] step(3) [OF len'] by (intro log_inv_store [OF inv]) simp_all
    then show ?thesis by (simp add: with_store_def)
  qed
  assume "a = None"
  with step(1) [OF len'] log(2) have s2: "holds_log (sys_wire P) (view (st_db s2)) (es @ [e])"
    "mirror_full (view (st_db s2)) (es @ [e])" "\<And>k. \<not> log_key k \<Longrightarrow> view (st_db s2) k = view (st_db s1) k"
    by auto
  have "ent_Verify (sys_crypto P) (sys_hasher P) e = None" "ent_Index e = of_nat (length es)" "ent_PrevHash e = head_of es"
    using ent_New_hashes [of "sys_hasher P" enow "of_nat (length es)"] env prev_entry_head [OF len]
    by (simp_all add: e ent_Verify_None)
  then have ch: "entries.chained (sys_crypto P) (sys_hasher P) None (es @ [e])"
    using inv len by (intro next_chained) (simp_all add: log_inv_def)
  have "rep (rng (lg_tree (with_store l s2))) (map ent_LeafHash es)"
    "cache_inv (sys_lib P) (sys_hasher P) (map ent_LeafHash es) (lg_tree (with_store l s2))"
    using inv by (simp_all add: log_inv_def)
  from tree_follows [OF ok this _ ch len] s2(2) obtain t i where
    t: "AppendLeafHash (sys_lib P) (sys_hasher P) (leafStoreAdapter (sys_db P)) (ent_LeafHash e)
        (lg_tree (with_store l s2)) = Inr (t, i)" "leafStore t = s2" "rep (rng t) (map ent_LeafHash (es @ [e]))"
    "cache_inv (sys_lib P) (sys_hasher P) (map ent_LeafHash (es @ [e])) t" by auto
  have "view (st_db s2) (replayKey (env_hash_of (ent_Envelope x))) \<noteq> None" if "keeps_replays s2" "x \<in> set (es @ [e])" for x
    using that inv replay s2(3) step(3) [OF len'] by (auto simp: log_inv_def e env_hash_of_def)
  with t s2 ch len show "\<exists>t i. AppendLeafHash (sys_lib P) (sys_hasher P) (leafStoreAdapter (sys_db P)) (ent_LeafHash e)
        (lg_tree (with_store l s2)) = Inr (t, i) \<and> log_inv P view rep ((with_store l s2)\<lparr>lg_tree := t\<rparr>) (es @ [e])"
    by (auto simp: log_inv_def)
qed

lemma CheckAndRecord_inv:
  assumes "badger_ok (sys_db P) view" "log_inv P view rep l es"
    and "CheckAndRecordEnvelope (sys_db P) (lg_store l) h i = (s', r)"
  shows "log_inv P view rep (with_store l s') es"
proof (rule log_inv_store [OF assms(2)])
  note c = CheckAndRecord_log [OF assms(1,3)]
  show "st_replayTTL s' = st_replayTTL (lg_store l)" by (rule c(5))
  show "view (st_db s') k = view (st_db (lg_store l)) k" if "log_key k" for k
    by (rule c(2)) (use that log_key_simps(7) in auto)
  show "view (st_db s') (replayKey h') \<noteq> None" if "keeps_replays s'" "view (st_db (lg_store l)) (replayKey h') \<noteq> None" for h'
    using that c(3,4,5) by (cases r) auto
qed

lemma AppendCtx_inv:
  assumes ok: "sys_ok P view rep" and inv: "log_inv P view rep l es" and len: "length es < 2 ^ 63"
    and wires: "env_wires (sys_wire P) env" and app: "AppendCtx P now enow l (Some env) hp = (l', r)"
  shows "(\<exists>e. r = Inr e \<and> log_inv P view rep l' (es @ [e])
      \<and> e = ent_New (sys_hasher P) enow (of_nat (length es)) (prev_entry (of_nat (length es)) (head_of es)) (Some env) hp
      \<and> admit P now l env = None \<and> view (st_db (lg_store l)) (replayKey (env_Hash env)) = None)
    \<or> (\<exists>err. r = Inl err \<and> log_inv P view rep l' es)"
proof (cases "admit P now l env")
  case (Some err)
  with app inv show ?thesis by (auto simp: AppendCtx_def)
next
  case None
  note sz = log_inv_Size [OF ok inv]
  obtain s1 a1 where rec: "CheckAndRecordEnvelope (sys_db P) (lg_store l) (env_Hash env) (of_nat (length es)) = (s1, a1)"
    by force
  note c = CheckAndRecord_log [OF sys_okD(1) [OF ok] rec]
  note inv1 = CheckAndRecord_inv [OF sys_okD(1) [OF ok] inv rec]
  show ?thesis
  proof (cases a1)
    case (Some err)
    with app None rec sz inv1 show ?thesis by (auto simp: AppendCtx_def Let_def)
  next
    case None': None
    let ?e = "ent_New (sys_hasher P) enow (of_nat (length es)) (prev_entry (of_nat (length es)) (head_of es)) (Some env) hp"
    have head: "HeadHash (sys_db P) s1 = Inr (head_of es)" using HeadHash_log [OF ok inv1] by simp
    obtain s2 a where ap: "AppendEntry (sys_db P) (sys_wire P) s1 ?e = (s2, a)" by force
    note st = AppendCtx_step [OF app None, unfolded sz, OF rec [unfolded None'] head ap]
    have replay: "view (st_db s1) (replayKey (env_Hash env)) \<noteq> None" if "keeps_replays s1" using c(3,5) None' that by simp
    note rr = AppendCtx_recorded [OF ok inv1 len wires admit_verifies [OF None] replay refl ap]
    show ?thesis
    proof (cases a)
      case None'': None
      with rr(2) obtain t i where "AppendLeafHash (sys_lib P) (sys_hasher P) (leafStoreAdapter (sys_db P))
          (ent_LeafHash ?e) (lg_tree (with_store l s2)) = Inr (t, i)"
        "log_inv P view rep ((with_store l s2)\<lparr>lg_tree := t\<rparr>) (es @ [?e])" by blast
      with st(2) [OF None''] None c(1) [OF None'] show ?thesis by simp
    next
      case (Some err)
      with st(1) rr(1) show ?thesis by simp
    qed
  qed
qed

subsection \<open>The other operations leave the log alone\<close>

text \<open>A change of the store that touches neither the log nor the replay table.\<close>

definition side_write :: "('d \<Rightarrow> bytes \<rightharpoonup> bytes) \<Rightarrow> 'd Store \<Rightarrow> 'd Store \<Rightarrow> bool" where
  "side_write view s s' \<longleftrightarrow> st_replayTTL s' = st_replayTTL s
     \<and> (\<forall>k. log_key k \<or> has_prefix prefixReplay k \<longrightarrow> view (st_db s') k = view (st_db s) k)"

lemma side_refl [simp]: "side_write view s s"
  by (simp add: side_write_def)

lemma side_trans: "side_write view s s' \<Longrightarrow> side_write view s' s'' \<Longrightarrow> side_write view s s''"
  by (simp add: side_write_def)

lemma commit_side:
  assumes "badger_ok B view" "\<not> log_key k" "\<not> has_prefix prefixReplay k"
  shows "side_write view s (fst (commit B s [WSet k v]))"
proof -
  obtain s' r where c: "commit B s [WSet k v] = (s', r)" by force
  have "view (st_db s') k' = view (st_db s) k'" if "log_key k' \<or> has_prefix prefixReplay k'" for k'
  proof -
    have "k' \<noteq> k" using that assms(2,3) by auto
    then show ?thesis using commit_other [OF assms(1) c, of k'] by simp
  qed
  with commit_ok(2) [OF assms(1) _ c] show ?thesis by (simp add: side_write_def c)
qed

lemma side_keys [simp]:
  "\<not> has_prefix prefixReplay (checkpointKey n)" "\<not> has_prefix prefixReplay (anchorKey n)"
  "\<not> has_prefix prefixReplay (producerKey i)" "\<not> has_prefix prefixReplay (witnessKey i)"
  "has_prefix prefixReplay (replayKey h)"
  by (simp_all add: key_defs)

lemma side_ops:
  assumes "badger_ok B view"
  shows "side_write view s (fst (RegisterProducer B W now s po))"
    and "side_write view s (fst (RevokeProducer B W now s i reason))"
    and "side_write view s (fst (RegisterWitness B W s wo))"
    and "side_write view s (fst (SaveCheckpoint B s n body))"
    and "side_write view s (fst (SaveAnchor B s n body))"
  using commit_side [OF assms, of _ s]
  by (auto simp: RegisterProducer_def RevokeProducer_def RegisterWitness_def SaveCheckpoint_def SaveAnchor_def
      Let_def split: option.splits sum.splits prod.splits) (metis fst_conv log_key_simps(8) side_keys(3))+

lemma anchor_sinks_side:
  assumes "badger_ok (sys_db P) view"
  shows "side_write view s (fst (anchor_sinks P c sinks s results errs))"
proof (induction sinks arbitrary: s results errs)
  case (Cons sink sinks)
  obtain name publish where sink: "sink = (name, publish)" by force
  show ?case
  proof (cases "publish c")
    case (Inr r)
    have "side_write view s (case sys_wire_record P r of None \<Rightarrow> s | Some body \<Rightarrow> fst (SaveAnchor (sys_db P) s (cp_Size c) body))"
      using side_ops(5) [OF assms] by (simp split: option.splits)
    from side_trans [OF this Cons.IH] show ?thesis by (simp add: sink Inr)
  qed (use Cons.IH in \<open>simp add: sink\<close>)
qed simp

lemma log_inv_side:
  "log_inv P view rep l es \<Longrightarrow> side_write view (lg_store l) s \<Longrightarrow> log_inv P view rep (with_store l s) es"
  by (rule log_inv_store) (auto simp: side_write_def log_inv_def)

lemma log_inv_fields [simp]:
  "log_inv P view rep (l\<lparr>lg_pending := p\<rparr>) es = log_inv P view rep l es"
  "log_inv P view rep (l\<lparr>lg_signer := sg\<rparr>) es = log_inv P view rep l es"
  by (simp_all add: log_inv_def)

text \<open>Proofs read the store and never write it.\<close>

lemma nodeHash_store: "nodeHash (leafStoreAdapter B) nid t = (t', r) \<Longrightarrow> leafStore t' = leafStore t"
  by (auto simp: nodeHash_def putLeaf_def adapter_put split: if_splits option.splits prod.splits sum.splits)

lemma subRoot_store:
  assumes "subRoot H (leafStoreAdapter B) t b e = Some y"
  shows "leafStore (fst y) = leafStore t"
proof -
  have "leafStoreAdapter B = leafStoreAdapter B \<longrightarrow> leafStore (fst y) = leafStore t"
  proof (rule subRoot.raw_induct
      [where P = "\<lambda>H S t b e y. S = leafStoreAdapter B \<longrightarrow> leafStore (fst y) = leafStore t", OF _ assms], rule impI, goal_cases)
    case (1 sub H S t b e y)
    note S = 1(3)
    note step = 1(2)
    show "leafStore (fst y) = leafStore t"
    proof (cases "b + 1 = e")
      case True
      then show ?thesis using step nodeHash_store [of B "\<lparr>Level = 0, Index = b\<rparr>" t]
        by (auto simp: S split: prod.splits sum.splits option.splits)
    next
      case False
      with step obtain k t1 l where k: "split_loop (e - b) 1 = Some k" "sub H S t b (b + k) = Some (t1, l)"
        by (auto simp: Option.bind_eq_Some_conv)
      have t1: "leafStore t1 = leafStore t" using 1(1) [OF k(2)] S by simp
      show ?thesis
      proof (cases l)
        case (Inl err)
        with False step k t1 show ?thesis by auto
      next
        case (Inr left)
        with False step k have "Option.bind (sub H S t1 (b + k) e) (\<lambda>(t, r).
            case r of Inl err \<Rightarrow> Some (t, Inl err) | Inr right \<Rightarrow> Some (t, Inr (HashChildren H left right))) = Some y"
          by simp
        then obtain t2 r where r: "sub H S t1 (b + k) e = Some (t2, r)"
          and y: "(case r of Inl err \<Rightarrow> Some (t2, Inl err) | Inr right \<Rightarrow> Some (t2, Inr (HashChildren H left right))) = Some y"
          by (auto simp: Option.bind_eq_Some_conv)
        then have "fst y = t2" by (cases r) auto
        with 1(1) [OF r] S t1 show ?thesis by simp
      qed
    qed
  qed
  then show ?thesis by simp
qed

lemma computeNode_store:
  "computeNode L H (leafStoreAdapter B) nid t = Some (t', r) \<Longrightarrow> leafStore t' = leafStore t"
  using subRoot_store [of H B t] by (fastforce simp: computeNode_def Let_def split: prod.split_asm if_split_asm)

lemma materialise_ids_store:
  "materialise_ids L H (leafStoreAdapter B) ids t = Some (t', r) \<Longrightarrow> leafStore t' = leafStore t"
proof (induction ids arbitrary: t t' r)
  case (Cons nid ids)
  obtain t1 x where n: "nodeHash (leafStoreAdapter B) nid t = (t1, x)" by force
  have t1: "leafStore t1 = leafStore t" by (rule nodeHash_store [OF n])
  obtain t2 y where y: "leafStore t2 = leafStore t1"
    "(case y of Inl err \<Rightarrow> Some (t2, Inl err) | Inr h \<Rightarrow>
        Option.bind (materialise_ids L H (leafStoreAdapter B) ids t2) (\<lambda>(t, rs).
          Some (t, case rs of Inl err \<Rightarrow> Inl err | Inr hs \<Rightarrow> Inr (h # hs)))) = Some (t', r)"
  proof -
    show ?thesis
    proof (cases x)
      case (Inl err)
      with Cons.prems n that [of t1 "Inl err"] show ?thesis by simp
    next
      case (Inr ho)
      show ?thesis
      proof (cases ho)
        case (Some h)
        with Inr Cons.prems n that [of t1 "Inr h"] show ?thesis by simp
      next
        case None
        with Inr Cons.prems n obtain t2 z where z: "computeNode L H (leafStoreAdapter B) nid t1 = Some (t2, z)"
          by (auto simp: Option.bind_eq_Some_conv)
        with None Inr Cons.prems n computeNode_store [OF z]
          that [of t2 "case z of Inl err \<Rightarrow> Inl (MkMaterialise nid err) | Inr h \<Rightarrow> Inr h"]
        show ?thesis by (cases z) simp_all
      qed
    qed
  qed
  with t1 Cons.IH [of t2] show ?case
    by (cases y) (auto simp: Option.bind_eq_Some_conv)
qed simp

lemma proofs_store:
  "InclusionProof L H (leafStoreAdapter B) i n t = Some (t', r) \<Longrightarrow> leafStore t' = leafStore t"
  "ConsistencyProof L H (leafStoreAdapter B) m n t = Some (t', r) \<Longrightarrow> leafStore t' = leafStore t"
  using materialise_ids_store [of L H B _ t]
  by (fastforce simp: InclusionProof_def ConsistencyProof_def materialise_def Option.bind_eq_Some_conv
      split: if_split_asm option.split_asm)+

lemma tree_inv_log_inv:
  assumes "log_inv P view rep l es" "leafStore t = lg_store l"
    and "tree_inv (sys_lib P) (sys_hasher P) rep holds (map ent_LeafHash es) t"
  shows "log_inv P view rep (l\<lparr>lg_tree := t\<rparr>) es"
  using assms by (simp add: log_inv_def tree_inv_def)

lemma core_proofs_inv:
  assumes "sys_ok P view rep" "log_inv P view rep l es"
  shows "\<exists>l'. core_InclusionProof P l idx n = Some (l', inclusion_spec (sys_lib P) (sys_hasher P) (map ent_LeafHash es) idx n)
      \<and> log_inv P view rep l' es"
    and "\<exists>l'. core_ConsistencyProof P l m n = Some (l', consistency_spec (sys_lib P) (sys_hasher P) (map ent_LeafHash es) m n)
      \<and> log_inv P view rep l' es"
proof -
  note t = log_inv_tree [OF assms]
  obtain t1 where t1: "InclusionProof (sys_lib P) (sys_hasher P) (leafStoreAdapter (sys_db P)) idx n (lg_tree l)
      = Some (t1, inclusion_spec (sys_lib P) (sys_hasher P) (map ent_LeafHash es) idx n)"
    "tree_inv (sys_lib P) (sys_hasher P) rep (\<lambda>s i h. st_GetLeafHash (sys_db P) s i = Inr (Some h)) (map ent_LeafHash es) t1"
    using adapter.InclusionProof_inv [OF sys_okD(3,4) [OF assms(1)] t] by blast
  from tree_inv_log_inv [OF assms(2) proofs_store(1) [OF t1(1)] t1(2)] t1(1)
  show "\<exists>l'. core_InclusionProof P l idx n = Some (l', inclusion_spec (sys_lib P) (sys_hasher P) (map ent_LeafHash es) idx n)
      \<and> log_inv P view rep l' es" by (simp add: core_InclusionProof_def)
  obtain t2 where t2: "ConsistencyProof (sys_lib P) (sys_hasher P) (leafStoreAdapter (sys_db P)) m n (lg_tree l)
      = Some (t2, consistency_spec (sys_lib P) (sys_hasher P) (map ent_LeafHash es) m n)"
    "tree_inv (sys_lib P) (sys_hasher P) rep (\<lambda>s i h. st_GetLeafHash (sys_db P) s i = Inr (Some h)) (map ent_LeafHash es) t2"
    using adapter.ConsistencyProof_inv [OF sys_okD(3,4) [OF assms(1)] t] by blast
  from tree_inv_log_inv [OF assms(2) proofs_store(2) [OF t2(1)] t2(2)] t2(1)
  show "\<exists>l'. core_ConsistencyProof P l m n = Some (l', consistency_spec (sys_lib P) (sys_hasher P) (map ent_LeafHash es) m n)
      \<and> log_inv P view rep l' es" by (simp add: core_ConsistencyProof_def)
qed

end
