(* ===== verification/Lifecycle.thy ===== *)
theory Lifecycle
  imports Core
begin

text \<open>
  The life of a log instance: starting on a database (\<open>core.New\<close> and its replay), any sequence
  of operations, and starting again.  The theorems of package \<open>core\<close> that concern more than one
  operation are here.
\<close>

section \<open>Replay\<close>

text \<open>
  The state of a replay after the entries \<open>xs\<close>, over a database that holds \<open>es\<close>: the leaf
  mirror is complete up to there and the tree stands for the leaf hashes of \<open>xs\<close>.
\<close>

definition replay_inv ::
    "('d, 'r, 'n, 'w, 'k) sys \<Rightarrow> ('d \<Rightarrow> bytes \<rightharpoonup> bytes) \<Rightarrow> ('r \<Rightarrow> bytes list \<Rightarrow> bool) \<Rightarrow> Entry list
      \<Rightarrow> ('d, 'r, 'k) Log \<Rightarrow> ('d, 'r, 'k) Log \<Rightarrow> Entry list \<Rightarrow> bool" where
  "replay_inv P view rep es l0 l xs \<longleftrightarrow>
     holds_log (sys_wire P) (view (st_db (lg_store l))) es \<and> mirror_full (view (st_db (lg_store l))) xs
     \<and> rep (rng (lg_tree l)) (map ent_LeafHash xs)
     \<and> cache_inv (sys_lib P) (sys_hasher P) (map ent_LeafHash xs) (lg_tree l)
     \<and> st_replayTTL (lg_store l) = st_replayTTL (lg_store l0)
     \<and> (\<forall>k. \<not> log_key k \<longrightarrow> view (st_db (lg_store l)) k = view (st_db (lg_store l0)) k)
     \<and> (mirror_full (view (st_db (lg_store l0))) es \<longrightarrow> lg_store l = lg_store l0)
     \<and> lg_signer l = lg_signer l0 \<and> lg_requireEnrollment l = lg_requireEnrollment l0 \<and> lg_pending l = lg_pending l0"

lemma with_store_same [simp]: "with_store l (lg_store l) = l"
  by (simp add: with_store_def)

lemma holds_log_leaf:
  assumes "holds_log W m es" "i < length es"
  shows "holds_log W (m(leafKey (of_nat i) \<mapsto> ent_LeafHash (es ! i))) es"
proof -
  let ?m = "m(leafKey (of_nat i) \<mapsto> ent_LeafHash (es ! i))"
  note l = assms(1) [unfolded holds_log_def]
  have "length es < 2 ^ 64" using l by blast
  then have inj: "j = i" if "(of_nat j :: u64) = of_nat i" "j < length es" for j
    using that assms(2) by (simp add: of_nat_eq_u64)
  have entry: "?m k = m k" if "has_prefix prefixEntry k" for k
    using that by auto
  have "\<forall>k\<in>dom ?m. has_prefix prefixEntry k \<longrightarrow> (\<exists>i<length es. k = entryKey (of_nat i))"
    using l entry by (metis domIff)
  moreover have "\<forall>j<length es. \<forall>h. ?m (leafKey (of_nat j)) = Some h \<longrightarrow> h = ent_LeafHash (es ! j)"
  proof (intro allI impI)
    fix j h assume j: "j < length es" "?m (leafKey (of_nat j)) = Some h"
    show "h = ent_LeafHash (es ! j)"
    proof (cases "(of_nat j :: u64) = of_nat i")
      case True
      with inj [OF True j(1)] j(2) show ?thesis by simp
    next
      case False
      then have "m (leafKey (of_nat j)) = Some h" using j(2) by simp
      with l j(1) show ?thesis by blast
    qed
  qed
  moreover have "?m keyMetaSize = m keyMetaSize" "?m keyMetaHead = m keyMetaHead" "\<And>j. ?m (entryKey j) = m (entryKey j)"
    by simp_all
  ultimately show ?thesis using l unfolding holds_log_def by (simp only:) blast
qed

text \<open>The backfill of one leaf.\<close>

lemma backfill:
  assumes ok: "sys_ok P view rep" and log: "holds_log (sys_wire P) (view (st_db s)) es" and i: "i < length es"
    and leaf: "ent_LeafHash (es ! i) \<noteq> []" and full: "mirror_full (view (st_db s)) (take i es)"
    and live: "mirror_full (view (st_db s)) es \<or> badger_commits (sys_db P)"
  obtains found s' where "st_GetLeafHash (sys_db P) s (of_nat i) = Inr found"
    "(if found = None then st_PutLeafHash (sys_db P) s (of_nat i) (ent_LeafHash (es ! i)) else (s, None)) = (s', None)"
    "holds_log (sys_wire P) (view (st_db s')) es" "mirror_full (view (st_db s')) (take (Suc i) es)"
    "st_replayTTL s' = st_replayTTL s" "\<And>k. \<not> log_key k \<Longrightarrow> view (st_db s') k = view (st_db s) k"
    "mirror_full (view (st_db s)) es \<Longrightarrow> s' = s"
proof (cases "view (st_db s) (leafKey (of_nat i))")
  case (Some h)
  then have h: "h = ent_LeafHash (es ! i)" using log i by (auto simp: holds_log_def)
  have "st_GetLeafHash (sys_db P) s (of_nat i) = Inr (Some h)"
    using fetch_live [OF sys_okD(2) [OF ok]] Some h leaf by (simp add: st_GetLeafHash_def)
  moreover have "mirror_full (view (st_db s)) (take (Suc i) es)"
    using full Some h i by (auto simp: mirror_full_def less_Suc_eq)
  ultimately show ?thesis using log by (intro that [of "Some h" s]) simp_all
next
  case None
  have get: "st_GetLeafHash (sys_db P) s (of_nat i) = Inr None"
    using fetch_live [OF sys_okD(2) [OF ok]] None by (simp add: st_GetLeafHash_def)
  have nf: "\<not> mirror_full (view (st_db s)) es" using None i by (auto simp: mirror_full_def)
  with live have com: "badger_commits (sys_db P)" by simp
  obtain s' r where p': "st_PutLeafHash (sys_db P) s (of_nat i) (ent_LeafHash (es ! i)) = (s', r)" by force
  moreover from this have "r = None"
    using commit_live [OF com, of s "[WSet (leafKey (of_nat i)) (ent_LeafHash (es ! i))]"] by (simp add: st_PutLeafHash_def)
  ultimately have p: "st_PutLeafHash (sys_db P) s (of_nat i) (ent_LeafHash (es ! i)) = (s', None)" by simp
  then have c: "commit (sys_db P) s [WSet (leafKey (of_nat i)) (ent_LeafHash (es ! i))] = (s', None)"
    by (simp add: st_PutLeafHash_def)
  have v: "view (st_db s') = (view (st_db s))(leafKey (of_nat i) \<mapsto> ent_LeafHash (es ! i))" "st_replayTTL s' = st_replayTTL s"
    using commit_ok [OF sys_okD(1) [OF ok] _ c] by simp_all
  have "(of_nat j :: u64) \<noteq> of_nat i" if "j < i" for j
    using of_nat_eq_u64 [of j i] that i log by (simp add: holds_log_def)
  then have "mirror_full (view (st_db s')) (take (Suc i) es)"
    using full i by (auto simp: mirror_full_def v(1) less_Suc_eq)
  moreover have "view (st_db s') k = view (st_db s) k" if "\<not> log_key k" for k
  proof -
    have "k \<noteq> leafKey (of_nat i)" using that by auto
    then show ?thesis by (simp add: v(1))
  qed
  ultimately show ?thesis
    using get p v(2) holds_log_leaf [OF log i, folded v(1)] nf by (intro that [of None s']) simp_all
qed

lemma replay_step:
  assumes ok: "sys_ok P view rep" and ch: "entries.chained (sys_crypto P) (sys_hasher P) None es"
    and i: "i < length es" and len: "length es \<le> 2 ^ 63"
    and inv: "replay_inv P view rep es l0 l (take i es)"
    and live: "mirror_full (view (st_db (lg_store l0))) es \<or> badger_commits (sys_db P)"
  shows "\<exists>l'. replay_entry P (l, entries.last_of None (take i es), n) (es ! i) = ((l', Some (es ! i), n + 1), None)
    \<and> replay_inv P view rep es l0 l' (take (Suc i) es)"
proof -
  let ?e = "es ! i"
  have take: "take (Suc i) es = take i es @ [?e]" using i by (simp add: take_Suc_conv_app_nth)
  have ch': "entries.chained (sys_crypto P) (sys_hasher P) None (take i es @ [?e])"
  proof -
    have "entries.chained (sys_crypto P) (sys_hasher P) None (take (Suc i) es @ drop (Suc i) es)" using ch by simp
    then show ?thesis unfolding entries.chained_append take by simp
  qed
  then have e: "ent_Verify (sys_crypto P) (sys_hasher P) ?e = None"
    "VerifyChain ?e (entries.last_of None (take i es)) = None" "ent_Index ?e = of_nat i"
    using entries.index_nth [OF ch i] by (simp_all add: entries.chained_snoc)
  have "length (ent_LeafHash ?e) = 32" using e(1) sys_okD(5) [OF ok] by (simp add: ent_Verify_None)
  then have leaf: "ent_LeafHash ?e \<noteq> []" by auto
  have st: "holds_log (sys_wire P) (view (st_db (lg_store l))) es" "mirror_full (view (st_db (lg_store l))) (take i es)"
    "mirror_full (view (st_db (lg_store l))) es \<or> badger_commits (sys_db P)"
    using inv live by (auto simp: replay_inv_def)
  obtain found s' where f: "st_GetLeafHash (sys_db P) (lg_store l) (of_nat i) = Inr found"
    "(if found = None then st_PutLeafHash (sys_db P) (lg_store l) (of_nat i) (ent_LeafHash ?e) else (lg_store l, None)) = (s', None)"
    "holds_log (sys_wire P) (view (st_db s')) es" "mirror_full (view (st_db s')) (take (Suc i) es)"
    "st_replayTTL s' = st_replayTTL (lg_store l)" "\<And>k. \<not> log_key k \<Longrightarrow> view (st_db s') k = view (st_db (lg_store l)) k"
    "mirror_full (view (st_db (lg_store l))) es \<Longrightarrow> s' = lg_store l"
    using backfill [OF ok st(1) i leaf st(2,3)] by blast
  have tree: "rep (rng (lg_tree (with_store l s'))) (map ent_LeafHash (take i es))"
    "cache_inv (sys_lib P) (sys_hasher P) (map ent_LeafHash (take i es)) (lg_tree (with_store l s'))"
    using inv by (simp_all add: replay_inv_def)
  have full: "mirror_full (view (st_db (lg_store (with_store l s')))) (take i es @ [?e])" using f(4) by (simp add: take)
  have "length (take i es) < 2 ^ 63" using i len by simp
  from tree_follows [OF ok tree full ch' this] obtain t j where
    t: "AppendLeafHash (sys_lib P) (sys_hasher P) (leafStoreAdapter (sys_db P)) (ent_LeafHash ?e) (lg_tree (with_store l s')) = Inr (t, j)"
    "leafStore t = s'" "rep (rng t) (map ent_LeafHash (take i es @ [?e]))"
    "cache_inv (sys_lib P) (sys_hasher P) (map ent_LeafHash (take i es @ [?e])) t" by auto
  have "replay_entry P (l, entries.last_of None (take i es), n) ?e = (((with_store l s')\<lparr>lg_tree := t\<rparr>, Some ?e, n + 1), None)"
    using e f(1,2) t(1) by (cases found) (simp_all add: replay_entry_def Let_def)
  moreover have "replay_inv P view rep es l0 ((with_store l s')\<lparr>lg_tree := t\<rparr>) (take (Suc i) es)"
    using inv f t by (auto simp: replay_inv_def take)
  ultimately show ?thesis by blast
qed

lemma replay_fold:
  assumes ok: "sys_ok P view rep" and ch: "entries.chained (sys_crypto P) (sys_hasher P) None es"
    and len: "length es \<le> 2 ^ 63"
    and live: "mirror_full (view (st_db (lg_store l0))) es \<or> badger_commits (sys_db P)"
  shows "i \<le> length es \<Longrightarrow> replay_inv P view rep es l0 l (take i es) \<Longrightarrow>
    \<exists>l'. fold_until (replay_entry P) (drop i es) (l, entries.last_of None (take i es), i)
      = ((l', entries.last_of None es, length es), None) \<and> replay_inv P view rep es l0 l' es"
proof (induction "length es - i" arbitrary: i l)
  case 0
  then show ?case by auto
next
  case (Suc d)
  then have i: "i < length es" by simp
  from replay_step [OF ok ch i len Suc.prems(2) live, of i] obtain l' where
    l': "replay_entry P (l, entries.last_of None (take i es), i) (es ! i) = ((l', Some (es ! i), i + 1), None)"
    "replay_inv P view rep es l0 l' (take (Suc i) es)" by blast
  have "Some (es ! i) = entries.last_of None (take (Suc i) es)"
    using i by (simp add: take_Suc_conv_app_nth entries.last_of_def)
  with l' Suc.hyps(1) [of "Suc i" l'] Suc.hyps(2) i show ?case
    by (simp add: Cons_nth_drop_Suc [symmetric])
qed

definition env_replayed :: "(bytes \<rightharpoonup> bytes) \<Rightarrow> Entry list \<Rightarrow> bool" where
  "env_replayed m es \<longleftrightarrow> (\<forall>e\<in>set es. m (replayKey (env_hash_of (ent_Envelope e))) \<noteq> None)"

lemma core_New_reopens:
  fixes P :: "('d, 'r, 'n, 'w, 'k) sys"
  assumes ok: "sys_ok P view rep" and log: "holds_log (sys_wire P) (view (st_db s)) es"
    and ch: "entries.chained (sys_crypto P) (sys_hasher P) None es" and len: "length es \<le> 2 ^ 63"
    and rp: "keeps_replays s \<Longrightarrow> env_replayed (view (st_db s)) es"
    and live: "mirror_full (view (st_db s)) es \<or> badger_commits (sys_db P)" and nc: "\<And>i. \<not> cancelled i"
    and opts: "opt_Store opts = Some s" "opt_Signer opts = Some sg"
  shows "\<exists>l. core_New P cancelled opts = Inr l \<and> log_inv P view rep l es \<and> lg_signer l = sg
    \<and> lg_requireEnrollment l = opt_RequireEnrollment opts \<and> lg_pending l = Map.empty
    \<and> (\<forall>k. \<not> log_key k \<longrightarrow> view (st_db (lg_store l)) k = view (st_db s) k)
    \<and> (mirror_full (view (st_db s)) es \<longrightarrow> lg_store l = s)"
proof -
  define l0 :: "('d, 'r, 'k) Log" where
    "l0 = \<lparr>lg_tree = NewBoundedTreeWithStore (sys_lib P) (opt_MerkleCacheNodes opts) (opt_MerkleLeafCacheNodes opts) s,
       lg_signer = sg, lg_requireEnrollment = opt_RequireEnrollment opts, lg_pending = Map.empty\<rparr>"
  have l0: "lg_store l0 = s" "lg_signer l0 = sg" "lg_requireEnrollment l0 = opt_RequireEnrollment opts" "lg_pending l0 = Map.empty"
    by (simp_all add: l0_def NewBoundedTreeWithStore_def)
  have "tree_inv (sys_lib P) (sys_hasher P) rep (\<lambda>_ _ _. True) [] (lg_tree l0)"
    using NewTree_inv [OF sys_okD(3) [OF ok]] by (simp add: l0_def)
  then have "replay_inv P view rep es l0 l0 (take 0 es)"
    using log by (simp add: replay_inv_def tree_inv_def l0 mirror_full_def)
  from replay_fold [OF ok ch len _ _ this] live l0(1) obtain l where
    f: "fold_until (replay_entry P) (drop 0 es) (l0, entries.last_of None (take 0 es), 0)
      = ((l, entries.last_of None es, length es), None)" and inv: "replay_inv P view rep es l0 l es" by auto
  have "bdg_Value (sys_db P) (st_db s) k = view (st_db s) k" for k
    using sys_okD(2) [OF ok] by (simp add: badger_reads_def)
  from IterateEntries_log [OF sys_okD(1) [OF ok] log this nc, where fn = "replay_entry P" and acc = "(l0, None, 0)"] f
  have it: "IterateEntries (sys_db P) (sys_wire P) cancelled (lg_store l0) 0 (replay_entry P) (l0, None, 0)
      = ((l, entries.last_of None es, length es), None)"
    by (simp add: l0 entries.last_of_def)
  have li: "log_inv P view rep l es"
    using inv ch len rp by (auto simp: log_inv_def replay_inv_def env_replayed_def l0)
  have "replay P cancelled l0 = (l, None)"
    by (simp add: replay_def it log_inv_Size [OF ok li])
  then have "core_New P cancelled opts = Inr l"
    by (simp add: core_New_def opts l0_def)
  with li inv show ?thesis by (auto simp: replay_inv_def l0)
qed

subsection \<open>Whatever the database contains\<close>

lemma AppendLeafHash_rep:
  assumes "tdlib_ok L H rep" "rep (rng t) ls" "length ls < 2 ^ 63" "AppendLeafHash L H S h t = Inr (t', i)"
  shows "rep (rng t') (ls @ [h])"
proof -
  obtain r vs where r: "lib_Append L H (rng t) h = Some (r, vs)" "rep r (ls @ [h])"
    using assms(1-3) unfolding tdlib_ok_def by meson
  have "rng (putNode S \<lparr>Level = 0, Index = lib_End L (rng t)\<rparr> h t) = rng t" by simp
  with assms(4) r show ?thesis by (auto simp: AppendLeafHash_def Let_def)
qed

lemma replay_entry_sound:
  assumes "tdlib_ok (sys_lib P) (sys_hasher P) rep" "rep (rng (lg_tree l)) ls" "length ls < 2 ^ 63"
    and "replay_entry P (l, prev, n) e = (st, None)"
  obtains l' where "st = (l', Some e, n + 1)" "rep (rng (lg_tree l')) (ls @ [ent_LeafHash e])"
    "ent_Verify (sys_crypto P) (sys_hasher P) e = None" "VerifyChain e prev = None"
proof -
  obtain s t i where v: "ent_Verify (sys_crypto P) (sys_hasher P) e = None" "VerifyChain e prev = None"
    and a: "AppendLeafHash (sys_lib P) (sys_hasher P) (leafStoreAdapter (sys_db P)) (ent_LeafHash e) (lg_tree (with_store l s)) = Inr (t, i)"
    and st: "st = ((with_store l s)\<lparr>lg_tree := t\<rparr>, Some e, n + 1)"
    using assms(4)
    by (auto simp: replay_entry_def Let_def split: option.split_asm sum.split_asm prod.split_asm if_split_asm)
  have "rep (rng t) (ls @ [ent_LeafHash e])"
    by (rule AppendLeafHash_rep [OF assms(1) _ assms(3) a]) (simp add: assms(2))
  with that v st show ?thesis by simp
qed

lemma iterate_sound:
  assumes lib: "tdlib_ok (sys_lib P) (sys_hasher P) rep"
  shows "rep (rng (lg_tree l)) ls \<Longrightarrow> length ls + length ks \<le> 2 ^ 63 \<Longrightarrow>
    iterate_entries B W d cancelled (replay_entry P) ks i (l, prev, n) = ((l', prev', n'), None) \<Longrightarrow>
    \<exists>xs. entries.chained (sys_crypto P) (sys_hasher P) prev xs \<and> rep (rng (lg_tree l')) (ls @ map ent_LeafHash xs)
      \<and> n' = n + length xs \<and> length xs \<le> length ks"
proof (induction ks arbitrary: l ls prev n i)
  case Nil
  then show ?case by (auto intro: exI [of _ "[]"])
next
  case (Cons k ks)
  show ?case
  proof (cases "has_prefix prefixEntry k")
    case False
    with Cons.prems show ?thesis by (auto intro: exI [of _ "[]"])
  next
    case True
    with Cons.prems(3) obtain e st where e: "replay_entry P (l, prev, n) e = (st, None)"
      and rest: "iterate_entries B W d cancelled (replay_entry P) ks (i + 1) st = ((l', prev', n'), None)"
      by (auto split: if_split_asm option.split_asm sum.split_asm prod.split_asm)
    obtain l1 where st: "st = (l1, Some e, n + 1)" "rep (rng (lg_tree l1)) (ls @ [ent_LeafHash e])"
      "ent_Verify (sys_crypto P) (sys_hasher P) e = None" "VerifyChain e prev = None"
      by (rule replay_entry_sound [OF lib Cons.prems(1) _ e]) (use Cons.prems(2) in simp)
    from Cons.IH [OF st(2) _ rest [unfolded st(1)]] Cons.prems(2) obtain xs where
      "entries.chained (sys_crypto P) (sys_hasher P) (Some e) xs"
      "rep (rng (lg_tree l')) ((ls @ [ent_LeafHash e]) @ map ent_LeafHash xs)"
      "n' = n + 1 + length xs" "length xs \<le> length ks" by auto
    with st(3,4) show ?thesis by (intro exI [of _ "e # xs"]) simp
  qed
qed

lemma replay_iterates:
  assumes "replay P cancelled l0 = (l, None)"
  obtains p n where
    "IterateEntries (sys_db P) (sys_wire P) cancelled (lg_store l0) 0 (replay_entry P) (l0, None, 0) = ((l, p, n), None)"
proof -
  obtain st r where i': "IterateEntries (sys_db P) (sys_wire P) cancelled (lg_store l0) 0 (replay_entry P) (l0, None, 0) = (st, r)"
    by (metis surj_pair)
  moreover obtain l1 p n where st: "st = (l1, p, n)" by (metis prod_cases3)
  ultimately have i: "IterateEntries (sys_db P) (sys_wire P) cancelled (lg_store l0) 0 (replay_entry P) (l0, None, 0) = ((l1, p, n), r)"
    by simp
  with assms have "r = None \<and> l1 = l"
    by (cases r) (auto simp: replay_def split: sum.split_asm if_split_asm)
  with i that show ?thesis by blast
qed

lemma core_New_replay:
  assumes "core_New P cancelled opts = Inr l"
  obtains l0 where "rng (lg_tree l0) = lib_NewEmptyRange (sys_lib P)" "replay P cancelled l0 = (l, None)"
    "opt_Store opts = Some (lg_store l0)"
proof -
  obtain s sg where o: "opt_Store opts = Some s" "opt_Signer opts = Some sg"
    using assms by (auto simp: core_New_def split: option.split_asm)
  define l0 where "l0 = \<lparr>lg_tree = NewBoundedTreeWithStore (sys_lib P) (opt_MerkleCacheNodes opts) (opt_MerkleLeafCacheNodes opts) s,
       lg_signer = sg, lg_requireEnrollment = opt_RequireEnrollment opts, lg_pending = Map.empty\<rparr>"
  have "replay P cancelled l0 = (l, None)"
    using assms by (auto simp: core_New_def o l0_def [symmetric] Let_def split: prod.split_asm option.split_asm)
  moreover have "rng (lg_tree l0) = lib_NewEmptyRange (sys_lib P)" "lg_store l0 = s"
    by (simp_all add: l0_def NewBoundedTreeWithStore_def)
  ultimately show ?thesis using that o(1) by simp
qed

lemma tdlib_root:
  "tdlib_ok L H rep \<Longrightarrow> rep r ls \<Longrightarrow> ls \<noteq> [] \<Longrightarrow> length ls \<le> 2 ^ 63 \<Longrightarrow> lib_GetRootHash L H r = Some (MTH H ls)"
  unfolding tdlib_ok_def by blast

section \<open>Any sequence of operations\<close>

text \<open>
  One operation of a running instance, with the entries of the log before and after.  Every
  public operation of \<open>core.Log\<close> that can change its state is a rule; \<open>restart\<close> is a new
  instance on the same database, and \<open>expire\<close> is the database dropping replay records of a store that
  was opened with a replay TTL.
\<close>

definition drops_replays :: "'d badger \<Rightarrow> 'd Store \<Rightarrow> 'd Store \<Rightarrow> bool" where
  "drops_replays B s s' \<longleftrightarrow> 0 < sint (st_replayTTL s) \<and> st_replayTTL s' = st_replayTTL s
     \<and> (\<forall>k. fetch B (st_db s') k = fetch B (st_db s) k \<or> has_prefix prefixReplay k \<and> fetch B (st_db s') k = Inr None)"

inductive core_step ::
    "('d, 'r, 'n, 'w, 'k) sys \<Rightarrow> ('d, 'r, 'k) Log \<Rightarrow> Entry list \<Rightarrow> ('d, 'r, 'k) Log \<Rightarrow> Entry list \<Rightarrow> bool" for P where
  append_ok: "env_wires (sys_wire P) env \<Longrightarrow> AppendCtx P now enow l (Some env) hp = (l', Inr e)
    \<Longrightarrow> core_step P l es l' (es @ [e])"
| append_fail: "env_wires (sys_wire P) env \<Longrightarrow> AppendCtx P now enow l (Some env) hp = (l', Inl err)
    \<Longrightarrow> core_step P l es l' es"
| register_producer: "core_RegisterProducer P now l po = (l', r) \<Longrightarrow> core_step P l es l' es"
| revoke_producer: "core_RevokeProducer P now l i reason = (l', r) \<Longrightarrow> core_step P l es l' es"
| issue_enrollment: "IssueEnrollment P w now now' l req = (l', pr) \<Longrightarrow> core_step P l es l' es"
| begin_enrollment: "BeginEnrollment idr nonce now now' l req = (l', br) \<Longrightarrow> core_step P l es l' es"
| confirm_enrollment: "ConfirmEnrollment P w now now' l ch sig qsig = (l', pr) \<Longrightarrow> core_step P l es l' es"
| janitor: "janitor_tick now l = l' \<Longrightarrow> core_step P l es l' es"
| register_witness: "core_RegisterWitness P l wo = (l', r) \<Longrightarrow> core_step P l es l' es"
| checkpoint: "CheckpointCtx P w hook nowSec now replies l = (l', cr) \<Longrightarrow> core_step P l es l' es"
| anchor: "core_Anchor P sinks l = (l', recs, r) \<Longrightarrow> core_step P l es l' es"
| inclusion_proof: "core_InclusionProof P l idx n = Some (l', pf) \<Longrightarrow> core_step P l es l' es"
| consistency_proof: "core_ConsistencyProof P l m n = Some (l', pf) \<Longrightarrow> core_step P l es l' es"
| rotate: "core_Rotate P now wr_ok w l = (w', l', fe) \<Longrightarrow> core_step P l es l' es"
| restart: "core_New P cancelled opts = Inr l' \<Longrightarrow> opt_Store opts = Some (lg_store l) \<Longrightarrow> opt_Signer opts = Some sg
    \<Longrightarrow> \<forall>i. \<not> cancelled i \<Longrightarrow> core_step P l es l' es"
| expire: "drops_replays (sys_db P) (lg_store l) s \<Longrightarrow> core_step P l es (with_store l s) es"

inductive core_run :: "('d, 'r, 'n, 'w, 'k) sys \<Rightarrow> 'd Store \<Rightarrow> ('d, 'r, 'k) Log \<Rightarrow> Entry list \<Rightarrow> bool" for P s0 where
  start: "core_New P cancelled opts = Inr l \<Longrightarrow> opt_Store opts = Some s0 \<Longrightarrow> opt_Signer opts = Some sg
    \<Longrightarrow> \<forall>i. \<not> cancelled i \<Longrightarrow> core_run P s0 l []"
| step: "core_run P s0 l es \<Longrightarrow> core_step P l es l' es' \<Longrightarrow> core_run P s0 l' es'"

subsection \<open>Every operation keeps the invariant\<close>

lemma register_signed_inv:
  assumes "badger_ok (sys_db P) view" "log_inv P view rep l es" "register_signed P now l pr = (l', r)"
  shows "log_inv P view rep l' es"
proof -
  obtain s po err where rg: "RegisterProducer (sys_db P) (sys_wire P) now (lg_store l) (Some pr) = (s, po, err)"
    by (metis prod_cases3)
  with assms(3) have "l' = with_store l s" by (auto simp: register_signed_def split: option.split_asm)
  with log_inv_side [OF assms(2)] side_ops(1) [OF assms(1), of "lg_store l" "sys_wire P" now "Some pr"] rg
  show ?thesis by simp
qed

lemma enrollment_inv:
  assumes "badger_ok (sys_db P) view" "log_inv P view rep l es"
  shows "IssueEnrollment P w now now' l req = (l', pr) \<Longrightarrow> log_inv P view rep l' es"
    and "BeginEnrollment idr nonce now now' l req = (l', br) \<Longrightarrow> log_inv P view rep l' es"
    and "ConfirmEnrollment P w now now' l ch sig qsig = (l', pr) \<Longrightarrow> log_inv P view rep l' es"
    and "log_inv P view rep (janitor_tick now l) es"
proof -
  show "log_inv P view rep l' es" if "IssueEnrollment P w now now' l req = (l', pr)"
    using that assms(2) register_signed_inv [OF assms]
    by (auto simp: IssueEnrollment_def Let_def split: if_split_asm sum.split_asm)
  show "log_inv P view rep l' es" if "BeginEnrollment idr nonce now now' l req = (l', br)"
    using that assms(2) by (auto simp: BeginEnrollment_def Let_def split: if_split_asm option.split_asm)
  have p: "log_inv P view rep (l\<lparr>lg_pending := q\<rparr>) es" for q using assms(2) by simp
  show "log_inv P view rep l' es" if "ConfirmEnrollment P w now now' l ch sig qsig = (l', pr)"
    using that assms(2) register_signed_inv [OF assms(1) p]
    by (auto simp: ConfirmEnrollment_def Let_def split: if_split_asm option.split_asm sum.split_asm)
  show "log_inv P view rep (janitor_tick now l) es" using assms(2) by (simp add: janitor_tick_def)
qed

lemma registry_inv:
  assumes "badger_ok (sys_db P) view" "log_inv P view rep l es"
  shows "core_RegisterProducer P now l po = (l', r) \<Longrightarrow> log_inv P view rep l' es"
    and "core_RevokeProducer P now l i reason = (l', r) \<Longrightarrow> log_inv P view rep l' es"
    and "core_RegisterWitness P l wo = (l', r) \<Longrightarrow> log_inv P view rep l' es"
    and "core_Anchor P sinks l = (l', recs, ar) \<Longrightarrow> log_inv P view rep l' es"
  using assms(2) log_inv_side [OF assms(2)] side_ops(1-3) [OF assms(1), of "lg_store l"]
    anchor_sinks_side [OF assms(1), of "lg_store l"]
  by (auto simp: core_RegisterProducer_def core_RevokeProducer_def core_RegisterWitness_def core_Anchor_def
      split: prod.split_asm sum.split_asm option.split_asm) (metis fst_conv)+

lemma CheckpointCtx_inv:
  assumes "badger_ok (sys_db P) view" "log_inv P view rep l es"
    and "CheckpointCtx P w hook nowSec now replies l = (l', r)"
  shows "log_inv P view rep l' es"
proof -
  have "l' = l \<or> (\<exists>n body. l' = with_store l (fst (SaveCheckpoint (sys_db P) (lg_store l) n body)))"
    using assms(3)
    by (auto simp: CheckpointCtx_def Let_def
        split: sum.split_asm if_split_asm option.split_asm prod.split_asm) (metis fst_conv)+
  with assms(2) log_inv_side [OF assms(2) side_ops(4) [OF assms(1)]] show ?thesis by auto
qed

lemma log_inv_reopen:
  assumes "sys_ok P view rep" "log_inv P view rep l es"
    and "core_New P cancelled opts = Inr l'" "opt_Store opts = Some (lg_store l)" "opt_Signer opts = Some sg" "\<forall>i. \<not> cancelled i"
  shows "log_inv P view rep l' es"
proof -
  have i: "holds_log (sys_wire P) (view (st_db (lg_store l))) es" "entries.chained (sys_crypto P) (sys_hasher P) None es"
    "length es \<le> 2 ^ 63" "keeps_replays (lg_store l) \<Longrightarrow> env_replayed (view (st_db (lg_store l))) es"
    "mirror_full (view (st_db (lg_store l))) es \<or> badger_commits (sys_db P)"
    using assms(2) by (auto simp: log_inv_def env_replayed_def)
  have "\<not> cancelled i" for i using assms(6) by simp
  from core_New_reopens [where cancelled = cancelled, OF assms(1) i this assms(4,5)] assms(3) show ?thesis by auto
qed

lemma log_key_not_replay: "log_key k \<Longrightarrow> \<not> has_prefix prefixReplay k"
  by (cases k) (auto simp: log_key_def key_defs has_prefix_def)

lemma expire_inv:
  assumes "sys_ok P view rep" "log_inv P view rep l es" and d: "drops_replays (sys_db P) (lg_store l) s"
  shows "log_inv P view rep (with_store l s) es"
proof (rule log_inv_store [OF assms(2)])
  show "st_replayTTL s = st_replayTTL (lg_store l)" using d by (simp add: drops_replays_def)
  show "view (st_db s) k = view (st_db (lg_store l)) k" if "log_key k" for k
  proof -
    have "fetch (sys_db P) (st_db s) k = fetch (sys_db P) (st_db (lg_store l)) k"
      using d log_key_not_replay [OF that] by (auto simp: drops_replays_def)
    then show ?thesis by (simp add: fetch_live [OF sys_okD(2) [OF assms(1)]])
  qed
qed (use d in \<open>simp add: drops_replays_def\<close>)

lemma core_step_inv:
  assumes ok: "sys_ok P view rep" and inv: "log_inv P view rep l es" and len: "length es' < 2 ^ 63"
    and step: "core_step P l es l' es'"
  shows "log_inv P view rep l' es'"
proof -
  note b = sys_okD(1) [OF ok]
  show ?thesis using step
  proof cases
  case (append_ok env now enow hp e)
  then show ?thesis
    using AppendCtx_inv [OF ok inv _ append_ok(2,3)] len append_ok(1) by auto
next
  case (append_fail env now enow hp err)
  then show ?thesis
    using AppendCtx_inv [OF ok inv _ append_fail(2,3)] len append_fail(1) by auto
next
  case (register_producer now po r)
  then show ?thesis
    using registry_inv(1) [OF b inv register_producer(2)] register_producer(1) by simp
next
  case (revoke_producer now i reason r)
  then show ?thesis
    using registry_inv(2) [OF b inv revoke_producer(2)] revoke_producer(1) by simp
next
  case (issue_enrollment w now now' req pr)
  then show ?thesis
    using enrollment_inv(1) [OF b inv issue_enrollment(2)] issue_enrollment(1) by simp
next
  case (begin_enrollment idr nonce now now' req br)
  then show ?thesis
    using enrollment_inv(2) [OF b inv begin_enrollment(2)] begin_enrollment(1) by simp
next
  case (confirm_enrollment w now now' ch sig qsig pr)
  then show ?thesis
    using enrollment_inv(3) [OF b inv confirm_enrollment(2)] confirm_enrollment(1) by simp
next
  case (janitor now)
  then show ?thesis
    using enrollment_inv(4) [OF b inv, of now] janitor by simp
next
  case (register_witness wo r)
  then show ?thesis
    using registry_inv(3) [OF b inv register_witness(2)] register_witness(1) by simp
next
  case (checkpoint w hook nowSec now replies cr)
  then show ?thesis
    using CheckpointCtx_inv [OF b inv checkpoint(2)] checkpoint(1) by simp
next
  case (anchor sinks recs r)
  then show ?thesis
    using registry_inv(4) [OF b inv anchor(2)] anchor(1) by simp
next
  case (inclusion_proof idx n pf)
  then show ?thesis
    using core_proofs_inv(1) [OF ok inv, of idx n] inclusion_proof by auto
next
  case (consistency_proof m n pf)
  then show ?thesis
    using core_proofs_inv(2) [OF ok inv, of m n] consistency_proof by auto
next
  case (rotate now wr_ok w w' fe)
  then show ?thesis
    using inv rotate by (auto simp: core_Rotate_def split: prod.split_asm)
next
  case (restart cancelled opts sg)
  then show ?thesis
    using log_inv_reopen [OF ok inv restart(2-5)] restart(1) by simp
next
  case (expire s)
  then show ?thesis using expire_inv [OF ok inv] by simp
  qed
qed

text \<open>A store on a database with nothing in it, opened with any options.\<close>

definition fresh_store :: "('d \<Rightarrow> bytes \<rightharpoonup> bytes) \<Rightarrow> 'd Store \<Rightarrow> bool" where
  "fresh_store view s \<longleftrightarrow> view (st_db s) = Map.empty"

lemma core_step_length: "core_step P l es l' es' \<Longrightarrow> length es \<le> length es'"
  by (erule core_step.cases) simp_all

lemma fresh_inv:
  assumes ok: "sys_ok P view rep" and fresh: "fresh_store view s"
    and new: "core_New P cancelled opts = Inr l" "opt_Store opts = Some s" "opt_Signer opts = Some sg" "\<forall>i. \<not> cancelled i"
  shows "log_inv P view rep l []"
proof -
  have "\<not> cancelled i" for i using new(4) by simp
  from core_New_reopens [where cancelled = cancelled, OF ok _ _ _ _ _ this new(2,3), of "[]"] fresh new(1)
  show ?thesis by (simp add: fresh_store_def holds_log_empty mirror_full_def env_replayed_def)
qed

lemma core_run_inv:
  assumes "core_run P s0 l es" "sys_ok P view rep" "fresh_store view s0" "length es < 2 ^ 63"
  shows "log_inv P view rep l es"
  using assms(1,4)
proof induction
  case (start cancelled opts l sg)
  then show ?case using fresh_inv [OF assms(2,3)] by blast
next
  case (step l es l' es')
  with core_step_length [OF step(2)] have "log_inv P view rep l es" by simp
  from core_step_inv [OF assms(2) this step(4,2)] show ?case .
qed

lemma core_Root_inv:
  assumes "sys_ok P view rep" "log_inv P view rep l es"
  shows "core_Root P l = Inr (if es = [] then EmptyRoot (sys_hasher P) else MTH (sys_hasher P) (map ent_LeafHash es))"
proof -
  have len: "length (map ent_LeafHash es) \<le> 2 ^ 63" and r: "rep (rng (lg_tree l)) (map ent_LeafHash es)"
    using assms(2) by (simp_all add: log_inv_def)
  have "(of_nat (length es) :: u64) = 0 \<longleftrightarrow> es = []" using len of_nat_eq_u64 [of "length es" 0] by simp
  then show ?thesis
    using tdlib_root [OF sys_okD(3) [OF assms(1)] r _ len] log_inv_Size [OF assms] by (simp add: core_Root_def Root_def)
qed

lemma core_Get_inv:
  assumes "sys_ok P view rep" "log_inv P view rep l es" "i < length es"
  shows "core_Get P l (of_nat i) = Inr (es ! i)"
proof -
  obtain b where "view (st_db (lg_store l)) (entryKey (of_nat i)) = Some b" "Unmarshal (unwire_entry (sys_wire P)) b = Inr (es ! i)"
    using assms(2,3) by (auto simp: log_inv_def holds_log_def)
  then show ?thesis
    using fetch_live [OF sys_okD(2) [OF assms(1)]] by (simp add: core_Get_def GetEntry_def)
qed

end
