(* ===== verification/Guarantees.thy ===== *)
theory Guarantees
  imports Lifecycle
begin

text \<open>
  What a log instance guarantees to its users: theorems about every log that can be reached from
  an empty database by any sequence of operations and restarts, and a concrete instance of the
  surroundings on which they are applied.
\<close>

section \<open>The log\<close>

text \<open>
  C1.  A log reached from an empty database by any sequence of operations, failures and restarts
  stands for a list of entries in which every entry verifies and is chained to its predecessor:
  its size is their number, its root is the RFC 6962 hash of their leaf hashes, reading an index
  returns the entry at that index, and every proof it serves is the RFC 6962 proof over them.
\<close>

theorem log_always_consistent:
  assumes "sys_ok P view rep" and "fresh_store view s0" and "core_run P s0 l es" and "length es < 2 ^ 63"
  shows "entries.chained (sys_crypto P) (sys_hasher P) None es
    \<and> core_Size P l = of_nat (length es)
    \<and> core_Root P l = Inr (MTH (sys_hasher P) (map ent_LeafHash es))
    \<and> (\<forall>i < length es. core_Get P l (of_nat i) = Inr (es ! i))
    \<and> (\<exists>l'. core_InclusionProof P l idx n = Some (l', inclusion_spec (sys_lib P) (sys_hasher P) (map ent_LeafHash es) idx n))
    \<and> (\<exists>l'. core_ConsistencyProof P l m n = Some (l', consistency_spec (sys_lib P) (sys_hasher P) (map ent_LeafHash es) m n))"
proof -
  note inv = core_run_inv [OF assms(3,1,2,4)]
  have "entries.chained (sys_crypto P) (sys_hasher P) None es" using inv by (simp add: log_inv_def)
  moreover have "core_Size P l = of_nat (length es)" using log_inv_Size [OF assms(1) inv] by (simp add: core_Size_def)
  moreover have "core_Root P l = Inr (MTH (sys_hasher P) (map ent_LeafHash es))"
    using core_Root_inv [OF assms(1) inv] by (simp add: MTH.simps)
  moreover note core_Get_inv [OF assms(1) inv] core_proofs_inv(1) [OF assms(1) inv, of idx n]
    core_proofs_inv(2) [OF assms(1) inv, of m n]
  ultimately show ?thesis by blast
qed

lemma core_Get_absent:
  assumes "sys_ok P view rep" "log_inv P view rep l es" "length es \<le> i" "i < 2 ^ 64"
  shows "core_Get P l (of_nat i) = Inl (StEntryNotFound (of_nat i))"
proof -
  have log: "holds_log (sys_wire P) (view (st_db (lg_store l))) es" and len: "length es \<le> 2 ^ 63"
    using assms(2) by (simp_all add: log_inv_def)
  have "view (st_db (lg_store l)) (entryKey (of_nat i)) = None"
  proof (rule ccontr)
    assume "view (st_db (lg_store l)) (entryKey (of_nat i)) \<noteq> None"
    moreover have "has_prefix prefixEntry (entryKey (of_nat i))" by (simp add: entryKey_def has_prefix_def)
    ultimately obtain j where "j < length es" "entryKey (of_nat i) = entryKey (of_nat j)"
      using log unfolding holds_log_def by blast
    with assms(3,4) show False using of_nat_eq_u64 [of i j] by simp
  qed
  then show ?thesis using fetch_live [OF sys_okD(2) [OF assms(1)]] by (simp add: core_Get_def GetEntry_def)
qed

lemma chained_prev_len:
  assumes "entries.chained C H None es" "i < length es"
  shows "length (ent_PrevHash (es ! i)) = 32"
proof -
  have t: "es = take i es @ [es ! i] @ drop (Suc i) es" using id_take_nth_drop [OF assms(2)] by simp
  from assms(1) have "entries.chained C H None (take i es @ [es ! i] @ drop (Suc i) es)" by (subst (asm) t)
  then have ch: "entries.chained C H None (take i es)" and v: "VerifyChain (es ! i) (entries.last_of None (take i es)) = None"
    by (simp_all add: entries.chained_append)
  have "length (head_of (take i es)) = 32" by (rule length_head_of) (use chained_hashes(1) [OF ch] in blast)
  with v show ?thesis
    by (cases "take i es = []") (simp_all add: entries.last_of_def VerifyChain_None VerifyChain_Some head_of_def)
qed

definition entry_typed :: "u64 \<Rightarrow> Entry \<Rightarrow> bool" where
  "entry_typed idx e \<longleftrightarrow>
     ent_Index e = idx \<and> length (ent_PrevHash e) = 32 \<and> length (ent_EntryHash e) = 32 \<and> length (ent_LeafHash e) = 32
     \<and> (\<exists>env. ent_Envelope e = Some env \<and> length (env_PublicKey env) = 32 \<and> length (env_Signature env) = 64
          \<and> (length (env_QuantumPublicKey env), length (env_QuantumSignature env)) \<in> {(0, 0), (mode3_PublicKeySize, mode3_SignatureSize)})"

text \<open>
  C4.  Everything a log serves is well-formed.  Whatever the sequence of operations, failures and
  restarts, an entry that \<open>Get\<close> returns carries the index it was asked for, three 32-byte hashes and an
  envelope with a 32-byte key and a 64-byte signature, and with a Dilithium3 key and signature of
  the right lengths or with neither; and there is no entry beyond the size.
\<close>

theorem served_entries_well_typed:
  assumes "sys_ok P view rep" and "fresh_store view s0" and "core_run P s0 l es" and "length es < 2 ^ 63"
    and "core_Get P l idx = Inr e"
  shows "idx < core_Size P l \<and> entry_typed idx e"
proof -
  note inv = core_run_inv [OF assms(3,1,2,4)]
  have ch: "entries.chained (sys_crypto P) (sys_hasher P) None es" using inv by (simp add: log_inv_def)
  define i where "i = unat idx"
  have idx: "idx = of_nat i" "i < 2 ^ 64" using unsigned_less [of idx, where ?'a = nat] by (simp_all add: i_def)
  have i: "i < length es" using core_Get_absent [OF assms(1) inv _ idx(2)] assms(5) idx(1) by (cases "length es \<le> i") simp_all
  have e: "e = es ! i" using core_Get_inv [OF assms(1) inv i] assms(5) idx(1) by simp
  then have mem: "e \<in> set es" using i by simp
  have "ent_Verify (sys_crypto P) (sys_hasher P) e = None" using entries.chained_valid [OF ch mem] .
  then obtain env where env: "ent_Envelope e = Some env" "env_Verify (sys_crypto P) env = None" by (auto simp: ent_Verify_None)
  have "(length (env_QuantumPublicKey env), length (env_QuantumSignature env)) \<in> {(0, 0), (mode3_PublicKeySize, mode3_SignatureSize)}"
    using env(2) by (auto simp: env_Verify_def Let_def split: if_splits)
  moreover have "ent_Index e = idx" using entries.index_nth [OF ch i] e idx(1) by simp
  moreover have "idx < core_Size P l"
    using log_inv_Size [OF assms(1) inv] i assms(4) idx(1) by (simp add: core_Size_def of_nat_less_u64)
  ultimately show ?thesis
    using env env_Verify_None_len [OF env(2)] chained_hashes [OF ch mem] chained_prev_len [OF ch i] sys_okD(5) [OF assms(1)] e
    by (auto simp: entry_typed_def)
qed

text \<open>
  C2.  \<open>AppendCtx\<close> refines appending to a list.  On a log that stands for \<open>es\<close> it either returns an
  entry around the given envelope, with the next index, the given honeypot flag and the hash of the
  last entry, and the log then stands for \<open>es\<close> and that entry; or it returns an error and the log
  still stands for \<open>es\<close>.
\<close>

theorem append_refines:
  assumes "sys_ok P view rep" and "log_inv P view rep l es" and "length es < 2 ^ 63"
    and "env_wires (sys_wire P) env" and "AppendCtx P now enow l (Some env) hp = (l', r)"
  shows "case r of
      Inr e \<Rightarrow> ent_Index e = of_nat (length es) \<and> ent_PrevHash e = head_of es \<and> ent_Envelope e = Some env
        \<and> ent_Honeypot e = hp \<and> ent_TimeNanos e = enow \<and> log_inv P view rep l' (es @ [e])
    | Inl err \<Rightarrow> log_inv P view rep l' es"
  using AppendCtx_inv [OF assms] prev_entry_head [OF assms(3), of "sys_hasher P" enow "Some env" hp] by auto

text \<open>
  C5.  Where replay records do not expire, an envelope that is in the log is never accepted again,
  whoever sends it and however often the log has been restarted: on every reachable log, appending it
  returns an error and adds nothing.  On a store with a replay TTL (\<open>steled\<close> opens it with 24 hours
  unless \<open>-replay-ttl 0\<close> is given) the same holds for as long as the record of the envelope is there.
\<close>

theorem replayed_envelope_refused:
  assumes "sys_ok P view rep" and "fresh_store view s0" and "core_run P s0 l es" and "length es < 2 ^ 63"
    and "e \<in> set es" and "ent_Envelope e = Some env" and "env_wires (sys_wire P) env"
    and "keeps_replays (lg_store l) \<or> view (st_db (lg_store l)) (replayKey (env_Hash env)) \<noteq> None"
  shows "\<exists>l' err. AppendCtx P now enow l (Some env) hp = (l', Inl err) \<and> log_inv P view rep l' es"
proof -
  note inv = core_run_inv [OF assms(3,1,2,4)]
  have seen: "view (st_db (lg_store l)) (replayKey (env_Hash env)) \<noteq> None"
    using assms(8) inv assms(5,6) by (force simp: log_inv_def env_hash_of_def)
  obtain l' r where a: "AppendCtx P now enow l (Some env) hp = (l', r)" by force
  from AppendCtx_inv [OF assms(1) inv assms(4,7) a] seen a show ?thesis by auto
qed

text \<open>
  C19.  A log that starts has verified itself.  Whatever bytes the database contains, if \<open>core.New\<close>
  returns a log, then its root is the RFC 6962 hash of the leaf hashes of a list of entries in which
  every entry and every envelope verifies and every entry is chained to its predecessor from index 0.
\<close>

theorem replay_sound:
  fixes P :: "('d, 'r, 'n, 'w, 'k) sys"
  assumes "tdlib_ok (sys_lib P) (sys_hasher P) rep" and "core_New P cancelled opts = Inr l"
    and "opt_Store opts = Some s" and "length (bdg_Keys (sys_db P) (st_db s) (entryKey 0)) \<le> 2 ^ 63"
  shows "\<exists>es. entries.chained (sys_crypto P) (sys_hasher P) None es
    \<and> core_Size P l = of_nat (length es)
    \<and> core_Root P l = Inr (MTH (sys_hasher P) (map ent_LeafHash es))"
proof -
  obtain l0 :: "('d, 'r, 'k) Log" where l0: "rng (lg_tree l0) = lib_NewEmptyRange (sys_lib P)" "replay P cancelled l0 = (l, None)"
    and st: "opt_Store opts = Some (lg_store l0)"
    using assms(2) by (rule core_New_replay)
  then have r0: "rep (rng (lg_tree l0)) []" using assms(1) by (simp add: tdlib_ok_def)
  obtain p' n' where
    it: "IterateEntries (sys_db P) (sys_wire P) cancelled (lg_store l0) 0 (replay_entry P) (l0, None, 0) = ((l, p', n'), None)"
    using l0(2) by (rule replay_iterates)
  have "length ([] :: bytes list) + length (bdg_Keys (sys_db P) (st_db (lg_store l0)) (entryKey 0)) \<le> 2 ^ 63"
    using assms(3,4) st by simp
  from iterate_sound [OF assms(1) r0 this it [unfolded IterateEntries_def]] obtain es where
    es: "entries.chained (sys_crypto P) (sys_hasher P) None es" "rep (rng (lg_tree l)) (map ent_LeafHash es)"
    "length es \<le> length (bdg_Keys (sys_db P) (st_db (lg_store l0)) (entryKey 0))" by auto
  have len: "length (map ent_LeafHash es) \<le> 2 ^ 63" using es(3) assms(3,4) st by simp
  have sz: "Size (sys_lib P) (lg_tree l) = of_nat (length (map ent_LeafHash es))"
    using assms(1) es(2) unfolding tdlib_ok_def Size_def by blast
  have "(of_nat (length es) :: u64) = 0 \<longleftrightarrow> es = []"
    using len of_nat_eq_u64 [of "length es" 0] by simp
  moreover have "es \<noteq> [] \<Longrightarrow> lib_GetRootHash (sys_lib P) (sys_hasher P) (rng (lg_tree l)) = Some (MTH (sys_hasher P) (map ent_LeafHash es))"
    using tdlib_root [OF assms(1) es(2) _ len] by simp
  ultimately have "core_Root P l = Inr (MTH (sys_hasher P) (map ent_LeafHash es))"
    using sz by (simp add: core_Root_def Root_def MTH.simps)
  with es(1) sz show ?thesis by (auto simp: core_Size_def)
qed

section \<open>Admission\<close>

lemma admit_None:
  "admit P now l env = None \<longleftrightarrow>
     env_Verify (sys_crypto P) env = None
     \<and> (\<exists>pr. GetProducer (sys_db P) (sys_wire P) (lg_store l) (env_ProducerID env) = Inr pr
          \<and> \<not> pr_Revoked pr \<and> pr_PublicKey pr = env_PublicKey env
          \<and> (pr_QuantumPublicKey pr \<noteq> [] \<longrightarrow> env_QuantumPublicKey env = pr_QuantumPublicKey pr)
          \<and> (lg_requireEnrollment l \<longrightarrow> HasEnrollment pr \<and> \<not> IsExpired pr now
               \<and> VerifyEnrollment (sys_crypto P) (PublicKeyAt (sg_chain (csg_fws (lg_signer l))))
                   (QuantumPublicKeyAt (sg_chain (csg_fws (lg_signer l)))) pr = None))"
  by (auto simp: admit_def bytesEqual_iff Let_def split: option.splits sum.splits if_splits)

lemma AppendCtx_admits: "AppendCtx P now enow l (Some env) hp = (l', Inr e) \<Longrightarrow> admit P now l env = None"
  by (cases "admit P now l env") (simp_all add: AppendCtx_def)

lemma AppendCtx_envelope:
  "AppendCtx P now enow l (Some env) hp = (l', Inr e) \<Longrightarrow> ent_Envelope e = Some env"
  by (auto simp: AppendCtx_def Let_def split: option.split_asm sum.split_asm prod.split_asm)

text \<open>
  C3.  Nothing enters the log unauthorised, whatever the state of the database.  When \<open>AppendCtx\<close>
  returns an entry, its envelope verifies, the producer is registered under the envelope's
  classical key and not revoked, a producer registered with a quantum key has signed with that
  quantum key as well, and, where enrollment is required, the enrollment is signed by the operator
  for its epoch and has not expired.
\<close>

theorem append_only_authorised:
  assumes "AppendCtx P now enow l (Some env) hp = (l', Inr e)"
  shows "\<exists>pr. GetProducer (sys_db P) (sys_wire P) (lg_store l) (env_ProducerID env) = Inr pr
    \<and> ent_Envelope e = Some env \<and> \<not> pr_Revoked pr
    \<and> ed_verify (sys_crypto P) (pr_PublicKey pr) (env_Canonical env) (env_Signature env)
    \<and> (pr_QuantumPublicKey pr \<noteq> [] \<longrightarrow>
         d3_verify (sys_crypto P) (pr_QuantumPublicKey pr) (env_Canonical env) (env_QuantumSignature env))
    \<and> (lg_requireEnrollment l \<longrightarrow> \<not> IsExpired pr now
         \<and> VerifyEnrollment (sys_crypto P) (PublicKeyAt (sg_chain (csg_fws (lg_signer l))))
             (QuantumPublicKeyAt (sg_chain (csg_fws (lg_signer l)))) pr = None)"
proof -
  note a = AppendCtx_admits [OF assms, unfolded admit_None]
  then obtain pr where pr: "GetProducer (sys_db P) (sys_wire P) (lg_store l) (env_ProducerID env) = Inr pr"
    "\<not> pr_Revoked pr" "pr_PublicKey pr = env_PublicKey env"
    "pr_QuantumPublicKey pr \<noteq> [] \<longrightarrow> env_QuantumPublicKey env = pr_QuantumPublicKey pr"
    "lg_requireEnrollment l \<longrightarrow> \<not> IsExpired pr now
         \<and> VerifyEnrollment (sys_crypto P) (PublicKeyAt (sg_chain (csg_fws (lg_signer l))))
             (QuantumPublicKeyAt (sg_chain (csg_fws (lg_signer l)))) pr = None" by blast
  have v: "ed_verify (sys_crypto P) (env_PublicKey env) (env_Canonical env) (env_Signature env)"
    "env_QuantumPublicKey env \<noteq> [] \<longrightarrow>
       d3_verify (sys_crypto P) (env_QuantumPublicKey env) (env_Canonical env) (env_QuantumSignature env)"
    using a by (auto simp: env_Verify_def ed25519_Verify_def Let_def split: if_splits)
  show ?thesis by (rule exI [of _ pr]) (use pr v AppendCtx_envelope [OF assms] in auto)
qed

section \<open>Progress\<close>

lemma CheckAndRecord_live:
  assumes "badger_reads B view" "badger_commits B" "view (st_db s) (replayKey h) = None"
  shows "\<exists>s'. CheckAndRecordEnvelope B s h i = (s', None)"
proof -
  have "snd (CheckAndRecordEnvelope B s h i) = None"
    using assms(1,3) commit_live [OF assms(2)] by (simp add: CheckAndRecordEnvelope_def badger_reads_def domIff Let_def)
  then show ?thesis by (metis prod.collapse)
qed

text \<open>What an append does once the envelope is admitted and new.\<close>

lemma AppendCtx_new:
  assumes ok: "sys_ok P view rep" and inv: "log_inv P view rep l es" and adm: "admit P now l env = None"
    and c: "CheckAndRecordEnvelope (sys_db P) (lg_store l) (env_Hash env) (of_nat (length es)) = (s1, None)"
    and e: "e = ent_New (sys_hasher P) enow (of_nat (length es)) (prev_entry (of_nat (length es)) (head_of es)) (Some env) hp"
  shows "log_inv P view rep (with_store l s1) es"
    and "keeps_replays s1 \<Longrightarrow> view (st_db s1) (replayKey (env_Hash env)) \<noteq> None"
    and "AppendCtx P now enow l (Some env) hp =
      (case AppendEntry (sys_db P) (sys_wire P) s1 e of
         (s, Some err) \<Rightarrow> (with_store l s, Inl (CoStore err))
       | (s, None) \<Rightarrow>
           (case AppendLeafHash (sys_lib P) (sys_hasher P) (leafStoreAdapter (sys_db P)) (ent_LeafHash e) (lg_tree (with_store l s)) of
              Inl _ \<Rightarrow> (with_store l s, Inl CoPanic)
            | Inr (t, _) \<Rightarrow> ((with_store l s)\<lparr>lg_tree := t\<rparr>, Inr e)))"
proof -
  show inv1: "log_inv P view rep (with_store l s1) es" by (rule CheckAndRecord_inv [OF sys_okD(1) [OF ok] inv c])
  show "view (st_db s1) (replayKey (env_Hash env)) \<noteq> None" if "keeps_replays s1"
    using that CheckAndRecord_log(3,5) [OF sys_okD(1) [OF ok] c] by simp
  have head: "HeadHash (sys_db P) s1 = Inr (head_of es)" using HeadHash_log [OF ok inv1] by simp
  have ws: "with_store (with_store l s1) s = with_store l s" for s by (simp add: with_store_def)
  show "AppendCtx P now enow l (Some env) hp =
      (case AppendEntry (sys_db P) (sys_wire P) s1 e of
         (s, Some err) \<Rightarrow> (with_store l s, Inl (CoStore err))
       | (s, None) \<Rightarrow>
           (case AppendLeafHash (sys_lib P) (sys_hasher P) (leafStoreAdapter (sys_db P)) (ent_LeafHash e) (lg_tree (with_store l s)) of
              Inl _ \<Rightarrow> (with_store l s, Inl CoPanic)
            | Inr (t, _) \<Rightarrow> ((with_store l s)\<lparr>lg_tree := t\<rparr>, Inr e)))"
    unfolding e AppendCtx_def log_inv_Size [OF ok inv] by (simp add: adm c head ws Let_def)
qed

lemma ent_New_sealed:
  assumes "\<forall>d. length (HashLeaf H d) = 32"
  shows "ent_EntryHash (ent_New H now idx p env hp) \<noteq> []" "ent_LeafHash (ent_New H now idx p env hp) \<noteq> []"
proof -
  have "length (ent_EntryHash (ent_New H now idx p env hp)) = 32" by (simp add: ent_New_hashes)
  then show "ent_EntryHash (ent_New H now idx p env hp) \<noteq> []" by auto
  have "length (ent_LeafHash (ent_New H now idx p env hp)) = 32" using assms by (simp add: ent_New_hashes)
  then show "ent_LeafHash (ent_New H now idx p env hp) \<noteq> []" by auto
qed

lemma AppendCtx_live:
  assumes "sys_ok P view rep" "log_inv P view rep l es" "length es < 2 ^ 63"
    and "env_wires (sys_wire P) env" "badger_commits (sys_db P)" "admit P now l env = None"
    and "view (st_db (lg_store l)) (replayKey (env_Hash env)) = None"
    and "wire_entry (sys_wire P) (ent_New (sys_hasher P) enow (of_nat (length es))
        (prev_entry (of_nat (length es)) (head_of es)) (Some env) hp) \<noteq> None"
  shows "\<exists>l' e. AppendCtx P now enow l (Some env) hp = (l', Inr e) \<and> log_inv P view rep l' (es @ [e])"
proof -
  let ?e = "ent_New (sys_hasher P) enow (of_nat (length es)) (prev_entry (of_nat (length es)) (head_of es)) (Some env) hp"
  obtain s1 where c: "CheckAndRecordEnvelope (sys_db P) (lg_store l) (env_Hash env) (of_nat (length es)) = (s1, None)"
    using CheckAndRecord_live [OF sys_okD(2) [OF assms(1)] assms(5,7)] by blast
  note n = AppendCtx_new(1,2) [OF assms(1,2,6) c refl]
  note step = AppendCtx_new(3) [OF assms(1,2,6) c refl, of enow hp]
  have log: "holds_log (sys_wire P) (view (st_db s1)) es" using n(1) by (simp add: log_inv_def)
  have "snd (AppendEntry (sys_db P) (sys_wire P) s1 ?e) = None"
    using prev_entry_head [OF assms(3), of "sys_hasher P" enow "Some env" hp] assms(3,8)
      ent_New_sealed [of "sys_hasher P" enow "of_nat (length es)"] sys_okD(5) [OF assms(1)]
    by (intro AppendEntry_live [OF sys_okD(2) [OF assms(1)] log log_inv_head [OF n(1)] assms(5)]) simp_all
  then obtain s2 where a: "AppendEntry (sys_db P) (sys_wire P) s1 ?e = (s2, None)" by (metis prod.collapse)
  from AppendCtx_recorded(2) [OF assms(1) n(1) assms(3,4) admit_verifies [OF assms(6)] n(2) refl a] step a
  show ?thesis by auto
qed

text \<open>
  C21.  An append succeeds whenever the database commits, the envelope is admitted, it has not been
  seen before and the entry can be encoded: no guard of the transaction refuses an entry the log
  itself has built.  The new entry is then readable at the old size, and the size is one more.
\<close>

theorem append_succeeds:
  assumes "sys_ok P view rep" and "fresh_store view s0" and "core_run P s0 l es" and "length es + 1 < 2 ^ 63"
    and "env_wires (sys_wire P) env" and "badger_commits (sys_db P)" and "admit P now l env = None"
    and "view (st_db (lg_store l)) (replayKey (env_Hash env)) = None"
    and "wire_entry (sys_wire P) (ent_New (sys_hasher P) enow (of_nat (length es))
        (prev_entry (of_nat (length es)) (head_of es)) (Some env) hp) \<noteq> None"
  shows "\<exists>l' e. AppendCtx P now enow l (Some env) hp = (l', Inr e) \<and> core_Get P l' (core_Size P l) = Inr e
    \<and> core_Size P l' = core_Size P l + 1"
proof -
  have inv: "log_inv P view rep l es" by (rule core_run_inv [OF assms(3,1,2)]) (use assms(4) in simp)
  have "length es < 2 ^ 63" using assms(4) by simp
  from AppendCtx_live [OF assms(1) inv this assms(5-9)] obtain l' e where
    l': "AppendCtx P now enow l (Some env) hp = (l', Inr e)" "log_inv P view rep l' (es @ [e])" by blast
  have "core_Size P l = of_nat (length es)" "core_Size P l' = of_nat (length es) + 1"
    using log_inv_Size [OF assms(1)] inv l'(2) by (auto simp: core_Size_def add.commute)
  moreover have "core_Get P l' (of_nat (length es)) = Inr e"
    using core_Get_inv [OF assms(1) l'(2), of "length es"] by simp
  ultimately show ?thesis using l'(1) by auto
qed

text \<open>
  A failed append is not without effect.  When the replay record of an admitted envelope commits (on
  a store that keeps them) and the entry's own transaction then fails, \<open>AppendCtx\<close> returns an error and the log stands for
  the same entries, but the envelope stays recorded: sending it again is refused as a replay.
\<close>

theorem failed_append_burns_envelope:
  assumes "sys_ok P view rep" and "log_inv P view rep l es" and "length es < 2 ^ 63"
    and "env_wires (sys_wire P) env" and "admit P now l env = None"
    and "keeps_replays (lg_store l)"
    and "snd (CheckAndRecordEnvelope (sys_db P) (lg_store l) (env_Hash env) (of_nat (length es))) = None"
    and "\<forall>s e. snd (AppendEntry (sys_db P) (sys_wire P) s e) \<noteq> None"
  shows "\<exists>l' err. AppendCtx P now enow l (Some env) hp = (l', Inl err) \<and> log_inv P view rep l' es
    \<and> (\<forall>now' enow'. admit P now' l' env = None \<longrightarrow>
         (\<exists>i. snd (AppendCtx P now' enow' l' (Some env) hp) = Inl (CoStore (StReplay i))))"
proof -
  let ?e = "ent_New (sys_hasher P) enow (of_nat (length es)) (prev_entry (of_nat (length es)) (head_of es)) (Some env) hp"
  obtain s1 where c: "CheckAndRecordEnvelope (sys_db P) (lg_store l) (env_Hash env) (of_nat (length es)) = (s1, None)"
    using assms(7) by (metis prod.collapse)
  note n = AppendCtx_new(1,2) [OF assms(1,2,5) c refl]
  note step = AppendCtx_new(3) [OF assms(1,2,5) c refl, of enow hp]
  obtain s2 err where a: "AppendEntry (sys_db P) (sys_wire P) s1 ?e = (s2, Some err)"
    using assms(8) by (metis not_Some_eq prod.collapse)
  have seen: "view (st_db s1) (replayKey (env_Hash env)) \<noteq> None"
    using n(2) CheckAndRecord_log(5) [OF sys_okD(1) [OF assms(1)] c] assms(6) by simp
  from AppendCtx_recorded(1) [OF assms(1) n(1) assms(3,4) admit_verifies [OF assms(5)] seen refl a]
  have inv2: "log_inv P view rep (with_store l s2) es" by simp
  have "entry_wires (sys_wire P) ?e" using assms(4) by (simp add: env_wires_def)
  from AppendEntry_log(2) [OF sys_okD(1) [OF assms(1)] _ this _ a, of es] n(1) assms(1,3)
  have "view (st_db s2) = view (st_db s1)" by (simp add: log_inv_def sys_ok_def)
  with seen have "replayKey (env_Hash env) \<in> dom (view (st_db s2))" by auto
  then have "bdg_Get (sys_db P) (st_db s2) (replayKey (env_Hash env)) = Inr True"
    using sys_okD(2) [OF assms(1)] by (simp add: badger_reads_def)
  then have "\<exists>i. snd (AppendCtx P now' enow' (with_store l s2) (Some env) hp) = Inl (CoStore (StReplay i))"
    if "admit P now' (with_store l s2) env = None" for now' enow'
    using that by (simp add: AppendCtx_def CheckAndRecordEnvelope_def Let_def)
  with step a inv2 show ?thesis by auto
qed

text \<open>
  C20.  A log can always be started again.  On the store of any reachable log \<open>core.New\<close> succeeds with
  a log that stands for the same entries, so that size, root and entries survive the restart; the
  store is not written.
\<close>

theorem restart_recovers:
  assumes "sys_ok P view rep" and "fresh_store view s0" and "core_run P s0 l es" and "length es < 2 ^ 63"
    and "opt_Store opts = Some (lg_store l)" and "opt_Signer opts = Some sg" and "\<forall>i. \<not> cancelled i"
  shows "\<exists>l'. core_New P cancelled opts = Inr l' \<and> log_inv P view rep l' es \<and> lg_store l' = lg_store l
    \<and> core_Size P l' = core_Size P l \<and> core_Root P l' = core_Root P l"
proof -
  note inv = core_run_inv [OF assms(3,1,2,4)]
  have "\<not> cancelled i" for i using assms(7) by simp
  from core_New_reopens [where cancelled = cancelled, OF assms(1) _ _ _ _ _ this assms(5,6), of es] inv
  obtain l' where l': "core_New P cancelled opts = Inr l'" "log_inv P view rep l' es" "lg_store l' = lg_store l"
    by (auto simp: log_inv_def env_replayed_def)
  with core_Root_inv [OF assms(1)] log_inv_Size [OF assms(1)] inv show ?thesis by (auto simp: core_Size_def)
qed

section \<open>Enrollment\<close>

lemma operator_sign_terms:
  assumes "operator_sign P w fws pr = Inr pr'"
  shows "pr_terms pr' = pr_terms pr" "pr_ChallengeNonce pr' = pr_ChallengeNonce pr"
    "pr_ChallengeSignature pr' = pr_ChallengeSignature pr"
    "pr_QuantumChallengeSignature pr' = pr_QuantumChallengeSignature pr" "pr_RegisteredAt pr' = pr_RegisteredAt pr"
proof -
  have "(\<exists>a. pr' = pr\<lparr>pr_Signature := a\<rparr>) \<or>
      (\<exists>a b c. pr' = pr\<lparr>pr_Signature := a, pr_QuantumOperatorPubKey := b, pr_QuantumSignature := c\<rparr>)"
    using assms by (simp add: operator_sign_def Let_def split: sum.split_asm prod.split_asm if_split_asm) blast+
  then show "pr_terms pr' = pr_terms pr" "pr_ChallengeNonce pr' = pr_ChallengeNonce pr"
    "pr_ChallengeSignature pr' = pr_ChallengeSignature pr"
    "pr_QuantumChallengeSignature pr' = pr_QuantumChallengeSignature pr" "pr_RegisteredAt pr' = pr_RegisteredAt pr"
    by (auto simp: pr_terms_def)
qed

lemma ChallengeBytes_terms:
  "pr_terms p = pr_terms q \<Longrightarrow> pr_ChallengeNonce p = pr_ChallengeNonce q \<Longrightarrow> ChallengeBytes p = ChallengeBytes q"
  by (simp add: ChallengeBytes_def CanonicalEnrollment_terms [of p q])

lemma VerifyConsent_terms:
  assumes "pr_terms p = pr_terms q" "pr_ChallengeNonce p = pr_ChallengeNonce q"
    "pr_ChallengeSignature p = pr_ChallengeSignature q" "pr_QuantumChallengeSignature p = pr_QuantumChallengeSignature q"
  shows "VerifyConsent C p = None \<longleftrightarrow> VerifyConsent C q = None"
  using ChallengeBytes_terms [OF assms(1,2)] assms by (simp add: VerifyConsent_None pr_terms_def)

context key_store
begin

lemma operator_sign_live:
  assumes wf: "wf w" and inv: "signer_inv C KS usable w s"
    and P: "sys_keys P = KS" and ep: "pr_OperatorEpoch pr = ActiveEpoch (sg_chain s)"
  shows "\<exists>pr'. operator_sign P w s pr = Inr pr'"
proof -
  obtain k where k: "sg_active s = Some k" "usable w k" using inv by (rule signer_inv_active)
  obtain sig where "lk_Sign KS w k (CanonicalEnrollment pr) = Inr sig" using sign [OF wf k(2)] by blast
  then have sgn: "sg_Sign (sys_keys P) w s (CanonicalEnrollment pr) = Inr (ActiveEpoch (sg_chain s), sig)"
    by (simp add: sg_Sign_def k(1) P)
  have "\<exists>qsig. sg_QuantumSign (sys_keys P) w s (CanonicalEnrollment pr) = Inr qsig" if "sg_Hybrid (sys_keys P) w s"
    using quantum_sign [OF wf k(2), of "CanonicalEnrollment pr"] that k(1) P
    by (auto simp: sg_Hybrid_def sg_QuantumSign_def)
  then show ?thesis by (auto simp: operator_sign_def sgn ep Let_def)
qed

lemma operator_sign_accepted:
  assumes wf: "wf w" and inv: "signer_inv C KS usable w s" and len: "length (ch_Certs (sg_chain s)) \<le> 2 ^ 64"
    and P: "sys_keys P = KS" and op: "operator_sign P w s pr = Inr pr'"
    and raw: "pr_QuantumSignature pr = []" "pr_QuantumOperatorPubKey pr = []"
  shows "VerifyEnrollment C (PublicKeyAt (sg_chain s)) (QuantumPublicKeyAt (sg_chain s)) pr' = None"
proof -
  let ?q = "rc_QuantumPublicKey (last (ch_Certs (sg_chain s)))"
  obtain k where k: "sg_active s = Some k" "usable w k" "ActivePublicKey (sg_chain s) = lk_Public KS w k"
    "?q = lk_QuantumPublic KS w k"
    using inv by (rule signer_inv_active)
  have ch: "verifyChain C (sg_chain s) (RootPublicKey (sg_chain s)) None = None" using inv by (simp add: signer_inv_def)
  note key = later_lookup [OF ch ch _ len, of "[]", simplified]
  obtain sig where sig: "lk_Sign KS w k (CanonicalEnrollment pr) = Inr sig"
    "ed25519_Verify C (lk_Public KS w k) (CanonicalEnrollment pr) sig" and pub: "length (lk_Public KS w k) = 32"
    using sign [OF wf k(2)] by blast
  have canon: "CanonicalEnrollment pr' = CanonicalEnrollment pr"
    by (rule CanonicalEnrollment_terms [OF operator_sign_terms(1) [OF op]])
  have sgn: "sg_Sign (sys_keys P) w s (CanonicalEnrollment pr) = Inr (ActiveEpoch (sg_chain s), sig)"
    by (simp add: sg_Sign_def k(1) P sig(1))
  have ep: "pr_OperatorEpoch pr = ActiveEpoch (sg_chain s)" "pr_OperatorEpoch pr' = ActiveEpoch (sg_chain s)"
  proof -
    show "pr_OperatorEpoch pr = ActiveEpoch (sg_chain s)"
      by (rule ccontr) (use op in \<open>simp add: operator_sign_def sgn Let_def\<close>)
    then show "pr_OperatorEpoch pr' = ActiveEpoch (sg_chain s)"
      using operator_sign_terms(1) [OF op] by (simp add: pr_terms_def)
  qed
  have hyb: "sg_Hybrid (sys_keys P) w s \<longleftrightarrow> ?q \<noteq> []" by (simp add: sg_Hybrid_def k(1,4) P)
  show ?thesis
  proof (cases "?q = [] \<or> pr_QuantumPublicKey pr = []")
    case True
    then have "pr' = pr\<lparr>pr_Signature := sig\<rparr>"
      using op by (auto simp: operator_sign_def sgn hyb ep(1) Let_def)
    with sig pub key k(3) ep canon raw show ?thesis by (simp add: VerifyEnrollment_None)
  next
    case False
    obtain qsig where q: "lk_QuantumSign KS w k (CanonicalEnrollment pr) = Inr qsig" "length qsig = 3293"
      "length ?q = 1952" "d3_decode C ?q" "d3_verify C ?q (CanonicalEnrollment pr) qsig"
      using quantum_sign [OF wf k(2), of "CanonicalEnrollment pr"] k(4) False by auto
    have qsgn: "sg_QuantumSign (sys_keys P) w s (CanonicalEnrollment pr) = Inr qsig"
      by (simp add: sg_QuantumSign_def k(1) P q(1))
    have "pr' = pr\<lparr>pr_Signature := sig, pr_QuantumOperatorPubKey := ?q, pr_QuantumSignature := qsig\<rparr>"
      using op False by (simp add: operator_sign_def sgn qsgn hyb ep(1) key(2) Let_def)
    with sig pub key k(3) ep canon q show ?thesis by (simp add: VerifyEnrollment_None)
  qed
qed

end

lemma register_signed_stores:
  assumes ok: "sys_ok P view rep" and codec: "\<And>p b. wire_producer (sys_wire P) p = Some b \<Longrightarrow> unwire_producer (sys_wire P) b = Some p"
    and reg: "register_signed P now l p = (l', Inr pr)"
  shows "pr = p \<or> pr = p\<lparr>pr_RegisteredAt := now\<rparr>" "lg_pending l' = lg_pending l" "lg_signer l' = lg_signer l"
    "lg_requireEnrollment l' = lg_requireEnrollment l"
    "GetProducer (sys_db P) (sys_wire P) (lg_store l') (pr_ID p) = Inr pr"
proof -
  obtain s po where r: "RegisterProducer (sys_db P) (sys_wire P) now (lg_store l) (Some p) = (s, po, None)"
    and l': "l' = with_store l s" "pr = the po"
    using reg by (auto simp: register_signed_def split: prod.split_asm option.split_asm)
  define q where "q = (if pr_RegisteredAt p = 0 then p\<lparr>pr_RegisteredAt := now\<rparr> else p)"
  have q: "pr_ID q = pr_ID p" by (simp add: q_def)
  obtain body where b: "wire_producer (sys_wire P) q = Some body" "po = Some q"
    and c: "commit (sys_db P) (lg_store l) [WSet (producerKey (pr_ID q)) body] = (s, None)"
    using r by (auto simp: RegisterProducer_def Let_def q_def [symmetric] split: if_split_asm option.split_asm prod.split_asm)
  have "view (st_db s) (producerKey (pr_ID p)) = Some body"
    using commit_ok(1) [OF sys_okD(1) [OF ok] _ c] q by simp
  then show "GetProducer (sys_db P) (sys_wire P) (lg_store l') (pr_ID p) = Inr pr"
    using fetch_live [OF sys_okD(2) [OF ok]] codec [OF b(1)] b(2) l' by (simp add: GetProducer_def)
  show "pr = p \<or> pr = p\<lparr>pr_RegisteredAt := now\<rparr>" using l'(2) b(2) by (simp add: q_def)
qed (use reg in \<open>auto simp: register_signed_def split: prod.split_asm option.split_asm\<close>)

text \<open>Challenges come from \<open>BeginEnrollment\<close>: they have a nonce and no operator signature yet.\<close>

definition pending_ok :: "('d, 'r, 'k) Log \<Rightarrow> bool" where
  "pending_ok l \<longleftrightarrow> (\<forall>i p. lg_pending l i = Some p \<longrightarrow> pr_ChallengeNonce (pe_prod p) \<noteq> []
     \<and> pr_QuantumSignature (pe_prod p) = [] \<and> pr_QuantumOperatorPubKey (pe_prod p) = [])"

lemma pending_same: "pending_ok l \<Longrightarrow> lg_pending l' = lg_pending l \<Longrightarrow> pending_ok l'"
  by (simp add: pending_ok_def)

lemma pending_less: "pending_ok l \<Longrightarrow> lg_pending l' \<subseteq>\<^sub>m lg_pending l \<Longrightarrow> pending_ok l'"
  by (auto simp: pending_ok_def map_le_def dom_def)

lemma AppendCtx_pending: "AppendCtx P now enow l eo hp = (l', r) \<Longrightarrow> lg_pending l' = lg_pending l"
  by (auto simp: AppendCtx_def Let_def split: option.split_asm prod.split_asm sum.split_asm)

lemma register_signed_pending: "register_signed P now l p = (l', r) \<Longrightarrow> lg_pending l' = lg_pending l"
  by (auto simp: register_signed_def split: prod.split_asm option.split_asm)

lemma registry_pending:
  "core_RegisterProducer P now l po = (l', r) \<Longrightarrow> lg_pending l' = lg_pending l"
  "core_RevokeProducer P now l i reason = (l', r) \<Longrightarrow> lg_pending l' = lg_pending l"
  "core_RegisterWitness P l wo = (l', r) \<Longrightarrow> lg_pending l' = lg_pending l"
  "core_Anchor P sinks l = (l', recs, r) \<Longrightarrow> lg_pending l' = lg_pending l"
  "core_Rotate P now wr_ok w l = (w', l', fe) \<Longrightarrow> lg_pending l' = lg_pending l"
  "core_InclusionProof P l idx n = Some (l', pf) \<Longrightarrow> lg_pending l' = lg_pending l"
  "core_ConsistencyProof P l m n = Some (l', pf) \<Longrightarrow> lg_pending l' = lg_pending l"
  by (auto simp: core_RegisterProducer_def core_RevokeProducer_def core_RegisterWitness_def core_Anchor_def
      core_Rotate_def core_InclusionProof_def core_ConsistencyProof_def
      split: prod.split_asm sum.split_asm option.split_asm)

lemma CheckpointCtx_pending: "CheckpointCtx P w hook nowSec now replies l = (l', r) \<Longrightarrow> lg_pending l' = lg_pending l"
  by (auto simp: CheckpointCtx_def Let_def split: sum.split_asm if_split_asm option.split_asm prod.split_asm)

lemma IssueEnrollment_pending: "IssueEnrollment P w now now' l req = (l', r) \<Longrightarrow> lg_pending l' = lg_pending l"
  using register_signed_pending by (auto simp: IssueEnrollment_def Let_def split: if_split_asm sum.split_asm)

lemma BeginEnrollment_pending:
  "BeginEnrollment idr nonce now now' l req = (l', r) \<Longrightarrow> pending_ok l \<Longrightarrow> pending_ok l'"
  by (auto simp: BeginEnrollment_def pending_ok_def new_producer_def ChallengeBytes_def Let_def
      split: if_split_asm option.split_asm)

lemma ConfirmEnrollment_pending:
  "ConfirmEnrollment P w now now' l ch sig qsig = (l', r) \<Longrightarrow> lg_pending l' = (lg_pending l)(ch := None)"
  by (auto simp: ConfirmEnrollment_def Let_def dest!: register_signed_pending
      split: if_split_asm option.split_asm sum.split_asm)

lemma replay_entry_pending: "replay_entry P (l, q, n) e = ((l', q', n'), r) \<Longrightarrow> lg_pending l' = lg_pending l"
  by (auto simp: replay_entry_def Let_def split: option.split_asm sum.split_asm prod.split_asm if_split_asm)

lemma iterate_pending:
  "iterate_entries B W d cancelled (replay_entry P) ks i (l, q, n) = ((l', q', n'), r) \<Longrightarrow> lg_pending l' = lg_pending l"
proof (induction ks arbitrary: i l q n)
  case (Cons k ks)
  then show ?case
    by (auto split: if_split_asm option.split_asm sum.split_asm prod.split_asm dest: replay_entry_pending)
qed simp

lemma replay_pending:
  assumes "core_New P cancelled opts = Inr l"
  shows "lg_pending l = Map.empty"
proof -
  obtain l0 where l0: "replay P cancelled l0 = (l, None)" "lg_pending l0 = Map.empty"
    using assms by (auto simp: core_New_def Let_def split: option.split_asm prod.split_asm)
  obtain p n where "IterateEntries (sys_db P) (sys_wire P) cancelled (lg_store l0) 0 (replay_entry P) (l0, None, 0) = ((l, p, n), None)"
    using l0(1) by (rule replay_iterates)
  with l0(2) iterate_pending show ?thesis unfolding IterateEntries_def by metis
qed

lemma core_run_pending: "core_run P s0 l es \<Longrightarrow> pending_ok l"
proof (induction rule: core_run.induct)
  case (start cancelled opts l sg)
  then show ?case by (simp add: pending_ok_def replay_pending)
next
  case (step l es l' es')
  from step(2) show ?case
  proof cases
    case (confirm_enrollment w now now' ch sig qsig pr)
    from ConfirmEnrollment_pending [OF confirm_enrollment(2)] show ?thesis
      by (intro pending_less [OF step(3)]) (simp add: map_le_def)
  next
    case (janitor now)
    then show ?thesis
      by (intro pending_less [OF step(3)]) (auto simp: janitor_tick_def map_le_def split: option.splits if_splits)
  next
    case (restart cancelled opts sg)
    then show ?thesis by (simp add: pending_ok_def replay_pending)
  next
    case (append_ok env now enow hp e)
    then show ?thesis using pending_same [OF step(3) AppendCtx_pending [OF append_ok(3)]] by simp
  next
    case (append_fail env now enow hp err)
    then show ?thesis using pending_same [OF step(3) AppendCtx_pending [OF append_fail(3)]] by simp
  next
    case (register_producer now po r)
    then show ?thesis using pending_same [OF step(3) registry_pending(1) [OF register_producer(2)]] by simp
  next
    case (revoke_producer now i reason r)
    then show ?thesis using pending_same [OF step(3) registry_pending(2) [OF revoke_producer(2)]] by simp
  next
    case (issue_enrollment w now now' req pr)
    then show ?thesis using pending_same [OF step(3) IssueEnrollment_pending [OF issue_enrollment(2)]] by simp
  next
    case (register_witness wo r)
    then show ?thesis using pending_same [OF step(3) registry_pending(3) [OF register_witness(2)]] by simp
  next
    case (checkpoint w hook nowSec now replies cr)
    then show ?thesis using pending_same [OF step(3) CheckpointCtx_pending [OF checkpoint(2)]] by simp
  next
    case (anchor sinks recs r)
    then show ?thesis using pending_same [OF step(3) registry_pending(4) [OF anchor(2)]] by simp
  next
    case (inclusion_proof idx n pf)
    then show ?thesis using pending_same [OF step(3) registry_pending(6) [OF inclusion_proof(2)]] by simp
  next
    case (consistency_proof m n pf)
    then show ?thesis using pending_same [OF step(3) registry_pending(7) [OF consistency_proof(2)]] by simp
  next
    case (rotate now wr_ok w w' fe)
    then show ?thesis using pending_same [OF step(3) registry_pending(5) [OF rotate(2)]] by simp
  next
    case (begin_enrollment idr nonce now now' req br)
    then show ?thesis using BeginEnrollment_pending [OF begin_enrollment(2) step(3)] by simp
  next
    case (expire s)
    then show ?thesis using pending_same [OF step(3), of "with_store l s"] by simp
  qed
qed

lemma ConfirmEnrollment_Inr:
  assumes "ConfirmEnrollment P w now now' l ch sig qsig = (l', Inr pr)"
  obtains p q q' where "lg_pending l ch = Some p" "sint now \<le> pe_expiresAt p"
    "pr_terms q = pr_terms (pe_prod p)" "pr_ChallengeNonce q = pr_ChallengeNonce (pe_prod p)"
    "pr_QuantumSignature q = pr_QuantumSignature (pe_prod p)"
    "pr_QuantumOperatorPubKey q = pr_QuantumOperatorPubKey (pe_prod p)"
    "VerifyConsent (sys_crypto P) q = None" "operator_sign P w (csg_fws (lg_signer l)) q = Inr q'"
    "register_signed P now' (l\<lparr>lg_pending := (lg_pending l)(ch := None)\<rparr>) q' = (l', Inr pr)"
proof -
  obtain p where p: "lg_pending l ch = Some p"
    using assms by (auto simp: ConfirmEnrollment_def split: option.split_asm)
  define a where "a = (pe_prod p)\<lparr>pr_ChallengeSignature := sig\<rparr>"
  define q where "q = (if 0 < length (pr_QuantumPublicKey a) then a\<lparr>pr_QuantumChallengeSignature := qsig\<rparr> else a)"
  note c = assms [unfolded ConfirmEnrollment_def p Let_def option.case, folded a_def, folded q_def]
  have now: "sint now \<le> pe_expiresAt p" using c by (auto split: if_split_asm)
  have "VerifyConsent (sys_crypto P) q = None"
    "\<exists>q'. operator_sign P w (csg_fws (lg_signer l)) q = Inr q'
       \<and> register_signed P now' (l\<lparr>lg_pending := (lg_pending l)(ch := None)\<rparr>) q' = (l', Inr pr)"
    using c by (auto split: if_split_asm option.split_asm sum.split_asm)
  moreover have "pr_terms q = pr_terms (pe_prod p)" "pr_ChallengeNonce q = pr_ChallengeNonce (pe_prod p)"
    "pr_QuantumSignature q = pr_QuantumSignature (pe_prod p)"
    "pr_QuantumOperatorPubKey q = pr_QuantumOperatorPubKey (pe_prod p)"
    by (simp_all add: q_def a_def pr_terms_def)
  ultimately show ?thesis using that p now by blast
qed

lemma operator_sign_destroyed:
  assumes "signer_run C d hybrid w0 rs w s" "file_wf C hybrid w0" "sys_keys P = file_store C d hybrid"
    and "operator_sign P w s q = Inr q'"
  shows "all_destroyed rs"
proof -
  obtain r where "sg_Sign (file_store C d hybrid) w s (CanonicalEnrollment q) = Inr r"
    using assms(4) by (auto simp: operator_sign_def assms(3) Let_def split: sum.split_asm)
  from sign_all_destroyed [OF assms(1,2) this] show ?thesis .
qed

text \<open>
  C17.  A producer that completes the enrollment ceremony is enrolled on the terms it was challenged
  with.  When \<open>ConfirmEnrollment\<close> succeeds on a reachable log with a file-backed signer whose rotations
  were not stepped back in time (whatever else became of them), the challenge was pending and had not expired, and is used up; the stored record has the terms and the nonce of
  the challenge, carries the producer's valid signature over them under both its keys, and an
  enrollment signature the operator's chain accepts.
\<close>

theorem enrollment_ceremony:
  assumes "sys_ok P view rep" and "core_run P s0 l es"
    and "sys_crypto P = C" and "sys_keys P = file_store C d hybrid" and "csg_fws (lg_signer l) = s"
    and "file_wf C hybrid w0" and "signer_run C d hybrid w0 rs w s" and "length (ch_Certs (sg_chain s)) \<le> 2 ^ 64"
    and "\<And>p b. wire_producer (sys_wire P) p = Some b \<Longrightarrow> unwire_producer (sys_wire P) b = Some p"
    and "ConfirmEnrollment P w now now' l ch sig qsig = (l', Inr pr)" and "clock_ok (ch_Certs (sg_chain s))"
  shows "lg_pending l' ch = None \<and> GetProducer (sys_db P) (sys_wire P) (lg_store l') (pr_ID pr) = Inr pr
    \<and> VerifyConsent C pr = None
    \<and> VerifyEnrollment C (PublicKeyAt (sg_chain s)) (QuantumPublicKeyAt (sg_chain s)) pr = None
    \<and> (\<exists>p. lg_pending l ch = Some p \<and> sint now \<le> pe_expiresAt p
         \<and> pr_terms pr = pr_terms (pe_prod p) \<and> ChallengeBytes pr = ChallengeBytes (pe_prod p))"
proof -
  obtain p q q' where p: "lg_pending l ch = Some p" "sint now \<le> pe_expiresAt p"
    and q: "pr_terms q = pr_terms (pe_prod p)" "pr_ChallengeNonce q = pr_ChallengeNonce (pe_prod p)"
    "pr_QuantumSignature q = pr_QuantumSignature (pe_prod p)"
    "pr_QuantumOperatorPubKey q = pr_QuantumOperatorPubKey (pe_prod p)"
    and v: "VerifyConsent (sys_crypto P) q = None" and op: "operator_sign P w (csg_fws (lg_signer l)) q = Inr q'"
    and reg: "register_signed P now' (l\<lparr>lg_pending := (lg_pending l)(ch := None)\<rparr>) q' = (l', Inr pr)"
    by (rule ConfirmEnrollment_Inr [OF assms(10)])
  have raw: "pr_QuantumSignature q = []" "pr_QuantumOperatorPubKey q = []"
    using core_run_pending [OF assms(2)] p(1) q(3,4) by (auto simp: pending_ok_def)
  note st = register_signed_stores [OF assms(1,9) reg]
  note t = operator_sign_terms [OF op]
  have pr: "pr_terms pr = pr_terms q" "pr_ChallengeNonce pr = pr_ChallengeNonce q"
    "pr_ChallengeSignature pr = pr_ChallengeSignature q" "pr_QuantumChallengeSignature pr = pr_QuantumChallengeSignature q"
    "pr_ID pr = pr_ID q'"
    using st(1) t by (auto simp: pr_terms_def)
  have "all_destroyed rs" by (rule operator_sign_destroyed [OF assms(7,6,4) op [unfolded assms(5)]])
  from signer_run_inv [OF assms(7,6) this assms(11)]
  have "file_wf C hybrid w" "signer_inv C (file_store C d hybrid) (file_usable C) w s" by auto
  from file_ks.operator_sign_accepted [OF this assms(8,4) op [unfolded assms(5)] raw]
  have "VerifyEnrollment C (PublicKeyAt (sg_chain s)) (QuantumPublicKeyAt (sg_chain s)) q' = None" .
  moreover have "CanonicalEnrollment pr = CanonicalEnrollment q'"
    by (rule CanonicalEnrollment_terms) (simp add: pr(1) t(1))
  ultimately have "VerifyEnrollment C (PublicKeyAt (sg_chain s)) (QuantumPublicKeyAt (sg_chain s)) pr = None"
    using st(1) by (auto simp: VerifyEnrollment_None)
  moreover have "VerifyConsent C pr = None" using VerifyConsent_terms [OF pr(1-4)] v assms(3) by simp
  moreover have "ChallengeBytes pr = ChallengeBytes (pe_prod p)"
    by (rule ChallengeBytes_terms) (simp_all add: pr q)
  moreover have "lg_pending l' ch = None" using st(2) by simp
  ultimately show ?thesis using st(5) pr(1,5) q(1) p by auto
qed

section \<open>Checkpoints\<close>

lemma rev_greatest:
  assumes "finite S" "(k :: 'a :: linorder) \<in> S"
  obtains rest where "rev (filter (\<lambda>x. x \<le> k) (sorted_list_of_set S)) = k # rest"
proof -
  let ?ys = "filter (\<lambda>x. x \<le> k) (sorted_list_of_set S)"
  have mem: "k \<in> set ?ys" using assms by simp
  then have ne: "?ys \<noteq> []" by (metis empty_iff empty_set)
  have "sorted ?ys" by (simp add: sorted_wrt_filter)
  then have "k \<le> last ?ys" using mem by (metis in_set_conv_nth last_conv_nth ne sorted_nth_mono diff_less
        length_greater_0_conv less_one Suc_pred' less_Suc_eq_le)
  moreover have "last ?ys \<in> set ?ys" using ne by (rule last_in_set)
  then have "last ?ys \<le> k" by (simp only: set_filter mem_Collect_eq)
  ultimately have "last ?ys = k" by simp
  with ne that show ?thesis by (metis append_butlast_last_id rev.simps(2) rev_rev_ident rev_append append_Cons append_Nil)
qed

text \<open>A saved checkpoint is the one found at its size.\<close>

lemma GetCheckpoint_saved:
  assumes ok: "badger_ok B view" and reads: "badger_reads B view" and save: "SaveCheckpoint B s n body = (s', None)"
  shows "GetCheckpoint B s' n = Inr (body, n)"
proof -
  have v: "view (st_db s') (checkpointKey n) = Some body"
    using commit_ok(1) [OF ok _ save [unfolded SaveCheckpoint_def]] by simp
  then have "checkpointKey n \<in> dom (view (st_db s'))" by blast
  from rev_greatest [OF badger_okD(1) [OF ok] this] obtain rest where
    keys: "bdg_KeysRev B (st_db s') (checkpointKey n) = checkpointKey n # rest"
    using badger_okD(5) [OF ok] by metis
  have "bdg_Value B (st_db s') (checkpointKey n) = Some body" using reads v by (simp add: badger_reads_def)
  then show ?thesis by (simp add: GetCheckpoint_def keys) (simp add: checkpointKey_def)
qed

lemma validate_verified:
  "validateWitnessSig C c sig ws = None \<Longrightarrow>
     (\<exists>w\<in>set ws. wi_ID w = ws_WitnessID sig \<and> wi_PublicKey w = ws_PublicKey sig)
     \<and> ed25519_Verify C (ws_PublicKey sig) (CanonicalForWitness c) (ws_Signature sig)"
  by (cases "find (\<lambda>w. wi_ID w = ws_WitnessID sig) ws")
    (auto simp: validateWitnessSig_def find_Some_iff Let_def split: if_split_asm)

text \<open>The countersignatures that \<open>gather\<close> adds are valid, and it changes nothing else.\<close>

definition good_sig :: "crypto \<Rightarrow> Witness list \<Rightarrow> bytes \<Rightarrow> WitnessSig option \<Rightarrow> bool" where
  "good_sig C ws msg o' \<longleftrightarrow> (\<exists>sig. o' = Some sig
     \<and> (\<exists>w\<in>set ws. wi_ID w = ws_WitnessID sig \<and> wi_PublicKey w = ws_PublicKey sig)
     \<and> ed25519_Verify C (ws_PublicKey sig) msg (ws_Signature sig))"

lemma gather_sound:
  "gather C ws rs c st = Some (c', st') \<Longrightarrow>
     \<exists>sigs. c' = c\<lparr>cp_Witnesses := cp_Witnesses c @ sigs\<rparr> \<and> (\<forall>o'\<in>set sigs. good_sig C ws (CanonicalForWitness c) o')"
proof (induction rs arbitrary: c st)
  case Nil
  then show ?case by (intro exI [of _ "[]"]) simp
next
  case (Cons r rs)
  obtain i x where r: "r = (i, x)" by force
  show ?case
  proof (cases x)
    case (Inl e)
    with Cons r show ?thesis by simp
  next
    case (Inr sig)
    show ?thesis
    proof (cases "validateWitnessSig C c sig ws")
      case None
      with Cons.IH [of "c\<lparr>cp_Witnesses := cp_Witnesses c @ [Some sig]\<rparr>"] Cons.prems r Inr obtain sigs where
        "c' = c\<lparr>cp_Witnesses := cp_Witnesses c @ Some sig # sigs\<rparr>"
        "\<forall>o'\<in>set sigs. good_sig C ws (CanonicalForWitness c) o'" by auto
      moreover have "good_sig C ws (CanonicalForWitness c) (Some sig)"
        using validate_verified [OF None] by (simp add: good_sig_def)
      ultimately show ?thesis by (intro exI [of _ "Some sig # sigs"]) simp
    next
      case (Some err)
      with Cons r Inr show ?thesis by (cases err) auto
    qed
  qed
qed

lemma Gather_sound:
  assumes "GatherWitnessSignatures P replies l c = Some (c', st)" "cp_Witnesses c = []"
  shows "\<exists>sigs. c' = c\<lparr>cp_Witnesses := sigs\<rparr>
    \<and> (\<forall>o'\<in>set sigs. good_sig (sys_crypto P) (fst (core_ListWitnesses P l)) (CanonicalForWitness c) o')"
proof -
  obtain ws r where lw: "core_ListWitnesses P l = (ws, r)" by force
  have "c\<lparr>cp_Witnesses := []\<rparr> = c" using assms(2) by simp
  with gather_sound [of "sys_crypto P" ws "replies ws c" c Map.empty c' st] assms lw show ?thesis
    by (auto simp: GatherWitnessSignatures_def split: option.split_asm if_split_asm intro: exI [of _ "[]"])
qed

lemma CheckpointCtx_Inr:
  assumes "CheckpointCtx P w hook nowSec now replies l = (l', Inr c)"
  obtains root head c0 st body s where "core_Root P l = Inr root" "HeadHash (sys_db P) (lg_store l) = Inr head"
    "cp_Sign (sys_crypto P) (sys_keys P) w now (lg_signer l) (core_Size P l) root head (fetch_beacon hook) = Inr c0"
    "GatherWitnessSignatures P replies l c0 = Some (c, st)" "sys_wire_checkpoint P c = Some body"
    "SaveCheckpoint (sys_db P) (lg_store l) (cp_Size c) body = (s, None)" "l' = with_store l s"
  using assms
  by (auto simp: CheckpointCtx_def Let_def split: sum.split_asm if_split_asm option.split_asm prod.split_asm)

lemma CheckpointCtx_latest:
  assumes "sys_ok P view rep" "log_inv P view rep l es" "es \<noteq> []" "cp_Size c = of_nat (length es)"
    and codec: "\<And>c b. sys_wire_checkpoint P c = Some b \<Longrightarrow> b \<noteq> [] \<and> sys_unwire_checkpoint P b = Some c"
    and ctx: "CheckpointCtx P w hook nowSec now replies l = (l', Inr c)"
  shows "log_inv P view rep l' es" "core_LatestCheckpoint P l' = Inr (Some c)"
proof -
  obtain body s' where body: "sys_wire_checkpoint P c = Some body"
    and save: "SaveCheckpoint (sys_db P) (lg_store l) (cp_Size c) body = (s', None)" and l': "l' = with_store l s'"
    by (rule CheckpointCtx_Inr [OF ctx])
  show inv': "log_inv P view rep l' es"
    using log_inv_side [OF assms(2) side_ops(4) [OF sys_okD(1) [OF assms(1)], of "lg_store l" "cp_Size c" body]] save l' by simp
  have "st_Size (sys_db P) s' = Inr (of_nat (length es))"
    using reads_live(1) [OF sys_okD(2) [OF assms(1)] _ log_inv_head [OF inv'], of "sys_wire P" "st_db s'"] inv' l'
    by (simp add: st_Size_def log_inv_def)
  moreover have "(of_nat (length es) :: u64) \<noteq> 0"
    using of_nat_eq_u64 [of "length es" 0] assms(2,3) by (simp add: log_inv_def)
  moreover have "GetCheckpoint (sys_db P) s' (of_nat (length es)) = Inr (body, of_nat (length es))"
    using GetCheckpoint_saved [OF sys_okD(1,2) [OF assms(1)] save] assms(4) by simp
  ultimately show "core_LatestCheckpoint P l' = Inr (Some c)"
    using codec [OF body] l' by (simp add: core_LatestCheckpoint_def st_LatestCheckpoint_def)
qed

lemma cp_Sign_destroyed:
  assumes "signer_run C d hybrid w0 rs w s" "file_wf C hybrid w0"
    and "cp_Sign C (file_store C d hybrid) w now (cp_NewSigner s) sz root head beacon = Inr c"
  shows "all_destroyed rs"
proof -
  have "\<exists>m r. sg_Sign (file_store C d hybrid) w s m = Inr r"
    using assms(3) by (auto simp: cp_Sign_def cp_NewSigner_def Let_def split: sum.split_asm)
  with sign_all_destroyed [OF assms(1,2)] show ?thesis by blast
qed

text \<open>
  C15.  A checkpoint commits to the log it was taken of.  Take an operator that signs alone (no
  threshold group) with a file-backed signer, in any state that rotations can leave it in as long as
  their clock did not step back.  When \<open>CheckpointCtx\<close> succeeds on a log that stands for \<open>es\<close>, the
  checkpoint carries the number of entries, the RFC 6962 root of their leaf hashes and the hash of
  the last entry; it verifies against the signer's chain; every countersignature in it has a valid
  Ed25519 signature of a registered witness (its ML-DSA half is not looked at, see \<open>validateWitnessSig\<close>);
  the entries are unchanged; and, unless the log is empty, \<open>LatestCheckpoint\<close> on the resulting log
  returns this checkpoint.
\<close>

theorem checkpoint_commits_to_log:
  assumes "sys_ok P view rep" and "log_inv P view rep l es"
    and "sys_crypto P = C" and "sys_keys P = file_store C d hybrid" and "lg_signer l = cp_NewSigner s"
    and "file_wf C hybrid w0" and "signer_run C d hybrid w0 rs w s" and "length (ch_Certs (sg_chain s)) \<le> 2 ^ 64"
    and "\<And>c b. sys_wire_checkpoint P c = Some b \<Longrightarrow> b \<noteq> [] \<and> sys_unwire_checkpoint P b = Some c"
    and "CheckpointCtx P w hook nowSec now replies l = (l', Inr c)" and "clock_ok (ch_Certs (sg_chain s))"
  shows "cp_Size c = of_nat (length es) \<and> cp_RootHash c = MTH (sys_hasher P) (map ent_LeafHash es)
    \<and> cp_HeadHash c = head_of es
    \<and> cp_Verify C c (Some (sg_chain s)) (RootPublicKey (sg_chain s)) None = None
    \<and> (\<forall>o'\<in>set (cp_Witnesses c). good_sig C (fst (core_ListWitnesses P l)) (CanonicalForWitness c) o')
    \<and> log_inv P view rep l' es \<and> (es \<noteq> [] \<longrightarrow> core_LatestCheckpoint P l' = Inr (Some c))"
proof -
  obtain root head c0 st body s' where r: "core_Root P l = Inr root" "HeadHash (sys_db P) (lg_store l) = Inr head"
    and sg: "cp_Sign (sys_crypto P) (sys_keys P) w now (lg_signer l) (core_Size P l) root head (fetch_beacon hook) = Inr c0"
    and g: "GatherWitnessSignatures P replies l c0 = Some (c, st)" and body: "sys_wire_checkpoint P c = Some body"
    and save: "SaveCheckpoint (sys_db P) (lg_store l) (cp_Size c) body = (s', None)" and l': "l' = with_store l s'"
    by (rule CheckpointCtx_Inr [OF assms(10)])
  have root: "root = MTH (sys_hasher P) (map ent_LeafHash es)" and head: "head = head_of es"
    using core_Root_inv [OF assms(1,2)] r(1) HeadHash_log [OF assms(1,2)] r(2) by (simp_all add: MTH.simps split: if_split_asm)
  have wf: "file_wf C hybrid w" and inv: "signer_inv C (file_store C d hybrid) (file_usable C) w s"
    using signer_run_inv [OF assms(7,6) cp_Sign_destroyed [OF assms(7,6) sg [unfolded assms(3,4,5)]] assms(11)] by auto
  have c0: "cp_Size c0 = core_Size P l" "cp_RootHash c0 = root" "cp_HeadHash c0 = head" "cp_Witnesses c0 = []"
    "cp_Verify C c0 (Some (sg_chain s)) (RootPublicKey (sg_chain s)) None = None"
    using file_ks.cp_Sign_accepted [OF wf inv inv, of "[]" now "core_Size P l" root head "fetch_beacon hook" None]
      sg assms(3,4,5,8) by auto
  obtain sigs where c: "c = c0\<lparr>cp_Witnesses := sigs\<rparr>"
    and good: "\<forall>o'\<in>set sigs. good_sig C (fst (core_ListWitnesses P l)) (CanonicalForWitness c0) o'"
    using Gather_sound [OF g c0(4)] assms(3) by auto
  have inv': "log_inv P view rep l' es"
    using log_inv_side [OF assms(2) side_ops(4) [OF sys_okD(1) [OF assms(1)], of "lg_store l" "cp_Size c" body]] save l' by simp
  have sz: "core_Size P l = of_nat (length es)" using log_inv_Size [OF assms(1,2)] by (simp add: core_Size_def)
  have "core_LatestCheckpoint P l' = Inr (Some c)" if "es \<noteq> []"
    using CheckpointCtx_latest(2) [OF assms(1,2) that _ assms(9,10)] c c0(1) sz by simp
  with c c0 good inv' sz root head show ?thesis by simp
qed

section \<open>A concrete instance\<close>

text \<open>
  A database kept as an association list, JSON encodings that know one entry, one producer and one
  checkpoint, and the concrete scheme, hasher and Merkle library of the other components.  They
  satisfy what is assumed of the surroundings; they are not part of the program.  \<open>ok\<close> says which
  transactions commit.
\<close>

fun sample_write :: "db_write \<Rightarrow> (bytes \<times> bytes) list \<Rightarrow> (bytes \<times> bytes) list" where
  "sample_write (WSet k v) d = (k, v) # d"
| "sample_write (WSetTTL k v t) d = (k, v) # d"
| "sample_write (WDelete k) d = filter (\<lambda>p. fst p \<noteq> k) d"

definition sample_badger :: "(db_write list \<Rightarrow> bool) \<Rightarrow> (bytes \<times> bytes) list badger" where
  "sample_badger ok =
     \<lparr>bdg_Open = (\<lambda>_. Some []), bdg_Get = (\<lambda>d k. Inr (k \<in> dom (map_of d))),
      bdg_Keys = (\<lambda>d k. filter (\<lambda>k'. k \<le> k') (sorted_list_of_set (dom (map_of d)))),
      bdg_KeysRev = (\<lambda>d k. rev (filter (\<lambda>k'. k' \<le> k) (sorted_list_of_set (dom (map_of d))))),
      bdg_Value = map_of,
      bdg_Commit = (\<lambda>d ws. if ok ws then (fold sample_write ws d, True) else (d, False))\<rparr>"

lemma map_of_filter_ne: "map_of (filter (\<lambda>p. fst p \<noteq> k) d) = (map_of d)(k := None)"
  by (induction d) (auto simp: fun_eq_iff)

lemma map_of_sample_write: "map_of (sample_write w d) = apply_write w (map_of d)"
  by (cases w) (simp_all add: map_of_filter_ne)

lemma map_of_sample_writes: "map_of (fold sample_write ws d) = fold apply_write ws (map_of d)"
  by (induction ws arbitrary: d) (simp_all add: map_of_sample_write)

lemma sample_badger_ok: "badger_ok (sample_badger ok) map_of" "badger_reads (sample_badger ok) map_of"
  by (auto simp: badger_ok_def badger_reads_def sample_badger_def finite_dom_map_of map_of_sample_writes split: if_splits)

definition sample_entry :: Entry where
  "sample_entry = ent_New rfc6962 9 0 None (Some sample_signed) False"

definition sample_reg :: Producer where
  "sample_reg = sample_producer\<lparr>pr_ID := ''p1'', pr_PublicKey := replicate 32 1, pr_QuantumPublicKey := replicate 1952 2\<rparr>"

definition sample_wire :: "Producer \<Rightarrow> wire" where
  "sample_wire pr =
     \<lparr>wire_entry = (\<lambda>e. if e = sample_entry then Some [1] else None),
      unwire_entry = (\<lambda>b. if b = [1] then Some (sample_entry, False, False) else None),
      wire_producer = (\<lambda>p. if p = pr then Some [2] else None),
      unwire_producer = (\<lambda>b. if b = [2] then Some pr else None),
      wire_witness = (\<lambda>w. None), unwire_witness = (\<lambda>b. None)\<rparr>"

definition sample_sys ::
    "(db_write list \<Rightarrow> bool) \<Rightarrow> Producer \<Rightarrow> Checkpoint option \<Rightarrow> ((bytes \<times> bytes) list, bytes list, NodeID list, FileWorld, nat) sys" where
  "sample_sys ok pr co =
     \<lparr>sys_db = sample_badger ok, sys_wire = sample_wire pr, sys_lib = sample_tdlib, sys_hasher = rfc6962,
      sys_crypto = sample_crypto, sys_keys = sample_store False,
      sys_wire_checkpoint = (\<lambda>c. if Some c = co then Some [3] else None),
      sys_unwire_checkpoint = (\<lambda>b. if b = [3] then co else None), sys_wire_record = (\<lambda>r. None)\<rparr>"

lemma sample_sys_sel [simp]:
  "sys_db (sample_sys ok pr co) = sample_badger ok" "sys_wire (sample_sys ok pr co) = sample_wire pr"
  "sys_lib (sample_sys ok pr co) = sample_tdlib" "sys_hasher (sample_sys ok pr co) = rfc6962"
  "sys_crypto (sample_sys ok pr co) = sample_crypto" "sys_keys (sample_sys ok pr co) = sample_store False"
  by (simp_all add: sample_sys_def)

lemma sample_sys_ok: "sys_ok (sample_sys ok pr co) map_of (\<lambda>r ls. r = ls)"
  by (simp add: sys_ok_def sample_badger_ok sample_tdlib_ok sample_tdlib_nodes_ok) (simp add: rfc6962_def)

lemma sample_wires: "env_wires (sample_wire pr) env" 
  by (simp add: env_wires_def entry_wires_def sample_wire_def Unmarshal_def)

subsection \<open>A log with one entry\<close>

type_synonym sample_log = "((bytes \<times> bytes) list, bytes list, nat) Log"

definition sample_s0 :: "(bytes \<times> bytes) list Store" where
  "sample_s0 = \<lparr>st_db = [], st_replayTTL = 0\<rparr>"

definition sample_opts :: "((bytes \<times> bytes) list, nat) Options" where
  "sample_opts = \<lparr>opt_Store = Some sample_s0, opt_Signer = Some (cp_NewSigner (snd sample_run0)),
     opt_RequireEnrollment = False, opt_MerkleCacheNodes = 1, opt_MerkleLeafCacheNodes = 1\<rparr>"

lemma sample_fresh: "fresh_store map_of sample_s0"
  by (simp add: fresh_store_def sample_s0_def)

definition sample_log0 :: "(db_write list \<Rightarrow> bool) \<Rightarrow> Producer \<Rightarrow> Checkpoint option \<Rightarrow> sample_log" where
  "sample_log0 ok pr co = projr (core_New (sample_sys ok pr co) (\<lambda>_. False) sample_opts)"

lemma sample_New:
  "core_New (sample_sys ok pr co) (\<lambda>_. False) sample_opts = Inr (sample_log0 ok pr co)" (is ?new)
  "lg_store (sample_log0 ok pr co) = sample_s0" "lg_pending (sample_log0 ok pr co) = Map.empty"
  "lg_signer (sample_log0 ok pr co) = cp_NewSigner (snd sample_run0)" "\<not> lg_requireEnrollment (sample_log0 ok pr co)"
proof -
  have o: "opt_Store sample_opts = Some sample_s0" "opt_Signer sample_opts = Some (cp_NewSigner (snd sample_run0))"
    "opt_RequireEnrollment sample_opts = False" by (simp_all add: sample_opts_def)
  have "map_of (st_db sample_s0) = Map.empty" "st_replayTTL sample_s0 = 0" by (simp_all add: sample_s0_def)
  with core_New_reopens [where cancelled = "\<lambda>_. False", OF sample_sys_ok [of ok pr co] _ _ _ _ _ _ o(1,2), of "[]"]
  obtain l where l: "core_New (sample_sys ok pr co) (\<lambda>_. False) sample_opts = Inr l" "lg_store l = sample_s0"
    "lg_pending l = Map.empty" "lg_signer l = cp_NewSigner (snd sample_run0)" "\<not> lg_requireEnrollment l"
    using o(3) by (auto simp: holds_log_empty mirror_full_def env_replayed_def)
  then have "sample_log0 ok pr co = l" by (simp add: sample_log0_def)
  with l show ?new "lg_store (sample_log0 ok pr co) = sample_s0" "lg_pending (sample_log0 ok pr co) = Map.empty"
    "lg_signer (sample_log0 ok pr co) = cp_NewSigner (snd sample_run0)" "\<not> lg_requireEnrollment (sample_log0 ok pr co)"
    by simp_all
qed

lemma sample_run_log0: "core_run (sample_sys ok pr co) sample_s0 (sample_log0 ok pr co) []"
  by (rule core_run.start [OF sample_New(1)]) (simp_all add: sample_opts_def)

definition sample_s1 :: "(bytes \<times> bytes) list Store" where
  "sample_s1 = \<lparr>st_db = [(producerKey ''p1'', [2])], st_replayTTL = 0\<rparr>"

definition sample_log1 :: "(db_write list \<Rightarrow> bool) \<Rightarrow> Checkpoint option \<Rightarrow> sample_log" where
  "sample_log1 ok co = with_store (sample_log0 ok sample_reg co) sample_s1"

lemma sample_register:
  assumes "\<And>w. ok [w]"
  shows "core_RegisterProducer (sample_sys ok sample_reg co) 1 (sample_log0 ok sample_reg co) (Some sample_reg)
    = (sample_log1 ok co, None)"
proof -
  have r: "pr_ID sample_reg = ''p1''" "pr_RegisteredAt sample_reg = 1" "length (pr_PublicKey sample_reg) = 32"
    by (simp_all add: sample_reg_def sample_producer_def)
  have "RegisterProducer (sample_badger ok) (sample_wire sample_reg) 1 sample_s0 (Some sample_reg) = (sample_s1, Some sample_reg, None)"
    using assms by (simp add: RegisterProducer_def r key_sizes sample_wire_def commit_def sample_badger_def sample_s0_def sample_s1_def)
  then show ?thesis by (simp add: core_RegisterProducer_def sample_New(2) sample_log1_def)
qed

lemma sample_run_log1: "(\<And>w. ok [w]) \<Longrightarrow> core_run (sample_sys ok sample_reg co) sample_s0 (sample_log1 ok co) []"
  by (rule core_run.step [OF sample_run_log0 core_step.register_producer [OF sample_register]])

lemmas sample_inv_log1 = core_run_inv [OF sample_run_log1 sample_sys_ok sample_fresh, simplified]

lemma sample_admit: "admit (sample_sys ok sample_reg co) 2 (sample_log1 ok co) sample_signed = None"
proof -
  have "GetProducer (sample_badger ok) (sample_wire sample_reg) sample_s1 ''p1'' = Inr sample_reg"
    by (simp add: GetProducer_def fetch_def sample_badger_def sample_s1_def sample_wire_def)
  moreover have "\<not> pr_Revoked sample_reg" "pr_PublicKey sample_reg = replicate 32 1"
    "pr_QuantumPublicKey sample_reg = replicate 1952 2" by (simp_all add: sample_reg_def sample_producer_def)
  ultimately show ?thesis
    by (simp add: admit_None sample_log1_def sample_signed_fields sample_signed_verifies sample_New(5))
qed

lemma sample_unseen: "map_of (st_db (lg_store (sample_log1 ok co))) (replayKey h) = None"
  by (simp add: sample_log1_def sample_s1_def key_defs)

lemma sample_encodes:
  "wire_entry (sample_wire pr) (ent_New rfc6962 9 0 (prev_entry 0 (head_of [])) (Some sample_signed) False) \<noteq> None"
  by (simp add: sample_wire_def sample_entry_def prev_entry_def)

abbreviation sample_P :: "Checkpoint option \<Rightarrow> ((bytes \<times> bytes) list, bytes list, NodeID list, FileWorld, nat) sys" where
  "sample_P \<equiv> sample_sys (\<lambda>_. True) sample_reg"

definition sample_log2 :: "Checkpoint option \<Rightarrow> sample_log" where
  "sample_log2 co = fst (AppendCtx (sample_P co) 2 9 (sample_log1 (\<lambda>_. True) co) (Some sample_signed) False)"

lemma sample_commits: "badger_commits (sample_badger (\<lambda>_. True))"
  by (simp add: badger_commits_def sample_badger_def)

lemma sample_append:
  "AppendCtx (sample_P co) 2 9 (sample_log1 (\<lambda>_. True) co) (Some sample_signed) False = (sample_log2 co, Inr sample_entry)"
proof -
  note inv = sample_inv_log1 [of "\<lambda>_. True" co, simplified]
  from AppendCtx_live [OF sample_sys_ok inv, of sample_signed 2 9 False]
  obtain l e where l: "AppendCtx (sample_P co) 2 9 (sample_log1 (\<lambda>_. True) co) (Some sample_signed) False = (l, Inr e)"
    using sample_wires sample_commits sample_admit sample_unseen sample_encodes [of sample_reg] by auto
  with AppendCtx_inv [OF sample_sys_ok inv _ _ l] sample_wires have "e = sample_entry"
    by (simp add: sample_entry_def prev_entry_def)
  with l show ?thesis by (simp add: sample_log2_def)
qed

lemma ttl_kept:
  "st_replayTTL (fst (commit B s ws)) = st_replayTTL s"
  "st_replayTTL (fst (CheckAndRecordEnvelope B s h i)) = st_replayTTL s"
  "st_replayTTL (fst (AppendEntry B W s e)) = st_replayTTL s"
  by (auto simp: commit_def CheckAndRecordEnvelope_def AppendEntry_def Let_def
      split: prod.splits sum.splits option.splits bool.splits)

lemma AppendCtx_ttl:
  assumes "AppendCtx P now enow l (Some env) hp = (l', r)"
  shows "st_replayTTL (lg_store l') = st_replayTTL (lg_store l)"
proof -
  have c: "st_replayTTL s = st_replayTTL (lg_store l)" if "CheckAndRecordEnvelope B (lg_store l) h i = (s, x)" for B h i s x
    using that ttl_kept(2) [of B "lg_store l" h i] by simp
  have a: "st_replayTTL s = st_replayTTL s'" if "AppendEntry B W s' e = (s, x)" for B W e s s' x
    using that ttl_kept(3) [of B W s' e] by simp
  show ?thesis using assms
    by (auto simp: AppendCtx_def Let_def dest!: c a AppendLeafHash_store
        split: option.split_asm prod.split_asm sum.split_asm)
qed

lemma sample_keeps: "keeps_replays (lg_store (sample_log1 ok co))" "keeps_replays (lg_store (sample_log2 co))"
proof -
  show "keeps_replays (lg_store (sample_log1 ok co))" for ok co by (simp add: sample_log1_def sample_s1_def)
  with AppendCtx_ttl [OF sample_append] show "keeps_replays (lg_store (sample_log2 co))" by simp
qed

lemma sample_run_log2: "core_run (sample_P co) sample_s0 (sample_log2 co) [sample_entry]"
  using core_run.step [OF sample_run_log1 core_step.append_ok [OF _ sample_append]] sample_wires by simp

lemmas sample_inv_log2 = core_run_inv [OF sample_run_log2 sample_sys_ok sample_fresh, simplified]

subsection \<open>Witnesses\<close>

theorem log_always_consistent_witness:
  "core_Size (sample_P None) (sample_log2 None) = 1
   \<and> core_Root (sample_P None) (sample_log2 None) = Inr (MTH rfc6962 [ent_LeafHash sample_entry])
   \<and> core_Get (sample_P None) (sample_log2 None) 0 = Inr sample_entry"
  using log_always_consistent [OF sample_sys_ok sample_fresh sample_run_log2 [of None]] by simp

theorem served_entries_well_typed_witness:
  "core_Get (sample_P None) (sample_log2 None) 0 = Inr sample_entry \<and> entry_typed 0 sample_entry"
proof -
  have g: "core_Get (sample_P None) (sample_log2 None) 0 = Inr sample_entry"
    using core_Get_inv [OF sample_sys_ok sample_inv_log2 [of None], of 0] by simp
  with served_entries_well_typed [OF sample_sys_ok sample_fresh sample_run_log2 [of None] _ g] show ?thesis by simp
qed

theorem append_refines_witness:
  "ent_Index sample_entry = 0 \<and> ent_PrevHash sample_entry = ZeroHash
   \<and> log_inv (sample_P None) map_of (\<lambda>r ls. r = ls) (sample_log2 None) ([] @ [sample_entry])"
  using append_refines [OF sample_sys_ok sample_inv_log1 _ _ sample_append [of None]] sample_wires
  by (simp add: head_of_def)

theorem replayed_envelope_refused_witness:
  "\<exists>l' err. AppendCtx (sample_P None) 3 10 (sample_log2 None) (Some sample_signed) False = (l', Inl err)
     \<and> log_inv (sample_P None) map_of (\<lambda>r ls. r = ls) l' [sample_entry]"
  using replayed_envelope_refused [OF sample_sys_ok sample_fresh sample_run_log2 [of None], of sample_entry sample_signed 3 10 False]
    sample_wires sample_keeps(2) by (simp add: sample_entry_def)

theorem append_only_authorised_witness:
  "GetProducer (sample_badger (\<lambda>_. True)) (sample_wire sample_reg) (lg_store (sample_log1 (\<lambda>_. True) None)) ''p1'' = Inr sample_reg
   \<and> ed_verify sample_crypto (pr_PublicKey sample_reg) (env_Canonical sample_signed) (env_Signature sample_signed)
   \<and> d3_verify sample_crypto (replicate 1952 2) (env_Canonical sample_signed) (env_QuantumSignature sample_signed)"
proof -
  have "GetProducer (sample_badger (\<lambda>_. True)) (sample_wire sample_reg) (lg_store (sample_log1 (\<lambda>_. True) None)) ''p1'' = Inr sample_reg"
    by (simp add: GetProducer_def fetch_def sample_badger_def sample_log1_def sample_s1_def sample_wire_def)
  moreover have "pr_QuantumPublicKey sample_reg = replicate 1952 2" by (simp add: sample_reg_def)
  ultimately show ?thesis
    using append_only_authorised [OF sample_append [of None]] by (simp add: sample_signed_fields)
qed

theorem append_succeeds_witness:
  "\<exists>l' e. AppendCtx (sample_P None) 2 9 (sample_log1 (\<lambda>_. True) None) (Some sample_signed) False = (l', Inr e)
     \<and> core_Get (sample_P None) l' 0 = Inr e \<and> core_Size (sample_P None) l' = 1"
proof -
  have "core_Size (sample_P None) (sample_log1 (\<lambda>_. True) None) = 0"
    using log_inv_Size [OF sample_sys_ok sample_inv_log1] by (simp add: core_Size_def)
  then show ?thesis
    using append_succeeds [OF sample_sys_ok sample_fresh sample_run_log1, of "\<lambda>_. True" None sample_signed 2 9 False]
      sample_wires sample_commits sample_admit sample_unseen sample_encodes [of sample_reg] by simp
qed

text \<open>A database on which no transaction of more than one write commits.\<close>

theorem failed_append_burns_envelope_witness:
  "\<exists>l' err. AppendCtx (sample_sys (\<lambda>ws. length ws = 1) sample_reg None) 2 9 (sample_log1 (\<lambda>ws. length ws = 1) None)
       (Some sample_signed) False = (l', Inl err)
     \<and> log_inv (sample_sys (\<lambda>ws. length ws = 1) sample_reg None) map_of (\<lambda>r ls. r = ls) l' []"
proof -
  let ?ok = "\<lambda>ws :: db_write list. length ws = 1"
  have "snd (AppendEntry (sample_badger ?ok) (sample_wire sample_reg) s e) \<noteq> None" for s e
    by (auto simp: AppendEntry_def commit_def sample_badger_def split: sum.splits option.splits bool.splits)
  moreover have "snd (commit (sample_badger ?ok) s [w]) = None" for s w
    by (simp add: commit_def sample_badger_def)
  then have "snd (CheckAndRecordEnvelope (sample_badger ?ok) (lg_store (sample_log1 ?ok None)) (env_Hash sample_signed) 0) = None"
    using sample_unseen [of ?ok None "env_Hash sample_signed"] sample_sys_ok [of ?ok sample_reg None]
    by (simp add: CheckAndRecordEnvelope_def sys_ok_def badger_reads_def domIff Let_def)
  ultimately show ?thesis
    using failed_append_burns_envelope [OF sample_sys_ok sample_inv_log1 [of ?ok None], of sample_signed 2 9 False]
      sample_wires sample_admit [of ?ok None] sample_keeps(1) [of ?ok None] by auto
qed

theorem restart_recovers_witness:
  "\<exists>l'. core_New (sample_P None) (\<lambda>_. False) (sample_opts\<lparr>opt_Store := Some (lg_store (sample_log2 None))\<rparr>) = Inr l'
     \<and> core_Size (sample_P None) l' = 1"
proof -
  have "core_Size (sample_P None) (sample_log2 None) = 1"
    using log_inv_Size [OF sample_sys_ok sample_inv_log2] by (simp add: core_Size_def)
  then show ?thesis
    using restart_recovers [OF sample_sys_ok sample_fresh sample_run_log2 [of None], where cancelled = "\<lambda>_. False"
        and opts = "sample_opts\<lparr>opt_Store := Some (lg_store (sample_log2 None))\<rparr>"]
    by (auto simp: sample_opts_def)
qed

text \<open>The database of a log with one entry.\<close>

definition sample_db :: "(bytes \<times> bytes) list" where
  "sample_db = [(keyMetaSize, be64 1), (keyMetaHead, ent_EntryHash sample_entry), (entryKey 0, [1]),
     (leafKey 0, ent_LeafHash sample_entry), (replayKey (env_Hash sample_signed), be64 0)]"

lemma sample_db_log:
  "holds_log (sample_wire pr) (map_of sample_db) [sample_entry]" "mirror_full (map_of sample_db) [sample_entry]"
  "env_replayed (map_of sample_db) [sample_entry]"
proof -
  have ne: "replayKey h \<noteq> entryKey 0" "replayKey h \<noteq> leafKey 0" "replayKey h \<noteq> keyMetaSize" "replayKey h \<noteq> keyMetaHead" for h
    by (simp_all add: key_defs)
  have wire: "Unmarshal (unwire_entry (sample_wire pr)) [1] = Inr sample_entry"
    by (simp add: Unmarshal_def sample_wire_def)
  show "holds_log (sample_wire pr) (map_of sample_db) [sample_entry]"
    using wire by (auto simp: holds_log_def sample_db_def split: if_splits)
  show "mirror_full (map_of sample_db) [sample_entry]" by (simp add: mirror_full_def sample_db_def)
  show "env_replayed (map_of sample_db) [sample_entry]"
    using ne by (simp add: env_replayed_def sample_db_def sample_entry_def env_hash_of_def)
qed

lemma sample_keys_few: "length (bdg_Keys (sample_badger ok) sample_db k) \<le> 2 ^ 63"
proof -
  have "length (sorted_list_of_set (dom (map_of sample_db))) \<le> length sample_db"
    using card_image_le [of "set sample_db" fst] card_length [of sample_db]
    by (simp add: dom_map_of_conv_image_fst del: card_image_le)
  then show ?thesis
    using length_filter_le [of "\<lambda>k'. k \<le> k'" "sorted_list_of_set (dom (map_of sample_db))"]
    by (simp add: sample_badger_def) (simp add: sample_db_def)
qed

theorem replay_sound_witness:
  "\<exists>l es. core_New (sample_P None) (\<lambda>_. False) (sample_opts\<lparr>opt_Store := Some \<lparr>st_db = sample_db, st_replayTTL = 0\<rparr>\<rparr>) = Inr l
     \<and> entries.chained sample_crypto rfc6962 None es \<and> core_Size (sample_P None) l = 1 \<and> length es mod 2 ^ 64 = 1
     \<and> core_Root (sample_P None) l = Inr (MTH rfc6962 (map ent_LeafHash es))"
proof -
  let ?s = "\<lparr>st_db = sample_db, st_replayTTL = 0\<rparr>" and ?P = "sample_P None"
  let ?o = "sample_opts\<lparr>opt_Store := Some ?s\<rparr>"
  have o: "opt_Store ?o = Some ?s" "opt_Signer ?o = Some (cp_NewSigner (snd sample_run0))" by (simp_all add: sample_opts_def)
  have ch: "entries.chained sample_crypto rfc6962 None [sample_entry]"
    using sample_inv_log2 [of None] by (simp add: log_inv_def)
  obtain l where l: "core_New ?P (\<lambda>_. False) ?o = Inr l" "log_inv ?P map_of (\<lambda>r ls. r = ls) l [sample_entry]"
    using core_New_reopens [where cancelled = "\<lambda>_. False", OF sample_sys_ok [of "\<lambda>_. True" sample_reg None] _ _ _ _ _ _ o, of "[sample_entry]"]
      sample_db_log ch by auto
  have "length (bdg_Keys (sys_db ?P) (st_db ?s) (entryKey 0)) \<le> 2 ^ 63" using sample_keys_few by simp
  from replay_sound [OF _ l(1) o(1) this, of "\<lambda>r ls. r = ls"] sample_tdlib_ok obtain es where
    es: "entries.chained sample_crypto rfc6962 None es" "core_Size ?P l = of_nat (length es)"
    "core_Root ?P l = Inr (MTH rfc6962 (map ent_LeafHash es))" by auto
  have one: "core_Size ?P l = 1" using log_inv_Size [OF sample_sys_ok l(2)] by (simp add: core_Size_def)
  with es(2) have "unat (of_nat (length es) :: u64) = unat (1 :: u64)" by simp
  then have "length es mod 2 ^ 64 = 1" by (simp add: unat_of_nat)
  with l(1) es one show ?thesis by blast
qed

subsection \<open>A checkpoint of it\<close>

lemma AppendCtx_signer: "AppendCtx P now enow l eo hp = (l', r) \<Longrightarrow> lg_signer l' = lg_signer l"
  by (auto simp: AppendCtx_def Let_def split: option.split_asm prod.split_asm sum.split_asm)

lemma sample_log2_signer: "lg_signer (sample_log2 co) = cp_NewSigner (snd sample_run0)"
  using AppendCtx_signer [OF sample_append [of co]] by (simp add: sample_log1_def sample_New(4))

definition sample_cp :: Checkpoint where
  "sample_cp = projr (cp_Sign sample_crypto (sample_store False) (fst sample_run0) 300 (cp_NewSigner (snd sample_run0))
     1 (MTH rfc6962 [ent_LeafHash sample_entry]) (ent_EntryHash sample_entry) None)"

lemma sample_cp_signed:
  "cp_Sign sample_crypto (sample_store False) (fst sample_run0) 300 (cp_NewSigner (snd sample_run0))
     1 (MTH rfc6962 [ent_LeafHash sample_entry]) (ent_EntryHash sample_entry) None = Inr sample_cp"
proof -
  obtain c where "cp_Sign sample_crypto (sample_store False) (fst sample_run0) 300 (cp_NewSigner (snd sample_run0))
      1 (MTH rfc6962 [ent_LeafHash sample_entry]) (ent_EntryHash sample_entry) None = Inr c"
    by (rule file_ks.cp_Sign_single [OF sample_run_wf [of False] sample_run_signer_inv [of False]])
  then show ?thesis unfolding sample_cp_def by (simp only: sum.sel)
qed

lemma no_witnesses: "list_items B d pre (\<lambda>b. None) fn ks acc = (acc, None) \<or> (\<exists>e. list_items B d pre (\<lambda>b. None) fn ks acc = (acc, Some e))"
  by (cases ks) (auto split: option.splits)

lemma sample_gather: "GatherWitnessSignatures (sample_sys ok pr co) replies l c = Some (c, Map.empty)"
  using no_witnesses [of "sample_badger ok" "st_db (lg_store l)" prefixWitness "\<lambda>out w. (out @ [w], None :: unit option)"
      "bdg_Keys (sample_badger ok) (st_db (lg_store l)) prefixWitness" "[] :: Witness list"]
  by (auto simp: GatherWitnessSignatures_def core_ListWitnesses_def ListWitnesses_def sample_wire_def)

lemma sample_checkpoint_ctx:
  "\<exists>l'. CheckpointCtx (sample_P (Some sample_cp)) (fst sample_run0) None 0 300 (\<lambda>_ _. []) (sample_log2 (Some sample_cp)) = (l', Inr sample_cp)"
proof -
  let ?P = "sample_P (Some sample_cp)" and ?l = "sample_log2 (Some sample_cp)"
  note inv = sample_inv_log2 [of "Some sample_cp"]
  have r: "core_Root ?P ?l = Inr (MTH rfc6962 [ent_LeafHash sample_entry])"
    using core_Root_inv [OF sample_sys_ok inv] by simp
  have h: "HeadHash (sample_badger (\<lambda>_. True)) (lg_store ?l) = Inr (ent_EntryHash sample_entry)"
    using HeadHash_log [OF sample_sys_ok inv] by (simp add: head_of_def)
  have z: "core_Size ?P ?l = 1" using log_inv_Size [OF sample_sys_ok inv] by (simp add: core_Size_def)
  have w: "sys_wire_checkpoint ?P sample_cp = Some [3]" by (simp add: sample_sys_def)
  have b: "fetch_beacon None = None" by (simp add: fetch_beacon_def)
  obtain s' where "SaveCheckpoint (sample_badger (\<lambda>_. True)) (lg_store ?l) (cp_Size sample_cp) [3] = (s', None)"
    using commit_live [OF sample_commits] unfolding SaveCheckpoint_def by (metis prod.collapse)
  with sample_cp_signed show ?thesis
    by (simp add: CheckpointCtx_def r h z w b sample_log2_signer sample_gather)
qed

lemma sample_codec: "sys_wire_checkpoint (sample_sys ok pr co) c = Some b \<Longrightarrow> b \<noteq> [] \<and> sys_unwire_checkpoint (sample_sys ok pr co) b = Some c"
  by (auto simp: sample_sys_def split: if_splits)

theorem checkpoint_commits_to_log_witness:
  "\<exists>l'. CheckpointCtx (sample_P (Some sample_cp)) (fst sample_run0) None 0 300 (\<lambda>_ _. []) (sample_log2 (Some sample_cp)) = (l', Inr sample_cp)
     \<and> cp_Size sample_cp = 1 \<and> cp_RootHash sample_cp = MTH rfc6962 [ent_LeafHash sample_entry]
     \<and> core_LatestCheckpoint (sample_P (Some sample_cp)) l' = Inr (Some sample_cp)"
proof -
  let ?P = "sample_P (Some sample_cp)"
  obtain l' where l': "CheckpointCtx ?P (fst sample_run0) None 0 300 (\<lambda>_ _. []) (sample_log2 (Some sample_cp)) = (l', Inr sample_cp)"
    using sample_checkpoint_ctx by blast
  have "length (ch_Certs (sg_chain (snd sample_run0))) \<le> 2 ^ 64" by (simp add: sample_checkpoint_signed(6))
  from checkpoint_commits_to_log [OF sample_sys_ok sample_inv_log2 [of "Some sample_cp"] _ _ sample_log2_signer sample_world_wf
      sample_signer_run this sample_codec l' sample_clock(2)] l' show ?thesis by auto
qed

subsection \<open>An enrollment\<close>

definition sample_req :: EnrollmentRequest where
  "sample_req = \<lparr>er_ID = ''p'', er_PublicKey = replicate 32 3, er_QuantumPublicKey = replicate 1952 4,
     er_AttestationType = ''software'', er_Description = [], er_Scope = ''logs'', er_Validity = 0\<rparr>"

definition sample_challenged :: Producer where
  "sample_challenged = new_producer sample_req 1 (ActiveEpoch (sg_chain (snd sample_run0))) (replicate 32 5)"

definition sample_consented :: Producer where
  "sample_consented = sample_challenged
     \<lparr>pr_ChallengeSignature := ed_sign sample_crypto (replicate 64 3) (ChallengeBytes sample_challenged),
      pr_QuantumChallengeSignature := d3_sign sample_crypto (replicate 1952 4) (ChallengeBytes sample_challenged)\<rparr>"

definition sample_signed_producer :: Producer where
  "sample_signed_producer = projr (operator_sign (sample_P None) (fst sample_run0) (snd sample_run0) sample_consented)"

abbreviation sample_Q :: "((bytes \<times> bytes) list, bytes list, NodeID list, FileWorld, nat) sys" where
  "sample_Q \<equiv> sample_sys (\<lambda>_. True) sample_signed_producer None"

lemma sample_operator_sign:
  "operator_sign sample_Q (fst sample_run0) (snd sample_run0) sample_consented = Inr sample_signed_producer"
proof -
  have "operator_sign sample_Q w s p = operator_sign (sample_P None) w s p" for w s p
    by (simp only: operator_sign_def sample_sys_sel)
  moreover have "pr_OperatorEpoch sample_consented = ActiveEpoch (sg_chain (snd sample_run0))"
    by (simp add: sample_consented_def sample_challenged_def new_producer_def)
  ultimately show ?thesis
    using file_ks.operator_sign_live [OF sample_run_wf [of False] sample_run_signer_inv [of False], of "sample_P None" sample_consented]
    by (auto simp: sample_signed_producer_def)
qed

lemma sample_consent: "VerifyConsent sample_crypto sample_consented = None"
proof -
  have "ChallengeBytes sample_consented = ChallengeBytes sample_challenged"
    by (rule ChallengeBytes_terms) (simp_all add: sample_consented_def pr_terms_def)
  then show ?thesis
    using ed_correctD(2) [OF sample_ed_correct [of "replicate 64 3"], of "ChallengeBytes sample_challenged"]
      d3_correctD(1,2) [OF sample_d3_correct [of "replicate 1952 4"], of "ChallengeBytes sample_challenged"]
      d3_correctD(4) [OF sample_d3_correct [of "replicate 1952 4"]]
    by (simp add: VerifyConsent_None)
      (simp add: sample_consented_def sample_challenged_def new_producer_def sample_req_def ed_Public_def)
qed

definition sample_pending :: sample_log where
  "sample_pending = fst (BeginEnrollment (Some [7]) (Some (replicate 32 5)) 1 1 (sample_log0 (\<lambda>_. True) sample_signed_producer None) sample_req)"

lemma sample_begin:
  "BeginEnrollment (Some [7]) (Some (replicate 32 5)) 1 1 (sample_log0 (\<lambda>_. True) sample_signed_producer None) sample_req
     = (sample_pending, Inr \<lparr>be_ChallengeID = hex [7], be_ChallengeBytes = ChallengeBytes sample_challenged,
          be_ExpiresAt = 1 + defaultChallengeTTL\<rparr>)"
  "lg_pending sample_pending (hex [7]) = Some \<lparr>pe_challengeID = [7], pe_prod = sample_challenged, pe_expiresAt = 1 + defaultChallengeTTL\<rparr>"
  "lg_store sample_pending = sample_s0" "lg_signer sample_pending = cp_NewSigner (snd sample_run0)"
proof -
  have "ChallengeBytes sample_challenged \<noteq> []"
    by (simp add: ChallengeBytes_def sample_challenged_def new_producer_def of_str_def)
  then have b: "BeginEnrollment (Some [7]) (Some (replicate 32 5)) 1 1 l sample_req
     = (l\<lparr>lg_pending := (lg_pending l)(hex [7] \<mapsto> \<lparr>pe_challengeID = [7], pe_prod = sample_challenged, pe_expiresAt = 1 + defaultChallengeTTL\<rparr>)\<rparr>,
        Inr \<lparr>be_ChallengeID = hex [7], be_ChallengeBytes = ChallengeBytes sample_challenged, be_ExpiresAt = 1 + defaultChallengeTTL\<rparr>)"
    if "lg_signer l = cp_NewSigner (snd sample_run0)" for l :: sample_log
    using that by (simp add: BeginEnrollment_def sample_challenged_def [symmetric] cp_NewSigner_def Let_def)
      (simp add: sample_req_def)
  note l = sample_New [of "\<lambda>_. True" sample_signed_producer None]
  show "BeginEnrollment (Some [7]) (Some (replicate 32 5)) 1 1 (sample_log0 (\<lambda>_. True) sample_signed_producer None) sample_req
     = (sample_pending, Inr \<lparr>be_ChallengeID = hex [7], be_ChallengeBytes = ChallengeBytes sample_challenged,
          be_ExpiresAt = 1 + defaultChallengeTTL\<rparr>)"
    "lg_pending sample_pending (hex [7]) = Some \<lparr>pe_challengeID = [7], pe_prod = sample_challenged, pe_expiresAt = 1 + defaultChallengeTTL\<rparr>"
    "lg_store sample_pending = sample_s0" "lg_signer sample_pending = cp_NewSigner (snd sample_run0)"
    using l by (simp_all add: sample_pending_def b [OF l(4)])
qed

lemma sample_confirm:
  "\<exists>l'. ConfirmEnrollment sample_Q (fst sample_run0) 2 2 sample_pending (hex [7])
       (pr_ChallengeSignature sample_consented) (pr_QuantumChallengeSignature sample_consented) = (l', Inr sample_signed_producer)"
proof -
  have q: "length (pr_QuantumPublicKey sample_challenged) = 1952" "length (pr_QuantumChallengeSignature sample_consented) = 3293"
    using d3_correctD(1) [OF sample_d3_correct [of "replicate 1952 4"], of "ChallengeBytes sample_challenged"]
    by (simp_all add: sample_consented_def sample_challenged_def new_producer_def sample_req_def)
  have c: "sample_challenged\<lparr>pr_ChallengeSignature := pr_ChallengeSignature sample_consented,
      pr_QuantumChallengeSignature := pr_QuantumChallengeSignature sample_consented\<rparr> = sample_consented"
    by (simp add: sample_consented_def)
  note t = operator_sign_terms(1) [OF sample_operator_sign]
  have r: "pr_ID sample_signed_producer \<noteq> []" "length (pr_PublicKey sample_signed_producer) = 32"
    using t by (simp_all add: pr_terms_def sample_consented_def sample_challenged_def new_producer_def sample_req_def)
  have reg: "\<exists>s. RegisterProducer (sample_badger (\<lambda>_. True)) (sample_wire sample_signed_producer) 2 s0 (Some sample_signed_producer)
      = (s, Some sample_signed_producer, None)" if "pr_RegisteredAt sample_signed_producer = 1" for s0
    using that r by (simp add: RegisterProducer_def key_sizes sample_wire_def commit_def sample_badger_def)
  have ra: "pr_RegisteredAt sample_signed_producer = 1"
    using operator_sign_terms(5) [OF sample_operator_sign]
    by (simp add: sample_consented_def sample_challenged_def new_producer_def)
  obtain s where s: "RegisterProducer (sample_badger (\<lambda>_. True)) (sample_wire sample_signed_producer) 2 sample_s0
      (Some sample_signed_producer) = (s, Some sample_signed_producer, None)" using reg [OF ra] by (rule exE)
  have e: "\<not> defaultChallengeTTL < 1" by (simp add: defaultChallengeTTL_def)
  have f: "csg_fws (cp_NewSigner (snd sample_run0)) = snd sample_run0" by (simp add: cp_NewSigner_def)
  have ne: "pr_QuantumPublicKey sample_challenged \<noteq> []" "pr_QuantumChallengeSignature sample_consented \<noteq> []"
    using q by auto
  define ch where "ch = hex [7]"
  show ?thesis unfolding ch_def [symmetric]
    by (simp add: ConfirmEnrollment_def sample_begin(2) [folded ch_def] sample_begin(3,4) ne c e f s sample_consent sample_operator_sign register_signed_def Let_def)
qed

theorem enrollment_ceremony_witness:
  "\<exists>l'. ConfirmEnrollment sample_Q (fst sample_run0) 2 2 sample_pending (hex [7])
       (pr_ChallengeSignature sample_consented) (pr_QuantumChallengeSignature sample_consented) = (l', Inr sample_signed_producer)
     \<and> lg_pending l' (hex [7]) = None \<and> VerifyConsent sample_crypto sample_signed_producer = None
     \<and> VerifyEnrollment sample_crypto (PublicKeyAt (sg_chain (snd sample_run0))) (QuantumPublicKeyAt (sg_chain (snd sample_run0)))
         sample_signed_producer = None"
proof -
  obtain l' where l': "ConfirmEnrollment sample_Q (fst sample_run0) 2 2 sample_pending (hex [7])
       (pr_ChallengeSignature sample_consented) (pr_QuantumChallengeSignature sample_consented) = (l', Inr sample_signed_producer)"
    using sample_confirm by blast
  have run: "core_run sample_Q sample_s0 sample_pending []"
    by (rule core_run.step [OF sample_run_log0 core_step.begin_enrollment [OF sample_begin(1)]])
  have fws: "csg_fws (lg_signer sample_pending) = snd sample_run0" by (simp add: sample_begin(4) cp_NewSigner_def)
  have len: "length (ch_Certs (sg_chain (snd sample_run0))) \<le> 2 ^ 64" by (simp add: sample_checkpoint_signed(6))
  have codec: "unwire_producer (sys_wire sample_Q) b = Some p" if "wire_producer (sys_wire sample_Q) p = Some b" for p b
    using that by (auto simp: sample_wire_def split: if_splits)
  from enrollment_ceremony [OF sample_sys_ok run _ _ fws sample_world_wf sample_signer_run len codec l' sample_clock(2)] l' show ?thesis by auto
qed

end
