(* ===== verification/Base64.thy ===== *)
theory Base64
  imports Prelude
begin

text \<open>
  The parts of \<open>encoding/base64\<close> the key files of the repository are written with: the padded
  standard alphabet, whose decoder skips line breaks and ignores the unused bits of the last
  digit, and the \<open>stripWS\<close> the packages apply before decoding.
\<close>

section \<open>Definitions\<close>

definition b64table :: string where
  "b64table = ''ABCDEFGHIJKLMNOPQRSTUVWXYZabcdefghijklmnopqrstuvwxyz0123456789+/''"

definition b64char :: "nat \<Rightarrow> char" where
  "b64char n = b64table ! n"

fun index_of :: "char \<Rightarrow> string \<Rightarrow> nat option" where
  "index_of c [] = None"
| "index_of c (x # xs) = (if c = x then Some 0 else map_option Suc (index_of c xs))"

definition b64val :: "char \<Rightarrow> nat option" where
  "b64val c = index_of c b64table"

fun b64_encode :: "bytes \<Rightarrow> string" where
  "b64_encode [] = []"
| "b64_encode [a] = [b64char (unat a div 4), b64char (unat a mod 4 * 16), CHR ''='', CHR ''='']"
| "b64_encode [a, b] =
     [b64char (unat a div 4), b64char (unat a mod 4 * 16 + unat b div 16), b64char (unat b mod 16 * 4), CHR ''='']"
| "b64_encode (a # b # c # r) =
     [b64char (unat a div 4), b64char (unat a mod 4 * 16 + unat b div 16),
      b64char (unat b mod 16 * 4 + unat c div 64), b64char (unat c mod 64)] @ b64_encode r"

text \<open>The bytes of one group of four digits.\<close>

definition quad :: "nat \<Rightarrow> nat \<Rightarrow> nat \<Rightarrow> nat \<Rightarrow> bytes" where
  "quad v w x y = [of_nat (v * 4 + w div 16), of_nat (w mod 16 * 16 + x div 4), of_nat (x mod 4 * 64 + y)]"

fun b64_quads :: "string \<Rightarrow> bytes option" where
  "b64_quads [] = Some []"
| "b64_quads [a, b, c, d] =
     (case (b64val a, b64val b) of
        (Some v, Some w) \<Rightarrow>
          if d = CHR ''='' then
            (if c = CHR ''='' then Some (take 1 (quad v w 0 0))
             else map_option (\<lambda>x. take 2 (quad v w x 0)) (b64val c))
          else (case (b64val c, b64val d) of (Some x, Some y) \<Rightarrow> Some (quad v w x y) | _ \<Rightarrow> None)
      | _ \<Rightarrow> None)"
| "b64_quads (a # b # c # d # r) =
     (case (b64val a, b64val b, b64val c, b64val d) of
        (Some v, Some w, Some x, Some y) \<Rightarrow> map_option ((@) (quad v w x y)) (b64_quads r)
      | _ \<Rightarrow> None)"
| "b64_quads _ = None"

definition b64_decode :: "string \<Rightarrow> bytes option" where
  "b64_decode s = b64_quads (filter (\<lambda>c. c \<noteq> CHR 0x0A \<and> c \<noteq> CHR 0x0D) s)"

text \<open>The conversion \<open>string(buf)\<close>, and \<open>stripWS\<close> on strings.\<close>

definition to_str :: "bytes \<Rightarrow> string" where
  "to_str b = map (\<lambda>x. char_of (unat x)) b"

definition strip_ws :: "string \<Rightarrow> string" where
  "strip_ws s = filter (\<lambda>c. \<not> (c = CHR 0x0A \<or> c = CHR 0x0D \<or> c = CHR '' '' \<or> c = CHR 0x09)) s"

section \<open>Round trip\<close>

lemma to_str_of_str [simp]: "to_str (of_str s) = s"
  by (simp add: to_str_def of_str_def unat_of_char_byte comp_def)

lemma b64val_char: "n < 64 \<Longrightarrow> b64val (b64char n) = Some n"
proof -
  have "list_all (\<lambda>n. b64val (b64char n) = Some n) [0..<64]" by code_simp
  then show "n < 64 \<Longrightarrow> ?thesis" by (simp add: list_all_iff)
qed

lemma b64char_no_break: "n < 64 \<Longrightarrow> b64char n \<noteq> CHR 0x0A \<and> b64char n \<noteq> CHR 0x0D \<and> b64char n \<noteq> CHR ''=''"
proof -
  have "list_all (\<lambda>n. b64char n \<noteq> CHR 0x0A \<and> b64char n \<noteq> CHR 0x0D \<and> b64char n \<noteq> CHR ''='') [0..<64]" by code_simp
  then show "n < 64 \<Longrightarrow> ?thesis" by (simp add: list_all_iff)
qed

lemma unat_byte: "unat (a :: byte) < 256"
  using unsigned_less [of a, where 'a = nat] by simp

lemma b64_digits:
  fixes a b c :: byte
  shows "unat a div 4 < 64" "unat a mod 4 * 16 + unat b div 16 < 64" "unat b mod 16 * 4 + unat c div 64 < 64"
    "unat c mod 64 < 64" "unat a mod 4 * 16 < 64" "unat b mod 16 * 4 < 64"
  using unat_byte [of a] unat_byte [of b] unat_byte [of c] by (simp_all add: div_less_iff_less_mult)

lemma quad_encode:
  fixes a b c :: byte
  shows "quad (unat a div 4) (unat a mod 4 * 16 + unat b div 16) (unat b mod 16 * 4 + unat c div 64) (unat c mod 64) = [a, b, c]"
proof -
  have "unat b div 16 < 16" "unat c div 64 < 4"
    using unat_byte [of b] unat_byte [of c] by (simp_all add: div_less_iff_less_mult)
  then have "unat a div 4 * 4 + (unat a mod 4 * 16 + unat b div 16) div 16 = unat a"
    "(unat a mod 4 * 16 + unat b div 16) mod 16 * 16 + (unat b mod 16 * 4 + unat c div 64) div 4 = unat b"
    "(unat b mod 16 * 4 + unat c div 64) mod 4 * 64 + unat c mod 64 = unat c"
    by simp_all
  then show ?thesis by (simp add: quad_def del: of_nat_add of_nat_mult)
qed

lemma b64char_no_ws: "n < 64 \<Longrightarrow> \<not> (b64char n = CHR 0x0A \<or> b64char n = CHR 0x0D \<or> b64char n = CHR '' '' \<or> b64char n = CHR 0x09)"
proof -
  have "list_all (\<lambda>n. \<not> (b64char n = CHR 0x0A \<or> b64char n = CHR 0x0D \<or> b64char n = CHR '' '' \<or> b64char n = CHR 0x09)) [0..<64]"
    by code_simp
  then show "n < 64 \<Longrightarrow> ?thesis" by (simp add: list_all_iff)
qed

lemma strip_ws_encode [simp]: "strip_ws (b64_encode xs @ nl) = b64_encode xs"
proof -
  have "strip_ws (b64_encode xs) = b64_encode xs"
    by (induction xs rule: b64_encode.induct) (simp_all add: strip_ws_def b64char_no_ws b64_digits)
  then show ?thesis by (simp add: strip_ws_def nl_def)
qed

lemma b64_encode_clean: "filter (\<lambda>c. c \<noteq> CHR 0x0A \<and> c \<noteq> CHR 0x0D) (b64_encode xs) = b64_encode xs"
  by (induction xs rule: b64_encode.induct) (simp_all add: b64char_no_break b64_digits)

lemma b64_quads_more:
  "r \<noteq> [] \<Longrightarrow> b64_quads (a # b # c # d # r) =
     (case (b64val a, b64val b, b64val c, b64val d) of
        (Some v, Some w, Some x, Some y) \<Rightarrow> map_option ((@) (quad v w x y)) (b64_quads r)
      | _ \<Rightarrow> None)"
  by (cases r) auto

lemma b64_encode_Nil_iff: "b64_encode xs = [] \<longleftrightarrow> xs = []"
  by (induction xs rule: b64_encode.induct) simp_all

lemma b64_quads_encode: "b64_quads (b64_encode xs) = Some xs"
proof (induction xs rule: b64_encode.induct)
  case (2 a)
  then show ?case using quad_encode [of a 0 0] by (simp add: b64val_char b64_digits)
next
  case (3 a b)
  then show ?case using quad_encode [of a b 0] by (simp add: b64val_char b64_digits b64char_no_break)
next
  case (4 a b c r)
  show ?case
  proof (cases "r = []")
    case True
    then show ?thesis using quad_encode [of a b c] by (simp add: b64val_char b64_digits b64char_no_break)
  next
    case False
    then have "b64_encode r \<noteq> []" by (simp add: b64_encode_Nil_iff)
    then show ?thesis
      using 4 quad_encode [of a b c] by (simp add: b64_quads_more b64val_char b64_digits)
  qed
qed simp

lemma b64_decode_encode [simp]: "b64_decode (b64_encode xs) = Some xs"
  by (simp add: b64_decode_def b64_encode_clean b64_quads_encode)

lemma b64_decode_nl [simp]: "b64_decode (s @ nl) = b64_decode s"
  by (simp add: b64_decode_def nl_def)

end
