(* ===== verification/Keyfiles.thy ===== *)
theory Keyfiles
  imports Crypto Base64
begin

text \<open>
  The key files the witness server and the two journals keep: a private key in padded base64 and a
  newline, written on first use beside its public half and read back on the next start.  A file
  system is the map of its readable files; how a write ends is an argument.
\<close>

section \<open>Definitions\<close>

datatype write_outcome =
    WriteOk
  | WriteFails bytes
  | RenameFails

text \<open>\<open>os.WriteFile\<close> on the path itself.\<close>

definition writeFile ::
    "write_outcome \<Rightarrow> string \<Rightarrow> bytes \<Rightarrow> (string \<rightharpoonup> bytes) \<Rightarrow> (string \<rightharpoonup> bytes) \<times> bool" where
  "writeFile out path data files =
     (case out of WriteFails part \<Rightarrow> (files(path \<mapsto> part), False) | _ \<Rightarrow> (files(path \<mapsto> data), True))"

definition key_text :: "bytes \<Rightarrow> bytes" where
  "key_text k = of_str (b64_encode k @ nl)"

text \<open>\<open>strings.TrimSpace\<close> on ASCII text.\<close>

definition is_space :: "char \<Rightarrow> bool" where
  "is_space c \<longleftrightarrow> c \<in> {CHR '' '', CHR 0x09, CHR 0x0A, CHR 0x0B, CHR 0x0C, CHR 0x0D}"

definition trim_space :: "string \<Rightarrow> string" where
  "trim_space s = rev (dropWhile is_space (rev (dropWhile is_space s)))"

datatype key_error =
    KfDecode string
  | KfLength nat
  | KfRandom
  | KfWrite string
  | KfQuantumKey

text \<open>
  \<open>rd\<close> says which files cannot be read, \<open>io\<close> how the write of a path ends, \<open>seed\<close> what the random
  source gives (\<open>None\<close> when it fails).  A key file that cannot be read, for whatever reason, is
  generated anew.
\<close>

definition load_or_create_key ::
    "crypto \<Rightarrow> (string \<Rightarrow> bool) \<Rightarrow> (string \<Rightarrow> write_outcome) \<Rightarrow> bytes option \<Rightarrow> string \<Rightarrow> string \<Rightarrow> (string \<rightharpoonup> bytes)
      \<Rightarrow> (string \<rightharpoonup> bytes) \<times> (key_error + bytes)" where
  "load_or_create_key C rd io seed keyPath pubPath files =
     (case (if rd keyPath then None else files keyPath) of
        Some buf \<Rightarrow>
          (files,
           case b64_decode (trim_space (to_str buf)) of None \<Rightarrow> Inl (KfDecode keyPath)
           | Some raw \<Rightarrow> if length raw \<noteq> ed25519_PrivateKeySize then Inl (KfLength (length raw)) else Inr raw)
      | None \<Rightarrow>
          (case seed of None \<Rightarrow> (files, Inl KfRandom)
           | Some sd \<Rightarrow>
               let priv = ed_newkey C sd
               in case writeFile (io keyPath) keyPath (key_text priv) files of
                    (files, False) \<Rightarrow> (files, Inl (KfWrite keyPath))
                  | (files, True) \<Rightarrow>
                      (case writeFile (io pubPath) pubPath (key_text (ed_Public priv)) files of
                         (files, ok) \<Rightarrow> (files, if ok then Inr priv else Inl (KfWrite pubPath)))))"

text \<open>
  The same for the Dilithium3 key: the private and the public key, both empty in classical mode.
  \<open>d3_load\<close> is \<open>UnmarshalBinary\<close> of a private key followed by its public key.
\<close>

definition load_or_create_quantum ::
    "crypto \<Rightarrow> (bytes \<Rightarrow> bytes option) \<Rightarrow> (string \<Rightarrow> bool) \<Rightarrow> (string \<Rightarrow> write_outcome) \<Rightarrow> bytes option \<Rightarrow> bool
      \<Rightarrow> string \<Rightarrow> string \<Rightarrow> (string \<rightharpoonup> bytes) \<Rightarrow> (string \<rightharpoonup> bytes) \<times> (key_error + bytes \<times> bytes)" where
  "load_or_create_quantum C d3_load rd io seed hybrid keyPath pubPath files =
     (case (if rd keyPath then None else files keyPath) of
        Some buf \<Rightarrow>
          (files,
           case b64_decode (trim_space (to_str buf)) of None \<Rightarrow> Inl (KfDecode keyPath)
           | Some raw \<Rightarrow> (case d3_load raw of None \<Rightarrow> Inl KfQuantumKey | Some pub \<Rightarrow> Inr (raw, pub)))
      | None \<Rightarrow>
          if \<not> hybrid then (files, Inr ([], []))
          else (case seed of None \<Rightarrow> (files, Inl KfRandom)
           | Some sd \<Rightarrow>
               (case d3_newkey C sd of (pub, priv) \<Rightarrow>
                  (case writeFile (io keyPath) keyPath (key_text priv) files of
                     (files, False) \<Rightarrow> (files, Inl (KfWrite keyPath))
                   | (files, True) \<Rightarrow>
                       (case writeFile (io pubPath) pubPath (key_text pub) files of
                          (files, ok) \<Rightarrow> (files, if ok then Inr (priv, pub) else Inl (KfWrite pubPath)))))))"

section \<open>Lemmas\<close>

lemma writeFile_other: "writeFile out path data files = (files', ok) \<Longrightarrow> p \<noteq> path \<Longrightarrow> files' p = files p"
  by (auto simp: writeFile_def split: write_outcome.splits)

lemma load_or_create_other:
  "load_or_create_key C rd io seed kp pp files = (files', r) \<Longrightarrow> p \<noteq> kp \<Longrightarrow> p \<noteq> pp \<Longrightarrow> files' p = files p"
  "load_or_create_quantum C L rd io seed hybrid kp pp files = (files', r') \<Longrightarrow> p \<noteq> kp \<Longrightarrow> p \<noteq> pp \<Longrightarrow> files' p = files p"
  by (auto simp: load_or_create_key_def load_or_create_quantum_def writeFile_def Let_def
      split: option.splits if_splits write_outcome.splits prod.splits)

lemma b64char_no_space: "n < 64 \<Longrightarrow> \<not> is_space (b64char n)"
proof -
  have "list_all (\<lambda>n. \<not> is_space (b64char n)) [0..<64]" by code_simp
  then show "n < 64 \<Longrightarrow> ?thesis" by (simp add: list_all_iff)
qed

lemma b64_no_space: "c \<in> set (b64_encode xs) \<Longrightarrow> \<not> is_space c"
proof -
  have "\<not> is_space (CHR ''='')" by (simp add: is_space_def)
  then have "list_all (\<lambda>c. \<not> is_space c) (b64_encode xs)"
    by (induction xs rule: b64_encode.induct) (simp_all add: b64char_no_space b64_digits)
  then show "c \<in> set (b64_encode xs) \<Longrightarrow> ?thesis" by (simp add: list_all_iff)
qed

lemma trim_space_none:
  assumes "\<And>c. c \<in> set s \<Longrightarrow> \<not> is_space c"
  shows "trim_space (s @ nl) = s"
proof (cases "s = []")
  case True
  then show ?thesis by (simp add: trim_space_def nl_def is_space_def)
next
  case False
  have "dropWhile is_space (s @ nl) = s @ nl" using False assms by (cases s) auto
  moreover have "dropWhile is_space (rev s) = rev s" using False assms by (cases s rule: rev_cases) auto
  ultimately show ?thesis by (simp add: trim_space_def nl_def is_space_def)
qed

text \<open>What was written as a key is read back as that key.\<close>

lemma key_file_roundtrip:
  assumes "load_or_create_key C rd io seed kp pp files = (files', Inr priv)" "kp \<noteq> pp" "length priv = ed25519_PrivateKeySize"
    and "files'' kp = files' kp" "\<not> rd kp" "\<not> rd' kp"
  shows "load_or_create_key C rd' io' seed' kp pp files'' = (files'', Inr priv)"
proof -
  have "files' kp = files kp \<and> (\<exists>buf. files kp = Some buf \<and> b64_decode (trim_space (to_str buf)) = Some priv)
      \<or> files' kp = Some (key_text priv)"
    using assms(1,2,5)
    by (auto simp: load_or_create_key_def writeFile_def Let_def split: option.splits if_splits write_outcome.splits prod.splits)
  then have "\<exists>buf. files'' kp = Some buf \<and> b64_decode (trim_space (to_str buf)) = Some priv"
    using assms(4) by (auto simp: key_text_def trim_space_none [OF b64_no_space])
  with assms(3,6) show ?thesis by (auto simp: load_or_create_key_def)
qed

lemma quantum_file_roundtrip:
  assumes "load_or_create_quantum C d3_load rd io seed hybrid kp pp files = (files', Inr (priv, pub))" "kp \<noteq> pp"
    and "priv \<noteq> []" "\<And>sd p q. d3_newkey C sd = (p, q) \<Longrightarrow> d3_load q = Some p"
    and "files'' kp = files' kp" "\<not> rd kp" "\<not> rd' kp"
  shows "load_or_create_quantum C d3_load rd' io' seed' hybrid' kp pp files'' = (files'', Inr (priv, pub))"
proof -
  have "d3_load priv = Some pub \<and> (files' kp = files kp \<and> (\<exists>buf. files kp = Some buf \<and> b64_decode (trim_space (to_str buf)) = Some priv)
      \<or> files' kp = Some (key_text priv))"
    using assms(1-4,6)
    by (auto simp: load_or_create_quantum_def writeFile_def Let_def split: option.splits if_splits write_outcome.splits prod.splits)
  then have "d3_load priv = Some pub \<and> (\<exists>buf. files'' kp = Some buf \<and> b64_decode (trim_space (to_str buf)) = Some priv)"
    using assms(5) by (auto simp: key_text_def trim_space_none [OF b64_no_space])
  with assms(7) show ?thesis by (auto simp: load_or_create_quantum_def)
qed

end
