(* ===== verification/Http.thy ===== *)
theory Http
  imports Keyfiles
begin

text \<open>
  What the HTTP services of the repository share: a request as the handlers see it, the outcome of
  reading its JSON body under a size cap (\<open>pkg/httpx/server.go\<close>), the replies they write, and
  \<open>strconv.ParseUint\<close>, which reads the numbers that clients write with \<open>%d\<close>.
\<close>

section \<open>Definitions\<close>

record Request =
  rq_Method :: string
  rq_Path :: string
  rq_Query :: "string \<Rightarrow> string"
  rq_RemoteAddr :: string
  rq_UserAgent :: string
  rq_Admin :: string
  rq_TLS :: "string list option"

text \<open>
  \<open>rq_Query\<close> is \<open>r.URL.Query().Get\<close>, empty for a name that is not there; \<open>rq_Admin\<close> is the header
  \<open>X-Stele-Admin\<close>; \<open>rq_TLS\<close> has the common names of the client's certificates.  A body that
  does not decode was either cut off by \<open>MaxBytesReader\<close> or is not JSON.
\<close>

datatype body_error = BodyTooLarge | BodyMalformed

definition IsMaxBytesError :: "body_error \<Rightarrow> bool" where
  "IsMaxBytesError e = (case e of BodyTooLarge \<Rightarrow> True | BodyMalformed \<Rightarrow> False)"

text \<open>
  \<open>MaxBodyBytes\<close>: the handler reads through a reader that fails at the limit.  \<open>json\<close> is what the
  decoder makes of a body that is read to its end.
\<close>

definition MaxBodyBytes :: "i64 \<Rightarrow> (bytes \<Rightarrow> 'a option) \<Rightarrow> bytes \<Rightarrow> body_error + 'a" where
  "MaxBodyBytes limit json body =
     (if int (length body) > sint limit then Inl BodyTooLarge
      else case json body of None \<Rightarrow> Inl BodyMalformed | Some a \<Rightarrow> Inr a)"

text \<open>
  A reply: the JSON body of a 200, the status of an error, a status with \<open>Retry-After\<close>, or none at all
  when the handler panics or does not return.
\<close>

datatype 'a reply = HttpOk 'a | HttpErr nat | HttpRetry nat int | HttpNothing

definition writeBodyErr :: "body_error \<Rightarrow> 'a reply" where
  "writeBodyErr e = (if IsMaxBytesError e then HttpErr 413 else HttpErr 400)"

text \<open>A GET of a client: no reply, or a status and a body; and what became of it.\<close>

datatype http_error = HtTransport | HtStatus int bytes | HtDecode

definition httpGet :: "(bytes \<Rightarrow> 'a option) \<Rightarrow> (int \<times> bytes) option \<Rightarrow> http_error + 'a" where
  "httpGet decode resp =
     (case resp of None \<Rightarrow> Inl HtTransport
      | Some (status, body) \<Rightarrow>
          if status div 100 \<noteq> 2 then Inl (HtStatus status body)
          else case decode body of None \<Rightarrow> Inl HtDecode | Some a \<Rightarrow> Inr a)"

fun read_digits :: "nat \<Rightarrow> string \<Rightarrow> nat" where
  "read_digits acc [] = acc"
| "read_digits acc (c # cs) =
     (case index_of c dectable of None \<Rightarrow> acc | Some d \<Rightarrow> read_digits (acc * 10 + d) cs)"

text \<open>\<open>strconv.ParseUint(s, 10, 64)\<close>.\<close>

definition parseUint :: "string \<Rightarrow> u64 option" where
  "parseUint t =
     (if t = [] \<or> \<not> list_all (\<lambda>c. index_of c dectable \<noteq> None) t then None
      else let n = read_digits 0 t in if n < 2 ^ 64 then Some (of_nat n) else None)"

section \<open>Lemmas\<close>

lemma index_of_digit: "n < 10 \<Longrightarrow> index_of (digit n) dectable = Some n"
proof -
  have "\<forall>n\<in>{0, 1, 2, 3, 4, 5, 6, 7, 8, 9}. index_of (digit n) dectable = Some n" by code_simp
  moreover assume "n < 10"
  then have "n \<in> {0, 1, 2, 3, 4, 5, 6, 7, 8, 9}" by auto
  ultimately show ?thesis by blast
qed

lemma read_digits_snoc:
  "list_all (\<lambda>c. index_of c dectable \<noteq> None) cs \<Longrightarrow> index_of c dectable = Some d
    \<Longrightarrow> read_digits acc (cs @ [c]) = read_digits acc cs * 10 + d"
  by (induction cs arbitrary: acc) (auto split: option.splits)

lemma dec_nat_digits: "list_all (\<lambda>c. index_of c dectable \<noteq> None) (dec_nat n) \<and> read_digits 0 (dec_nat n) = n"
proof (induction n rule: dec_nat.induct)
  case (1 n)
  show ?case
  proof (cases "n < 10")
    case True
    then show ?thesis by (subst (1 2) dec_nat.simps) (simp add: index_of_digit)
  next
    case False
    with 1 have ih: "list_all (\<lambda>c. index_of c dectable \<noteq> None) (dec_nat (n div 10))" "read_digits 0 (dec_nat (n div 10)) = n div 10"
      by auto
    have "dec_nat n = dec_nat (n div 10) @ [digit (n mod 10)]" using False by (simp add: dec_nat.simps [of n])
    with ih read_digits_snoc [OF ih(1) index_of_digit [of "n mod 10"], of 0] show ?thesis by (simp add: index_of_digit)
  qed
qed

lemma parseUint_dec [simp]: "parseUint (dec_u64 w) = Some w"
proof -
  have "unat w < 2 ^ 64" using unsigned_less [of w, where ?'a = nat] by simp
  then show ?thesis using dec_nat_digits [of "unat w"] by (simp add: parseUint_def dec_u64_def Let_def)
qed

end
