(* ===== verification/Cosigning.thy ===== *)
theory Cosigning
  imports Checkpoint Http "HOL-Library.Finite_Map"
begin

text \<open>
  Package \<open>witness\<close>: the server that countersigns checkpoints, its files, the gossip between
  witnesses with signed statements and cross-attestations, and the HTTP endpoints.

  Go maps that the code ranges over are finite maps.  Where the order of a range can be observed it
  is an argument; lists made from a map are made in ascending order of the keys, and are only read
  back into maps.  The files of the data directory are a map from names to contents, the JSON
  encodings are the parameter \<open>witness_codec\<close>, and each write may fail: in \<open>os.WriteFile\<close>, with
  what it left in the temporary file, or in \<open>os.Rename\<close>.
\<close>

section \<open>Definitions\<close>

subsection \<open>Data\<close>

record WatchedOperator =
  wo_Origin :: string
  wo_RootPublicKey :: bytes
  wo_Description :: string

record Peer =
  pp_ID :: string
  pp_URL :: string
  pp_PublicKey :: bytes
  pp_Description :: string
  pp_AddedAt :: i64

record ForkEvidence =
  fk_Origin :: string
  fk_Size :: u64
  fk_DetectedAt :: i64
  fk_OurCheckpoint :: "Checkpoint option"
  fk_TheirCheckpoint :: "Checkpoint option"
  fk_TheirPeerID :: string

record SignedSeen =
  ss_WitnessID :: string
  ss_PublicKey :: bytes
  ss_KeyID :: string
  ss_Origin :: string
  ss_Seen :: "(u64, string) fmap"
  ss_IssuedAt :: i64
  ss_Signature :: bytes

record PeerAttestation =
  pa_PeerID :: string
  pa_Origin :: string
  pa_ReceivedAt :: i64
  pa_Statement :: "SignedSeen option"

record PeerAttestationStore =
  as_Latest :: "(string, (string, PeerAttestation option) fmap) fmap"
  as_History :: "PeerAttestation list"

record CrossAttestation =
  ca_AttesterID :: string
  ca_AttesterKey :: bytes
  ca_AttesterKeyID :: string
  ca_PeerID :: string
  ca_PeerKey :: bytes
  ca_Origin :: string
  ca_OverlappingSizes :: "(u64, string) fmap"
  ca_IssuedAt :: i64
  ca_PeerStatementIssuedAt :: i64
  ca_Signature :: bytes

type_synonym seen_map = "(string, (u64, string) fmap) fmap"
type_synonym checkpoint_map = "(string, (u64, Checkpoint) fmap) fmap"

record WitnessServer =
  sv_id :: string
  sv_priv :: bytes
  sv_pub :: bytes
  sv_keyID :: string
  sv_qPriv :: bytes
  sv_qPub :: bytes
  sv_operators :: "(string, WatchedOperator) fmap"
  sv_seen :: seen_map
  sv_checkpoints :: checkpoint_map
  sv_peers :: "(string, Peer) fmap"
  sv_forks :: "(string, ForkEvidence) fmap"
  sv_attest :: "PeerAttestationStore option"
  sv_crossAtts :: "CrossAttestation list"
  sv_files :: "string \<rightharpoonup> bytes"

text \<open>\<open>json.MarshalIndent\<close> and \<open>json.Unmarshal\<close> for the seven files.\<close>

record witness_codec =
  enc_operators :: "WatchedOperator list \<Rightarrow> bytes option"
  dec_operators :: "bytes \<Rightarrow> WatchedOperator list option"
  enc_seen :: "seen_map \<Rightarrow> bytes option"
  dec_seen :: "bytes \<Rightarrow> seen_map option"
  enc_checkpoints :: "checkpoint_map \<Rightarrow> bytes option"
  dec_checkpoints :: "bytes \<Rightarrow> checkpoint_map option"
  enc_peers :: "Peer list \<Rightarrow> bytes option"
  dec_peers :: "bytes \<Rightarrow> Peer list option"
  enc_forks :: "(string, ForkEvidence) fmap \<Rightarrow> bytes option"
  dec_forks :: "bytes \<Rightarrow> (string, ForkEvidence) fmap option"
  enc_attest :: "PeerAttestationStore \<Rightarrow> bytes option"
  dec_attest :: "bytes \<Rightarrow> PeerAttestationStore option"
  enc_crossAtts :: "CrossAttestation list \<Rightarrow> bytes option"
  dec_crossAtts :: "bytes \<Rightarrow> CrossAttestation list option"

datatype witness_error =
    WiMkdir
  | WiRead string
  | WiDecode string
  | WiMarshal string
  | WiWrite string
  | WiKeyLength nat
  | WiQuantumKey
  | WiRandom
  | WiInvalidOperator
  | WiForked string
  | WiNotWatched string
  | WiVerify checkpoint_error
  | WiFork string u64 string string
  | WiPeerRequired
  | WiPeerKeyLength nat

subsection \<open>Files\<close>

definition atomicWrite ::
    "write_outcome \<Rightarrow> string \<Rightarrow> bytes \<Rightarrow> (string \<rightharpoonup> bytes) \<Rightarrow> (string \<rightharpoonup> bytes) \<times> bool" where
  "atomicWrite out path data files =
     (let tmp = path @ ''.tmp''
      in case out of
           WriteFails part \<Rightarrow> (files(tmp \<mapsto> part), False)
         | RenameFails \<Rightarrow> (files(tmp \<mapsto> data), False)
         | WriteOk \<Rightarrow> (files(tmp := None, path \<mapsto> data), True))"

definition opsPath :: string where "opsPath = ''operators.json''"
definition seenPath :: string where "seenPath = ''seen.json''"
definition checkpointsPath :: string where "checkpointsPath = ''checkpoints.json''"
definition peersPath :: string where "peersPath = ''peers.json''"
definition forksPath :: string where "forksPath = ''forks.json''"
definition attestationsPath :: string where "attestationsPath = ''attestations.json''"
definition crossAttsPath :: string where "crossAttsPath = ''cross_attestations.json''"

text \<open>
  The shape every save shares: encode, then \<open>atomicWrite\<close>; and the one every load shares: a missing
  file leaves the initial value, any other read error is returned.  \<open>io\<close> says how the write of a
  path ends, \<open>rd\<close> which reads fail.
\<close>

definition save_file ::
    "(string \<Rightarrow> write_outcome) \<Rightarrow> string \<Rightarrow> bytes option \<Rightarrow> WitnessServer \<Rightarrow> WitnessServer \<times> witness_error option" where
  "save_file io path body s =
     (case body of None \<Rightarrow> (s, Some (WiMarshal path))
      | Some b \<Rightarrow>
          (case atomicWrite (io path) path b (sv_files s) of
             (files, ok) \<Rightarrow> (s\<lparr>sv_files := files\<rparr>, if ok then None else Some (WiWrite path))))"

definition load_file ::
    "(string \<Rightarrow> bool) \<Rightarrow> string \<Rightarrow> (bytes \<Rightarrow> 'a option) \<Rightarrow> 'a \<Rightarrow> (string \<rightharpoonup> bytes) \<Rightarrow> witness_error + 'a" where
  "load_file rd path dec initial files =
     (if rd path then Inl (WiRead path)
      else case files path of None \<Rightarrow> Inr initial
      | Some buf \<Rightarrow> (case dec buf of None \<Rightarrow> Inl (WiDecode path) | Some v \<Rightarrow> Inr v))"

text \<open>The values of a map, as a list.\<close>

definition map_values :: "('k :: linorder, 'v) fmap \<Rightarrow> 'v list" where
  "map_values m = map (\<lambda>k. the (fmlookup m k)) (sorted_list_of_fset (fmdom m))"

definition saveOperators :: "witness_codec \<Rightarrow> (string \<Rightarrow> write_outcome) \<Rightarrow> WitnessServer \<Rightarrow> WitnessServer \<times> witness_error option" where
  "saveOperators J io s = save_file io opsPath (enc_operators J (map_values (sv_operators s))) s"

definition saveSeen :: "witness_codec \<Rightarrow> (string \<Rightarrow> write_outcome) \<Rightarrow> WitnessServer \<Rightarrow> WitnessServer \<times> witness_error option" where
  "saveSeen J io s = save_file io seenPath (enc_seen J (sv_seen s)) s"

definition saveCheckpoints :: "witness_codec \<Rightarrow> (string \<Rightarrow> write_outcome) \<Rightarrow> WitnessServer \<Rightarrow> WitnessServer \<times> witness_error option" where
  "saveCheckpoints J io s = save_file io checkpointsPath (enc_checkpoints J (sv_checkpoints s)) s"

definition savePeers :: "witness_codec \<Rightarrow> (string \<Rightarrow> write_outcome) \<Rightarrow> WitnessServer \<Rightarrow> WitnessServer \<times> witness_error option" where
  "savePeers J io s = save_file io peersPath (enc_peers J (map_values (sv_peers s))) s"

definition saveForks :: "witness_codec \<Rightarrow> (string \<Rightarrow> write_outcome) \<Rightarrow> WitnessServer \<Rightarrow> WitnessServer \<times> witness_error option" where
  "saveForks J io s = save_file io forksPath (enc_forks J (sv_forks s)) s"

definition saveAttestationsLocked ::
    "witness_codec \<Rightarrow> (string \<Rightarrow> write_outcome) \<Rightarrow> WitnessServer \<Rightarrow> WitnessServer \<times> witness_error option" where
  "saveAttestationsLocked J io s =
     (case sv_attest s of None \<Rightarrow> (s, None)
      | Some a \<Rightarrow> save_file io attestationsPath (enc_attest J a) s)"

definition saveCrossAttsLocked ::
    "witness_codec \<Rightarrow> (string \<Rightarrow> write_outcome) \<Rightarrow> WitnessServer \<Rightarrow> WitnessServer \<times> witness_error option" where
  "saveCrossAttsLocked J io s = save_file io crossAttsPath (enc_crossAtts J (sv_crossAtts s)) s"

subsection \<open>Opening a server\<close>

text \<open>
  \<open>seed\<close> is what the random source gives for a new key, \<open>None\<close> when it fails.  A key file that
  cannot be read, for whatever reason, is generated anew.
\<close>

definition with_key :: "bytes \<Rightarrow> WitnessServer \<Rightarrow> WitnessServer" where
  "with_key priv s = s\<lparr>sv_priv := priv, sv_pub := ed_Public priv, sv_keyID := KeyID (ed_Public priv)\<rparr>"

definition loadOrCreateKey ::
    "crypto \<Rightarrow> (string \<Rightarrow> bool) \<Rightarrow> (string \<Rightarrow> write_outcome) \<Rightarrow> bytes option \<Rightarrow> WitnessServer
      \<Rightarrow> WitnessServer \<times> witness_error option" where
  "loadOrCreateKey C rd io seed s =
     (case (if rd ''witness.key'' then None else sv_files s ''witness.key'') of
        Some buf \<Rightarrow>
          (case b64_decode (strip_ws (to_str buf)) of None \<Rightarrow> (s, Some (WiDecode ''witness.key''))
           | Some raw \<Rightarrow>
               if length raw \<noteq> ed25519_PrivateKeySize then (s, Some (WiKeyLength (length raw)))
               else (with_key raw s, None))
      | None \<Rightarrow>
          (case seed of None \<Rightarrow> (s, Some WiRandom)
           | Some sd \<Rightarrow>
               let priv = ed_newkey C sd; s = with_key priv s
               in case writeFile (io ''witness.key'') ''witness.key'' (key_text priv) (sv_files s) of
                    (files, False) \<Rightarrow> (s\<lparr>sv_files := files\<rparr>, Some (WiWrite ''witness.key''))
                  | (files, True) \<Rightarrow>
                      (case writeFile (io ''witness.pub'') ''witness.pub'' (key_text (sv_pub s)) files of
                         (files, ok) \<Rightarrow>
                           (s\<lparr>sv_files := files\<rparr>, if ok then None else Some (WiWrite ''witness.pub'')))))"

text \<open>\<open>d3_load\<close> is \<open>UnmarshalBinary\<close> of a private key followed by its public key.\<close>

definition loadOrCreateQuantumKey ::
    "crypto \<Rightarrow> (bytes \<Rightarrow> bytes option) \<Rightarrow> (string \<Rightarrow> bool) \<Rightarrow> (string \<Rightarrow> write_outcome) \<Rightarrow> bytes option \<Rightarrow> bool
      \<Rightarrow> WitnessServer \<Rightarrow> WitnessServer \<times> witness_error option" where
  "loadOrCreateQuantumKey C d3_load rd io seed hybrid s =
     (case (if rd ''witness-quantum.key'' then None else sv_files s ''witness-quantum.key'') of
        Some buf \<Rightarrow>
          (case b64_decode (strip_ws (to_str buf)) of None \<Rightarrow> (s, Some (WiDecode ''witness-quantum.key''))
           | Some raw \<Rightarrow>
               (case d3_load raw of None \<Rightarrow> (s, Some WiQuantumKey)
                | Some pub \<Rightarrow> (s\<lparr>sv_qPriv := raw, sv_qPub := pub\<rparr>, None)))
      | None \<Rightarrow>
          if \<not> hybrid then (s, None)
          else (case seed of None \<Rightarrow> (s, Some WiRandom)
           | Some sd \<Rightarrow>
               (case d3_newkey C sd of (pub, priv) \<Rightarrow>
                  let s = s\<lparr>sv_qPriv := priv, sv_qPub := pub\<rparr>
                  in case writeFile (io ''witness-quantum.key'') ''witness-quantum.key'' (key_text priv) (sv_files s) of
                       (files, False) \<Rightarrow> (s\<lparr>sv_files := files\<rparr>, Some (WiWrite ''witness-quantum.key''))
                     | (files, True) \<Rightarrow>
                         (case writeFile (io ''witness-quantum.pub'') ''witness-quantum.pub'' (key_text pub) files of
                            (files, ok) \<Rightarrow>
                              (s\<lparr>sv_files := files\<rparr>, if ok then None else Some (WiWrite ''witness-quantum.pub''))))))"

definition loadOperators :: "witness_codec \<Rightarrow> (string \<Rightarrow> bool) \<Rightarrow> WitnessServer \<Rightarrow> witness_error + WitnessServer" where
  "loadOperators J rd s =
     (case load_file rd opsPath (dec_operators J) [] (sv_files s) of Inl e \<Rightarrow> Inl e
      | Inr ops \<Rightarrow> Inr (s\<lparr>sv_operators := fold (\<lambda>op m. fmupd (wo_Origin op) op m) ops (sv_operators s)\<rparr>))"

definition loadSeen :: "witness_codec \<Rightarrow> (string \<Rightarrow> bool) \<Rightarrow> WitnessServer \<Rightarrow> witness_error + WitnessServer" where
  "loadSeen J rd s =
     (case load_file rd seenPath (dec_seen J) (sv_seen s) (sv_files s) of Inl e \<Rightarrow> Inl e
      | Inr m \<Rightarrow> Inr (s\<lparr>sv_seen := m\<rparr>))"

definition loadCheckpoints :: "witness_codec \<Rightarrow> (string \<Rightarrow> bool) \<Rightarrow> WitnessServer \<Rightarrow> witness_error + WitnessServer" where
  "loadCheckpoints J rd s =
     (case load_file rd checkpointsPath (dec_checkpoints J) (sv_checkpoints s) (sv_files s) of Inl e \<Rightarrow> Inl e
      | Inr m \<Rightarrow> Inr (s\<lparr>sv_checkpoints := m\<rparr>))"

definition loadPeers :: "witness_codec \<Rightarrow> (string \<Rightarrow> bool) \<Rightarrow> WitnessServer \<Rightarrow> witness_error + WitnessServer" where
  "loadPeers J rd s =
     (case load_file rd peersPath (dec_peers J) [] (sv_files s) of Inl e \<Rightarrow> Inl e
      | Inr ps \<Rightarrow> Inr (s\<lparr>sv_peers := fold (\<lambda>p m. fmupd (pp_ID p) p m) ps (sv_peers s)\<rparr>))"

definition loadForks :: "witness_codec \<Rightarrow> (string \<Rightarrow> bool) \<Rightarrow> WitnessServer \<Rightarrow> witness_error + WitnessServer" where
  "loadForks J rd s =
     (case load_file rd forksPath (dec_forks J) (sv_forks s) (sv_files s) of Inl e \<Rightarrow> Inl e
      | Inr m \<Rightarrow> Inr (s\<lparr>sv_forks := m\<rparr>))"

definition empty_attest :: PeerAttestationStore where
  "empty_attest = \<lparr>as_Latest = fmempty, as_History = []\<rparr>"

definition loadAttestations :: "witness_codec \<Rightarrow> (string \<Rightarrow> bool) \<Rightarrow> WitnessServer \<Rightarrow> witness_error + WitnessServer" where
  "loadAttestations J rd s =
     (case load_file rd attestationsPath (dec_attest J) empty_attest (sv_files s) of Inl e \<Rightarrow> Inl e
      | Inr a \<Rightarrow> Inr (s\<lparr>sv_attest := Some a\<rparr>))"

definition loadCrossAtts :: "witness_codec \<Rightarrow> (string \<Rightarrow> bool) \<Rightarrow> WitnessServer \<Rightarrow> witness_error + WitnessServer" where
  "loadCrossAtts J rd s =
     (case load_file rd crossAttsPath (dec_crossAtts J) (sv_crossAtts s) (sv_files s) of Inl e \<Rightarrow> Inl e
      | Inr l \<Rightarrow> Inr (s\<lparr>sv_crossAtts := l\<rparr>))"

fun load_all :: "(WitnessServer \<Rightarrow> witness_error + WitnessServer) list \<Rightarrow> WitnessServer \<Rightarrow> witness_error + WitnessServer" where
  "load_all [] s = Inr s"
| "load_all (f # fs) s = (case f s of Inl e \<Rightarrow> Inl e | Inr s \<Rightarrow> load_all fs s)"

definition blank_server :: "string \<Rightarrow> (string \<rightharpoonup> bytes) \<Rightarrow> WitnessServer" where
  "blank_server i files =
     \<lparr>sv_id = i, sv_priv = [], sv_pub = [], sv_keyID = [], sv_qPriv = [], sv_qPub = [], sv_operators = fmempty,
      sv_seen = fmempty, sv_checkpoints = fmempty, sv_peers = fmempty, sv_forks = fmempty, sv_attest = None,
      sv_crossAtts = [], sv_files = files\<rparr>"

text \<open>
  \<open>newServer\<close>, which \<open>NewServer\<close> and \<open>NewHybridServer\<close> call with \<open>hybrid\<close> false and true.  The
  files it leaves are returned beside an error.
\<close>

definition newServer ::
    "crypto \<Rightarrow> (bytes \<Rightarrow> bytes option) \<Rightarrow> witness_codec \<Rightarrow> bool \<Rightarrow> (string \<Rightarrow> bool) \<Rightarrow> (string \<Rightarrow> write_outcome)
      \<Rightarrow> bytes option \<Rightarrow> bytes option \<Rightarrow> string \<Rightarrow> bool \<Rightarrow> (string \<rightharpoonup> bytes) \<Rightarrow> (string \<rightharpoonup> bytes) \<times> (witness_error + WitnessServer)" where
  "newServer C d3_load J mkdir_ok rd io seed qseed i hybrid files =
     (if \<not> mkdir_ok then (files, Inl WiMkdir)
      else case loadOrCreateKey C rd io seed (blank_server i files) of
        (s, Some e) \<Rightarrow> (sv_files s, Inl e)
      | (s, None) \<Rightarrow>
        (case loadOrCreateQuantumKey C d3_load rd io qseed hybrid s of
           (s, Some e) \<Rightarrow> (sv_files s, Inl e)
         | (s, None) \<Rightarrow>
             (sv_files s,
              load_all [loadOperators J rd, loadSeen J rd, loadCheckpoints J rd, loadPeers J rd, loadForks J rd,
                        loadAttestations J rd, loadCrossAtts J rd] s)))"

subsection \<open>Operators, peers and forks\<close>

definition AddOperator ::
    "witness_codec \<Rightarrow> (string \<Rightarrow> write_outcome) \<Rightarrow> WatchedOperator option \<Rightarrow> WitnessServer \<Rightarrow> WitnessServer \<times> witness_error option" where
  "AddOperator J io oo s =
     (case oo of None \<Rightarrow> (s, Some WiInvalidOperator)
      | Some op \<Rightarrow>
          if wo_Origin op = [] \<or> length (wo_RootPublicKey op) \<noteq> ed25519_PublicKeySize then (s, Some WiInvalidOperator)
          else saveOperators J io (s\<lparr>sv_operators := fmupd (wo_Origin op) op (sv_operators s)\<rparr>))"

definition ListOperators :: "WitnessServer \<Rightarrow> WatchedOperator list" where
  "ListOperators s = map_values (sv_operators s)"

definition AddPeer ::
    "witness_codec \<Rightarrow> (string \<Rightarrow> write_outcome) \<Rightarrow> i64 \<Rightarrow> Peer option \<Rightarrow> WitnessServer \<Rightarrow> WitnessServer \<times> witness_error option" where
  "AddPeer J io now po s =
     (case po of None \<Rightarrow> (s, Some WiPeerRequired)
      | Some p \<Rightarrow>
          if pp_ID p = [] \<or> pp_URL p = [] then (s, Some WiPeerRequired)
          else if length (pp_PublicKey p) \<noteq> ed25519_PublicKeySize then (s, Some (WiPeerKeyLength (length (pp_PublicKey p))))
          else let p = (if pp_AddedAt p = 0 then p\<lparr>pp_AddedAt := now\<rparr> else p)
          in savePeers J io (s\<lparr>sv_peers := fmupd (pp_ID p) p (sv_peers s)\<rparr>))"

definition ListPeers :: "WitnessServer \<Rightarrow> Peer list" where
  "ListPeers s = map_values (sv_peers s)"

definition ListForks :: "WitnessServer \<Rightarrow> ForkEvidence list" where
  "ListForks s = map_values (sv_forks s)"

definition ClearFork :: "witness_codec \<Rightarrow> (string \<Rightarrow> write_outcome) \<Rightarrow> string \<Rightarrow> WitnessServer \<Rightarrow> WitnessServer" where
  "ClearFork J io origin s = fst (saveForks J io (s\<lparr>sv_forks := fmdrop origin (sv_forks s)\<rparr>))"

definition recordForkLocked ::
    "witness_codec \<Rightarrow> (string \<Rightarrow> write_outcome) \<Rightarrow> i64 \<Rightarrow> string \<Rightarrow> u64 \<Rightarrow> Checkpoint option \<Rightarrow> Checkpoint option \<Rightarrow> string
      \<Rightarrow> WitnessServer \<Rightarrow> WitnessServer" where
  "recordForkLocked J io now origin sz ours theirs peerID s =
     fst (saveForks J io (s\<lparr>sv_forks := fmupd origin
       \<lparr>fk_Origin = origin, fk_Size = sz, fk_DetectedAt = now, fk_OurCheckpoint = ours,
        fk_TheirCheckpoint = theirs, fk_TheirPeerID = peerID\<rparr> (sv_forks s)\<rparr>))"

text \<open>\<open>m[a][b]\<close> and \<open>m[a][b] = v\<close> of a map of maps, where \<open>m[a]\<close> is made when it is missing.\<close>

definition lookup2 :: "('a, ('b, 'v) fmap) fmap \<Rightarrow> 'a \<Rightarrow> 'b \<Rightarrow> 'v option" where
  "lookup2 m a b = Option.bind (fmlookup m a) (\<lambda>x. fmlookup x b)"

definition update2 :: "'a \<Rightarrow> 'b \<Rightarrow> 'v \<Rightarrow> ('a, ('b, 'v) fmap) fmap \<Rightarrow> ('a, ('b, 'v) fmap) fmap" where
  "update2 a b v m = fmupd a (fmupd b v (case fmlookup m a of None \<Rightarrow> fmempty | Some x \<Rightarrow> x)) m"

definition SeenFor :: "WitnessServer \<Rightarrow> string \<Rightarrow> (u64, string) fmap" where
  "SeenFor s origin = (case fmlookup (sv_seen s) origin of None \<Rightarrow> fmempty | Some m \<Rightarrow> m)"

definition CheckpointAt :: "WitnessServer \<Rightarrow> string \<Rightarrow> u64 \<Rightarrow> Checkpoint option" where
  "CheckpointAt s origin sz = lookup2 (sv_checkpoints s) origin sz"

subsection \<open>Cosigning\<close>

definition witness_sig :: "crypto \<Rightarrow> i64 \<Rightarrow> WitnessServer \<Rightarrow> Checkpoint \<Rightarrow> WitnessSig" where
  "witness_sig C now s c =
     (let msg = CanonicalForWitness c;
          ws = \<lparr>ws_WitnessID = sv_id s, ws_PublicKey = sv_pub s, ws_KeyID = sv_keyID s,
                ws_Signature = ed_sign C (sv_priv s) msg, ws_SignedAt = now,
                ws_QuantumPublicKey = [], ws_QuantumSignature = []\<rparr>
      in if sv_qPriv s \<noteq> [] then ws\<lparr>ws_QuantumPublicKey := sv_qPub s, ws_QuantumSignature := d3_sign C (sv_qPriv s) msg\<rparr>
         else ws)"

definition Cosign ::
    "crypto \<Rightarrow> witness_codec \<Rightarrow> (string \<Rightarrow> write_outcome) \<Rightarrow> i64 \<Rightarrow> Checkpoint \<Rightarrow> Chain option \<Rightarrow> Group option \<Rightarrow> WitnessServer
      \<Rightarrow> WitnessServer \<times> (witness_error + WitnessSig)" where
  "Cosign C J io now c chain go s =
     (if fmlookup (sv_forks s) (cp_Origin c) \<noteq> None then (s, Inl (WiForked (cp_Origin c)))
      else case fmlookup (sv_operators s) (cp_Origin c) of
        None \<Rightarrow> (s, Inl (WiNotWatched (cp_Origin c)))
      | Some op \<Rightarrow>
        (case cp_Verify C c chain (wo_RootPublicKey op) go of
           Some e \<Rightarrow> (s, Inl (WiVerify e))
         | None \<Rightarrow>
           let rootHex = hex (cp_RootHash c); existing = lookup2 (sv_seen s) (cp_Origin c) (cp_Size c)
           in if existing \<noteq> None \<and> existing \<noteq> Some rootHex then
                (recordForkLocked J io now (cp_Origin c) (cp_Size c) (lookup2 (sv_checkpoints s) (cp_Origin c) (cp_Size c))
                   (Some c) [] s,
                 Inl (WiFork (cp_Origin c) (cp_Size c) (the existing) rootHex))
              else
                let s = s\<lparr>sv_seen := update2 (cp_Origin c) (cp_Size c) rootHex (sv_seen s),
                          sv_checkpoints := update2 (cp_Origin c) (cp_Size c) c (sv_checkpoints s)\<rparr>
                in case saveSeen J io s of
                     (s, Some e) \<Rightarrow> (s, Inl e)
                   | (s, None) \<Rightarrow>
                     (case saveCheckpoints J io s of
                        (s, Some e) \<Rightarrow> (s, Inl e)
                      | (s, None) \<Rightarrow> (s, Inr (witness_sig C now s c)))))"

subsection \<open>Signed statements\<close>

definition seen_lines :: "(u64, string) fmap \<Rightarrow> string" where
  "seen_lines m =
     concat (map (\<lambda>sz. dec_u64 sz @ '':'' @ the (fmlookup m sz) @ nl) (sorted_list_of_fset (fmdom m)))"

definition ss_text :: "SignedSeen \<Rightarrow> string" where
  "ss_text ss =
     ''stele-seen/v0'' @ nl
     @ ''witness_id: '' @ ss_WitnessID ss @ nl
     @ ''origin: '' @ ss_Origin ss @ nl
     @ ''issued_at: '' @ dec_i64 (ss_IssuedAt ss) @ nl
     @ ''pubkey: '' @ hex (ss_PublicKey ss) @ nl
     @ ''entries: '' @ dec_nat (length (sorted_list_of_fset (fmdom (ss_Seen ss)))) @ nl
     @ seen_lines (ss_Seen ss)"

definition ss_Canonical :: "SignedSeen \<Rightarrow> bytes" where
  "ss_Canonical ss = of_str (ss_text ss)"

datatype statement_error =
    StKey nat
  | StSig nat
  | StInvalid

definition ss_Verify :: "crypto \<Rightarrow> SignedSeen \<Rightarrow> statement_error option" where
  "ss_Verify C ss =
     (if length (ss_PublicKey ss) \<noteq> ed25519_PublicKeySize then Some (StKey (length (ss_PublicKey ss)))
      else if length (ss_Signature ss) \<noteq> ed25519_SignatureSize then Some (StSig (length (ss_Signature ss)))
      else if \<not> ed25519_Verify C (ss_PublicKey ss) (ss_Canonical ss) (ss_Signature ss) then Some StInvalid
      else None)"

definition IssueSignedSeen :: "crypto \<Rightarrow> i64 \<Rightarrow> WitnessServer \<Rightarrow> string \<Rightarrow> SignedSeen" where
  "IssueSignedSeen C now s origin =
     (let ss = \<lparr>ss_WitnessID = sv_id s, ss_PublicKey = sv_pub s, ss_KeyID = sv_keyID s, ss_Origin = origin,
                ss_Seen = SeenFor s origin, ss_IssuedAt = now, ss_Signature = []\<rparr>
      in ss\<lparr>ss_Signature := ed_sign C (sv_priv s) (ss_Canonical ss)\<rparr>)"

text \<open>
  The first size, in the order \<open>order\<close> of the range, at which the two statements disagree; the text
  that is made of it, and the number read back from the text (\<open>Sscanf\<close> of \<open>size=%d\<close>).
\<close>

definition find_contradiction :: "u64 list \<Rightarrow> SignedSeen \<Rightarrow> SignedSeen \<Rightarrow> u64 option" where
  "find_contradiction order prev next =
     find (\<lambda>sz. fmlookup (ss_Seen next) sz \<noteq> None \<and> fmlookup (ss_Seen next) sz \<noteq> fmlookup (ss_Seen prev) sz) order"

definition findContradiction :: "u64 list \<Rightarrow> SignedSeen \<Rightarrow> SignedSeen \<Rightarrow> string" where
  "findContradiction order prev next =
     (case find_contradiction order prev next of None \<Rightarrow> []
      | Some sz \<Rightarrow> ''size='' @ dec_u64 sz @ '' prev='' @ the (fmlookup (ss_Seen prev) sz)
                   @ '' next='' @ the (fmlookup (ss_Seen next) sz))"

definition parseSizeOfContradiction :: "string \<Rightarrow> u64" where
  "parseSizeOfContradiction t =
     (if take 5 t \<noteq> ''size='' then 0
      else let n = read_digits 0 (drop 5 t) in if n < 2 ^ 64 then of_nat n else 0)"

definition recordAttestationLocked ::
    "witness_codec \<Rightarrow> (string \<Rightarrow> write_outcome) \<Rightarrow> i64 \<Rightarrow> i64 \<Rightarrow> u64 list \<Rightarrow> string \<Rightarrow> SignedSeen \<Rightarrow> WitnessServer
      \<Rightarrow> WitnessServer \<times> witness_error option" where
  "recordAttestationLocked J io now fork_now order peerID ss s =
     (let a = (case sv_attest s of None \<Rightarrow> empty_attest | Some a \<Rightarrow> a);
          att = \<lparr>pa_PeerID = peerID, pa_Origin = ss_Origin ss, pa_ReceivedAt = now, pa_Statement = Some ss\<rparr>;
          s = (case lookup2 (as_Latest a) peerID (ss_Origin ss) of
                 Some (Some prev) \<Rightarrow>
                   (case pa_Statement prev of None \<Rightarrow> s
                    | Some old \<Rightarrow>
                        let contradicting = findContradiction order old ss
                        in if contradicting \<noteq> [] then
                             recordForkLocked J io fork_now (ss_Origin ss) (parseSizeOfContradiction contradicting) None None peerID s
                           else s)
               | _ \<Rightarrow> s);
          a = a\<lparr>as_Latest := update2 peerID (ss_Origin ss) (Some att) (as_Latest a), as_History := as_History a @ [att]\<rparr>
      in saveAttestationsLocked J io (s\<lparr>sv_attest := Some a\<rparr>))"

definition PeerAttestations :: "WitnessServer \<Rightarrow> string \<Rightarrow> PeerAttestation list" where
  "PeerAttestations s peerID =
     (case sv_attest s of None \<Rightarrow> []
      | Some a \<Rightarrow> filter (\<lambda>x. peerID = [] \<or> pa_PeerID x = peerID) (as_History a))"

text \<open>\<open>fetch\<close> is \<open>fetchPeerCheckpoint\<close>, \<open>None\<close> when it fails; \<open>order\<close> is the order of the range over \<open>peerSeen\<close>.\<close>

definition CompareWithPeer ::
    "witness_codec \<Rightarrow> (string \<Rightarrow> write_outcome) \<Rightarrow> i64 \<Rightarrow> u64 list \<Rightarrow> string \<Rightarrow> (u64, string) fmap \<Rightarrow> Peer
      \<Rightarrow> (u64 \<Rightarrow> Checkpoint option) \<Rightarrow> WitnessServer \<Rightarrow> WitnessServer \<times> witness_error option" where
  "CompareWithPeer J io now order origin peerSeen peer fetch s =
     (case find (\<lambda>sz. lookup2 (sv_seen s) origin sz \<noteq> None
                    \<and> lookup2 (sv_seen s) origin sz \<noteq> fmlookup peerSeen sz) order of
        None \<Rightarrow> (s, None)
      | Some sz \<Rightarrow>
          (recordForkLocked J io now origin sz (lookup2 (sv_checkpoints s) origin sz) (fetch sz) (pp_ID peer) s,
           Some (WiFork origin sz (the (lookup2 (sv_seen s) origin sz)) (the (fmlookup peerSeen sz)))))"

subsection \<open>Cross-attestations\<close>

definition ca_text :: "CrossAttestation \<Rightarrow> string" where
  "ca_text a =
     ''stele-cross/v0'' @ nl
     @ ''attester: '' @ ca_AttesterID a @ nl
     @ ''peer: '' @ ca_PeerID a @ nl
     @ ''origin: '' @ ca_Origin a @ nl
     @ ''issued_at: '' @ dec_i64 (ca_IssuedAt a) @ nl
     @ ''peer_statement_issued_at: '' @ dec_i64 (ca_PeerStatementIssuedAt a) @ nl
     @ ''attester_key: '' @ hex (ca_AttesterKey a) @ nl
     @ ''peer_key: '' @ hex (ca_PeerKey a) @ nl
     @ ''overlap_count: '' @ dec_nat (length (sorted_list_of_fset (fmdom (ca_OverlappingSizes a)))) @ nl
     @ seen_lines (ca_OverlappingSizes a)"

definition ca_Canonical :: "CrossAttestation \<Rightarrow> bytes" where
  "ca_Canonical a = of_str (ca_text a)"

definition ca_Verify :: "crypto \<Rightarrow> CrossAttestation \<Rightarrow> statement_error option" where
  "ca_Verify C a =
     (if length (ca_AttesterKey a) \<noteq> ed25519_PublicKeySize then Some (StKey (length (ca_AttesterKey a)))
      else if length (ca_Signature a) \<noteq> ed25519_SignatureSize then Some (StSig (length (ca_Signature a)))
      else if \<not> ed25519_Verify C (ca_AttesterKey a) (ca_Canonical a) (ca_Signature a) then Some StInvalid
      else None)"

definition issueCrossAttestation :: "crypto \<Rightarrow> i64 \<Rightarrow> Peer \<Rightarrow> SignedSeen \<Rightarrow> WitnessServer \<Rightarrow> CrossAttestation option" where
  "issueCrossAttestation C now peer stmt s =
     (let overlap = fmfilter (\<lambda>sz. lookup2 (sv_seen s) (ss_Origin stmt) sz = fmlookup (ss_Seen stmt) sz) (ss_Seen stmt)
      in if fmdom overlap = {||} then None
         else let att = \<lparr>ca_AttesterID = sv_id s, ca_AttesterKey = sv_pub s, ca_AttesterKeyID = sv_keyID s,
                         ca_PeerID = pp_ID peer, ca_PeerKey = pp_PublicKey peer, ca_Origin = ss_Origin stmt,
                         ca_OverlappingSizes = overlap, ca_IssuedAt = now,
                         ca_PeerStatementIssuedAt = ss_IssuedAt stmt, ca_Signature = []\<rparr>
         in Some (att\<lparr>ca_Signature := ed_sign C (sv_priv s) (ca_Canonical att)\<rparr>))"

definition recordCrossAttestationLocked ::
    "witness_codec \<Rightarrow> (string \<Rightarrow> write_outcome) \<Rightarrow> CrossAttestation \<Rightarrow> WitnessServer \<Rightarrow> WitnessServer \<times> witness_error option" where
  "recordCrossAttestationLocked J io att s = saveCrossAttsLocked J io (s\<lparr>sv_crossAtts := sv_crossAtts s @ [att]\<rparr>)"

definition CrossAttestationsAbout :: "WitnessServer \<Rightarrow> string \<Rightarrow> CrossAttestation list" where
  "CrossAttestationsAbout s peerID =
     filter (\<lambda>a. peerID = [] \<or> ca_PeerID a = peerID \<or> ca_AttesterID a = peerID) (sv_crossAtts s)"

subsection \<open>Gossip\<close>

text \<open>
  What one exchange with a peer depends on: the reply to \<open>fetchSignedSeen\<close> (\<open>None\<close> when it fails),
  the checkpoints the peer serves, the clock readings, the two ranges, and how the writes end.
\<close>

record gossip_env =
  ge_reply :: "SignedSeen option"
  ge_fetch :: "u64 \<Rightarrow> Checkpoint option"
  ge_now :: i64
  ge_prev_order :: "u64 list"
  ge_order :: "u64 list"
  ge_io_attest :: "string \<Rightarrow> write_outcome"
  ge_io_compare :: "string \<Rightarrow> write_outcome"
  ge_io_cross :: "string \<Rightarrow> write_outcome"

text \<open>The second component is what the event sink receives.\<close>

definition gossipOne ::
    "crypto \<Rightarrow> witness_codec \<Rightarrow> gossip_env \<Rightarrow> Peer \<Rightarrow> WatchedOperator \<Rightarrow> WitnessServer \<Rightarrow> WitnessServer \<times> ForkEvidence option" where
  "gossipOne C J E peer op s =
     (case ge_reply E of None \<Rightarrow> (s, None)
      | Some stmt \<Rightarrow>
          if ss_Verify C stmt \<noteq> None then (s, None)
          else if \<not> bytesEqual (ss_PublicKey stmt) (pp_PublicKey peer) then (s, None)
          else if ss_WitnessID stmt \<noteq> pp_ID peer then (s, None)
          else let s = fst (recordAttestationLocked J (ge_io_attest E) (ge_now E) (ge_now E) (ge_prev_order E) (pp_ID peer) stmt s)
          in case CompareWithPeer J (ge_io_compare E) (ge_now E) (ge_order E) (wo_Origin op) (ss_Seen stmt) peer (ge_fetch E) s of
               (s, Some _) \<Rightarrow> (s, fmlookup (sv_forks s) (wo_Origin op))
             | (s, None) \<Rightarrow>
                 (case issueCrossAttestation C (ge_now E) peer stmt s of None \<Rightarrow> (s, None)
                  | Some att \<Rightarrow> (fst (recordCrossAttestationLocked J (ge_io_cross E) att s), None)))"

definition gossipRound ::
    "crypto \<Rightarrow> witness_codec \<Rightarrow> (Peer \<times> WatchedOperator \<times> gossip_env) list \<Rightarrow> WitnessServer \<Rightarrow> WitnessServer \<times> ForkEvidence list" where
  "gossipRound C J calls s =
     fold (\<lambda>(peer, op, E) (s, events).
             case gossipOne C J E peer op s of (s, ev) \<Rightarrow> (s, events @ (case ev of None \<Rightarrow> [] | Some e \<Rightarrow> [e])))
       calls (s, [])"

subsection \<open>HTTP endpoints\<close>

text \<open>
  A request is its method, its query parameters (\<open>[]\<close> when absent) and its decoded body, \<open>None\<close> when
  decoding fails; a reply is an error status or status 200 with a body.
\<close>

record CosignRequest =
  cr_Checkpoint :: "Checkpoint option"
  cr_Chain :: "Chain option"
  cr_Group :: "Group option"

definition cosign_handler ::
    "crypto \<Rightarrow> witness_codec \<Rightarrow> (string \<Rightarrow> write_outcome) \<Rightarrow> i64 \<Rightarrow> string \<Rightarrow> CosignRequest option \<Rightarrow> WitnessServer
      \<Rightarrow> WitnessServer \<times> WitnessSig reply" where
  "cosign_handler C J io now meth body s =
     (if meth \<noteq> ''POST'' then (s, HttpErr 405)
      else case body of None \<Rightarrow> (s, HttpErr 400)
      | Some req \<Rightarrow>
          (case (cr_Checkpoint req, cr_Chain req) of
             (Some c, Some ch) \<Rightarrow>
               (case Cosign C J io now c (Some ch) (cr_Group req) s of
                  (s, Inl _) \<Rightarrow> (s, HttpErr 400)
                | (s, Inr sig) \<Rightarrow> (s, HttpOk sig))
           | _ \<Rightarrow> (s, HttpErr 400)))"

definition operators_handler ::
    "witness_codec \<Rightarrow> (string \<Rightarrow> write_outcome) \<Rightarrow> string \<Rightarrow> WatchedOperator option option \<Rightarrow> WitnessServer
      \<Rightarrow> WitnessServer \<times> WatchedOperator list reply" where
  "operators_handler J io meth body s =
     (if meth = ''GET'' then (s, HttpOk (ListOperators s))
      else if meth = ''POST'' then
        (case body of None \<Rightarrow> (s, HttpErr 400)
         | Some oo \<Rightarrow>
             (case AddOperator J io oo s of
                (s, Some _) \<Rightarrow> (s, HttpErr 400)
              | (s, None) \<Rightarrow> (s, HttpOk (case oo of None \<Rightarrow> [] | Some op \<Rightarrow> [op]))))
      else (s, HttpErr 405))"

definition peers_handler ::
    "witness_codec \<Rightarrow> (string \<Rightarrow> write_outcome) \<Rightarrow> i64 \<Rightarrow> string \<Rightarrow> Peer option option \<Rightarrow> WitnessServer
      \<Rightarrow> WitnessServer \<times> Peer list reply" where
  "peers_handler J io now meth body s =
     (if meth = ''GET'' then (s, HttpOk (ListPeers s))
      else if meth = ''POST'' then
        (case body of None \<Rightarrow> (s, HttpErr 400)
         | Some po \<Rightarrow>
             (case AddPeer J io now po s of
                (s, Some _) \<Rightarrow> (s, HttpErr 400)
              | (s, None) \<Rightarrow>
                  (s, HttpOk (case po of None \<Rightarrow> [] | Some p \<Rightarrow> [if pp_AddedAt p = 0 then p\<lparr>pp_AddedAt := now\<rparr> else p]))))
      else (s, HttpErr 405))"

definition seen_handler :: "string \<Rightarrow> string \<Rightarrow> WitnessServer \<Rightarrow> (string \<times> (u64, string) fmap) reply" where
  "seen_handler meth origin s =
     (if meth \<noteq> ''GET'' then HttpErr 405
      else if origin = [] then HttpErr 400
      else HttpOk (origin, SeenFor s origin))"

definition seen_signed_handler :: "crypto \<Rightarrow> i64 \<Rightarrow> string \<Rightarrow> string \<Rightarrow> WitnessServer \<Rightarrow> SignedSeen reply" where
  "seen_signed_handler C now meth origin s =
     (if meth \<noteq> ''GET'' then HttpErr 405
      else if origin = [] then HttpErr 400
      else HttpOk (IssueSignedSeen C now s origin))"

definition cross_attestations_handler :: "string \<Rightarrow> string \<Rightarrow> WitnessServer \<Rightarrow> CrossAttestation list reply" where
  "cross_attestations_handler meth peerID s =
     (if meth \<noteq> ''GET'' then HttpErr 405 else HttpOk (CrossAttestationsAbout s peerID))"

definition peer_attestations_handler :: "string \<Rightarrow> string \<Rightarrow> WitnessServer \<Rightarrow> PeerAttestation list reply" where
  "peer_attestations_handler meth peerID s =
     (if meth \<noteq> ''GET'' then HttpErr 405 else HttpOk (PeerAttestations s peerID))"

definition checkpoint_handler :: "string \<Rightarrow> string \<Rightarrow> string \<Rightarrow> WitnessServer \<Rightarrow> Checkpoint reply" where
  "checkpoint_handler meth origin sizeStr s =
     (if meth \<noteq> ''GET'' then HttpErr 405
      else if origin = [] \<or> sizeStr = [] then HttpErr 400
      else case parseUint sizeStr of None \<Rightarrow> HttpErr 400
      | Some sz \<Rightarrow> (case CheckpointAt s origin sz of None \<Rightarrow> HttpErr 404 | Some c \<Rightarrow> HttpOk c))"

definition forks_handler ::
    "witness_codec \<Rightarrow> (string \<Rightarrow> write_outcome) \<Rightarrow> string \<Rightarrow> string \<Rightarrow> WitnessServer
      \<Rightarrow> WitnessServer \<times> ForkEvidence list reply" where
  "forks_handler J io meth origin s =
     (if meth = ''GET'' then (s, HttpOk (ListForks s))
      else if meth = ''DELETE'' then
        (if origin = [] then (s, HttpErr 400) else (ClearFork J io origin s, HttpOk []))
      else (s, HttpErr 405))"

section \<open>Lemmas\<close>

lemma lookup2_update2 [simp]:
  "lookup2 (update2 a b v m) a' b' = (if a = a' \<and> b = b' then Some v else lookup2 m a' b')"
  by (simp add: lookup2_def update2_def split: option.splits)

text \<open>A save changes nothing but the files, and of those only the one it names and its temporary file.\<close>

lemma save_file_frame:
  assumes "save_file io path body s = (s', r)"
  shows "s' = s\<lparr>sv_files := sv_files s'\<rparr>"
    and "sv_seen s' = sv_seen s"
    and "p \<noteq> path \<Longrightarrow> p \<noteq> path @ ''.tmp'' \<Longrightarrow> sv_files s' p = sv_files s p"
    and "sv_files s' path = (if r = None then body else sv_files s path)"
  using assms by (auto simp: save_file_def atomicWrite_def Let_def split: option.splits write_outcome.splits)

lemmas path_defs = opsPath_def seenPath_def checkpointsPath_def peersPath_def forksPath_def attestationsPath_def crossAttsPath_def

lemmas save_defs = saveOperators_def saveSeen_def saveCheckpoints_def savePeers_def saveForks_def
  saveAttestationsLocked_def saveCrossAttsLocked_def

text \<open>Two states with the same view of what was cosigned, in memory and on disk.\<close>

definition same_seen :: "WitnessServer \<Rightarrow> WitnessServer \<Rightarrow> bool" where
  "same_seen s s' \<longleftrightarrow> sv_seen s' = sv_seen s \<and> sv_files s' seenPath = sv_files s seenPath"

lemma same_seen_refl [simp]: "same_seen s s"
  by (simp add: same_seen_def)

lemma same_seen_trans: "same_seen s s' \<Longrightarrow> same_seen s' s'' \<Longrightarrow> same_seen s s''"
  by (simp add: same_seen_def)

lemma same_seen_fields [simp]:
  "same_seen s (s\<lparr>sv_operators := a\<rparr>)" "same_seen s (s\<lparr>sv_peers := b\<rparr>)" "same_seen s (s\<lparr>sv_forks := c\<rparr>)"
  "same_seen s (s\<lparr>sv_attest := d\<rparr>)" "same_seen s (s\<lparr>sv_crossAtts := e\<rparr>)" "same_seen s (s\<lparr>sv_checkpoints := f\<rparr>)"
  by (simp_all add: same_seen_def)

lemma save_file_seen:
  assumes "path \<noteq> seenPath" "path @ ''.tmp'' \<noteq> seenPath"
  shows "same_seen s (fst (save_file io path body s))"
proof -
  obtain s' r where sv: "save_file io path body s = (s', r)" by force
  from save_file_frame(2) [OF sv] save_file_frame(3) [OF sv, of seenPath] assms show ?thesis by (auto simp: same_seen_def sv)
qed

lemma saves_seen:
  "same_seen s (fst (saveOperators J io s))" "same_seen s (fst (savePeers J io s))" "same_seen s (fst (saveForks J io s))"
  "same_seen s (fst (saveAttestationsLocked J io s))" "same_seen s (fst (saveCrossAttsLocked J io s))"
  "same_seen s (fst (saveCheckpoints J io s))"
  by (auto simp: save_defs path_defs intro!: save_file_seen split: option.splits)

lemma ops_seen:
  "same_seen s (fst (AddOperator J io oo s))" "same_seen s (fst (AddPeer J io now po s))"
  "same_seen s (ClearFork J io origin s)" "same_seen s (recordForkLocked J io now origin sz ours theirs pid s)"
  "same_seen s (fst (CompareWithPeer J io now order origin pseen peer fetch s))"
  "same_seen s (fst (recordCrossAttestationLocked J io att s))"
  using same_seen_trans [OF same_seen_fields(1) saves_seen(1)] same_seen_trans [OF same_seen_fields(2) saves_seen(2)]
    same_seen_trans [OF same_seen_fields(3) saves_seen(3)] same_seen_trans [OF same_seen_fields(5) saves_seen(5)]
  by (auto simp: AddOperator_def AddPeer_def ClearFork_def recordForkLocked_def CompareWithPeer_def
      recordCrossAttestationLocked_def Let_def split: option.splits)

lemma recordAttestation_seen: "same_seen s (fst (recordAttestationLocked J io now fnow order pid ss s))"
proof -
  have "same_seen s (fst (saveAttestationsLocked J io (s'\<lparr>sv_attest := a\<rparr>)))" if "same_seen s s'" for s' a
    using same_seen_trans [OF that same_seen_trans [OF same_seen_fields(4) saves_seen(4)]] .
  then show ?thesis using ops_seen(4) by (auto simp: recordAttestationLocked_def Let_def split: option.splits)
qed

lemma gossip_seen: "same_seen s (fst (gossipOne C J E peer op s))"
proof (cases "ge_reply E")
  case (Some stmt)
  let ?s1 = "fst (recordAttestationLocked J (ge_io_attest E) (ge_now E) (ge_now E) (ge_prev_order E) (pp_ID peer) stmt s)"
  let ?c = "CompareWithPeer J (ge_io_compare E) (ge_now E) (ge_order E) (wo_Origin op) (ss_Seen stmt) peer (ge_fetch E) ?s1"
  have s2: "same_seen s (fst ?c)" by (rule same_seen_trans [OF recordAttestation_seen ops_seen(5)])
  then have "same_seen s (fst (recordCrossAttestationLocked J (ge_io_cross E) att (fst ?c)))" for att
    by (rule same_seen_trans [OF _ ops_seen(6)])
  with s2 show ?thesis
    by (auto simp: gossipOne_def Some Let_def split: prod.splits option.splits)
qed (simp add: gossipOne_def)

section \<open>A witness never equivocates\<close>

text \<open>
  The life of a witness: opened on some files, any sequence of operations, of which every write may
  fail, and restarts on the files as they are.  The list collects the checkpoints it has
  countersigned.
\<close>

inductive witness_run ::
    "crypto \<Rightarrow> (bytes \<Rightarrow> bytes option) \<Rightarrow> witness_codec \<Rightarrow> (string \<rightharpoonup> bytes) \<Rightarrow> WitnessServer \<Rightarrow> Checkpoint list \<Rightarrow> bool"
    for C L J files0 where
  start: "newServer C L J True rd io seed qseed i hybrid files0 = (files, Inr s) \<Longrightarrow> witness_run C L J files0 s []"
| cosign: "witness_run C L J files0 s issued \<Longrightarrow> Cosign C J io now c chain go s = (s', Inr sig)
    \<Longrightarrow> witness_run C L J files0 s' (c # issued)"
| refuse: "witness_run C L J files0 s issued \<Longrightarrow> Cosign C J io now c chain go s = (s', Inl e)
    \<Longrightarrow> witness_run C L J files0 s' issued"
| add_operator: "witness_run C L J files0 s issued \<Longrightarrow> witness_run C L J files0 (fst (AddOperator J io oo s)) issued"
| add_peer: "witness_run C L J files0 s issued \<Longrightarrow> witness_run C L J files0 (fst (AddPeer J io now po s)) issued"
| clear_fork: "witness_run C L J files0 s issued \<Longrightarrow> witness_run C L J files0 (ClearFork J io origin s) issued"
| gossip: "witness_run C L J files0 s issued \<Longrightarrow> witness_run C L J files0 (fst (gossipOne C J E peer op s)) issued"
| restart: "witness_run C L J files0 s issued \<Longrightarrow>
    newServer C L J True rd io seed qseed i hybrid (sv_files s) = (files, Inr s') \<Longrightarrow> witness_run C L J files0 s' issued"

text \<open>
  What is countersigned is on disk, and what is on disk is in memory.
\<close>

definition disk_seen :: "witness_codec \<Rightarrow> WitnessServer \<Rightarrow> seen_map" where
  "disk_seen J s =
     (case sv_files s seenPath of None \<Rightarrow> fmempty
      | Some b \<Rightarrow> (case dec_seen J b of None \<Rightarrow> fmempty | Some m \<Rightarrow> m))"

definition witness_inv :: "witness_codec \<Rightarrow> WitnessServer \<Rightarrow> Checkpoint list \<Rightarrow> bool" where
  "witness_inv J s issued \<longleftrightarrow>
     (\<forall>c\<in>set issued. lookup2 (disk_seen J s) (cp_Origin c) (cp_Size c) = Some (hex (cp_RootHash c)))
     \<and> (\<forall>a n r. lookup2 (disk_seen J s) a n = Some r \<longrightarrow> lookup2 (sv_seen s) a n = Some r)"

lemma witness_inv_same: "witness_inv J s issued \<Longrightarrow> same_seen s s' \<Longrightarrow> witness_inv J s' issued"
  by (simp add: witness_inv_def disk_seen_def same_seen_def)

text \<open>Opening keeps the file of what was cosigned and loads it.\<close>

lemma loadOrCreateKey_seen: "same_seen s (fst (loadOrCreateKey C rd io seed s))"
  by (auto simp: loadOrCreateKey_def same_seen_def with_key_def writeFile_def path_defs Let_def
      split: option.splits write_outcome.splits)

lemma loadOrCreateQuantumKey_seen: "same_seen s (fst (loadOrCreateQuantumKey C L rd io seed hybrid s))"
  by (auto simp: loadOrCreateQuantumKey_def same_seen_def writeFile_def path_defs Let_def
      split: option.splits write_outcome.splits prod.splits)

lemma loads_frame:
  "loadOperators J rd s = Inr s' \<Longrightarrow> sv_files s' = sv_files s \<and> sv_seen s' = sv_seen s"
  "loadCheckpoints J rd s = Inr s' \<Longrightarrow> sv_files s' = sv_files s \<and> sv_seen s' = sv_seen s"
  "loadPeers J rd s = Inr s' \<Longrightarrow> sv_files s' = sv_files s \<and> sv_seen s' = sv_seen s"
  "loadForks J rd s = Inr s' \<Longrightarrow> sv_files s' = sv_files s \<and> sv_seen s' = sv_seen s"
  "loadAttestations J rd s = Inr s' \<Longrightarrow> sv_files s' = sv_files s \<and> sv_seen s' = sv_seen s"
  "loadCrossAtts J rd s = Inr s' \<Longrightarrow> sv_files s' = sv_files s \<and> sv_seen s' = sv_seen s"
  by (auto simp: loadOperators_def loadCheckpoints_def loadPeers_def loadForks_def loadAttestations_def
      loadCrossAtts_def split: sum.split_asm)

lemma loadSeen_disk:
  "loadSeen J rd s = Inr s' \<Longrightarrow> sv_seen s = fmempty \<Longrightarrow> sv_files s' = sv_files s \<and> sv_seen s' = disk_seen J s"
  by (auto simp: loadSeen_def load_file_def disk_seen_def split: sum.split_asm if_split_asm option.split_asm)

lemma newServer_disk:
  assumes "newServer C L J mk rd io seed qseed i hybrid files0 = (files, Inr s)"
  shows "sv_files s seenPath = files0 seenPath" "sv_seen s = disk_seen J s"
proof -
  obtain s1 where s1: "loadOrCreateKey C rd io seed (blank_server i files0) = (s1, None)"
    using assms by (auto simp: newServer_def split: if_split_asm prod.split_asm option.split_asm)
  obtain s2 where s2: "loadOrCreateQuantumKey C L rd io qseed hybrid s1 = (s2, None)"
    using assms s1 by (auto simp: newServer_def split: if_split_asm prod.split_asm option.split_asm)
  have k: "sv_files s2 seenPath = files0 seenPath" "sv_seen s2 = fmempty"
    using loadOrCreateKey_seen [of "blank_server i files0" C rd io seed]
      loadOrCreateQuantumKey_seen [of s1 C L rd io qseed hybrid] s1 s2
    by (simp_all add: same_seen_def blank_server_def)
  have "load_all [loadOperators J rd, loadSeen J rd, loadCheckpoints J rd, loadPeers J rd, loadForks J rd,
      loadAttestations J rd, loadCrossAtts J rd] s2 = Inr s"
    using assms s1 s2 by (auto simp: newServer_def split: if_split_asm)
  then obtain a b c d e f where l: "loadOperators J rd s2 = Inr a" "loadSeen J rd a = Inr b" "loadCheckpoints J rd b = Inr c"
    "loadPeers J rd c = Inr d" "loadForks J rd d = Inr e" "loadAttestations J rd e = Inr f" "loadCrossAtts J rd f = Inr s"
    by (auto split: sum.split_asm)
  have a: "sv_files a = sv_files s2" "sv_seen a = fmempty" using loads_frame(1) [OF l(1)] k(2) by simp_all
  have "sv_files s = sv_files b" "sv_seen s = sv_seen b"
    using loads_frame(2) [OF l(3)] loads_frame(3) [OF l(4)] loads_frame(4) [OF l(5)] loads_frame(5) [OF l(6)]
      loads_frame(6) [OF l(7)] by simp_all
  with loadSeen_disk [OF l(2) a(2)] a(1) k(1)
  show "sv_files s seenPath = files0 seenPath" "sv_seen s = disk_seen J s" by (simp_all add: disk_seen_def)
qed

lemma newServer_inv:
  assumes "newServer C L J mk rd io seed qseed i hybrid files0 = (files, Inr s)"
  shows "witness_inv J s []"
  using newServer_disk(2) [OF assms] by (simp add: witness_inv_def)

lemma restart_inv:
  assumes "witness_inv J s issued" "newServer C L J mk rd io seed qseed i hybrid (sv_files s) = (files, Inr s')"
  shows "witness_inv J s' issued"
proof -
  have "disk_seen J s' = disk_seen J s" using newServer_disk(1) [OF assms(2)] by (simp add: disk_seen_def)
  with newServer_disk(2) [OF assms(2)] assms(1) show ?thesis by (simp add: witness_inv_def)
qed

text \<open>What a countersignature presupposes.\<close>

lemma Cosign_Inr:
  assumes "Cosign C J io now c chain go s = (s', Inr sig)"
  obtains op s1 s2 where "fmlookup (sv_forks s) (cp_Origin c) = None" "fmlookup (sv_operators s) (cp_Origin c) = Some op"
    "cp_Verify C c chain (wo_RootPublicKey op) go = None"
    "lookup2 (sv_seen s) (cp_Origin c) (cp_Size c) \<in> {None, Some (hex (cp_RootHash c))}"
    "s1 = s\<lparr>sv_seen := update2 (cp_Origin c) (cp_Size c) (hex (cp_RootHash c)) (sv_seen s),
            sv_checkpoints := update2 (cp_Origin c) (cp_Size c) c (sv_checkpoints s)\<rparr>"
    "saveSeen J io s1 = (s2, None)" "saveCheckpoints J io s2 = (s', None)" "sig = witness_sig C now s' c"
  using assms
  by (auto simp: Cosign_def Let_def split: if_split_asm option.split_asm prod.split_asm)

lemma Cosign_inv:
  assumes inv: "witness_inv J s issued" and codec: "\<And>m b. enc_seen J m = Some b \<Longrightarrow> dec_seen J b = Some m"
    and cs: "Cosign C J io now c chain go s = (s', r)"
  shows "case r of Inr sig \<Rightarrow> witness_inv J s' (c # issued) | Inl e \<Rightarrow> witness_inv J s' issued"
proof -
  let ?s1 = "s\<lparr>sv_seen := update2 (cp_Origin c) (cp_Size c) (hex (cp_RootHash c)) (sv_seen s),
            sv_checkpoints := update2 (cp_Origin c) (cp_Size c) c (sv_checkpoints s)\<rparr>"
  obtain s2 r2 where sv: "saveSeen J io ?s1 = (s2, r2)" by force
  note fr = save_file_frame [OF sv [unfolded saveSeen_def]]
  have seen2: "sv_seen s2 = update2 (cp_Origin c) (cp_Size c) (hex (cp_RootHash c)) (sv_seen s)" using fr(2) by simp
  have disk2: "disk_seen J s2 = (if r2 = None then sv_seen s2 else disk_seen J s)"
  proof (cases r2)
    case None
    then obtain b where "enc_seen J (sv_seen ?s1) = Some b"
      using sv by (auto simp: saveSeen_def save_file_def split: option.split_asm)
    with None fr(4) codec show ?thesis by (simp add: disk_seen_def fr(2))
  next
    case (Some e)
    with fr(4) show ?thesis by (simp add: disk_seen_def)
  qed
  have ok: "witness_inv J s2 (if r2 = None then c # issued else issued)"
    if "lookup2 (sv_seen s) (cp_Origin c) (cp_Size c) \<in> {None, Some (hex (cp_RootHash c))}"
    using inv that disk2 seen2 by (auto simp: witness_inv_def)
  show ?thesis
  proof (cases r)
    case (Inr sig)
    from cs [unfolded Inr] obtain op s1 s2' where
      ex: "lookup2 (sv_seen s) (cp_Origin c) (cp_Size c) \<in> {None, Some (hex (cp_RootHash c))}"
      and "s1 = ?s1" "saveSeen J io s1 = (s2', None)" "saveCheckpoints J io s2' = (s', None)"
      by (rule Cosign_Inr)
    then have "r2 = None" "saveCheckpoints J io s2 = (s', None)" using sv by auto
    moreover have "witness_inv J (fst (saveCheckpoints J io s2)) (if r2 = None then c # issued else issued)"
      by (rule witness_inv_same [OF ok [OF ex] saves_seen(6)])
    ultimately show ?thesis using Inr by simp
  next
    case (Inl e)
    have fork: "witness_inv J (recordForkLocked J io now a n x y p s) issued" for a n x y p
      by (rule witness_inv_same [OF inv ops_seen(4)])
    have weak: "witness_inv J s2 issued" if "lookup2 (sv_seen s) (cp_Origin c) (cp_Size c) \<in> {None, Some (hex (cp_RootHash c))}"
      using ok [OF that] by (auto simp: witness_inv_def split: if_splits)
    have weak': "witness_inv J (fst (saveCheckpoints J io s2)) issued"
      if "lookup2 (sv_seen s) (cp_Origin c) (cp_Size c) \<in> {None, Some (hex (cp_RootHash c))}"
      by (rule witness_inv_same [OF weak [OF that] saves_seen(6)])
    show ?thesis
      using cs Inl inv fork weak weak' sv
      by (auto simp: Cosign_def Let_def split: if_split_asm option.split_asm prod.split_asm)
  qed
qed

lemma witness_run_inv:
  assumes codec: "\<And>m b. enc_seen J m = Some b \<Longrightarrow> dec_seen J b = Some m"
    and run: "witness_run C L J files0 s issued"
  shows "witness_inv J s issued"
  using run
proof induction
  case start
  then show ?case by (rule newServer_inv)
next
  case cosign
  with Cosign_inv [OF cosign.IH codec cosign.hyps(2)] show ?case by simp
next
  case refuse
  with Cosign_inv [OF refuse.IH codec refuse.hyps(2)] show ?case by simp
next
  case add_operator
  show ?case by (rule witness_inv_same [OF add_operator.IH ops_seen(1)])
next
  case add_peer
  show ?case by (rule witness_inv_same [OF add_peer.IH ops_seen(2)])
next
  case clear_fork
  show ?case by (rule witness_inv_same [OF clear_fork.IH ops_seen(3)])
next
  case gossip
  show ?case by (rule witness_inv_same [OF gossip.IH gossip_seen])
next
  case restart
  then show ?case by (blast intro: restart_inv)
qed

subsection \<open>Forks\<close>

lemma save_file_forks [simp]: "sv_forks (fst (save_file io p b s)) = sv_forks s" "sv_operators (fst (save_file io p b s)) = sv_operators s"
  by (auto simp: save_file_def split: option.splits prod.splits)

definition forked :: "WitnessServer \<Rightarrow> string \<Rightarrow> bool" where
  "forked s origin \<longleftrightarrow> fmlookup (sv_forks s) origin \<noteq> None"

lemma recordFork_forks [simp]:
  "forked (recordForkLocked J io now a n x y p s) b \<longleftrightarrow> b = a \<or> forked s b"
  "sv_seen (recordForkLocked J io now a n x y p s) = sv_seen s"
  using ops_seen(4) [of s J io now a n x y p] by (auto simp: forked_def recordForkLocked_def save_defs same_seen_def)

lemma Cosign_flagged: "forked s (cp_Origin c) \<Longrightarrow> Cosign C J io now c chain go s = (s, Inl (WiForked (cp_Origin c)))"
  by (simp add: Cosign_def forked_def)

text \<open>Two views disagree at a size both have.\<close>

definition views_conflict :: "(u64, string) fmap \<Rightarrow> (u64, string) fmap \<Rightarrow> bool" where
  "views_conflict m n \<longleftrightarrow> (\<exists>sz a b. fmlookup m sz = Some a \<and> fmlookup n sz = Some b \<and> a \<noteq> b)"

lemma find_conflict:
  assumes "set order = fset (fmdom n)"
  shows "find (\<lambda>sz. fmlookup m sz \<noteq> None \<and> fmlookup m sz \<noteq> fmlookup n sz) order \<noteq> None \<longleftrightarrow> views_conflict m n"
proof -
  have "find (\<lambda>sz. fmlookup m sz \<noteq> None \<and> fmlookup m sz \<noteq> fmlookup n sz) order \<noteq> None
      \<longleftrightarrow> (\<exists>sz\<in>fset (fmdom n). fmlookup m sz \<noteq> None \<and> fmlookup m sz \<noteq> fmlookup n sz)"
    by (auto simp: find_None_iff assms)
  also have "\<dots> \<longleftrightarrow> views_conflict m n" unfolding views_conflict_def
    by (metis (no_types, opaque_lifting) fmdomE fmdomI option.distinct(1) option.exhaust option.inject)
  finally show ?thesis .
qed

lemma lookup2_SeenFor: "lookup2 (sv_seen s) origin sz = fmlookup (SeenFor s origin) sz"
  by (simp add: lookup2_def SeenFor_def split: option.splits)

lemma CompareWithPeer_flags:
  assumes "set order = fset (fmdom pseen)" and "CompareWithPeer J io now order origin pseen peer fetch s = (s', r)"
  shows "r = None \<longleftrightarrow> \<not> views_conflict (SeenFor s origin) pseen" and "r = None \<Longrightarrow> s' = s"
    and "r \<noteq> None \<Longrightarrow> forked s' b \<longleftrightarrow> b = origin \<or> forked s b"
  using assms(2) find_conflict [OF assms(1), of "SeenFor s origin"]
  by (auto simp: CompareWithPeer_def lookup2_SeenFor split: option.split_asm)

text \<open>A peer contradicts the statement of it that is on record.\<close>

definition contradicts_record :: "WitnessServer \<Rightarrow> string \<Rightarrow> SignedSeen \<Rightarrow> bool" where
  "contradicts_record s pid stmt \<longleftrightarrow>
     (\<exists>a prev old. sv_attest s = Some a \<and> lookup2 (as_Latest a) pid (ss_Origin stmt) = Some (Some prev)
        \<and> pa_Statement prev = Some old \<and> views_conflict (ss_Seen stmt) (ss_Seen old))"

lemma findContradiction_Nil:
  assumes "set order = fset (fmdom (ss_Seen old))"
  shows "findContradiction order old stmt \<noteq> [] \<longleftrightarrow> views_conflict (ss_Seen stmt) (ss_Seen old)"
  using find_conflict [OF assms, of "ss_Seen stmt"]
  by (auto simp: findContradiction_def find_contradiction_def split: option.splits)

lemma lookup2_empty [simp]: "lookup2 fmempty a b = None"
  by (simp add: lookup2_def)

lemma saveAttestations_fields [simp]:
  "sv_forks (fst (saveAttestationsLocked J io s)) = sv_forks s" "sv_seen (fst (saveAttestationsLocked J io s)) = sv_seen s"
  using saves_seen(4) [of s J io] by (auto simp: save_defs same_seen_def split: option.splits)

lemma forked_saveAttestations [simp]: "forked (fst (saveAttestationsLocked J io (s\<lparr>sv_attest := a\<rparr>))) b = forked s b"
  by (simp add: forked_def)

text \<open>The range over the sizes of the statement on record, in some order.\<close>

definition ranges_over_record :: "WitnessServer \<Rightarrow> string \<Rightarrow> SignedSeen \<Rightarrow> u64 list \<Rightarrow> bool" where
  "ranges_over_record s pid stmt order \<longleftrightarrow>
     (\<forall>a prev old. sv_attest s = Some a \<longrightarrow> lookup2 (as_Latest a) pid (ss_Origin stmt) = Some (Some prev)
        \<longrightarrow> pa_Statement prev = Some old \<longrightarrow> set order = fset (fmdom (ss_Seen old)))"

lemma recordAttestation_flags:
  assumes "ranges_over_record s pid stmt order"
  shows "forked (fst (recordAttestationLocked J io now fnow order pid stmt s)) b
    \<longleftrightarrow> forked s b \<or> b = ss_Origin stmt \<and> contradicts_record s pid stmt"
proof -
  let ?a = "case sv_attest s of None \<Rightarrow> empty_attest | Some a \<Rightarrow> a"
  consider (old) a prev old where "sv_attest s = Some a" "lookup2 (as_Latest a) pid (ss_Origin stmt) = Some (Some prev)"
      "pa_Statement prev = Some old"
    | (new) "\<not> (\<exists>prev old. lookup2 (as_Latest ?a) pid (ss_Origin stmt) = Some (Some prev) \<and> pa_Statement prev = Some old)"
    by (cases "sv_attest s") (simp add: empty_attest_def, simp, metis not_None_eq)
  then show ?thesis
  proof cases
    case old
    then have "set order = fset (fmdom (ss_Seen old))" using assms by (simp add: ranges_over_record_def)
    from findContradiction_Nil [OF this, of stmt] old show ?thesis
      by (auto simp: recordAttestationLocked_def contradicts_record_def Let_def)
  next
    case new
    then have "\<not> contradicts_record s pid stmt" by (auto simp: contradicts_record_def)
    with new show ?thesis
      by (auto simp: recordAttestationLocked_def Let_def split: option.splits)
  qed
qed

lemma gossipOne_flags:
  assumes reply: "ge_reply E = Some stmt" "ss_Verify C stmt = None" "ss_PublicKey stmt = pp_PublicKey peer"
      "ss_WitnessID stmt = pp_ID peer"
    and orders: "ranges_over_record s (pp_ID peer) stmt (ge_prev_order E)" "set (ge_order E) = fset (fmdom (ss_Seen stmt))"
  shows "forked (fst (gossipOne C J E peer op s)) b \<longleftrightarrow>
      forked s b \<or> b = ss_Origin stmt \<and> contradicts_record s (pp_ID peer) stmt
      \<or> b = wo_Origin op \<and> views_conflict (SeenFor s (wo_Origin op)) (ss_Seen stmt)"
proof -
  let ?s1 = "fst (recordAttestationLocked J (ge_io_attest E) (ge_now E) (ge_now E) (ge_prev_order E) (pp_ID peer) stmt s)"
  obtain s2 r where c: "CompareWithPeer J (ge_io_compare E) (ge_now E) (ge_order E) (wo_Origin op) (ss_Seen stmt) peer (ge_fetch E) ?s1 = (s2, r)"
    by force
  note fl = CompareWithPeer_flags [OF orders(2) c]
  have "SeenFor ?s1 = SeenFor s"
    using recordAttestation_seen [of s J "ge_io_attest E" "ge_now E" "ge_now E" "ge_prev_order E" "pp_ID peer" stmt]
    by (simp add: same_seen_def SeenFor_def fun_eq_iff)
  with fl have s2: "forked s2 b \<longleftrightarrow> forked ?s1 b \<or> b = wo_Origin op \<and> views_conflict (SeenFor s (wo_Origin op)) (ss_Seen stmt)"
    by (cases r) auto
  have cross: "forked (fst (recordCrossAttestationLocked J io att s2)) b = forked s2 b" for io att
    by (simp add: recordCrossAttestationLocked_def forked_def save_defs)
  have "forked (fst (gossipOne C J E peer op s)) b = forked s2 b"
    using reply c cross by (simp add: gossipOne_def bytesEqual_iff Let_def split: option.splits)
  with s2 recordAttestation_flags [OF orders(1)] show ?thesis by auto
qed

section \<open>What the witness promises\<close>

text \<open>
  C18.  A witness never countersigns two different roots for one origin and size.  The run starts
  from any directory and may contain any sequence of requests (accepted or refused), registrations,
  gossip rounds, cleared forks, failing writes and restarts; the only assumption is that the
  encoding of the file of seen roots can be read back.
\<close>

theorem witness_never_equivocates:
  assumes "\<And>m b. enc_seen J m = Some b \<Longrightarrow> dec_seen J b = Some m"
    and "witness_run C L J files0 s issued"
    and "c \<in> set issued" "d \<in> set issued" "cp_Origin c = cp_Origin d" "cp_Size c = cp_Size d"
  shows "cp_RootHash c = cp_RootHash d"
proof -
  have "lookup2 (disk_seen J s) (cp_Origin x) (cp_Size x) = Some (hex (cp_RootHash x))" if "x \<in> set issued" for x
    using witness_run_inv [OF assms(1,2)] that by (simp add: witness_inv_def)
  from this [OF assms(3)] this [OF assms(4)] assms(5,6) show ?thesis by simp
qed

lemma Cosign_keys:
  assumes "Cosign C J io now c chain go s = (s', Inr sig)"
  shows "sv_id s' = sv_id s" "sv_priv s' = sv_priv s" "sv_pub s' = sv_pub s" "sv_qPriv s' = sv_qPriv s" "sv_qPub s' = sv_qPub s"
proof -
  obtain s1 s2 where s1: "s1 = s\<lparr>sv_seen := update2 (cp_Origin c) (cp_Size c) (hex (cp_RootHash c)) (sv_seen s),
      sv_checkpoints := update2 (cp_Origin c) (cp_Size c) c (sv_checkpoints s)\<rparr>"
    and sv: "saveSeen J io s1 = (s2, None)" "saveCheckpoints J io s2 = (s', None)" by (rule Cosign_Inr [OF assms])
  obtain f g where "s2 = s1\<lparr>sv_files := f\<rparr>" "s' = s2\<lparr>sv_files := g\<rparr>"
    using save_file_frame(1) [OF sv(1) [unfolded saveSeen_def]] save_file_frame(1) [OF sv(2) [unfolded saveCheckpoints_def]]
    by blast
  then show "sv_id s' = sv_id s" "sv_priv s' = sv_priv s" "sv_pub s' = sv_pub s" "sv_qPriv s' = sv_qPriv s" "sv_qPub s' = sv_qPub s"
    by (simp_all add: s1)
qed

text \<open>
  A countersignature is issued only for a checkpoint of a watched operator that verifies under
  the registered root key and whose origin is not flagged, and it counts for every verifier that
  trusts the witness's keys: classical when the witness has no Dilithium3 key, hybrid otherwise.
\<close>

theorem cosignature_counts:
  assumes "Cosign C J io now c chain go s = (s', Inr sig)"
    and "ed_correct C (sv_priv s)" "sv_pub s = ed_Public (sv_priv s)"
    and "if sv_qPriv s = [] then sv_qPub s = [] else d3_correct C (sv_qPub s) (sv_qPriv s)"
    and "trust (sv_id s) = Some (sv_pub s, sv_qPub s)"
  shows "(\<exists>op. fmlookup (sv_operators s) (cp_Origin c) = Some op \<and> cp_Verify C c chain (wo_RootPublicKey op) go = None)
    \<and> \<not> forked s (cp_Origin c)
    \<and> VerifyWitnessesHybrid C (c\<lparr>cp_Witnesses := [Some sig]\<rparr>) trust = Some 1"
proof -
  from assms(1) obtain op where a: "fmlookup (sv_forks s) (cp_Origin c) = None" "fmlookup (sv_operators s) (cp_Origin c) = Some op"
    "cp_Verify C c chain (wo_RootPublicKey op) go = None" and sig: "sig = witness_sig C now s' c"
    by (rule Cosign_Inr)
  note k = Cosign_keys [OF assms(1)]
  have "witness_counts C (CanonicalForWitness c) trust sig"
    using assms(4,5) ed_correctD [OF assms(2)] d3_correctD [of C "sv_qPub s" "sv_qPriv s"]
    by (auto simp: witness_counts_def sig witness_sig_def k assms(3) bytesEqual_iff Let_def key_sizes split: if_splits)
  then show ?thesis using a by (simp add: VerifyWitnessesHybrid_def forked_def)
qed

text \<open>
  C22.  What one gossip exchange flags, exactly.  A statement that verifies under the peer's registered
  key and name flags the operator it was asked about if the roots in the statement conflict with the
  witness's own roots for that operator; it flags the origin it says it is about if it contradicts the
  peer's statement on record; it flags nothing else, and unflags nothing.  (The two origins may differ:
  \<open>gossipOne\<close> does not compare them.)  In any state in which an origin is flagged, which lasts until
  \<open>ClearFork\<close> or a restart that finds the flag unsaved, no checkpoint of it is countersigned.
\<close>

theorem gossip_detects_forks:
  assumes "ge_reply E = Some stmt" "ss_Verify C stmt = None" "ss_PublicKey stmt = pp_PublicKey peer"
      "ss_WitnessID stmt = pp_ID peer"
    and "ranges_over_record s (pp_ID peer) stmt (ge_prev_order E)" "set (ge_order E) = fset (fmdom (ss_Seen stmt))"
    and "s' = fst (gossipOne C J E peer op s)"
  shows "(forked s' b \<longleftrightarrow>
      forked s b \<or> b = ss_Origin stmt \<and> contradicts_record s (pp_ID peer) stmt
      \<or> b = wo_Origin op \<and> views_conflict (SeenFor s (wo_Origin op)) (ss_Seen stmt))
    \<and> (forked t (cp_Origin c) \<longrightarrow> Cosign C J io now c chain go t = (t, Inl (WiForked (cp_Origin c))))"
  using gossipOne_flags [OF assms(1-6)] Cosign_flagged assms(7) by auto

section \<open>Witnesses\<close>

definition sample_seen :: seen_map where
  "sample_seen = update2 (cp_Origin sample_checkpoint) 1 (hex (cp_RootHash sample_checkpoint)) fmempty"

definition sample_wcodec :: witness_codec where
  "sample_wcodec =
     \<lparr>enc_operators = (\<lambda>_. Some []), dec_operators = (\<lambda>_. None),
      enc_seen = (\<lambda>m. if m = sample_seen then Some [1] else None), dec_seen = (\<lambda>b. if b = [1] then Some sample_seen else None),
      enc_checkpoints = (\<lambda>_. Some []), dec_checkpoints = (\<lambda>_. None), enc_peers = (\<lambda>_. Some []), dec_peers = (\<lambda>_. None),
      enc_forks = (\<lambda>_. Some []), dec_forks = (\<lambda>_. None), enc_attest = (\<lambda>_. Some []), dec_attest = (\<lambda>_. None),
      enc_crossAtts = (\<lambda>_. Some []), dec_crossAtts = (\<lambda>_. None)\<rparr>"

abbreviation "sample_root \<equiv> RootPublicKey (sg_chain (snd sample_run0))"

definition sample_op :: WatchedOperator where
  "sample_op = \<lparr>wo_Origin = cp_Origin sample_checkpoint, wo_RootPublicKey = sample_root, wo_Description = []\<rparr>"

definition sample_witness0 :: WitnessServer where
  "sample_witness0 = projr (snd (newServer sample_crypto (\<lambda>_. None) sample_wcodec True (\<lambda>_. False) (\<lambda>_. WriteOk)
     (Some (replicate 32 1)) None ''w'' False Map.empty))"

definition sample_witness :: WitnessServer where
  "sample_witness = fst (AddOperator sample_wcodec (\<lambda>_. WriteOk) (Some sample_op) sample_witness0)"

lemma sample_newServer:
  "\<exists>files. newServer sample_crypto (\<lambda>_. None) sample_wcodec True (\<lambda>_. False) (\<lambda>_. WriteOk)
     (Some (replicate 32 1)) None ''w'' False Map.empty = (files, Inr sample_witness0)"
  by (simp add: sample_witness0_def newServer_def loadOrCreateKey_def loadOrCreateQuantumKey_def blank_server_def
      with_key_def writeFile_def loadOperators_def loadSeen_def loadCheckpoints_def loadPeers_def loadForks_def
      loadAttestations_def loadCrossAtts_def load_file_def path_defs Let_def)

lemma sample_checkpoint_origin: "cp_Origin sample_checkpoint = ''log''"
proof -
  have "sg_origin (snd sample_run0) = ''log''" by (rule createGenesis_origin [OF sample_genesis(1)])
  with file_ks.cp_Sign_single [OF sample_run_wf [of False] sample_run_signer_inv [of False], of 300 1 "replicate 32 7" "replicate 32 9" None]
  show ?thesis using sample_checkpoint_signed(1) by (metis sum.inject(2))
qed

lemma sample_root_length: "length sample_root = 32"
proof -
  have v: "verifyChain sample_crypto (sg_chain (snd sample_run0)) sample_root None = None" "ch_Certs (sg_chain (snd sample_run0)) \<noteq> []"
    using sample_run_inv by (auto simp: signer_inv_def verifyChain_None)
  then have "verify_cert sample_crypto None (ch_Certs (sg_chain (snd sample_run0)) ! 0) = None"
    using verify_certs_nth(1) [of sample_crypto None "ch_Certs (sg_chain (snd sample_run0))" 0] by (simp add: verifyChain_None)
  with v show ?thesis by (auto simp: verify_cert_single rc_Verify_None verifyChain_None)
qed

lemma sample_witness0_fields:
  "sv_operators sample_witness0 = fmempty" "sv_seen sample_witness0 = fmempty" "sv_forks sample_witness0 = fmempty"
  "sv_priv sample_witness0 = ed_newkey sample_crypto (replicate 32 1)"
  "sv_pub sample_witness0 = ed_Public (ed_newkey sample_crypto (replicate 32 1))"
  "sv_qPriv sample_witness0 = []" "sv_qPub sample_witness0 = []" "sv_id sample_witness0 = ''w''" "sv_attest sample_witness0 = Some empty_attest"
  by (simp_all add: sample_witness0_def newServer_def loadOrCreateKey_def loadOrCreateQuantumKey_def blank_server_def
      with_key_def writeFile_def loadOperators_def loadSeen_def loadCheckpoints_def loadPeers_def loadForks_def
      loadAttestations_def loadCrossAtts_def load_file_def path_defs Let_def)

lemma sample_witness_eq:
  "\<exists>files. sample_witness = sample_witness0\<lparr>sv_operators := fmupd ''log'' sample_op fmempty, sv_files := files\<rparr>"
proof -
  have "wo_Origin sample_op = ''log''" "length (wo_RootPublicKey sample_op) = 32"
    by (simp_all add: sample_op_def sample_checkpoint_origin sample_root_length)
  moreover have "enc_operators sample_wcodec x = Some []" for x by (simp add: sample_wcodec_def)
  ultimately show ?thesis
    by (simp add: sample_witness_def AddOperator_def key_sizes saveOperators_def save_file_def atomicWrite_def
        sample_witness0_fields) blast
qed

lemma sample_keypair: "ed_newkey sample_crypto x = x @ x"
  by (simp add: sample_crypto_def)

lemma sample_witness_fields:
  "sv_operators sample_witness = fmupd ''log'' sample_op fmempty" "sv_seen sample_witness = fmempty"
  "sv_forks sample_witness = fmempty" "sv_priv sample_witness = replicate 32 1 @ replicate 32 1"
  "sv_pub sample_witness = replicate 32 1"
  "sv_qPriv sample_witness = []" "sv_qPub sample_witness = []" "sv_id sample_witness = ''w''" "sv_attest sample_witness = Some empty_attest"
proof -
  obtain files where w: "sample_witness = sample_witness0\<lparr>sv_operators := fmupd ''log'' sample_op fmempty, sv_files := files\<rparr>"
    using sample_witness_eq by blast
  show "sv_operators sample_witness = fmupd ''log'' sample_op fmempty" "sv_seen sample_witness = fmempty"
  "sv_forks sample_witness = fmempty" "sv_priv sample_witness = replicate 32 1 @ replicate 32 1"
  "sv_pub sample_witness = replicate 32 1"
  "sv_qPriv sample_witness = []" "sv_qPub sample_witness = []" "sv_id sample_witness = ''w''" "sv_attest sample_witness = Some empty_attest"
    by (simp_all add: w sample_witness0_fields sample_keypair ed_Public_def)
qed

abbreviation "sample_resubmitted \<equiv> sample_checkpoint\<lparr>cp_Witnesses := [Some (sample_ws sample_checkpoint)]\<rparr>"

lemma sample_Cosign:
  assumes "sv_operators s = fmupd ''log'' sample_op fmempty" "sv_forks s = fmempty" "sv_seen s \<in> {fmempty, sample_seen}"
    and "c \<in> {sample_checkpoint, sample_resubmitted}"
  shows "\<exists>s' sig. Cosign sample_crypto sample_wcodec (\<lambda>_. WriteOk) 400 c (Some (sg_chain (snd sample_run0))) None s = (s', Inr sig)
    \<and> sv_operators s' = sv_operators s \<and> sv_forks s' = sv_forks s \<and> sv_seen s' = sample_seen"
proof -
  have f: "cp_Origin c = ''log''" "cp_Size c = 1" "cp_RootHash c = cp_RootHash sample_checkpoint"
    "cp_Verify sample_crypto c (Some (sg_chain (snd sample_run0))) sample_root None = None"
    using assms(4) by (auto simp: sample_checkpoint_origin sample_checkpoint_signed)
  have seen: "update2 ''log'' 1 (hex (cp_RootHash sample_checkpoint)) (sv_seen s) = sample_seen"
    "lookup2 (sv_seen s) ''log'' 1 \<in> {None, Some (hex (cp_RootHash sample_checkpoint))}"
    using assms(3) by (auto simp: sample_seen_def sample_checkpoint_origin update2_def lookup2_def)
  show ?thesis
    using seen(2) assms(1,2) f
    by (auto simp: Cosign_def sample_op_def saveSeen_def saveCheckpoints_def save_file_def atomicWrite_def sample_wcodec_def seen(1) Let_def)
qed

lemma sample_first:
  "\<exists>s1 sig1. Cosign sample_crypto sample_wcodec (\<lambda>_. WriteOk) 400 sample_checkpoint
      (Some (sg_chain (snd sample_run0))) None sample_witness = (s1, Inr sig1)
    \<and> sv_operators s1 = fmupd ''log'' sample_op fmempty \<and> sv_forks s1 = fmempty \<and> sv_seen s1 = sample_seen"
proof -
  have "sv_seen sample_witness \<in> {fmempty, sample_seen}" by (simp add: sample_witness_fields(2))
  from sample_Cosign [OF sample_witness_fields(1,3) this insertI1]
  show ?thesis unfolding sample_witness_fields(1,3) .
qed

lemma sample_wcodec_ok: "enc_seen sample_wcodec m = Some b \<Longrightarrow> dec_seen sample_wcodec b = Some m"
  by (auto simp: sample_wcodec_def split: if_split_asm)

lemma sample_witness_run0: "witness_run sample_crypto (\<lambda>_. None) sample_wcodec Map.empty sample_witness []"
proof -
  obtain files where new: "newServer sample_crypto (\<lambda>_. None) sample_wcodec True (\<lambda>_. False) (\<lambda>_. WriteOk)
     (Some (replicate 32 1)) None ''w'' False Map.empty = (files, Inr sample_witness0)"
    using sample_newServer by blast
  show ?thesis unfolding sample_witness_def by (rule witness_run.add_operator, rule witness_run.start, rule new)
qed

lemma sample_witness_run:
  "\<exists>s. witness_run sample_crypto (\<lambda>_. None) sample_wcodec Map.empty s [sample_resubmitted, sample_checkpoint]"
proof -
  obtain s1 sig1 where 1: "Cosign sample_crypto sample_wcodec (\<lambda>_. WriteOk) 400 sample_checkpoint
      (Some (sg_chain (snd sample_run0))) None sample_witness = (s1, Inr sig1)"
    "sv_operators s1 = fmupd ''log'' sample_op fmempty" "sv_forks s1 = fmempty" "sv_seen s1 = sample_seen"
    using sample_first by blast
  obtain s2 sig2 where 2: "Cosign sample_crypto sample_wcodec (\<lambda>_. WriteOk) 400 sample_resubmitted
      (Some (sg_chain (snd sample_run0))) None s1 = (s2, Inr sig2)"
    using sample_Cosign [OF 1(2,3), of sample_resubmitted] 1(4) by blast
  show ?thesis by (rule exI, rule witness_run.cosign [OF witness_run.cosign [OF sample_witness_run0 1(1)] 2])
qed

theorem witness_never_equivocates_witness:
  "\<exists>s. witness_run sample_crypto (\<lambda>_. None) sample_wcodec Map.empty s [sample_resubmitted, sample_checkpoint]
     \<and> cp_RootHash sample_resubmitted = cp_RootHash sample_checkpoint"
proof -
  obtain s where s: "witness_run sample_crypto (\<lambda>_. None) sample_wcodec Map.empty s [sample_resubmitted, sample_checkpoint]"
    using sample_witness_run by blast
  have "cp_RootHash sample_resubmitted = cp_RootHash sample_checkpoint"
    by (rule witness_never_equivocates [OF sample_wcodec_ok s]) simp_all
  with s show ?thesis by blast
qed

theorem cosignature_counts_witness:
  "\<exists>s' sig. Cosign sample_crypto sample_wcodec (\<lambda>_. WriteOk) 400 sample_checkpoint
      (Some (sg_chain (snd sample_run0))) None sample_witness = (s', Inr sig)
    \<and> VerifyWitnessesHybrid sample_crypto (sample_checkpoint\<lparr>cp_Witnesses := [Some sig]\<rparr>)
        (\<lambda>i. if i = ''w'' then Some (replicate 32 1, []) else None) = Some 1"
proof -
  obtain s1 sig1 where 1: "Cosign sample_crypto sample_wcodec (\<lambda>_. WriteOk) 400 sample_checkpoint
      (Some (sg_chain (snd sample_run0))) None sample_witness = (s1, Inr sig1)"
    using sample_first by blast
  have "VerifyWitnessesHybrid sample_crypto (sample_checkpoint\<lparr>cp_Witnesses := [Some sig1]\<rparr>)
        (\<lambda>i. if i = ''w'' then Some (replicate 32 1, []) else None) = Some 1"
    by (rule cosignature_counts [OF 1, THEN conjunct2, THEN conjunct2])
      (simp_all add: sample_witness_fields sample_ed_correct ed_Public_def)
  with 1 show ?thesis by blast
qed

definition sample_peer :: Peer where
  "sample_peer = \<lparr>pp_ID = ''v'', pp_URL = [], pp_PublicKey = ed_Public (replicate 64 2), pp_Description = [], pp_AddedAt = 0\<rparr>"

definition sample_statement :: SignedSeen where
  "sample_statement =
     (let ss = \<lparr>ss_WitnessID = ''v'', ss_PublicKey = ed_Public (replicate 64 2), ss_KeyID = [], ss_Origin = ''log'',
                ss_Seen = fmupd 1 (hex (cp_RootHash sample_checkpoint) @ ''0'') fmempty, ss_IssuedAt = 0, ss_Signature = []\<rparr>
      in ss\<lparr>ss_Signature := ed_sign sample_crypto (replicate 64 2) (ss_Canonical ss)\<rparr>)"

definition sample_exchange :: gossip_env where
  "sample_exchange =
     \<lparr>ge_reply = Some sample_statement, ge_fetch = (\<lambda>_. None), ge_now = 500, ge_prev_order = [], ge_order = [1],
      ge_io_attest = (\<lambda>_. WriteOk), ge_io_compare = (\<lambda>_. RenameFails), ge_io_cross = (\<lambda>_. WriteOk)\<rparr>"

lemma ss_Canonical_sig [simp]: "ss_Canonical (ss\<lparr>ss_Signature := x\<rparr>) = ss_Canonical ss"
  by (simp add: ss_Canonical_def ss_text_def)

lemma signed_statement_ok:
  assumes "ed_correct C k" "ss_PublicKey ss = ed_Public k"
  shows "ss_Verify C (ss\<lparr>ss_Signature := ed_sign C k (ss_Canonical ss)\<rparr>) = None"
  using ed_correctD [OF assms(1)] assms(2) by (simp add: ss_Verify_def key_sizes)

lemma sample_statement_ok: "ss_Verify sample_crypto sample_statement = None"
  unfolding sample_statement_def Let_def by (rule signed_statement_ok) (simp_all add: sample_ed_correct)

theorem gossip_detects_forks_witness:
  "let s = sample_witness\<lparr>sv_seen := sample_seen\<rparr>;
       s' = fst (gossipOne sample_crypto sample_wcodec sample_exchange sample_peer sample_op s)
   in \<not> forked s ''log'' \<and> forked s' ''log''
     \<and> Cosign sample_crypto sample_wcodec (\<lambda>_. WriteOk) 600 sample_checkpoint (Some (sg_chain (snd sample_run0))) None s'
         = (s', Inl (WiForked ''log''))"
proof -
  define s where "s = sample_witness\<lparr>sv_seen := sample_seen\<rparr>"
  define s' where "s' = fst (gossipOne sample_crypto sample_wcodec sample_exchange sample_peer sample_op s)"
  have seen: "SeenFor s ''log'' = fmupd 1 (hex (cp_RootHash sample_checkpoint)) fmempty"
    by (simp add: s_def SeenFor_def sample_seen_def update2_def sample_checkpoint_origin)
  have stmt: "ss_PublicKey sample_statement = pp_PublicKey sample_peer" "ss_WitnessID sample_statement = pp_ID sample_peer"
    "ss_Seen sample_statement = fmupd 1 (hex (cp_RootHash sample_checkpoint) @ ''0'') fmempty"
    by (simp_all add: sample_statement_def sample_peer_def Let_def)
  have ex: "ge_reply sample_exchange = Some sample_statement" "set (ge_order sample_exchange) = fset (fmdom (ss_Seen sample_statement))"
    by (simp_all add: sample_exchange_def stmt)
  have "ranges_over_record s (pp_ID sample_peer) sample_statement (ge_prev_order sample_exchange)"
    by (simp add: ranges_over_record_def s_def sample_witness_fields(9) empty_attest_def)
  note g = gossip_detects_forks [OF ex(1) sample_statement_ok stmt(1,2) this ex(2) s'_def]
  have op: "wo_Origin sample_op = ''log''" by (simp add: sample_op_def sample_checkpoint_origin)
  have "views_conflict (SeenFor s (wo_Origin sample_op)) (ss_Seen sample_statement)"
    unfolding views_conflict_def op seen stmt(3) by (rule exI [of _ 1]) simp
  then have "forked s' ''log''" using g [of "''log''"] op by simp
  moreover have "\<not> forked s ''log''" by (simp add: forked_def s_def sample_witness_fields(3))
  moreover have "Cosign sample_crypto sample_wcodec (\<lambda>_. WriteOk) 600 sample_checkpoint (Some (sg_chain (snd sample_run0))) None s'
         = (s', Inl (WiForked ''log''))"
    using g [of "''log''" s' sample_checkpoint "\<lambda>_. WriteOk" 600 "Some (sg_chain (snd sample_run0))" None] \<open>forked s' ''log''\<close>
    by (simp add: sample_checkpoint_origin)
  ultimately show ?thesis unfolding Let_def s_def [symmetric] s'_def [symmetric] by blast
qed

end
