(* ===== verification/Journals.thy ===== *)
theory Journals
  imports HashChain Keyfiles
begin

text \<open>
  What the read journal (\<open>pkg/readlog\<close>) and the admin journal (\<open>pkg/adminlog\<close>) have in common.  The two
  packages hold the same code for different events: a journal is a file of JSON values, one event
  each, hash-chained and signed; the struct \<open>Journal\<close> keeps the keys, the size and the last hash.
  The file is given by its bytes and \<open>stream\<close>, which stands for \<open>json.NewDecoder\<close>: the events that
  successive calls of \<open>Decode\<close> return, and whether \<open>More\<close> then ends the loop or \<open>Decode\<close> fails.
\<close>

section \<open>Definitions\<close>

record Journal =
  jn_priv :: bytes
  jn_pub :: bytes
  jn_qPriv :: bytes
  jn_qPub :: bytes
  jn_size :: u64
  jn_prev :: bytes

datatype event_error =
    EvHash
  | EvPubKey nat
  | EvSig nat
  | EvClassical
  | EvQuantumPubKey nat
  | EvQuantumSig nat
  | EvQuantumDecode
  | EvQuantum

datatype journal_error =
    JoMkdir
  | JoKey key_error
  | JoOpen
  | JoDecode
  | JoEvent u64 event_error
  | JoFirstPrev
  | JoFirstIndex u64
  | JoIndexGap u64 u64
  | JoChain u64
  | JoDetails
  | JoMarshal
  | JoWrite
  | JoSync
  | JoClose
  | JoRangeOrder
  | JoRangeTooLarge

text \<open>\<open>Event.Verify\<close>, over the canonical bytes and the sealed fields of an event.\<close>

definition verify_sealed ::
    "crypto \<Rightarrow> bytes \<Rightarrow> bytes \<Rightarrow> bytes \<Rightarrow> bytes \<Rightarrow> bytes \<Rightarrow> bytes \<Rightarrow> event_error option" where
  "verify_sealed C canon h pub sig qpub qsig =
     (if hex h \<noteq> hex (sha256 canon) then Some EvHash
      else if length pub \<noteq> ed25519_PublicKeySize then Some (EvPubKey (length pub))
      else if length sig \<noteq> ed25519_SignatureSize then Some (EvSig (length sig))
      else if \<not> ed25519_Verify C pub canon sig then Some EvClassical
      else if 0 < length qpub \<or> 0 < length qsig then
        (if length qpub \<noteq> mode3_PublicKeySize then Some (EvQuantumPubKey (length qpub))
         else if length qsig \<noteq> mode3_SignatureSize then Some (EvQuantumSig (length qsig))
         else if \<not> d3_decode C qpub then Some EvQuantumDecode
         else if \<not> d3_verify C qpub canon qsig then Some EvQuantum
         else None)
      else None)"

definition allZeros :: "bytes \<Rightarrow> bool" where
  "allZeros b \<longleftrightarrow> list_all (\<lambda>x. x = 0) b"

text \<open>One round of the loop of \<open>replay\<close> after \<open>Verify\<close>, and the loop.\<close>

definition link_error ::
    "('e \<Rightarrow> u64) \<Rightarrow> ('e \<Rightarrow> bytes) \<Rightarrow> ('e \<Rightarrow> bytes) \<Rightarrow> 'e \<Rightarrow> 'e option \<Rightarrow> journal_error option" where
  "link_error index prevHash eventHash ev po =
     (case po of
        None \<Rightarrow>
          if \<not> allZeros (prevHash ev) then Some JoFirstPrev
          else if index ev \<noteq> 0 then Some (JoFirstIndex (index ev))
          else None
      | Some prev \<Rightarrow>
          if index ev \<noteq> index prev + 1 then Some (JoIndexGap (index prev) (index ev))
          else if hex (prevHash ev) \<noteq> hex (eventHash prev) then Some (JoChain (index ev))
          else None)"

fun replay_loop ::
    "('e \<Rightarrow> event_error option) \<Rightarrow> ('e \<Rightarrow> u64) \<Rightarrow> ('e \<Rightarrow> bytes) \<Rightarrow> ('e \<Rightarrow> bytes) \<Rightarrow> 'e option \<Rightarrow> 'e list \<Rightarrow> bool
      \<Rightarrow> journal_error + 'e option" where
  "replay_loop verify index prevHash eventHash prev [] clean = (if clean then Inr prev else Inl JoDecode)"
| "replay_loop verify index prevHash eventHash prev (ev # evs) clean =
     (case verify ev of Some e \<Rightarrow> Inl (JoEvent (index ev) e)
      | None \<Rightarrow>
          (case link_error index prevHash eventHash ev prev of Some e \<Rightarrow> Inl e
           | None \<Rightarrow> replay_loop verify index prevHash eventHash (Some ev) evs clean))"

text \<open>
  \<open>replay\<close>: the file may be missing (nothing to do) or fail to open; afterwards size and last hash are
  those of the last event.
\<close>

definition journal_replay ::
    "('e \<Rightarrow> event_error option) \<Rightarrow> ('e \<Rightarrow> u64) \<Rightarrow> ('e \<Rightarrow> bytes) \<Rightarrow> ('e \<Rightarrow> bytes) \<Rightarrow> (bytes \<Rightarrow> 'e list \<times> bool) \<Rightarrow> (string \<Rightarrow> bool)
      \<Rightarrow> string \<Rightarrow> (string \<rightharpoonup> bytes) \<Rightarrow> Journal \<Rightarrow> journal_error + Journal" where
  "journal_replay verify index prevHash eventHash stream rd path files j =
     (if rd path then Inl JoOpen
      else case files path of None \<Rightarrow> Inr j
      | Some buf \<Rightarrow>
          (case replay_loop verify index prevHash eventHash None (fst (stream buf)) (snd (stream buf)) of
             Inl e \<Rightarrow> Inl e
           | Inr None \<Rightarrow> Inr j
           | Inr (Some ev) \<Rightarrow> Inr (j\<lparr>jn_size := index ev + 1, jn_prev := eventHash ev\<rparr>)))"

text \<open>
  \<open>openJournal\<close>: the two packages name their files after \<open>stem\<close>, \<open>journal\<close> and \<open>admin\<close>.
\<close>

definition journal_open ::
    "('e \<Rightarrow> event_error option) \<Rightarrow> ('e \<Rightarrow> u64) \<Rightarrow> ('e \<Rightarrow> bytes) \<Rightarrow> ('e \<Rightarrow> bytes) \<Rightarrow> string \<Rightarrow> crypto \<Rightarrow> (bytes \<Rightarrow> bytes option)
      \<Rightarrow> (bytes \<Rightarrow> 'e list \<times> bool) \<Rightarrow> bool \<Rightarrow> (string \<Rightarrow> bool) \<Rightarrow> (string \<Rightarrow> write_outcome)
      \<Rightarrow> bytes option \<Rightarrow> bytes option \<Rightarrow> bool \<Rightarrow> (string \<rightharpoonup> bytes) \<Rightarrow> (string \<rightharpoonup> bytes) \<times> (journal_error + Journal)" where
  "journal_open verify index prevHash eventHash stem C d3_load stream mkdir_ok rd io seed qseed hybrid files =
     (if \<not> mkdir_ok then (files, Inl JoMkdir)
      else case load_or_create_key C rd io seed (stem @ ''.key'') (stem @ ''.pub'') files of
        (files, Inl e) \<Rightarrow> (files, Inl (JoKey e))
      | (files, Inr priv) \<Rightarrow>
          (case load_or_create_quantum C d3_load rd io qseed hybrid (stem @ ''-quantum.key'') (stem @ ''-quantum.pub'') files of
             (files, Inl e) \<Rightarrow> (files, Inl (JoKey e))
           | (files, Inr (qPriv, qPub)) \<Rightarrow>
               (files,
                journal_replay verify index prevHash eventHash stream rd (stem @ ''.log'') files
                  \<lparr>jn_priv = priv, jn_pub = ed_Public priv, jn_qPriv = qPriv, jn_qPub = qPub, jn_size = 0,
                   jn_prev = replicate 32 0\<rparr>)))"

text \<open>
  How appending a line to the journal file may end: the file cannot be opened, a part of the line is
  written, or \<open>Sync\<close> or \<open>Close\<close> fails after the whole line was written.
\<close>

datatype append_outcome =
    AppendOk
  | OpenFails
  | PartWritten bytes
  | SyncFails
  | CloseFails

definition content_of :: "string \<Rightarrow> (string \<rightharpoonup> bytes) \<Rightarrow> bytes" where
  "content_of path files = (case files path of None \<Rightarrow> [] | Some b \<Rightarrow> b)"

definition append_bytes :: "string \<Rightarrow> bytes \<Rightarrow> (string \<rightharpoonup> bytes) \<Rightarrow> (string \<rightharpoonup> bytes)" where
  "append_bytes path data files = files(path \<mapsto> content_of path files @ data)"

text \<open>The keys of a journal belong together.\<close>

definition journal_keys :: "crypto \<Rightarrow> Journal \<Rightarrow> bool" where
  "journal_keys C j \<longleftrightarrow> ed_correct C (jn_priv j) \<and> jn_pub j = ed_Public (jn_priv j)
     \<and> (if jn_qPriv j = [] then jn_qPub j = [] else d3_correct C (jn_qPub j) (jn_qPriv j))"

text \<open>A decoder for files whose every line is the byte 1 and stands for the event \<open>x\<close>.\<close>

fun line_stream :: "'e \<Rightarrow> bytes \<Rightarrow> 'e list \<times> bool" where
  "line_stream x [] = ([], True)"
| "line_stream x (a # b # r) =
     (if a = 1 \<and> b = 0x0A then (case line_stream x r of (es, ok) \<Rightarrow> (x # es, ok)) else ([], False))"
| "line_stream x [a] = ([], False)"

section \<open>Lemmas\<close>

lemma line_stream_append: "line_stream x buf = (es, True) \<Longrightarrow> line_stream x (buf @ [1, 0x0A]) = (es @ [x], True)"
  by (induction x buf arbitrary: es rule: line_stream.induct) (auto split: if_splits prod.splits)

lemma sorted_of_nat: "n \<le> 2 ^ 64 \<Longrightarrow> sorted_wrt (<) (map (of_nat :: nat \<Rightarrow> u64) [0..<n])"
  by (auto simp: sorted_wrt_map sorted_wrt_iff_nth_less intro!: of_nat_less_u64 [THEN iffD2])

lemma verify_sealed_None:
  "verify_sealed C canon h pub sig qpub qsig = None \<longleftrightarrow>
     h = sha256 canon \<and> length pub = 32 \<and> length sig = 64 \<and> ed25519_Verify C pub canon sig
     \<and> (qpub \<noteq> [] \<or> qsig \<noteq> [] \<longrightarrow> length qpub = 1952 \<and> length qsig = 3293 \<and> d3_decode C qpub \<and> d3_verify C qpub canon qsig)"
  by (auto simp: verify_sealed_def key_sizes)

lemma link_error_None:
  "link_error index prevHash eventHash ev None = None \<longleftrightarrow> allZeros (prevHash ev) \<and> index ev = 0"
  "link_error index prevHash eventHash ev (Some p) = None \<longleftrightarrow> prevHash ev = eventHash p \<and> index ev = index p + 1"
  by (auto simp: link_error_def)

lemma sealed_verifies_keys:
  assumes "journal_keys C j"
  shows "verify_sealed C canon (sha256 canon) (jn_pub j) (ed_sign C (jn_priv j) canon) (jn_qPub j)
    (if jn_qPriv j \<noteq> [] then d3_sign C (jn_qPriv j) canon else []) = None"
  using assms ed_correctD [of C "jn_priv j"] d3_correctD [of C "jn_qPub j" "jn_qPriv j"]
  by (auto simp: journal_keys_def verify_sealed_None)

text \<open>
  The contract of a journal package: its events verify and link as a chain does.  Its clients learn
  that \<open>replay\<close> accepts exactly the chains, and what a further event does to one.
\<close>

locale journal = chain_links "\<lambda>e. verify e = None" "\<lambda>e p. link_error index prev hash e p = None" hash prev index allZeros
  for verify :: "'e \<Rightarrow> event_error option" and index :: "'e \<Rightarrow> u64" and prev :: "'e \<Rightarrow> bytes" and hash :: "'e \<Rightarrow> bytes" +
  fixes sealed :: "Journal \<Rightarrow> 'e \<Rightarrow> bool"
  assumes sealed_verifies: "sealed j e \<Longrightarrow> verify e = None"
    and sealed_next: "sealed j e \<Longrightarrow> index e = jn_size j \<and> prev e = jn_prev j"
begin

lemma replay_loop_Inr:
  "replay_loop verify index prev hash p es clean = Inr r \<longleftrightarrow> clean \<and> chained p es \<and> r = last_of p es"
proof (induction es arbitrary: p)
  case (Cons e es)
  then show ?case by (auto simp: last_of_def split: option.split)
qed (auto simp: last_of_def)

definition holds :: "(bytes \<Rightarrow> 'e list \<times> bool) \<Rightarrow> string \<Rightarrow> (string \<rightharpoonup> bytes) \<Rightarrow> Journal \<Rightarrow> 'e list \<Rightarrow> bool" where
  "holds stream path files j es \<longleftrightarrow>
     stream (content_of path files) = (es, True) \<and> chained None es
     \<and> jn_size j = of_nat (length es) \<and> jn_prev j = (if es = [] then replicate 32 0 else hash (last es))"

lemma replay_holds:
  assumes "journal_replay verify index prev hash stream rd path files j = Inr j'" "stream [] = ([], True)"
    and "jn_size j = 0" "jn_prev j = replicate 32 0"
  shows "\<exists>es. holds stream path files j' es"
proof -
  obtain es clean where st: "stream (content_of path files) = (es, clean)" by force
  show ?thesis
  proof (cases "files path")
    case None
    with assms show ?thesis by (intro exI [of _ "[]"]) (auto simp: journal_replay_def holds_def content_of_def split: if_splits)
  next
    case (Some buf)
    with st have st': "stream buf = (es, clean)" by (simp add: content_of_def)
    from assms(1) Some obtain r where r: "replay_loop verify index prev hash None es clean = Inr r"
      and j': "j' = (case r of None \<Rightarrow> j | Some ev \<Rightarrow> j\<lparr>jn_size := index ev + 1, jn_prev := hash ev\<rparr>)"
      by (auto simp: journal_replay_def st' split: if_splits sum.splits option.splits)
    then have c: clean "chained None es" "r = last_of None es" by (simp_all add: replay_loop_Inr)
    have "es \<noteq> [] \<Longrightarrow> index (last es) = of_nat (length es - 1)"
      using c(2) index_last [of "butlast es" "last es"] by simp
    then have "holds stream path files j' es"
      using c assms(3,4) st j' by (auto simp: holds_def last_of_def of_nat_diff Suc_leI split: if_splits)
    then show ?thesis ..
  qed
qed

lemma replay_recovers:
  assumes "holds stream path files j es" "\<not> rd path" "jn_size j0 = 0" "jn_prev j0 = replicate 32 0" "stream [] = ([], True)"
  shows "journal_replay verify index prev hash stream rd path files j0 = Inr (j0\<lparr>jn_size := jn_size j, jn_prev := jn_prev j\<rparr>)"
proof -
  have c: "stream (content_of path files) = (es, True)" "chained None es" using assms(1) by (simp_all add: holds_def)
  have ix: "es \<noteq> [] \<Longrightarrow> index (last es) = of_nat (length es - 1)"
    using c(2) index_last [of "butlast es" "last es"] by simp
  have r: "replay_loop verify index prev hash None es True = Inr (last_of None es)" using c(2) by (simp add: replay_loop_Inr)
  show ?thesis
  proof (cases "files path")
    case None
    with c(1) assms(5) have "es = []" by (simp add: content_of_def)
    with None assms show ?thesis by (simp add: journal_replay_def holds_def)
  next
    case (Some buf)
    then have "stream buf = (es, True)" using c(1) by (simp add: content_of_def)
    with Some r ix assms show ?thesis by (auto simp: journal_replay_def holds_def last_of_def of_nat_diff Suc_leI)
  qed
qed

lemma link_sealed:
  assumes "holds stream path files j es" "sealed j e"
  shows "link_error index prev hash e (last_of None es) = None"
proof (cases "es = []")
  case True
  with assms(1) sealed_next [OF assms(2)] show ?thesis
    by (simp add: holds_def last_of_def link_error_None allZeros_def list_all_iff)
next
  case False
  with assms(1) have "index (last es) + 1 = of_nat (length es)"
    using index_last [of "butlast es" "last es"] by (simp add: holds_def of_nat_diff Suc_leI)
  with False assms(1) sealed_next [OF assms(2)] show ?thesis by (simp add: holds_def last_of_def link_error_None)
qed

lemma append_holds:
  assumes "holds stream path files j es" "sealed j e"
    and "stream (content_of path files @ data) = (es @ [e], True)"
    and "jn_size j' = jn_size j + 1" "jn_prev j' = hash e"
  shows "holds stream path (append_bytes path data files) j' (es @ [e])"
  using assms sealed_verifies [OF assms(2)] link_sealed [OF assms(1,2)]
  by (simp add: holds_def append_bytes_def content_of_def [of path "files(path \<mapsto> _)"] chained_snoc)

text \<open>
  An event that was written but not counted, followed by the next one, is refused by every replay.
\<close>

lemma uncounted_event_refused:
  assumes "holds stream path files j es" "sealed j e" "sealed j e'" "stream (content_of path files') = (es @ [e, e'], True)"
    and "\<not> rd path" "files' path = Some buf"
  shows "journal_replay verify index prev hash stream rd path files' j0 = Inl (JoIndexGap (jn_size j) (jn_size j))"
proof -
  have run: "replay_loop verify index prev hash p (xs @ [e, e']) True = Inl (JoIndexGap (jn_size j) (jn_size j))"
    if "chained p xs" "link_error index prev hash e (last_of p xs) = None" for p xs
    using that
  proof (induction xs arbitrary: p)
    case Nil
    then show ?case using sealed_verifies assms(2,3) sealed_next [OF assms(2)] sealed_next [OF assms(3)]
      by (simp add: last_of_def link_error_def)
  next
    case (Cons x xs)
    then show ?case using last_of_Cons [of x xs p] by simp
  qed
  from link_sealed [OF assms(1,2)] run [of None es] assms show ?thesis by (simp add: journal_replay_def holds_def content_of_def)
qed

text \<open>Opening leaves the events alone and reads them all.\<close>

lemma open_log:
  assumes "journal_open verify index prev hash stem C L stream mk rd io seed qseed hybrid files = (files', r)"
  shows "files' (stem @ ''.log'') = files (stem @ ''.log'')"
proof (cases mk)
  case True
  obtain f1 k where k: "load_or_create_key C rd io seed (stem @ ''.key'') (stem @ ''.pub'') files = (f1, k)" by force
  obtain f2 q where q: "load_or_create_quantum C L rd io qseed hybrid (stem @ ''-quantum.key'') (stem @ ''-quantum.pub'') f1 = (f2, q)" by force
  have "files' \<in> {f1, f2}" using assms True k q by (auto simp: journal_open_def split: prod.splits sum.splits)
  then show ?thesis
    using load_or_create_other(1) [OF k, of "stem @ ''.log''"] load_or_create_other(2) [OF q, of "stem @ ''.log''"] by auto
qed (use assms in \<open>simp add: journal_open_def\<close>)

lemma open_replay:
  assumes "journal_open verify index prev hash stem C L stream mk rd io seed qseed hybrid files = (files', r)"
  obtains (failed) e where "r = Inl e" "e = JoMkdir \<or> (\<exists>k. e = JoKey k)"
    | (replayed) j0 where "journal_replay verify index prev hash stream rd (stem @ ''.log'') files' j0 = r"
        "jn_size j0 = 0" "jn_prev j0 = replicate 32 0" mk
proof (cases mk)
  case True
  obtain f1 k where k: "load_or_create_key C rd io seed (stem @ ''.key'') (stem @ ''.pub'') files = (f1, k)" by force
  obtain f2 q where q: "load_or_create_quantum C L rd io qseed hybrid (stem @ ''-quantum.key'') (stem @ ''-quantum.pub'') f1 = (f2, q)" by force
  show ?thesis
  proof (cases k)
    case (Inl e)
    show ?thesis by (rule that(1)) (use assms True k Inl in \<open>auto simp: journal_open_def\<close>)
  next
    case (Inr priv)
    show ?thesis
    proof (cases q)
      case (Inl e)
      show ?thesis by (rule that(1)) (use assms True k Inr q Inl in \<open>auto simp: journal_open_def\<close>)
    next
      case Inr2: (Inr p)
      obtain a b where p: "p = (a, b)" by force
      show ?thesis
      proof (rule that(2))
        show "journal_replay verify index prev hash stream rd (stem @ ''.log'') files'
            \<lparr>jn_priv = priv, jn_pub = ed_Public priv, jn_qPriv = a, jn_qPub = b, jn_size = 0, jn_prev = replicate 32 0\<rparr> = r"
          using assms True k Inr q Inr2 p by (auto simp: journal_open_def)
      qed (simp_all add: True)
    qed
  qed
next
  case False
  show ?thesis by (rule that(1)) (use assms False in \<open>auto simp: journal_open_def\<close>)
qed

lemma open_holds:
  assumes "journal_open verify index prev hash stem C L stream mk rd io seed qseed hybrid files = (files', Inr j)" "stream [] = ([], True)"
  shows "\<exists>es. holds stream (stem @ ''.log'') files' j es"
  using assms(1)
proof (cases rule: open_replay)
  case (replayed j0)
  from replay_holds [OF replayed(1) assms(2) replayed(2,3)] show ?thesis .
qed simp

lemma holds_file: "files' p = files p \<Longrightarrow> holds stream p files' j es \<longleftrightarrow> holds stream p files j es"
  by (simp add: holds_def content_of_def)

lemma reopen_recovers:
  assumes "holds stream (stem @ ''.log'') files j es" "stream [] = ([], True)" "\<not> rd (stem @ ''.log'')"
    and o: "journal_open verify index prev hash stem C L stream True rd io seed qseed hybrid files = (files', r)"
  shows "case r of Inr j' \<Rightarrow> jn_size j' = jn_size j \<and> jn_prev j' = jn_prev j | Inl e \<Rightarrow> e = JoMkdir \<or> (\<exists>k. e = JoKey k)"
  using o
proof (cases rule: open_replay)
  case (replayed j0)
  have "holds stream (stem @ ''.log'') files' j es" using holds_file [of files' "stem @ ''.log''" files stream j es] open_log [OF o] assms(1) by blast
  from replay_recovers [where rd = rd, OF this assms(3) replayed(2,3) assms(2)] replayed(1) show ?thesis by auto
qed auto

lemma holds_sorted:
  assumes "holds stream p files j es" "length es \<le> 2 ^ 64"
  shows "sorted_wrt (<) (map index es)"
proof -
  have "map index es = map of_nat [0..<length es]"
    using assms(1) index_nth by (intro nth_equalityI) (auto simp: holds_def)
  with sorted_of_nat [OF assms(2)] show ?thesis by simp
qed

end

section \<open>A journal for the witnesses\<close>

definition sample_journal :: Journal where
  "sample_journal =
     \<lparr>jn_priv = replicate 32 1 @ replicate 32 1, jn_pub = replicate 32 1, jn_qPriv = [], jn_qPub = [], jn_size = 0,
      jn_prev = replicate 32 0\<rparr>"

lemma sample_journal_keys: "journal_keys sample_crypto sample_journal"
  by (simp add: journal_keys_def sample_journal_def ed_Public_def sample_ed_correct)

lemma sample_open:
  "\<exists>files. journal_open verify index prev hash stem sample_crypto (\<lambda>_. None) stream True (\<lambda>_. False) (\<lambda>_. WriteOk)
     (Some (replicate 32 1)) None False Map.empty = (files, Inr sample_journal) \<and> files (stem @ ''.log'') = None"
proof -
  have "ed_newkey sample_crypto x = x @ x" for x by (simp add: sample_crypto_def)
  then show ?thesis
    by (simp add: journal_open_def load_or_create_key_def load_or_create_quantum_def writeFile_def
        journal_replay_def sample_journal_def ed_Public_def Let_def)
qed

end
