(* ===== verification/Utf8.thy ===== *)
theory Utf8
  imports Base64
begin

text \<open>
  UTF-8 as Go reads it.  A Go string is any sequence of bytes; \<open>encoding/json\<close> writes each byte that
  does not start a well-formed rune as the replacement character U+FFFD, so that a string read back
  is \<open>coerce_utf8\<close> of the string written.
\<close>

section \<open>Definitions\<close>

definition between :: "nat \<Rightarrow> byte \<Rightarrow> nat \<Rightarrow> bool" where
  "between lo b hi \<longleftrightarrow> lo \<le> unat b \<and> unat b \<le> hi"

text \<open>The length of the rune at the front, as in \<open>utf8.DecodeRune\<close>; 0 when there is none.\<close>

fun rune_size :: "bytes \<Rightarrow> nat" where
  "rune_size [] = 0"
| "rune_size (b0 # r) =
     (if between 0 b0 0x7F then 1
      else case r of [] \<Rightarrow> 0
      | b1 # r1 \<Rightarrow>
          if between 0xC2 b0 0xDF then (if between 0x80 b1 0xBF then 2 else 0)
          else case r1 of [] \<Rightarrow> 0
          | b2 # r2 \<Rightarrow>
              if \<not> between 0x80 b2 0xBF then 0
              else if between 0xE0 b0 0xEF then
                (if (if unat b0 = 0xE0 then between 0xA0 b1 0xBF
                     else if unat b0 = 0xED then between 0x80 b1 0x9F else between 0x80 b1 0xBF) then 3 else 0)
              else case r2 of [] \<Rightarrow> 0
              | b3 # _ \<Rightarrow>
                  if between 0xF0 b0 0xF4 \<and> between 0x80 b3 0xBF
                     \<and> (if unat b0 = 0xF0 then between 0x90 b1 0xBF
                        else if unat b0 = 0xF4 then between 0x80 b1 0x8F else between 0x80 b1 0xBF)
                  then 4 else 0)"

function coerce_utf8 :: "bytes \<Rightarrow> bytes" where
  "coerce_utf8 b =
     (if b = [] then []
      else if rune_size b = 0 then [0xEF, 0xBF, 0xBD] @ coerce_utf8 (drop 1 b)
      else take (rune_size b) b @ coerce_utf8 (drop (rune_size b) b))"
  by auto
termination by (relation "measure length") auto

declare coerce_utf8.simps [simp del]

function utf8_valid :: "bytes \<Rightarrow> bool" where
  "utf8_valid b =
     (if b = [] then True
      else if rune_size b = 0 then False
      else utf8_valid (drop (rune_size b) b))"
  by auto
termination by (relation "measure length") auto

declare utf8_valid.simps [simp del]

definition coerce_str :: "string \<Rightarrow> string" where
  "coerce_str s = to_str (coerce_utf8 (of_str s))"

definition text_ok :: "string \<Rightarrow> bool" where
  "text_ok s \<longleftrightarrow> utf8_valid (of_str s)"

section \<open>Lemmas\<close>

text \<open>Replacing never shortens, and lengthens exactly the malformed strings.\<close>

lemma rune_size_le: "rune_size b \<le> length b"
proof (cases b)
  case (Cons b0 r)
  then show ?thesis by (simp split: list.split)
qed simp

declare rune_size.simps [simp del]

lemma length_coerce_utf8:
  "length b \<le> length (coerce_utf8 b) \<and> (\<not> utf8_valid b \<longrightarrow> length b < length (coerce_utf8 b))
   \<and> (utf8_valid b \<longrightarrow> coerce_utf8 b = b)"
proof (induction b rule: coerce_utf8.induct)
  case (1 b)
  show ?case
  proof (cases "b = [] \<or> rune_size b = 0")
    case True
    then show ?thesis using 1(1) 
      by (cases "b = []") (auto simp: coerce_utf8.simps [of b] utf8_valid.simps [of b] coerce_utf8.simps [of "[]"]
          utf8_valid.simps [of "[]"])
  next
    case False
    with 1(2) rune_size_le [of b] show ?thesis
      by (auto simp: coerce_utf8.simps [of b] utf8_valid.simps [of b])
  qed
qed

lemma coerce_utf8_iff: "coerce_utf8 b = b \<longleftrightarrow> utf8_valid b"
  using length_coerce_utf8 [of b] by auto

lemma of_str_to_str [simp]: "of_str (to_str b) = b"
proof -
  have "of_char (char_of (unat x)) = x" for x :: byte
  proof -
    have "unat (of_char (char_of (unat x)) :: byte) = unat x"
      by (simp add: unat_of_char_byte unat_byte)
    then show ?thesis by (rule unsigned_word_eqI)
  qed
  then show ?thesis by (simp add: of_str_def to_str_def comp_def)
qed

lemma coerce_str_iff: "coerce_str s = s \<longleftrightarrow> text_ok s"
proof
  assume "coerce_str s = s"
  then have "of_str (coerce_str s) = of_str s" by simp
  then show "text_ok s" by (simp add: coerce_str_def coerce_utf8_iff text_ok_def)
next
  assume "text_ok s"
  then have "coerce_utf8 (of_str s) = of_str s" by (simp add: coerce_utf8_iff text_ok_def)
  then show "coerce_str s = s" by (simp add: coerce_str_def)
qed

lemma ascii_text_ok: "list_all (\<lambda>c. of_char c < (0x80 :: nat)) s \<Longrightarrow> text_ok s"
proof (induction s)
  case Nil
  show ?case by (simp add: text_ok_def of_str_def utf8_valid.simps [of "[]"])
next
  case (Cons c s)
  then have "rune_size (of_str (c # s)) = 1"
    by (simp add: of_str_def between_def unat_of_char_byte rune_size.simps(2))
  with Cons show ?case by (simp add: text_ok_def utf8_valid.simps [of "of_str (c # s)"]) (simp add: of_str_def)
qed

end
