(* ===== verification/Readlog.thy ===== *)
theory Readlog
  imports Journals Utf8
begin

text \<open>
  The read journal, \<open>pkg/readlog\<close>: one signed, hash-chained event for every read the API serves.
  \<open>enc\<close> stands for \<open>json.Marshal\<close> of an event and \<open>stream\<close> for the decoder over the file; what a
  string becomes on the way through JSON is \<open>read_back\<close>.
\<close>

section \<open>Definitions\<close>

record ReadEvent =
  re_Index :: u64
  re_TimeNanos :: i64
  re_PrevHash :: bytes
  re_EntryIdx :: u64
  re_LeafHash :: bytes
  re_Operation :: string
  re_CallerIP :: string
  re_UserAgent :: string
  re_EventHash :: bytes
  re_Signature :: bytes
  re_PubKey :: bytes
  re_QuantumPubKey :: bytes
  re_QuantumSignature :: bytes

definition re_Canonical :: "ReadEvent \<Rightarrow> bytes" where
  "re_Canonical e =
     be64 (re_Index e) @ be64 (re_TimeNanos e) @ put (re_PrevHash e)
     @ be64 (re_EntryIdx e) @ put (re_LeafHash e) @ put (of_str (re_Operation e)) @ put (of_str (re_CallerIP e))
     @ put (of_str (re_UserAgent e)) @ put (re_QuantumPubKey e)"

definition re_Verify :: "crypto \<Rightarrow> ReadEvent \<Rightarrow> event_error option" where
  "re_Verify C e =
     verify_sealed C (re_Canonical e) (re_EventHash e) (re_PubKey e) (re_Signature e) (re_QuantumPubKey e) (re_QuantumSignature e)"

definition rl_replay ::
    "crypto \<Rightarrow> (bytes \<Rightarrow> ReadEvent list \<times> bool) \<Rightarrow> (string \<Rightarrow> bool) \<Rightarrow> (string \<rightharpoonup> bytes) \<Rightarrow> Journal \<Rightarrow> journal_error + Journal" where
  "rl_replay C stream rd files j =
     journal_replay (re_Verify C) re_Index re_PrevHash re_EventHash stream rd ''journal.log'' files j"

definition rl_openJournal ::
    "crypto \<Rightarrow> (bytes \<Rightarrow> bytes option) \<Rightarrow> (bytes \<Rightarrow> ReadEvent list \<times> bool) \<Rightarrow> bool \<Rightarrow> (string \<Rightarrow> bool) \<Rightarrow> (string \<Rightarrow> write_outcome)
      \<Rightarrow> bytes option \<Rightarrow> bytes option \<Rightarrow> bool \<Rightarrow> (string \<rightharpoonup> bytes) \<Rightarrow> (string \<rightharpoonup> bytes) \<times> (journal_error + Journal)" where
  "rl_openJournal C = journal_open (re_Verify C) re_Index re_PrevHash re_EventHash ''journal'' C"

definition rl_Size :: "Journal \<Rightarrow> u64" where
  "rl_Size j = jn_size j"

text \<open>The event \<open>Append\<close> builds, and the two hashes and signatures it seals it with.\<close>

definition rl_event :: "Journal \<Rightarrow> i64 \<Rightarrow> u64 \<Rightarrow> bytes \<Rightarrow> string \<Rightarrow> string \<Rightarrow> string \<Rightarrow> ReadEvent" where
  "rl_event j now entryIdx leafHash operation callerIP userAgent =
     \<lparr>re_Index = jn_size j, re_TimeNanos = now, re_PrevHash = jn_prev j, re_EntryIdx = entryIdx, re_LeafHash = leafHash,
      re_Operation = operation, re_CallerIP = callerIP, re_UserAgent = userAgent, re_EventHash = [], re_Signature = [],
      re_PubKey = jn_pub j, re_QuantumPubKey = jn_qPub j, re_QuantumSignature = []\<rparr>"

definition rl_seal :: "crypto \<Rightarrow> Journal \<Rightarrow> ReadEvent \<Rightarrow> ReadEvent" where
  "rl_seal C j ev =
     (let canon = re_Canonical ev
      in ev\<lparr>re_EventHash := sha256 canon, re_Signature := ed_sign C (jn_priv j) canon,
            re_QuantumSignature := (if jn_qPriv j \<noteq> [] then d3_sign C (jn_qPriv j) canon else [])\<rparr>)"

text \<open>The file is opened, and created if need be, before the event is encoded; the error of \<open>Close\<close> is dropped.\<close>

definition rl_Append ::
    "crypto \<Rightarrow> (ReadEvent \<Rightarrow> bytes option) \<Rightarrow> append_outcome \<Rightarrow> i64 \<Rightarrow> u64 \<Rightarrow> bytes \<Rightarrow> string \<Rightarrow> string \<Rightarrow> string
      \<Rightarrow> (string \<rightharpoonup> bytes) \<Rightarrow> Journal \<Rightarrow> (string \<rightharpoonup> bytes) \<times> Journal \<times> (journal_error + ReadEvent)" where
  "rl_Append C enc out now entryIdx leafHash operation callerIP userAgent files j =
     (let ev = rl_seal C j (rl_event j now entryIdx leafHash operation callerIP userAgent)
      in if out = OpenFails then (files, j, Inl JoOpen)
      else case enc ev of
        None \<Rightarrow> (append_bytes ''journal.log'' [] files, j, Inl JoMarshal)
      | Some body \<Rightarrow>
          (case out of
             PartWritten part \<Rightarrow> (append_bytes ''journal.log'' part files, j, Inl JoWrite)
           | SyncFails \<Rightarrow> (append_bytes ''journal.log'' (body @ [0x0A]) files, j, Inl JoSync)
           | _ \<Rightarrow> (append_bytes ''journal.log'' (body @ [0x0A]) files,
                   j\<lparr>jn_size := jn_size j + 1, jn_prev := re_EventHash ev\<rparr>, Inr ev)))"

fun rl_range_loop :: "u64 \<Rightarrow> u64 \<Rightarrow> ReadEvent list \<Rightarrow> ReadEvent list \<Rightarrow> bool \<Rightarrow> journal_error + ReadEvent list" where
  "rl_range_loop from to res [] clean = (if clean then Inr res else Inl JoDecode)"
| "rl_range_loop from to res (ev # evs) clean =
     (if re_Index ev < from then rl_range_loop from to res evs clean
      else if to \<le> re_Index ev then Inr res
      else rl_range_loop from to (res @ [ev]) evs clean)"

definition rl_Range ::
    "(bytes \<Rightarrow> ReadEvent list \<times> bool) \<Rightarrow> (string \<Rightarrow> bool) \<Rightarrow> (string \<rightharpoonup> bytes) \<Rightarrow> u64 \<Rightarrow> u64 \<Rightarrow> journal_error + ReadEvent list" where
  "rl_Range stream rd files from to =
     (if to \<le> from then Inl JoRangeOrder
      else if 10000 < to - from then Inl JoRangeTooLarge
      else if rd ''journal.log'' then Inl JoOpen
      else case files ''journal.log'' of None \<Rightarrow> Inr []
      | Some buf \<Rightarrow> rl_range_loop from to [] (fst (stream buf)) (snd (stream buf)))"

text \<open>What an event is after \<open>json.Marshal\<close> and \<open>Decode\<close>.\<close>

definition re_read_back :: "ReadEvent \<Rightarrow> ReadEvent" where
  "re_read_back e =
     e\<lparr>re_Operation := coerce_str (re_Operation e), re_CallerIP := coerce_str (re_CallerIP e),
       re_UserAgent := coerce_str (re_UserAgent e)\<rparr>"

definition rl_json :: "(ReadEvent \<Rightarrow> bytes option) \<Rightarrow> (bytes \<Rightarrow> ReadEvent list \<times> bool) \<Rightarrow> bool" where
  "rl_json enc stream \<longleftrightarrow> stream [] = ([], True)
     \<and> (\<forall>buf es e b. stream buf = (es, True) \<longrightarrow> enc e = Some b \<longrightarrow> stream (buf @ b @ [0x0A]) = (es @ [re_read_back e], True))"

text \<open>
  A journal in use: it is opened on a directory without a journal file; appends succeed, or fail
  before anything is written; the process is restarted.  The list holds the events that \<open>Append\<close>
  returned.
\<close>

inductive rl_run ::
    "crypto \<Rightarrow> (bytes \<Rightarrow> bytes option) \<Rightarrow> (ReadEvent \<Rightarrow> bytes option) \<Rightarrow> (bytes \<Rightarrow> ReadEvent list \<times> bool)
      \<Rightarrow> (string \<rightharpoonup> bytes) \<Rightarrow> Journal \<Rightarrow> ReadEvent list \<Rightarrow> bool"
    for C L enc stream where
  start: "rl_openJournal C L stream True rd io seed qseed hybrid files0 = (files, Inr j) \<Longrightarrow> files0 ''journal.log'' = None
    \<Longrightarrow> journal_keys C j \<Longrightarrow> rl_run C L enc stream files j []"
| append: "rl_run C L enc stream files j es
    \<Longrightarrow> rl_Append C enc out now i lh oper ip ua files j = (files', j', Inr ev) \<Longrightarrow> text_ok oper \<Longrightarrow> text_ok ip \<Longrightarrow> text_ok ua
    \<Longrightarrow> rl_run C L enc stream files' j' (es @ [ev])"
| refused: "rl_run C L enc stream files j es
    \<Longrightarrow> rl_Append C enc out now i lh oper ip ua files j = (files', j', Inl e) \<Longrightarrow> e \<in> {JoOpen, JoMarshal}
    \<Longrightarrow> rl_run C L enc stream files' j' es"
| reopen: "rl_run C L enc stream files j es \<Longrightarrow> rl_openJournal C L stream True rd io seed qseed hybrid files = (files', Inr j')
    \<Longrightarrow> journal_keys C j' \<Longrightarrow> rl_run C L enc stream files' j' es"

section \<open>Lemmas\<close>

definition re_fits :: "ReadEvent \<Rightarrow> bool" where
  "re_fits e \<longleftrightarrow> fits (re_PrevHash e) \<and> fits (re_LeafHash e) \<and> fits (of_str (re_Operation e)) \<and> fits (of_str (re_CallerIP e))
     \<and> fits (of_str (re_UserAgent e)) \<and> fits (re_QuantumPubKey e)"

definition re_content :: "ReadEvent \<Rightarrow> i64 \<times> u64 \<times> bytes \<times> string \<times> string \<times> string \<times> bytes" where
  "re_content e = (re_TimeNanos e, re_EntryIdx e, re_LeafHash e, re_Operation e, re_CallerIP e, re_UserAgent e, re_QuantumPubKey e)"

lemma re_Canonical_inj:
  assumes "re_fits e" "re_fits e'" "re_Canonical e = re_Canonical e'"
  shows "re_PrevHash e = re_PrevHash e' \<and> re_Index e = re_Index e' \<and> re_content e = re_content e'"
  using assms by (simp add: re_fits_def re_Canonical_def re_content_def frame)

lemma re_Verify_hash: "re_Verify C e = None \<Longrightarrow> re_EventHash e = sha256 (re_Canonical e)"
  by (simp add: re_Verify_def verify_sealed_None)

interpretation rl_chain: hash_chain "\<lambda>e. re_Verify C e = None \<and> re_fits e"
    "\<lambda>e p. link_error re_Index re_PrevHash re_EventHash e p = None" re_EventHash re_PrevHash re_Index allZeros
    re_Canonical re_content fits for C
proof unfold_locales
  show "re_PrevHash e = re_PrevHash e' \<and> re_Index e = re_Index e' \<and> re_content e = re_content e'"
    if "re_Verify C e = None \<and> re_fits e" "re_Verify C e' = None \<and> re_fits e'" "re_Canonical e = re_Canonical e'" for e e'
    using re_Canonical_inj that by blast
qed (auto simp: link_error_None re_Verify_hash re_fits_def fits_def)

definition rl_sealed :: "crypto \<Rightarrow> Journal \<Rightarrow> ReadEvent \<Rightarrow> bool" where
  "rl_sealed C j e \<longleftrightarrow> journal_keys C j \<and> (\<exists>now i lh oper ip ua. e = rl_seal C j (rl_event j now i lh oper ip ua))"

lemma re_Canonical_sealed [simp]: "re_Canonical (rl_seal C j ev) = re_Canonical ev"
  by (simp add: re_Canonical_def rl_seal_def Let_def)

interpretation rl: journal "re_Verify C" re_Index re_PrevHash re_EventHash "rl_sealed C" for C
proof unfold_locales
  fix j e
  assume "rl_sealed C j e"
  then obtain now i lh oper ip ua where e: "e = rl_seal C j (rl_event j now i lh oper ip ua)" and k: "journal_keys C j"
    by (auto simp: rl_sealed_def)
  have "re_Canonical e = re_Canonical (rl_event j now i lh oper ip ua)" by (simp add: e)
  then show "re_Verify C e = None"
    using sealed_verifies_keys [OF k] by (simp add: re_Verify_def) (simp add: e rl_seal_def rl_event_def Let_def)
  show "re_Index e = jn_size j \<and> re_PrevHash e = jn_prev j" by (simp add: e rl_seal_def rl_event_def Let_def)
qed

lemmas rl_open_log = rl.open_log [of C "''journal''" C for C, simplified, folded rl_openJournal_def]
lemmas rl_open_holds = rl.open_holds [of C "''journal''" C for C, simplified, folded rl_openJournal_def]
lemmas rl_reopen_recovers = rl.reopen_recovers [of C _ "''journal''" _ _ _ _ C for C, simplified, folded rl_openJournal_def]

lemma re_read_back_ok:
  "text_ok (re_Operation e) \<Longrightarrow> text_ok (re_CallerIP e) \<Longrightarrow> text_ok (re_UserAgent e) \<Longrightarrow> re_read_back e = e"
  by (simp add: re_read_back_def coerce_str_iff)

lemma rl_Append_Inr:
  assumes "rl_Append C enc out now i lh oper ip ua files j = (files', j', Inr ev)"
  obtains body where "ev = rl_seal C j (rl_event j now i lh oper ip ua)" "enc ev = Some body"
    "files' = append_bytes ''journal.log'' (body @ [0x0A]) files" "j' = j\<lparr>jn_size := jn_size j + 1, jn_prev := re_EventHash ev\<rparr>"
  using assms by (auto simp: rl_Append_def Let_def split: if_splits option.splits append_outcome.splits)

lemma rl_seal_fields [simp]:
  "re_Operation (rl_seal C j ev) = re_Operation ev" "re_CallerIP (rl_seal C j ev) = re_CallerIP ev"
  "re_UserAgent (rl_seal C j ev) = re_UserAgent ev" "re_Operation (rl_event j now i lh oper ip ua) = oper"
  "re_CallerIP (rl_event j now i lh oper ip ua) = ip" "re_UserAgent (rl_event j now i lh oper ip ua) = ua"
  by (simp_all add: rl_seal_def rl_event_def Let_def)

lemma rl_json_append:
  "rl_json enc stream \<Longrightarrow> rl.holds C stream p files j es \<Longrightarrow> enc e = Some b
     \<Longrightarrow> stream (content_of p files @ b @ [0x0A]) = (es @ [re_read_back e], True)"
  by (simp add: rl_json_def rl.holds_def)

lemma rl_Append_holds:
  assumes "rl_json enc stream" "rl.holds C stream ''journal.log'' files j es" "journal_keys C j"
    and ap: "rl_Append C enc out now i lh oper ip ua files j = (files', j', Inr ev)" "text_ok oper" "text_ok ip" "text_ok ua"
  shows "rl.holds C stream ''journal.log'' files' j' (es @ [ev])" "journal_keys C j'"
proof -
  from ap(1) obtain body where ev: "ev = rl_seal C j (rl_event j now i lh oper ip ua)" "enc ev = Some body"
    "files' = append_bytes ''journal.log'' (body @ [0x0A]) files" "j' = j\<lparr>jn_size := jn_size j + 1, jn_prev := re_EventHash ev\<rparr>"
    by (rule rl_Append_Inr)
  have s: "rl_sealed C j ev" using assms(3) ev(1) unfolding rl_sealed_def by blast
  have "re_read_back ev = ev" using ap(2-4) by (simp add: re_read_back_ok ev(1))
  then have "stream (content_of ''journal.log'' files @ body @ [0x0A]) = (es @ [ev], True)"
    using rl_json_append [OF assms(1,2) ev(2)] by simp
  from rl.append_holds [OF assms(2) s this] ev(3,4)
  show "rl.holds C stream ''journal.log'' files' j' (es @ [ev])" by simp
  show "journal_keys C j'" using assms(3) by (simp add: ev(4) journal_keys_def)
qed

lemma rl_run_holds:
  assumes "rl_json enc stream" "rl_run C L enc stream files j es"
  shows "rl.holds C stream ''journal.log'' files j es \<and> journal_keys C j"
proof -
  have json: "stream [] = ([], True)" using assms(1) by (simp add: rl_json_def)
  from assms(2) show ?thesis
  proof induction
    case (start rd io seed qseed hybrid files0 files j)
    obtain es where h: "rl.holds C stream ''journal.log'' files j es" using rl_open_holds [OF start(1) json] by blast
    moreover have "files ''journal.log'' = None" using rl_open_log [OF start(1)] start(2) by simp
    ultimately have "es = []" using assms(1) by (simp add: rl.holds_def rl_json_def content_of_def)
    with h start show ?case by simp
  next
    case append
    note h = append.IH [THEN conjunct1] append.IH [THEN conjunct2]
    show ?case using rl_Append_holds [OF assms(1) h append.hyps(2-5)] by simp
  next
    case (refused files j es out now i lh oper ip ua files' j' e)
    then have "j' = j \<and> (files' = files \<or> files' = append_bytes ''journal.log'' [] files)"
      by (auto simp: rl_Append_def Let_def split: if_splits option.splits append_outcome.splits)
    with refused.IH show ?case by (auto simp: rl.holds_def append_bytes_def content_of_def)
  next
    case (reopen files j es rd io seed qseed hybrid files' j')
    obtain es' where h: "rl.holds C stream ''journal.log'' files' j' es'" using rl_open_holds [OF reopen(2) json] by blast
    moreover have "content_of ''journal.log'' files' = content_of ''journal.log'' files"
      using rl_open_log [OF reopen(2)] by (simp add: content_of_def)
    ultimately have "es' = es" using reopen.IH by (simp add: rl.holds_def)
    with h reopen show ?case by simp
  qed
qed

lemma rl_range_loop_filter:
  "sorted_wrt (<) (map re_Index es) \<Longrightarrow>
     rl_range_loop from to res es True = Inr (res @ filter (\<lambda>e. from \<le> re_Index e \<and> re_Index e < to) es)"
proof (induction es arbitrary: res)
  case (Cons e es)
  consider "re_Index e < from" | "from \<le> re_Index e" "to \<le> re_Index e" | "from \<le> re_Index e" "re_Index e < to"
    by fastforce
  then show ?case
  proof cases
    case 2
    have "filter (\<lambda>e. from \<le> re_Index e \<and> re_Index e < to) (e # es) = []"
      using Cons.prems 2 by (fastforce simp: filter_empty_conv)
    with 2 show ?thesis by (simp add: not_less [symmetric])
  qed (use Cons in auto)
qed simp

lemma rl_kept_range:
  assumes "rl_json enc stream" "rl.holds C stream ''journal.log'' files j es" "length es \<le> 2 ^ 64"
    and "lo < hi" "hi - lo \<le> 10000" "\<not> rd ''journal.log''"
  shows "rl_Range stream rd files lo hi = Inr (filter (\<lambda>e. lo \<le> re_Index e \<and> re_Index e < hi) es)"
proof (cases "files ''journal.log''")
  case None
  with assms show ?thesis by (simp add: rl.holds_def content_of_def rl_json_def rl_Range_def leD not_less [symmetric])
next
  case (Some buf)
  then have "stream buf = (es, True)" using assms(2) by (simp add: rl.holds_def content_of_def)
  with Some assms(4-6) rl_range_loop_filter [OF rl.holds_sorted [OF assms(2,3)], of lo hi "[]"]
  show ?thesis by (simp add: rl_Range_def not_less)
qed

section \<open>What the read journal promises\<close>

text \<open>
  C29.  The read journal keeps what it acknowledged, as long as it is written with well-formed UTF-8 and
  no append fails half-way.  In every journal that was started on an empty file, to which events with
  well-formed text were appended, whose failed appends all failed before anything was written (neither a
  partial write nor a failed \<open>Sync\<close> or \<open>Close\<close>), and which was restarted any number of times: the events
  that \<open>Append\<close> returned all verify, the size is their number, \<open>Range\<close> returns exactly those with an
  index in the asked interval, and a further restart recovers size and last hash unless a key file fails
  it.  \<open>malformed_user_agent_bricks_journal\<close> shows that the first condition is needed.
\<close>

theorem readlog_keeps_events:
  assumes "rl_json enc stream" "rl_run C L enc stream files j es" "length es \<le> 2 ^ 64" "\<not> rd ''journal.log''"
  shows "rl_Size j = of_nat (length es) \<and> (\<forall>e\<in>set es. re_Verify C e = None)
    \<and> (lo < hi \<and> hi - lo \<le> 10000 \<longrightarrow>
        rl_Range stream rd files lo hi = Inr (filter (\<lambda>e. lo \<le> re_Index e \<and> re_Index e < hi) es))
    \<and> (case snd (rl_openJournal C L stream True rd io seed qseed hybrid files) of
         Inr j' \<Rightarrow> rl_Size j' = rl_Size j \<and> jn_prev j' = jn_prev j | Inl e \<Rightarrow> e = JoMkdir \<or> (\<exists>k. e = JoKey k))"
proof (intro conjI impI)
  have h: "rl.holds C stream ''journal.log'' files j es" using rl_run_holds [OF assms(1,2)] by simp
  then have "rl.chained C None es" by (simp add: rl.holds_def)
  then show "\<forall>e\<in>set es. re_Verify C e = None" by (blast dest: rl.chained_valid)
  show "rl_Size j = of_nat (length es)" using h by (simp add: rl_Size_def rl.holds_def)
  show "rl_Range stream rd files lo hi = Inr (filter (\<lambda>e. lo \<le> re_Index e \<and> re_Index e < hi) es)"
    if "lo < hi \<and> hi - lo \<le> 10000" using rl_kept_range [OF assms(1) h assms(3)] that assms(4) by blast
  obtain files' r where o: "rl_openJournal C L stream True rd io seed qseed hybrid files = (files', r)" by force
  from rl_reopen_recovers [OF h _ assms(4) o] assms(1)
  show "case snd (rl_openJournal C L stream True rd io seed qseed hybrid files) of
         Inr j' \<Rightarrow> rl_Size j' = rl_Size j \<and> jn_prev j' = jn_prev j | Inl e \<Rightarrow> e = JoMkdir \<or> (\<exists>k. e = JoKey k)"
    unfolding o snd_conv rl_Size_def rl_json_def by blast
qed

text \<open>
  A caller can make the read journal unreadable.  \<open>Append\<close> signs the strings it is given, JSON
  stores them with each malformed byte replaced, and \<open>replay\<close> refuses what it reads: after one
  acknowledged event whose user agent is not UTF-8, no restart opens the journal again (or two
  different canonical texts have the same SHA-256).
\<close>

theorem malformed_user_agent_bricks_journal:
  assumes "rl_json enc stream" "rl_run C L enc stream files j es"
    and "rl_Append C enc out now i lh oper ip ua files j = (files', j', Inr ev)"
    and "\<not> text_ok ua" "re_fits ev" "re_fits (re_read_back ev)"
  shows "collision (re_Canonical ev) (re_Canonical (re_read_back ev))
    \<or> (\<forall>L mk rd io seed qseed hybrid files'' j''.
         rl_openJournal C L stream mk rd io seed qseed hybrid files' \<noteq> (files'', Inr j''))"
proof (rule disjCI)
  assume "\<not> (\<forall>L mk rd io seed qseed hybrid files'' j''.
         rl_openJournal C L stream mk rd io seed qseed hybrid files' \<noteq> (files'', Inr j''))"
  then obtain L mk rd io seed qseed hybrid files'' j'' where
    o: "rl_openJournal C L stream mk rd io seed qseed hybrid files' = (files'', Inr j'')" by blast
  obtain es' where h': "rl.holds C stream ''journal.log'' files'' j'' es'" using rl_open_holds [OF o] assms(1) [unfolded rl_json_def] by blast
  have h: "rl.holds C stream ''journal.log'' files j es" "journal_keys C j" using rl_run_holds [OF assms(1,2)] by simp_all
  from assms(3) obtain body where ev: "ev = rl_seal C j (rl_event j now i lh oper ip ua)" "enc ev = Some body"
    "files' = append_bytes ''journal.log'' (body @ [0x0A]) files"
    by (rule rl_Append_Inr)
  have "content_of ''journal.log'' files'' = content_of ''journal.log'' files @ body @ [0x0A]"
    using rl_open_log [OF o] by (simp add: ev(3) append_bytes_def content_of_def)
  with h' rl_json_append [OF assms(1) h(1) ev(2)] have "es' = es @ [re_read_back ev]" by (simp add: rl.holds_def)
  with h' have "re_Verify C (re_read_back ev) = None" by (simp add: rl.holds_def rl.chained_snoc)
  then have "sha256 (re_Canonical (re_read_back ev)) = re_EventHash ev"
    by (simp add: re_Verify_def verify_sealed_None re_read_back_def)
  also have "\<dots> = sha256 (re_Canonical ev)" by (simp add: ev(1)) (simp add: rl_seal_def Let_def)
  finally have "sha256 (re_Canonical ev) = sha256 (re_Canonical (re_read_back ev))" by simp
  moreover have "re_Canonical ev \<noteq> re_Canonical (re_read_back ev)"
  proof
    assume "re_Canonical ev = re_Canonical (re_read_back ev)"
    with re_Canonical_inj [OF assms(5,6)] have "coerce_str ua = ua" by (simp add: re_content_def re_read_back_def ev(1))
    with assms(4) show False by (simp add: coerce_str_iff)
  qed
  ultimately show "collision (re_Canonical ev) (re_Canonical (re_read_back ev))"
    using sha256_eq_or_collision by blast
qed

section \<open>Witnesses\<close>

definition sample_read :: "string \<Rightarrow> ReadEvent" where
  "sample_read ua = rl_seal sample_crypto sample_journal (rl_event sample_journal 5 0 [9] ''get_entry'' ''ip'' ua)"

definition sample_renc :: "string \<Rightarrow> ReadEvent \<Rightarrow> bytes option" where
  "sample_renc ua e = (if e = sample_read ua then Some [1] else None)"

abbreviation "sample_rstream ua \<equiv> line_stream (re_read_back (sample_read ua))"

lemma sample_rl_json: "rl_json (sample_renc ua) (sample_rstream ua)"
  by (auto simp: rl_json_def sample_renc_def line_stream_append split: if_splits)

lemma sample_rl_start:
  obtains files where "rl_run sample_crypto (\<lambda>_. None) enc stream files sample_journal []" "files ''journal.log'' = None"
proof -
  obtain files where o: "rl_openJournal sample_crypto (\<lambda>_. None) stream True (\<lambda>_. False) (\<lambda>_. WriteOk) (Some (replicate 32 1)) None False
     Map.empty = (files, Inr sample_journal)" "files ''journal.log'' = None"
    using sample_open [of "re_Verify sample_crypto" re_Index re_PrevHash re_EventHash "''journal''" stream]
    unfolding rl_openJournal_def by auto
  from rl_run.start [OF o(1) _ sample_journal_keys, of enc] o(2) show ?thesis using that by simp
qed

lemma sample_rl_append:
  "\<exists>files' j'. rl_Append sample_crypto (sample_renc ua) AppendOk 5 0 [9] ''get_entry'' ''ip'' ua files sample_journal
     = (files', j', Inr (sample_read ua))"
  by (simp add: rl_Append_def sample_renc_def sample_read_def Let_def)

theorem readlog_keeps_events_witness:
  "\<exists>files j. rl_run sample_crypto (\<lambda>_. None) (sample_renc ''ua'') (sample_rstream ''ua'') files j [sample_read ''ua'']
     \<and> rl_Range (sample_rstream ''ua'') (\<lambda>_. False) files 0 10 = Inr [sample_read ''ua'']"
proof -
  let ?run = "rl_run sample_crypto (\<lambda>_. None) (sample_renc ''ua'') (sample_rstream ''ua'')"
  obtain files where 0: "?run files sample_journal []" by (rule sample_rl_start)
  obtain f j where a: "rl_Append sample_crypto (sample_renc ''ua'') AppendOk 5 0 [9] ''get_entry'' ''ip'' ''ua'' files sample_journal
     = (f, j, Inr (sample_read ''ua''))" using sample_rl_append by blast
  have 1: "?run f j ([] @ [sample_read ''ua''])"
    by (rule rl_run.append [OF 0 a]) (rule ascii_text_ok, code_simp)+
  have "re_Index (sample_read ''ua'') = 0"
    by (simp add: sample_read_def rl_seal_def rl_event_def sample_journal_def Let_def)
  with readlog_keeps_events [OF sample_rl_json 1, of "\<lambda>_. False" 0 10] 1 show ?thesis by auto
qed

theorem malformed_user_agent_bricks_journal_witness:
  "\<exists>files j files' j'. rl_run sample_crypto (\<lambda>_. None) (sample_renc [CHR 0xFF]) (sample_rstream [CHR 0xFF]) files j []
     \<and> rl_Append sample_crypto (sample_renc [CHR 0xFF]) AppendOk 5 0 [9] ''get_entry'' ''ip'' [CHR 0xFF] files j
         = (files', j', Inr (sample_read [CHR 0xFF]))
     \<and> (collision (re_Canonical (sample_read [CHR 0xFF])) (re_Canonical (re_read_back (sample_read [CHR 0xFF])))
        \<or> (\<forall>L mk rd io seed qseed hybrid files'' j''.
         rl_openJournal sample_crypto L (sample_rstream [CHR 0xFF]) mk rd io seed qseed hybrid files' \<noteq> (files'', Inr j'')))"
proof -
  let ?ua = "[CHR 0xFF]"
  obtain files where 0: "rl_run sample_crypto (\<lambda>_. None) (sample_renc ?ua) (sample_rstream ?ua) files sample_journal []"
    by (rule sample_rl_start)
  obtain f j where a: "rl_Append sample_crypto (sample_renc ?ua) AppendOk 5 0 [9] ''get_entry'' ''ip'' ?ua files sample_journal
     = (f, j, Inr (sample_read ?ua))" using sample_rl_append by blast
  have co: "coerce_str ''get_entry'' = ''get_entry''" "coerce_str ''ip'' = ''ip''" "length (coerce_str ?ua) = 3" by code_simp+
  have bad: "\<not> text_ok ?ua" by code_simp
  have fit: "re_fits (sample_read ?ua)" "re_fits (re_read_back (sample_read ?ua))"
    by (simp_all add: re_fits_def re_read_back_def co sample_read_def)
       (simp_all add: fits_def rl_seal_def rl_event_def sample_journal_def Let_def co)
  show ?thesis
    using malformed_user_agent_bricks_journal [OF sample_rl_json 0 a bad fit] 0 a by blast
qed

end
