(* ===== verification/Adminlog.thy ===== *)
theory Adminlog
  imports Journals Utf8
begin

text \<open>
  The admin journal, \<open>pkg/adminlog\<close>: one signed, hash-chained event for every change of the rules the
  API serves.  Its events differ from those of the read journal, \<open>Action\<close> encodes before it opens
  the file and reports the error of \<open>Close\<close>, and \<open>Range\<close> clips instead of refusing.
\<close>

section \<open>Definitions\<close>

record AdminEvent =
  ae_Index :: u64
  ae_TimeNanos :: i64
  ae_PrevHash :: bytes
  ae_Action :: string
  ae_Subject :: string
  ae_Outcome :: string
  ae_Err :: string
  ae_Details :: bytes
  ae_Actor :: string
  ae_CallerIP :: string
  ae_UserAgent :: string
  ae_EventHash :: bytes
  ae_PubKey :: bytes
  ae_Signature :: bytes
  ae_QuantumPubKey :: bytes
  ae_QuantumSignature :: bytes

definition ae_Canonical :: "AdminEvent \<Rightarrow> bytes" where
  "ae_Canonical e =
     be64 (ae_Index e) @ be64 (ae_TimeNanos e) @ put (ae_PrevHash e)
     @ put (of_str (ae_Action e)) @ put (of_str (ae_Subject e)) @ put (of_str (ae_Outcome e)) @ put (of_str (ae_Err e))
     @ put (ae_Details e) @ put (of_str (ae_Actor e)) @ put (of_str (ae_CallerIP e)) @ put (of_str (ae_UserAgent e))
     @ put (ae_QuantumPubKey e)"

definition ae_Verify :: "crypto \<Rightarrow> AdminEvent \<Rightarrow> event_error option" where
  "ae_Verify C e =
     verify_sealed C (ae_Canonical e) (ae_EventHash e) (ae_PubKey e) (ae_Signature e) (ae_QuantumPubKey e) (ae_QuantumSignature e)"

definition al_replay ::
    "crypto \<Rightarrow> (bytes \<Rightarrow> AdminEvent list \<times> bool) \<Rightarrow> (string \<Rightarrow> bool) \<Rightarrow> (string \<rightharpoonup> bytes) \<Rightarrow> Journal \<Rightarrow> journal_error + Journal" where
  "al_replay C stream rd files j =
     journal_replay (ae_Verify C) ae_Index ae_PrevHash ae_EventHash stream rd ''admin.log'' files j"

definition al_openJournal ::
    "crypto \<Rightarrow> (bytes \<Rightarrow> bytes option) \<Rightarrow> (bytes \<Rightarrow> AdminEvent list \<times> bool) \<Rightarrow> bool \<Rightarrow> (string \<Rightarrow> bool) \<Rightarrow> (string \<Rightarrow> write_outcome)
      \<Rightarrow> bytes option \<Rightarrow> bytes option \<Rightarrow> bool \<Rightarrow> (string \<rightharpoonup> bytes) \<Rightarrow> (string \<rightharpoonup> bytes) \<times> (journal_error + Journal)" where
  "al_openJournal C = journal_open (ae_Verify C) ae_Index ae_PrevHash ae_EventHash ''admin'' C"

definition al_Size :: "Journal \<Rightarrow> u64" where
  "al_Size j = jn_size j"

text \<open>What is recorded of one action: everything but the details.\<close>

record action_args =
  aa_action :: string
  aa_subject :: string
  aa_outcome :: string
  aa_err :: string
  aa_actor :: string
  aa_callerIP :: string
  aa_userAgent :: string

definition al_event :: "Journal \<Rightarrow> i64 \<Rightarrow> bytes \<Rightarrow> action_args \<Rightarrow> AdminEvent" where
  "al_event j now raw a =
     \<lparr>ae_Index = jn_size j, ae_TimeNanos = now, ae_PrevHash = jn_prev j, ae_Action = aa_action a, ae_Subject = aa_subject a,
      ae_Outcome = aa_outcome a, ae_Err = aa_err a, ae_Details = raw, ae_Actor = aa_actor a, ae_CallerIP = aa_callerIP a,
      ae_UserAgent = aa_userAgent a, ae_EventHash = [], ae_PubKey = jn_pub j, ae_Signature = [],
      ae_QuantumPubKey = jn_qPub j, ae_QuantumSignature = []\<rparr>"

definition al_seal :: "crypto \<Rightarrow> Journal \<Rightarrow> AdminEvent \<Rightarrow> AdminEvent" where
  "al_seal C j ev =
     (let canon = ae_Canonical ev
      in ev\<lparr>ae_EventHash := sha256 canon, ae_Signature := ed_sign C (jn_priv j) canon,
            ae_QuantumSignature := (if jn_qPriv j \<noteq> [] then d3_sign C (jn_qPriv j) canon else [])\<rparr>)"

text \<open>
  \<open>details\<close> is \<open>None\<close> for \<open>nil\<close>, and otherwise what \<open>json.Marshal\<close> makes of the value, \<open>Some None\<close> when it
  fails.
\<close>

definition al_Action ::
    "crypto \<Rightarrow> (AdminEvent \<Rightarrow> bytes option) \<Rightarrow> append_outcome \<Rightarrow> i64 \<Rightarrow> bytes option option \<Rightarrow> action_args
      \<Rightarrow> (string \<rightharpoonup> bytes) \<Rightarrow> Journal \<Rightarrow> (string \<rightharpoonup> bytes) \<times> Journal \<times> (journal_error + AdminEvent)" where
  "al_Action C enc out now details a files j =
     (if details = Some None then (files, j, Inl JoDetails)
      else
        let raw = (case details of Some (Some body) \<Rightarrow> body | _ \<Rightarrow> []); ev = al_seal C j (al_event j now raw a)
        in case enc ev of
          None \<Rightarrow> (files, j, Inl JoMarshal)
        | Some body \<Rightarrow>
            (case out of
               OpenFails \<Rightarrow> (files, j, Inl JoOpen)
             | PartWritten part \<Rightarrow> (append_bytes ''admin.log'' part files, j, Inl JoWrite)
             | SyncFails \<Rightarrow> (append_bytes ''admin.log'' (body @ [0x0A]) files, j, Inl JoSync)
             | CloseFails \<Rightarrow> (append_bytes ''admin.log'' (body @ [0x0A]) files, j, Inl JoClose)
             | AppendOk \<Rightarrow>
                 (append_bytes ''admin.log'' (body @ [0x0A]) files,
                  j\<lparr>jn_size := jn_size j + 1, jn_prev := ae_EventHash ev\<rparr>, Inr ev)))"

fun al_range_loop :: "u64 \<Rightarrow> u64 \<Rightarrow> AdminEvent list \<Rightarrow> AdminEvent list \<Rightarrow> bool \<Rightarrow> journal_error + AdminEvent list" where
  "al_range_loop lo hi res [] clean = (if clean then Inr res else Inl JoDecode)"
| "al_range_loop lo hi res (ev # evs) clean =
     (let res = (if lo \<le> ae_Index ev \<and> ae_Index ev < hi then res @ [ev] else res)
      in if hi \<le> ae_Index ev then Inr res else al_range_loop lo hi res evs clean)"

definition al_Range ::
    "(bytes \<Rightarrow> AdminEvent list \<times> bool) \<Rightarrow> (string \<Rightarrow> bool) \<Rightarrow> (string \<rightharpoonup> bytes) \<Rightarrow> Journal \<Rightarrow> u64 \<Rightarrow> u64 \<Rightarrow> journal_error + AdminEvent list" where
  "al_Range stream rd files j lo hi =
     (let hi = (if hi = 0 \<or> jn_size j < hi then jn_size j else hi)
      in if hi \<le> lo then Inr []
      else if rd ''admin.log'' then Inl JoOpen
      else case files ''admin.log'' of None \<Rightarrow> Inr []
      | Some buf \<Rightarrow> al_range_loop lo hi [] (fst (stream buf)) (snd (stream buf)))"

definition ae_read_back :: "AdminEvent \<Rightarrow> AdminEvent" where
  "ae_read_back e =
     e\<lparr>ae_Action := coerce_str (ae_Action e), ae_Subject := coerce_str (ae_Subject e), ae_Outcome := coerce_str (ae_Outcome e),
       ae_Err := coerce_str (ae_Err e), ae_Actor := coerce_str (ae_Actor e), ae_CallerIP := coerce_str (ae_CallerIP e),
       ae_UserAgent := coerce_str (ae_UserAgent e)\<rparr>"

definition al_json :: "(AdminEvent \<Rightarrow> bytes option) \<Rightarrow> (bytes \<Rightarrow> AdminEvent list \<times> bool) \<Rightarrow> bool" where
  "al_json enc stream \<longleftrightarrow> stream [] = ([], True)
     \<and> (\<forall>buf es e b. stream buf = (es, True) \<longrightarrow> enc e = Some b \<longrightarrow> stream (buf @ b @ [0x0A]) = (es @ [ae_read_back e], True))"

definition args_ok :: "action_args \<Rightarrow> bool" where
  "args_ok a \<longleftrightarrow> text_ok (aa_action a) \<and> text_ok (aa_subject a) \<and> text_ok (aa_outcome a) \<and> text_ok (aa_err a)
     \<and> text_ok (aa_actor a) \<and> text_ok (aa_callerIP a) \<and> text_ok (aa_userAgent a)"

text \<open>A journal in use; the list holds the events that \<open>Action\<close> returned.\<close>

inductive al_run ::
    "crypto \<Rightarrow> (bytes \<Rightarrow> bytes option) \<Rightarrow> (AdminEvent \<Rightarrow> bytes option) \<Rightarrow> (bytes \<Rightarrow> AdminEvent list \<times> bool)
      \<Rightarrow> (string \<rightharpoonup> bytes) \<Rightarrow> Journal \<Rightarrow> AdminEvent list \<Rightarrow> bool"
    for C L enc stream where
  start: "al_openJournal C L stream True rd io seed qseed hybrid files0 = (files, Inr j) \<Longrightarrow> files0 ''admin.log'' = None
    \<Longrightarrow> journal_keys C j \<Longrightarrow> al_run C L enc stream files j []"
| action: "al_run C L enc stream files j es \<Longrightarrow> al_Action C enc out now details a files j = (files', j', Inr ev) \<Longrightarrow> args_ok a
    \<Longrightarrow> al_run C L enc stream files' j' (es @ [ev])"
| refused: "al_run C L enc stream files j es
    \<Longrightarrow> al_Action C enc out now details a files j = (files', j', Inl e) \<Longrightarrow> e \<in> {JoDetails, JoMarshal, JoOpen}
    \<Longrightarrow> al_run C L enc stream files' j' es"
| reopen: "al_run C L enc stream files j es \<Longrightarrow> al_openJournal C L stream True rd io seed qseed hybrid files = (files', Inr j')
    \<Longrightarrow> journal_keys C j' \<Longrightarrow> al_run C L enc stream files' j' es"

section \<open>Lemmas\<close>

definition ae_fits :: "AdminEvent \<Rightarrow> bool" where
  "ae_fits e \<longleftrightarrow> fits (ae_PrevHash e) \<and> fits (of_str (ae_Action e)) \<and> fits (of_str (ae_Subject e)) \<and> fits (of_str (ae_Outcome e))
     \<and> fits (of_str (ae_Err e)) \<and> fits (ae_Details e) \<and> fits (of_str (ae_Actor e)) \<and> fits (of_str (ae_CallerIP e))
     \<and> fits (of_str (ae_UserAgent e)) \<and> fits (ae_QuantumPubKey e)"

definition ae_content :: "AdminEvent \<Rightarrow> i64 \<times> string list \<times> bytes \<times> bytes" where
  "ae_content e =
     (ae_TimeNanos e,
      [ae_Action e, ae_Subject e, ae_Outcome e, ae_Err e, ae_Actor e, ae_CallerIP e, ae_UserAgent e], ae_Details e, ae_QuantumPubKey e)"

lemma ae_Canonical_inj:
  assumes "ae_fits e" "ae_fits e'" "ae_Canonical e = ae_Canonical e'"
  shows "ae_PrevHash e = ae_PrevHash e' \<and> ae_Index e = ae_Index e' \<and> ae_content e = ae_content e'"
  using assms by (simp add: ae_fits_def ae_Canonical_def ae_content_def frame)

lemma ae_Verify_hash: "ae_Verify C e = None \<Longrightarrow> ae_EventHash e = sha256 (ae_Canonical e)"
  by (simp add: ae_Verify_def verify_sealed_None)

interpretation al_chain: hash_chain "\<lambda>e. ae_Verify C e = None \<and> ae_fits e"
    "\<lambda>e p. link_error ae_Index ae_PrevHash ae_EventHash e p = None" ae_EventHash ae_PrevHash ae_Index allZeros
    ae_Canonical ae_content fits for C
proof unfold_locales
  show "ae_PrevHash e = ae_PrevHash e' \<and> ae_Index e = ae_Index e' \<and> ae_content e = ae_content e'"
    if "ae_Verify C e = None \<and> ae_fits e" "ae_Verify C e' = None \<and> ae_fits e'" "ae_Canonical e = ae_Canonical e'" for e e'
    using ae_Canonical_inj that by blast
qed (auto simp: link_error_None ae_Verify_hash ae_fits_def fits_def)

definition al_sealed :: "crypto \<Rightarrow> Journal \<Rightarrow> AdminEvent \<Rightarrow> bool" where
  "al_sealed C j e \<longleftrightarrow> journal_keys C j \<and> (\<exists>now raw a. e = al_seal C j (al_event j now raw a))"

lemma ae_Canonical_sealed [simp]: "ae_Canonical (al_seal C j ev) = ae_Canonical ev"
  by (simp add: ae_Canonical_def al_seal_def Let_def)

interpretation al: journal "ae_Verify C" ae_Index ae_PrevHash ae_EventHash "al_sealed C" for C
proof unfold_locales
  fix j e
  assume "al_sealed C j e"
  then obtain now raw a where e: "e = al_seal C j (al_event j now raw a)" and k: "journal_keys C j"
    by (auto simp: al_sealed_def)
  have "ae_Canonical e = ae_Canonical (al_event j now raw a)" by (simp add: e)
  then show "ae_Verify C e = None"
    using sealed_verifies_keys [OF k] by (simp add: ae_Verify_def) (simp add: e al_seal_def al_event_def Let_def)
  show "ae_Index e = jn_size j \<and> ae_PrevHash e = jn_prev j" by (simp add: e al_seal_def al_event_def Let_def)
qed

lemmas al_open_log = al.open_log [of C "''admin''" C for C, simplified, folded al_openJournal_def]
lemmas al_open_holds = al.open_holds [of C "''admin''" C for C, simplified, folded al_openJournal_def]
lemmas al_reopen_recovers = al.reopen_recovers [of C _ "''admin''" _ _ _ _ C for C, simplified, folded al_openJournal_def]

lemma al_seal_fields [simp]:
  "ae_read_back (al_seal C j (al_event j now raw a)) = al_seal C j (al_event j now raw a) \<longleftrightarrow> args_ok a"
proof -
  have "ae_read_back e = e \<longleftrightarrow> text_ok (ae_Action e) \<and> text_ok (ae_Subject e) \<and> text_ok (ae_Outcome e) \<and> text_ok (ae_Err e)
     \<and> text_ok (ae_Actor e) \<and> text_ok (ae_CallerIP e) \<and> text_ok (ae_UserAgent e)" for e
    by (cases e) (simp add: ae_read_back_def coerce_str_iff)
  then show ?thesis by (simp add: args_ok_def al_seal_def al_event_def Let_def)
qed

text \<open>What \<open>Action\<close> leaves in the file: nothing, the sealed event as it is read back, or a part of it.\<close>

lemma al_Action_cases:
  assumes "al_Action C enc out now details a files j = (files', j', r)"
  obtains (nothing) e where "files' = files" "j' = j" "r = Inl e" "e \<in> {JoDetails, JoMarshal, JoOpen}"
    | (part) bs where "files' = append_bytes ''admin.log'' bs files" "j' = j" "r = Inl JoWrite"
    | (written) raw ev body where "ev = al_seal C j (al_event j now raw a)" "enc ev = Some body"
        "files' = append_bytes ''admin.log'' (body @ [0x0A]) files"
        "r = Inl JoSync \<and> j' = j \<or> r = Inl JoClose \<and> j' = j \<or> r = Inr ev \<and> j' = j\<lparr>jn_size := jn_size j + 1, jn_prev := ae_EventHash ev\<rparr>"
proof (cases "details = Some None")
  case True
  show ?thesis by (rule nothing) (use assms True in \<open>auto simp: al_Action_def\<close>)
next
  case False
  define ev where "ev = al_seal C j (al_event j now (case details of Some (Some body) \<Rightarrow> body | _ \<Rightarrow> []) a)"
  show ?thesis
  proof (cases "enc ev")
    case None
    show ?thesis by (rule nothing) (use assms False None in \<open>auto simp: al_Action_def ev_def Let_def\<close>)
  next
    case (Some body)
    have r: "(files', j', r) = (case out of
               OpenFails \<Rightarrow> (files, j, Inl JoOpen)
             | PartWritten part \<Rightarrow> (append_bytes ''admin.log'' part files, j, Inl JoWrite)
             | SyncFails \<Rightarrow> (append_bytes ''admin.log'' (body @ [0x0A]) files, j, Inl JoSync)
             | CloseFails \<Rightarrow> (append_bytes ''admin.log'' (body @ [0x0A]) files, j, Inl JoClose)
             | AppendOk \<Rightarrow>
                 (append_bytes ''admin.log'' (body @ [0x0A]) files,
                  j\<lparr>jn_size := jn_size j + 1, jn_prev := ae_EventHash ev\<rparr>, Inr ev))"
      using assms False Some unfolding al_Action_def Let_def ev_def [symmetric] by simp
    show ?thesis
    proof (cases out)
      case OpenFails
      show ?thesis by (rule nothing) (use r OpenFails in auto)
    next
      case (PartWritten bs)
      show ?thesis by (rule part [of bs]) (use r PartWritten in auto)
    qed (rule written [OF ev_def Some], use r in auto)+
  qed
qed

lemma al_json_append:
  "al_json enc stream \<Longrightarrow> al.holds C stream p files j es \<Longrightarrow> enc e = Some b
     \<Longrightarrow> stream (content_of p files @ b @ [0x0A]) = (es @ [ae_read_back e], True)"
  by (simp add: al_json_def al.holds_def)

lemma al_Action_holds:
  assumes "al_json enc stream" "al.holds C stream ''admin.log'' files j es" "journal_keys C j"
    and "al_Action C enc out now details a files j = (files', j', Inr ev)" "args_ok a"
  shows "al.holds C stream ''admin.log'' files' j' (es @ [ev]) \<and> journal_keys C j'"
  using assms(4)
proof (cases rule: al_Action_cases)
  case (written raw ev' body)
  then have ev: "ev' = ev" "j' = j\<lparr>jn_size := jn_size j + 1, jn_prev := ae_EventHash ev\<rparr>" by auto
  have s: "al_sealed C j ev" using assms(3) written(1) unfolding al_sealed_def ev(1) by blast
  have "ae_read_back ev = ev" using assms(5) written(1) by (simp add: ev(1))
  with al_json_append [OF assms(1,2) written(2)] have "stream (content_of ''admin.log'' files @ body @ [0x0A]) = (es @ [ev], True)"
    by (simp add: ev(1))
  from al.append_holds [OF assms(2) s this] written(3) ev(2) assms(3) show ?thesis by (simp add: journal_keys_def)
qed simp_all

lemma al_run_holds:
  assumes "al_json enc stream" "al_run C L enc stream files j es"
  shows "al.holds C stream ''admin.log'' files j es \<and> journal_keys C j"
proof -
  have json: "stream [] = ([], True)" using assms(1) by (simp add: al_json_def)
  from assms(2) show ?thesis
  proof induction
    case (start rd io seed qseed hybrid files0 files j)
    obtain es where h: "al.holds C stream ''admin.log'' files j es" using al_open_holds [OF start(1) json] by blast
    moreover have "files ''admin.log'' = None" using al_open_log [OF start(1)] start(2) by simp
    ultimately have "es = []" using json by (simp add: al.holds_def content_of_def)
    with h start show ?case by simp
  next
    case action
    note h = action.IH [THEN conjunct1] action.IH [THEN conjunct2]
    show ?case by (rule al_Action_holds [OF assms(1) h action.hyps(2,3)])
  next
    case (refused files j es out now details a files' j' e)
    from refused.hyps(2) have "files' = files \<and> j' = j" by (cases rule: al_Action_cases) (use refused.hyps(3) in auto)
    with refused.IH show ?case by simp
  next
    case (reopen files j es rd io seed qseed hybrid files' j')
    obtain es' where h: "al.holds C stream ''admin.log'' files' j' es'" using al_open_holds [OF reopen(2) json] by blast
    moreover have "content_of ''admin.log'' files' = content_of ''admin.log'' files"
      using al_open_log [OF reopen(2)] by (simp add: content_of_def)
    ultimately have "es' = es" using reopen.IH by (simp add: al.holds_def)
    with h reopen show ?case by simp
  qed
qed

lemma al_range_loop_filter:
  "sorted_wrt (<) (map ae_Index es) \<Longrightarrow>
     al_range_loop lo hi res es True = Inr (res @ filter (\<lambda>e. lo \<le> ae_Index e \<and> ae_Index e < hi) es)"
proof (induction es arbitrary: res)
  case (Cons e es)
  show ?case
  proof (cases "hi \<le> ae_Index e")
    case True
    have "filter (\<lambda>e. lo \<le> ae_Index e \<and> ae_Index e < hi) (e # es) = []"
      using Cons.prems True by (fastforce simp: filter_empty_conv)
    with True show ?thesis by (simp add: leD)
  qed (use Cons in auto)
qed simp

lemma al_kept_range:
  assumes "al_json enc stream" "al.holds C stream ''admin.log'' files j es" "length es < 2 ^ 64" "\<not> rd ''admin.log''"
  shows "al_Range stream rd files j lo hi =
    Inr (filter (\<lambda>e. lo \<le> ae_Index e \<and> (hi = 0 \<or> ae_Index e < hi)) es)"
proof -
  let ?hi = "if hi = 0 \<or> jn_size j < hi then jn_size j else hi"
  have n: "jn_size j = of_nat (length es)" using assms(2) by (simp add: al.holds_def)
  have "ae_Index e < jn_size j" if "e \<in> set es" for e
  proof -
    obtain i where "i < length es" "e = es ! i" using \<open>e \<in> set es\<close> by (metis in_set_conv_nth)
    with assms(2,3) al.index_nth [of C es i] show ?thesis by (simp add: n al.holds_def of_nat_less_u64)
  qed
  then have eq: "filter (\<lambda>e. lo \<le> ae_Index e \<and> ae_Index e < ?hi) es
      = filter (\<lambda>e. lo \<le> ae_Index e \<and> (hi = 0 \<or> ae_Index e < hi)) es"
    by (intro filter_cong) (auto dest: less_trans)
  have "filter (\<lambda>e. lo \<le> ae_Index e \<and> ae_Index e < ?hi) es = []" if "?hi \<le> lo"
    using that by (auto simp: filter_empty_conv)
  moreover have "es = []" if "files ''admin.log'' = None"
    using that assms(1,2) by (simp add: al.holds_def content_of_def al_json_def)
  moreover have "stream buf = (es, True)" if "files ''admin.log'' = Some buf" for buf
    using assms(2) that by (simp add: al.holds_def content_of_def)
  moreover have "sorted_wrt (<) (map ae_Index es)" using al.holds_sorted [OF assms(2)] assms(3) by simp
  ultimately have "al_Range stream rd files j lo hi = Inr (filter (\<lambda>e. lo \<le> ae_Index e \<and> ae_Index e < ?hi) es)"
    using assms(4) al_range_loop_filter [of es lo ?hi "[]"] by (auto simp: al_Range_def Let_def split: option.split)
  then show ?thesis by (simp add: eq)
qed

section \<open>What the admin journal promises\<close>

text \<open>
  The admin journal keeps what it acknowledged: in every journal that was started on an empty
  file, written with well-formed text and restarted any number of times, the events that \<open>Action\<close>
  returned all verify, the size is their number, \<open>Range\<close> returns exactly those from \<open>lo\<close> on and
  below \<open>hi\<close> (all of them when \<open>hi\<close> is 0), and a further restart recovers size and last hash unless a
  key file fails it.
\<close>

theorem adminlog_keeps_events:
  assumes "al_json enc stream" "al_run C L enc stream files j es" "length es < 2 ^ 64" "\<not> rd ''admin.log''"
  shows "al_Size j = of_nat (length es) \<and> (\<forall>e\<in>set es. ae_Verify C e = None)
    \<and> al_Range stream rd files j lo hi = Inr (filter (\<lambda>e. lo \<le> ae_Index e \<and> (hi = 0 \<or> ae_Index e < hi)) es)
    \<and> (case snd (al_openJournal C L stream True rd io seed qseed hybrid files) of
         Inr j' \<Rightarrow> al_Size j' = al_Size j \<and> jn_prev j' = jn_prev j | Inl e \<Rightarrow> e = JoMkdir \<or> (\<exists>k. e = JoKey k))"
proof (intro conjI)
  have h: "al.holds C stream ''admin.log'' files j es" using al_run_holds [OF assms(1,2)] by simp
  then have "al.chained C None es" by (simp add: al.holds_def)
  then show "\<forall>e\<in>set es. ae_Verify C e = None" by (blast dest: al.chained_valid)
  show "al_Size j = of_nat (length es)" using h by (simp add: al_Size_def al.holds_def)
  show "al_Range stream rd files j lo hi = Inr (filter (\<lambda>e. lo \<le> ae_Index e \<and> (hi = 0 \<or> ae_Index e < hi)) es)"
    by (rule al_kept_range [where rd = rd, OF assms(1) h assms(3,4)])
  obtain files' r where o: "al_openJournal C L stream True rd io seed qseed hybrid files = (files', r)" by force
  from al_reopen_recovers [OF h _ assms(4) o] assms(1)
  show "case snd (al_openJournal C L stream True rd io seed qseed hybrid files) of
         Inr j' \<Rightarrow> al_Size j' = al_Size j \<and> jn_prev j' = jn_prev j | Inl e \<Rightarrow> e = JoMkdir \<or> (\<exists>k. e = JoKey k)"
    unfolding o snd_conv al_Size_def al_json_def by blast
qed

text \<open>
  C27.  The head of the admin journal commits to its history: two journal files that both open, with
  the same last hash, hold the same events, or two of their events collide under SHA-256.
\<close>

theorem adminlog_head_commits:
  assumes "al_json enc stream"
    and "al_openJournal C L stream mk rd io seed qseed hybrid files = (files', Inr j)"
    and "al_openJournal C L2 stream mk2 rd2 io2 seed2 qseed2 hybrid2 files2 = (files2', Inr j2)"
    and "jn_prev j = jn_prev j2" "al_Size j \<noteq> 0" "al_Size j2 \<noteq> 0"
    and "es = fst (stream (content_of ''admin.log'' files))" "es2 = fst (stream (content_of ''admin.log'' files2))"
    and "\<forall>e\<in>set es \<union> set es2. ae_fits e" "length es \<le> 2 ^ 64" "length es2 \<le> 2 ^ 64"
  shows "map ae_content es = map ae_content es2 \<or> (\<exists>x\<in>set es. \<exists>y\<in>set es2. collision (ae_Canonical x) (ae_Canonical y))"
proof -
  have json: "stream [] = ([], True)" using assms(1) by (simp add: al_json_def)
  obtain xs where x: "al.holds C stream ''admin.log'' files' j xs" using al_open_holds [OF assms(2) json] by blast
  obtain ys where y: "al.holds C stream ''admin.log'' files2' j2 ys" using al_open_holds [OF assms(3) json] by blast
  have xs: "xs = es" using x al_open_log [OF assms(2)] assms(7) by (simp add: al.holds_def content_of_def)
  have ys: "ys = es2" using y al_open_log [OF assms(3)] assms(8) by (simp add: al.holds_def content_of_def)
  have ne: "es \<noteq> []" "es2 \<noteq> []" using x y assms(5,6) by (auto simp: al.holds_def al_Size_def xs ys)
  have fit: "al_chain.chained C p zs" if "al.chained C p zs" "\<forall>e\<in>set zs. ae_fits e" for p zs
    using that by (induction zs arbitrary: p) auto
  show ?thesis
  proof (rule al_chain.head_determines_log [of C])
    show "al_chain.chained C None es" "al_chain.chained C None es2"
      using x y fit assms(9) by (auto simp: al.holds_def xs ys)
    show "ae_EventHash (last es) = ae_EventHash (last es2)" using x y ne assms(4) by (simp add: al.holds_def xs ys)
  qed (use ne assms(10,11) in simp_all)
qed

text \<open>
  One failed \<open>Sync\<close> or \<open>Close\<close> loses the admin journal.  The event is in the file, but neither
  size nor last hash advance; the next action, acknowledged, is written with the same index, and
  from then on no restart opens the journal.
\<close>

theorem unsynced_action_bricks_journal:
  assumes "al_json enc stream" "al_run C L enc stream files j es"
    and "al_Action C enc out now details a files j = (files', j', Inl e)" "e \<in> {JoSync, JoClose}" "args_ok a"
    and "al_Action C enc out2 now2 details2 a2 files' j' = (files2, j2, Inr ev)" "args_ok a2"
  shows "al_openJournal C L' stream mk rd io seed qseed hybrid files2 \<noteq> (files3, Inr j3)"
proof
  assume o: "al_openJournal C L' stream mk rd io seed qseed hybrid files2 = (files3, Inr j3)"
  have h: "al.holds C stream ''admin.log'' files j es" "journal_keys C j" using al_run_holds [OF assms(1,2)] by simp_all
  from assms(3) obtain raw ev1 body where 1: "ev1 = al_seal C j (al_event j now raw a)" "enc ev1 = Some body"
    "files' = append_bytes ''admin.log'' (body @ [0x0A]) files" "j' = j"
    by (cases rule: al_Action_cases) (use assms(4) in auto)
  from assms(6) obtain raw2 body2 where 2: "ev = al_seal C j (al_event j now2 raw2 a2)" "enc ev = Some body2"
    "files2 = append_bytes ''admin.log'' (body2 @ [0x0A]) files'"
    by (cases rule: al_Action_cases) (auto simp: 1(4))
  have rb: "ae_read_back ev1 = ev1" "ae_read_back ev = ev" using assms(5,7) by (simp_all add: 1(1) 2(1))
  have s1: "stream (content_of ''admin.log'' files') = (es @ [ev1], True)"
    using al_json_append [OF assms(1) h(1) 1(2)] rb(1) by (simp add: 1(3) append_bytes_def content_of_def)
  then have "stream (content_of ''admin.log'' files' @ body2 @ [0x0A]) = ((es @ [ev1]) @ [ev], True)"
    using assms(1) 2(2) rb(2) unfolding al_json_def by metis
  then have s2: "stream (content_of ''admin.log'' files2) = (es @ [ev1, ev], True)"
    by (simp add: 2(3) append_bytes_def content_of_def)
  have sealed: "al_sealed C j ev1" "al_sealed C j ev" using h(2) 1(1) 2(1) unfolding al_sealed_def by blast+
  have log: "files3 ''admin.log'' = files2 ''admin.log''" by (rule al_open_log [OF o])
  then have s3: "stream (content_of ''admin.log'' files3) = (es @ [ev1, ev], True)" using s2 by (simp add: content_of_def)
  from al.open_replay [OF o [unfolded al_openJournal_def]] obtain j0 where
    r: "journal_replay (ae_Verify C) ae_Index ae_PrevHash ae_EventHash stream rd ''admin.log'' files3 j0 = Inr j3"
    by auto
  then have "\<not> rd ''admin.log''" by (auto simp: journal_replay_def)
  moreover obtain buf where "files3 ''admin.log'' = Some buf" using log by (simp add: 2(3) append_bytes_def)
  ultimately show False
    using al.uncounted_event_refused [where rd = rd and path = "''admin.log''", OF h(1) sealed s3, of buf j0] r by simp
qed

section \<open>Witnesses\<close>

definition sample_args :: action_args where
  "sample_args =
     \<lparr>aa_action = ''rotate'', aa_subject = ''s'', aa_outcome = ''ok'', aa_err = [], aa_actor = ''ops'', aa_callerIP = ''ip'',
      aa_userAgent = ''ua''\<rparr>"

lemma sample_args_ok: "args_ok sample_args"
proof -
  have "text_ok ''rotate''" "text_ok ''s''" "text_ok ''ok''" "text_ok []" "text_ok ''ops''" "text_ok ''ip''" "text_ok ''ua''"
    by (rule ascii_text_ok, code_simp)+
  then show ?thesis by (simp add: args_ok_def sample_args_def)
qed

definition sample_admin :: AdminEvent where
  "sample_admin = al_seal sample_crypto sample_journal (al_event sample_journal 5 [] sample_args)"

definition sample_aenc :: "AdminEvent \<Rightarrow> bytes option" where
  "sample_aenc e = (if e = sample_admin then Some [1] else None)"

abbreviation "sample_astream \<equiv> line_stream sample_admin"

lemma sample_al_json: "al_json sample_aenc sample_astream"
proof -
  have "ae_read_back sample_admin = sample_admin" using sample_args_ok by (simp add: sample_admin_def)
  then show ?thesis by (auto simp: al_json_def sample_aenc_def line_stream_append split: if_splits)
qed

lemma sample_al_start:
  obtains files where "al_run sample_crypto (\<lambda>_. None) sample_aenc sample_astream files sample_journal []" "files ''admin.log'' = None"
proof -
  obtain files where o: "al_openJournal sample_crypto (\<lambda>_. None) sample_astream True (\<lambda>_. False) (\<lambda>_. WriteOk) (Some (replicate 32 1)) None False
     Map.empty = (files, Inr sample_journal)" "files ''admin.log'' = None"
    using sample_open [of "ae_Verify sample_crypto" ae_Index ae_PrevHash ae_EventHash "''admin''" sample_astream]
    unfolding al_openJournal_def by auto
  from al_run.start [OF o(1) _ sample_journal_keys, of sample_aenc] o(2) show ?thesis using that by simp
qed

lemma sample_al_action:
  "al_Action sample_crypto sample_aenc AppendOk 5 None sample_args files sample_journal
     = (append_bytes ''admin.log'' [1, 0x0A] files,
        sample_journal\<lparr>jn_size := jn_size sample_journal + 1, jn_prev := ae_EventHash sample_admin\<rparr>, Inr sample_admin)"
  "al_Action sample_crypto sample_aenc SyncFails 5 None sample_args files sample_journal
     = (append_bytes ''admin.log'' [1, 0x0A] files, sample_journal, Inl JoSync)"
  by (simp_all add: al_Action_def sample_aenc_def sample_admin_def [symmetric] Let_def)

lemma sample_al_run:
  obtains files j where "al_run sample_crypto (\<lambda>_. None) sample_aenc sample_astream files j [sample_admin]"
proof -
  obtain files where 0: "al_run sample_crypto (\<lambda>_. None) sample_aenc sample_astream files sample_journal []"
    by (rule sample_al_start)
  from al_run.action [OF 0 sample_al_action(1) sample_args_ok] show ?thesis using that by simp
qed

theorem adminlog_keeps_events_witness:
  "\<exists>files j. al_run sample_crypto (\<lambda>_. None) sample_aenc sample_astream files j [sample_admin]
     \<and> al_Range sample_astream (\<lambda>_. False) files j 0 0 = Inr [sample_admin]"
proof -
  obtain files j where r: "al_run sample_crypto (\<lambda>_. None) sample_aenc sample_astream files j [sample_admin]"
    by (rule sample_al_run)
  have "al_Range sample_astream (\<lambda>_. False) files j 0 0 = Inr [sample_admin]"
    using adminlog_keeps_events [OF sample_al_json r, of "\<lambda>_. False" 0 0] by simp
  with r show ?thesis by blast
qed

lemma sample_al_reopen:
  "\<exists>files j. al_openJournal sample_crypto (\<lambda>_. None) sample_astream True (\<lambda>_. False) (\<lambda>_. WriteOk) (Some (replicate 32 1)) None False
     [''admin.log'' \<mapsto> [1, 0x0A]] = (files, Inr j) \<and> al_Size j = 1"
proof -
  have v: "ae_Verify sample_crypto sample_admin = None" "ae_Index sample_admin = 0" "allZeros (ae_PrevHash sample_admin)"
    using al.sealed_verifies [of sample_crypto sample_journal sample_admin] sample_journal_keys
    by (auto simp: al_sealed_def sample_admin_def)
      (auto simp: al_seal_def al_event_def sample_journal_def allZeros_def Let_def list_all_iff)
  then have "link_error ae_Index ae_PrevHash ae_EventHash sample_admin None = None" by (simp add: link_error_None)
  with v show ?thesis
    by (simp add: al_openJournal_def journal_open_def load_or_create_key_def load_or_create_quantum_def writeFile_def
        journal_replay_def al_Size_def Let_def)
qed

theorem adminlog_head_commits_witness:
  "\<exists>files j. al_openJournal sample_crypto (\<lambda>_. None) sample_astream True (\<lambda>_. False) (\<lambda>_. WriteOk) (Some (replicate 32 1)) None False
     [''admin.log'' \<mapsto> [1, 0x0A]] = (files, Inr j)
   \<and> (map ae_content [sample_admin] = map ae_content [sample_admin]
      \<or> (\<exists>x\<in>set [sample_admin]. \<exists>y\<in>set [sample_admin]. collision (ae_Canonical x) (ae_Canonical y)))"
proof -
  obtain files j where o: "al_openJournal sample_crypto (\<lambda>_. None) sample_astream True (\<lambda>_. False) (\<lambda>_. WriteOk) (Some (replicate 32 1)) None False
     [''admin.log'' \<mapsto> [1, 0x0A]] = (files, Inr j)" "al_Size j = 1" using sample_al_reopen by blast
  have st: "[sample_admin] = fst (sample_astream (content_of ''admin.log'' [''admin.log'' \<mapsto> [1, 0x0A]]))" by (simp add: content_of_def)
  have "ae_fits sample_admin"
    by (simp add: ae_fits_def fits_def sample_admin_def al_seal_def al_event_def sample_journal_def sample_args_def Let_def)
  then have fit: "\<forall>e\<in>set [sample_admin] \<union> set [sample_admin]. ae_fits e" by simp
  have len: "length [sample_admin] \<le> 2 ^ 64" by simp
  have ne: "al_Size j \<noteq> 0" using o(2) by simp
  show ?thesis
    using o(1) adminlog_head_commits [OF sample_al_json o(1) o(1) refl ne ne st st fit len len] by blast
qed

theorem unsynced_action_bricks_journal_witness:
  "\<exists>files files'. al_run sample_crypto (\<lambda>_. None) sample_aenc sample_astream files sample_journal []
     \<and> files' ''admin.log'' = Some [1, 0x0A, 1, 0x0A]
     \<and> (\<forall>f j. al_openJournal sample_crypto (\<lambda>_. None) sample_astream True (\<lambda>_. False) (\<lambda>_. WriteOk) None None False files' \<noteq> (f, Inr j))"
proof -
  obtain files where 0: "al_run sample_crypto (\<lambda>_. None) sample_aenc sample_astream files sample_journal []" "files ''admin.log'' = None"
    by (rule sample_al_start)
  let ?f2 = "append_bytes ''admin.log'' [1, 0x0A] (append_bytes ''admin.log'' [1, 0x0A] files)"
  have "al_openJournal sample_crypto (\<lambda>_. None) sample_astream True (\<lambda>_. False) (\<lambda>_. WriteOk) None None False ?f2 \<noteq> (f, Inr j)" for f j
    using unsynced_action_bricks_journal [OF sample_al_json 0(1) sample_al_action(2) _ sample_args_ok sample_al_action(1) sample_args_ok]
    by simp
  moreover have "?f2 ''admin.log'' = Some [1, 0x0A, 1, 0x0A]" by (simp add: append_bytes_def content_of_def 0(2))
  ultimately show ?thesis using 0(1) by blast
qed

end
