(* ===== verification/Verifying.thy ===== *)
theory Verifying
  imports Guarantees
begin

text \<open>
  The client-side audit, \<open>pkg/verify\<close>: what an auditor checks with nothing but the operator's genesis
  key.  The last part joins it with the log: what an honest log serves is always accepted.
\<close>

section \<open>Definitions\<close>

record Verifier =
  vf_Origin :: string
  vf_RootPublicKey :: bytes
  vf_Chain :: "Chain option"
  vf_ThresholdGroup :: "Group option"
  vf_MinWitnesses :: int
  vf_WitnessTrust :: "(string \<Rightarrow> bytes option) option"

datatype verify_error =
    VeOrigin string string
  | VeCheckpoint checkpoint_error
  | VeNoTrust
  | VePanic
  | VeWitnesses int int
  | VeEntry entry_error
  | VeIndex u64 u64
  | VeProof merkle_error
  | VeEmpty
  | VeChain nat entry_error
  | VeLengths nat nat
  | VeMissing nat
  | VeAnchor nat verify_error
  | VeShrinks nat u64 u64
  | VeFork nat u64

text \<open>The count of witness signatures is \<open>None\<close> when it panics on a null signature.\<close>

definition vf_Checkpoint :: "crypto \<Rightarrow> Verifier \<Rightarrow> Checkpoint \<Rightarrow> verify_error option" where
  "vf_Checkpoint C v c =
     (if cp_Origin c \<noteq> vf_Origin v then Some (VeOrigin (cp_Origin c) (vf_Origin v))
      else case cp_Verify C c (vf_Chain v) (vf_RootPublicKey v) (vf_ThresholdGroup v) of
        Some e \<Rightarrow> Some (VeCheckpoint e)
      | None \<Rightarrow>
          if vf_MinWitnesses v > 0 then
            (case vf_WitnessTrust v of None \<Rightarrow> Some VeNoTrust
             | Some trust \<Rightarrow>
                 (case VerifyWitnesses C c trust of None \<Rightarrow> Some VePanic
                  | Some valid \<Rightarrow>
                      if int valid < vf_MinWitnesses v then Some (VeWitnesses (int valid) (vf_MinWitnesses v)) else None))
          else None)"

definition vf_Inclusion ::
    "crypto \<Rightarrow> ('r, 'n) tdlib \<Rightarrow> LogHasher \<Rightarrow> Entry \<Rightarrow> u64 \<Rightarrow> bytes list \<Rightarrow> bytes \<Rightarrow> verify_error option" where
  "vf_Inclusion C L H entry treeSize prf root =
     (case ent_Verify C H entry of Some e \<Rightarrow> Some (VeEntry e)
      | None \<Rightarrow>
          if ent_Index entry \<ge> treeSize then Some (VeIndex (ent_Index entry) treeSize)
          else map_option VeProof (VerifyInclusion L H (ent_Index entry) treeSize (ent_LeafHash entry) prf root))"

definition vf_Consistency ::
    "('r, 'n) tdlib \<Rightarrow> LogHasher \<Rightarrow> u64 \<Rightarrow> bytes \<Rightarrow> u64 \<Rightarrow> bytes \<Rightarrow> bytes list \<Rightarrow> verify_error option" where
  "vf_Consistency L H oldSize oldRoot newSize newRoot prf =
     map_option VeProof (VerifyConsistency L H oldSize newSize prf oldRoot newRoot)"

fun entry_chain :: "crypto \<Rightarrow> LogHasher \<Rightarrow> Entry option \<Rightarrow> nat \<Rightarrow> Entry list \<Rightarrow> verify_error option" where
  "entry_chain C H prev i [] = None"
| "entry_chain C H prev i (e # es) =
     (case ent_Verify C H e of Some err \<Rightarrow> Some (VeChain i err)
      | None \<Rightarrow>
          (case VerifyChain e prev of Some err \<Rightarrow> Some (VeChain i err)
           | None \<Rightarrow> entry_chain C H (Some e) (i + 1) es))"

definition EntryChain :: "crypto \<Rightarrow> LogHasher \<Rightarrow> Entry list \<Rightarrow> verify_error option" where
  "EntryChain C H entries = (if length entries = 0 then Some VeEmpty else entry_chain C H None 0 entries)"

text \<open>One record of \<open>AnchorChain\<close> against the previous checkpoint, and the loop.\<close>

definition anchor_step ::
    "('r, 'n) tdlib \<Rightarrow> LogHasher \<Rightarrow> nat \<Rightarrow> Checkpoint option \<Rightarrow> Checkpoint \<Rightarrow> bytes list \<Rightarrow> verify_error option" where
  "anchor_step L H i prev c prf =
     (case prev of None \<Rightarrow> None
      | Some p \<Rightarrow>
          if cp_Size c < cp_Size p then Some (VeShrinks i (cp_Size c) (cp_Size p))
          else if cp_Size c = cp_Size p then
            (if \<not> bytesEqual (cp_RootHash c) (cp_RootHash p) then Some (VeFork i (cp_Size c)) else None)
          else map_option (VeAnchor i) (vf_Consistency L H (cp_Size p) (cp_RootHash p) (cp_Size c) (cp_RootHash c) prf))"

fun anchor_chain ::
    "crypto \<Rightarrow> ('r, 'n) tdlib \<Rightarrow> LogHasher \<Rightarrow> Verifier \<Rightarrow> nat \<Rightarrow> Checkpoint option \<Rightarrow> (Record \<times> bytes list) list \<Rightarrow> verify_error option" where
  "anchor_chain C L H v i prev [] = None"
| "anchor_chain C L H v i prev ((r, prf) # rs) =
     (case rec_Checkpoint r of None \<Rightarrow> Some (VeMissing i)
      | Some c \<Rightarrow>
          (case vf_Checkpoint C v c of Some e \<Rightarrow> Some (VeAnchor i e)
           | None \<Rightarrow>
               (case anchor_step L H i prev c prf of Some e \<Rightarrow> Some e
                | None \<Rightarrow> anchor_chain C L H v (i + 1) (Some c) rs)))"

definition AnchorChain ::
    "crypto \<Rightarrow> ('r, 'n) tdlib \<Rightarrow> LogHasher \<Rightarrow> Verifier \<Rightarrow> Record list \<Rightarrow> bytes list list \<Rightarrow> verify_error option" where
  "AnchorChain C L H v records consistencyProofs =
     (if length records = 0 then Some VeEmpty
      else if length consistencyProofs \<noteq> length records then Some (VeLengths (length records) (length consistencyProofs))
      else anchor_chain C L H v 0 None (zip records consistencyProofs))"

section \<open>Lemmas\<close>

text \<open>
  What the Merkle library documents of its verifiers: an inclusion proof exists for every leaf of a
  tree, and the proofs built over the leaves of a tree are accepted against its roots.
\<close>

definition tdlib_complete :: "('r, 'n) tdlib \<Rightarrow> LogHasher \<Rightarrow> bool" where
  "tdlib_complete L H \<longleftrightarrow>
     (\<forall>i n. i < n \<longrightarrow> lib_Inclusion L i n \<noteq> None) \<and> (\<forall>m n. 0 < m \<longrightarrow> m < n \<longrightarrow> lib_Consistency L m n \<noteq> None)
     \<and> (\<forall>nodes hs. length hs = length (lib_IDs L nodes) \<longrightarrow> lib_Rehash L H nodes hs \<noteq> None)
     \<and> (\<forall>ls i n p. inclusion_spec L H ls i n = Inr p \<longrightarrow> i < n \<longrightarrow> unat n \<le> length ls
          \<longrightarrow> lib_VerifyInclusion L H i n (ls ! unat i) p (MTH H (take (unat n) ls)))
     \<and> (\<forall>ls m n p. consistency_spec L H ls m n = Inr p \<longrightarrow> 0 < m \<longrightarrow> m \<le> n \<longrightarrow> unat n \<le> length ls
          \<longrightarrow> lib_VerifyConsistency L H m n p (MTH H (take (unat m) ls)) (MTH H (take (unat n) ls)))"

lemma tdlib_completeD:
  assumes "tdlib_complete L H"
  shows "i < n \<Longrightarrow> lib_Inclusion L i n \<noteq> None" "0 < m \<Longrightarrow> m < n \<Longrightarrow> lib_Consistency L m n \<noteq> None"
    and "inclusion_spec L H ls i n = Inr p \<Longrightarrow> i < n \<Longrightarrow> unat n \<le> length ls
      \<Longrightarrow> lib_VerifyInclusion L H i n (ls ! unat i) p (MTH H (take (unat n) ls))"
    and "consistency_spec L H ls m n = Inr p \<Longrightarrow> 0 < m \<Longrightarrow> m \<le> n \<Longrightarrow> unat n \<le> length ls
      \<Longrightarrow> lib_VerifyConsistency L H m n p (MTH H (take (unat m) ls)) (MTH H (take (unat n) ls))"
  using assms unfolding tdlib_complete_def by blast+

lemma rehash_returns: "tdlib_complete L H \<Longrightarrow> \<exists>p. rehash_spec L H ls nodes = Inr p"
  unfolding tdlib_complete_def rehash_spec_def by (auto split: option.split)

lemma specs_return:
  assumes "tdlib_complete L H" "n \<le> of_nat (length ls)"
  shows "i < n \<Longrightarrow> \<exists>p. inclusion_spec L H ls i n = Inr p"
    and "0 < m \<Longrightarrow> m \<le> n \<Longrightarrow> \<exists>p. consistency_spec L H ls m n = Inr p"
proof -
  assume "i < n"
  then obtain nodes where "lib_Inclusion L i n = Some nodes" using tdlib_completeD(1) [OF assms(1)] by blast
  then show "\<exists>p. inclusion_spec L H ls i n = Inr p"
    using assms(2) rehash_returns [OF assms(1), of ls nodes] by (simp add: inclusion_spec_def leD)
next
  assume m: "0 < m" "m \<le> n"
  show "\<exists>p. consistency_spec L H ls m n = Inr p"
  proof (cases "m = n")
    case False
    with m have "m < n" by simp
    then obtain nodes where "lib_Consistency L m n = Some nodes" using tdlib_completeD(2) [OF assms(1)] m by blast
    then show ?thesis using m False assms(2) rehash_returns [OF assms(1), of ls nodes] by (simp add: consistency_spec_def leD)
  qed (use m assms(2) in \<open>simp add: consistency_spec_def leD\<close>)
qed

lemma entry_chain_None: "entry_chain C H prev i es = None \<longleftrightarrow> entries.chained C H prev es"
  by (induction es arbitrary: prev i) (auto split: option.split)

lemma chained_take: "entries.chained C H p es \<Longrightarrow> entries.chained C H p (take n es)"
  by (metis append_take_drop_id entries.chained_append)

text \<open>A history of checkpoints of one log, and the proofs the log serves between them.\<close>

fun served_proofs :: "('r, 'n) tdlib \<Rightarrow> LogHasher \<Rightarrow> bytes list \<Rightarrow> u64 \<Rightarrow> u64 list \<Rightarrow> bytes list list" where
  "served_proofs L H ls m [] = []"
| "served_proofs L H ls m (n # ns) = projr (consistency_spec L H ls m n) # served_proofs L H ls n ns"

definition commits :: "LogHasher \<Rightarrow> bytes list \<Rightarrow> Checkpoint \<Rightarrow> bool" where
  "commits H ls c \<longleftrightarrow> 0 < cp_Size c \<and> unat (cp_Size c) \<le> length ls \<and> cp_RootHash c = MTH H (take (unat (cp_Size c)) ls)"

lemma anchor_step_honest:
  assumes "tdlib_complete L H" "commits H ls p" "commits H ls c" "cp_Size p \<le> cp_Size c" "length ls < 2 ^ 63"
  shows "anchor_step L H i (Some p) c (projr (consistency_spec L H ls (cp_Size p) (cp_Size c))) = None"
proof (cases "cp_Size c = cp_Size p")
  case True
  with assms(2,3) show ?thesis by (simp add: anchor_step_def commits_def bytesEqual_iff)
next
  case False
  have "cp_Size c \<le> of_nat (length ls)"
    using assms(3,5) unat_of_nat_u64 [of "length ls"] by (simp add: commits_def word_le_nat_alt)
  moreover have "0 < cp_Size p" using assms(2) by (simp add: commits_def)
  ultimately obtain q where q: "consistency_spec L H ls (cp_Size p) (cp_Size c) = Inr q"
    using specs_return(2) [OF assms(1) _ _ assms(4)] by blast
  have "lib_VerifyConsistency L H (cp_Size p) (cp_Size c) q (cp_RootHash p) (cp_RootHash c)"
    using tdlib_completeD(4) [OF assms(1) q] assms(2,3,4) by (simp add: commits_def)
  with False assms(4) q show ?thesis by (simp add: anchor_step_def vf_Consistency_def VerifyConsistency_def leD)
qed

lemma anchor_chain_honest:
  assumes "tdlib_complete L H" "length ls < 2 ^ 63" "\<forall>c\<in>set cs. commits H ls c \<and> vf_Checkpoint C v c = None"
    and "commits H ls p" "sorted (map cp_Size (p # cs))" "\<And>c. rec_Checkpoint (f c) = Some c"
  shows "anchor_chain C L H v i (Some p) (zip (map f cs) (served_proofs L H ls (cp_Size p) (map cp_Size cs))) = None"
  using assms(3-5)
proof (induction cs arbitrary: p i)
  case (Cons c cs)
  then have "anchor_step L H i (Some p) c (projr (consistency_spec L H ls (cp_Size p) (cp_Size c))) = None"
    using anchor_step_honest [OF assms(1) _ _ _ assms(2)] by simp
  with Cons assms(6) show ?case by simp
qed simp

fun log_serves :: "('d, 'r, 'n, 'w, 'k) sys \<Rightarrow> ('d, 'r, 'k) Log \<Rightarrow> u64 \<Rightarrow> u64 list \<Rightarrow> bytes list list \<Rightarrow> bool" where
  "log_serves P l m [] ps \<longleftrightarrow> ps = []"
| "log_serves P l m (n # ns) ps \<longleftrightarrow>
     (\<exists>l' q qs. ps = q # qs \<and> core_ConsistencyProof P l m n = Some (l', Inr q) \<and> log_serves P l n ns qs)"

lemma log_serves_spec:
  assumes "sys_ok P view rep" "log_inv P view rep l es" "log_serves P l m ns ps"
  shows "ps = served_proofs (sys_lib P) (sys_hasher P) (map ent_LeafHash es) m ns"
  using assms(3)
proof (induction ns arbitrary: m ps)
  case (Cons n ns)
  then obtain l' q qs where ps: "ps = q # qs" "core_ConsistencyProof P l m n = Some (l', Inr q)" "log_serves P l n ns qs" by auto
  have "consistency_spec (sys_lib P) (sys_hasher P) (map ent_LeafHash es) m n = Inr q"
    using core_proofs_inv(2) [OF assms(1,2), of m n] ps(2) by auto
  with ps Cons.IH [of n qs] show ?case by simp
qed simp

lemma anchor_chain_sound:
  "anchor_chain C L H v i prev rs = None \<Longrightarrow>
     (\<exists>cs. map (rec_Checkpoint \<circ> fst) rs = map Some cs \<and> (\<forall>c\<in>set cs. vf_Checkpoint C v c = None)
       \<and> sorted (map cp_Size ((case prev of None \<Rightarrow> [] | Some p \<Rightarrow> [p]) @ cs))
       \<and> successively (\<lambda>p c. cp_Size p = cp_Size c \<longrightarrow> cp_RootHash p = cp_RootHash c)
           ((case prev of None \<Rightarrow> [] | Some p \<Rightarrow> [p]) @ cs))"
proof (induction rs arbitrary: i prev)
  case Nil
  then show ?case by (intro exI [of _ "[]"]) (auto split: option.split)
next
  case (Cons x rs)
  obtain r q where x: "x = (r, q)" by force
  with Cons.prems obtain c where c: "rec_Checkpoint r = Some c" "vf_Checkpoint C v c = None" "anchor_step L H i prev c q = None"
    "anchor_chain C L H v (i + 1) (Some c) rs = None" by (auto split: option.split_asm)
  from Cons.IH [OF c(4)] obtain cs where cs: "map (rec_Checkpoint \<circ> fst) rs = map Some cs" "\<forall>c\<in>set cs. vf_Checkpoint C v c = None"
    "sorted (map cp_Size (c # cs))" "successively (\<lambda>p c. cp_Size p = cp_Size c \<longrightarrow> cp_RootHash p = cp_RootHash c) (c # cs)"
    unfolding option.case append.simps by blast
  have "cp_Size p \<le> cp_Size c \<and> (cp_Size p = cp_Size c \<longrightarrow> cp_RootHash p = cp_RootHash c)" if "prev = Some p" for p
    using c(3) that by (auto simp: anchor_step_def bytesEqual_iff not_less split: if_split_asm)
  with cs(3,4) have "sorted (map cp_Size ((case prev of None \<Rightarrow> [] | Some p \<Rightarrow> [p]) @ c # cs))
       \<and> successively (\<lambda>p c. cp_Size p = cp_Size c \<longrightarrow> cp_RootHash p = cp_RootHash c)
           ((case prev of None \<Rightarrow> [] | Some p \<Rightarrow> [p]) @ c # cs)"
    by (cases prev) (auto dest: order_trans)
  with cs(1,2) c(1,2) x show ?case by (intro exI [of _ "c # cs"]) (simp add: comp_def)
qed

lemma no_fork:
  assumes "sorted (map cp_Size cs)" "successively (\<lambda>p c. cp_Size p = cp_Size c \<longrightarrow> cp_RootHash p = cp_RootHash c) cs"
    and "a \<in> set cs" "b \<in> set cs" "cp_Size a = cp_Size b"
  shows "cp_RootHash a = cp_RootHash b"
  using assms
proof (induction cs arbitrary: a b)
  case (Cons c cs)
  have first: "cp_RootHash c = cp_RootHash d" if d: "d \<in> set cs" "cp_Size c = cp_Size d" for d
  proof -
    obtain e es where cs: "cs = e # es" using d(1) by (cases cs) auto
    with Cons.prems(1) d have "cp_Size c = cp_Size e" by fastforce
    with Cons.prems(2) cs have "cp_RootHash c = cp_RootHash e" by simp
    moreover have "cp_RootHash e = cp_RootHash d"
      using Cons.IH [of e d] Cons.prems(1,2) d cs \<open>cp_Size c = cp_Size e\<close> by simp
    ultimately show ?thesis by simp
  qed
  have "sorted (map cp_Size cs)" "successively (\<lambda>p c. cp_Size p = cp_Size c \<longrightarrow> cp_RootHash p = cp_RootHash c) cs"
    using Cons.prems(1,2) by (cases cs; simp)+
  with Cons.IH [of a b] Cons.prems(3-5) first [of a] first [of b] show ?case by auto
qed simp

section \<open>What the audit is worth\<close>

text \<open>
  An honest log passes every audit.  Of a log reached from an empty database by any sequence of
  operations, failures and restarts, every entry below any past size can be read, its inclusion proof
  is served and accepted against the root of that size, and the entries up to there pass as a chain.
\<close>

theorem honest_log_audits:
  assumes "sys_ok P view rep" and "fresh_store view s0" and "core_run P s0 l es" and "length es < 2 ^ 63"
    and "tdlib_complete (sys_lib P) (sys_hasher P)" and "i < n" "n \<le> length es"
  shows "\<exists>e l' q. core_Get P l (of_nat i) = Inr e \<and> core_InclusionProof P l (of_nat i) (of_nat n) = Some (l', Inr q)
      \<and> vf_Inclusion (sys_crypto P) (sys_lib P) (sys_hasher P) e (of_nat n) q
          (MTH (sys_hasher P) (map ent_LeafHash (take n es))) = None
      \<and> EntryChain (sys_crypto P) (sys_hasher P) (take n es) = None"
proof -
  let ?ls = "map ent_LeafHash es" and ?L = "sys_lib P" and ?H = "sys_hasher P"
  note inv = core_run_inv [OF assms(3,1,2,4)]
  have ch: "entries.chained (sys_crypto P) ?H None es" using inv by (simp add: log_inv_def)
  have u: "unat (of_nat i :: u64) = i" "unat (of_nat n :: u64) = n" using assms(4,6,7) by (simp_all add: unat_of_nat_u64)
  have lt: "(of_nat i :: u64) < of_nat n" "(of_nat n :: u64) \<le> of_nat (length ?ls)"
    using assms(4,6,7) by (simp_all add: of_nat_less_u64 of_nat_le_u64)
  obtain q where q: "inclusion_spec ?L ?H ?ls (of_nat i) (of_nat n) = Inr q"
    using specs_return(1) [OF assms(5) lt(2,1)] by blast
  obtain l' where l': "core_InclusionProof P l (of_nat i) (of_nat n) = Some (l', Inr q)"
    using core_proofs_inv(1) [OF assms(1) inv, of "of_nat i" "of_nat n"] q by auto
  have "lib_VerifyInclusion ?L ?H (of_nat i) (of_nat n) (ent_LeafHash (es ! i)) q (MTH ?H (map ent_LeafHash (take n es)))"
    using tdlib_completeD(3) [OF assms(5) q lt(1)] assms(6,7) u by (simp add: take_map)
  moreover have "ent_Index (es ! i) = of_nat i" using entries.index_nth [OF ch] assms(6,7) by simp
  moreover have "ent_Verify (sys_crypto P) ?H (es ! i) = None" using entries.chained_valid [OF ch] assms(6,7) by simp
  ultimately have "vf_Inclusion (sys_crypto P) ?L ?H (es ! i) (of_nat n) q (MTH ?H (map ent_LeafHash (take n es))) = None"
    using lt(1) by (simp add: vf_Inclusion_def VerifyInclusion_def leD)
  moreover have "EntryChain (sys_crypto P) ?H (take n es) = None"
    using chained_take [OF ch] assms(6,7) by (auto simp: EntryChain_def entry_chain_None)
  moreover have "core_Get P l (of_nat i) = Inr (es ! i)" using core_Get_inv [OF assms(1) inv] assms(6,7) by simp
  ultimately show ?thesis using l' by blast
qed

text \<open>
  An honest history passes \<open>AnchorChain\<close>: checkpoints of past sizes of one log, in the order they
  were taken, with the consistency proofs the log serves between them, are accepted together if each
  is accepted alone.
\<close>

theorem honest_history_audits:
  assumes "sys_ok P view rep" and "fresh_store view s0" and "core_run P s0 l es" and "length es < 2 ^ 63"
    and "tdlib_complete (sys_lib P) (sys_hasher P)" and "cs \<noteq> []"
    and "\<forall>c\<in>set cs. commits (sys_hasher P) (map ent_LeafHash es) c \<and> vf_Checkpoint (sys_crypto P) v c = None"
    and "sorted (map cp_Size cs)" and "log_serves P l (cp_Size (hd cs)) (map cp_Size (tl cs)) ps"
    and "\<And>c. rec_Checkpoint (f c) = Some c"
  shows "AnchorChain (sys_crypto P) (sys_lib P) (sys_hasher P) v (map f cs) (p0 # ps) = None"
proof -
  note inv = core_run_inv [OF assms(3,1,2,4)]
  obtain c ds where cs: "cs = c # ds" using assms(6) by (cases cs) auto
  have ps: "ps = served_proofs (sys_lib P) (sys_hasher P) (map ent_LeafHash es) (cp_Size c) (map cp_Size ds)"
    using log_serves_spec [OF assms(1) inv assms(9)] by (simp add: cs)
  have "length (served_proofs L H ls m ns) = length ns" for L :: "('b, 'c) tdlib" and H ls m ns
    by (induction ns arbitrary: m) simp_all
  then have "length ps = length ds" by (simp add: ps)
  moreover have "anchor_chain (sys_crypto P) (sys_lib P) (sys_hasher P) v 1 (Some c) (zip (map f ds) ps) = None"
    unfolding ps by (rule anchor_chain_honest) (use assms(4,5,7,8,10) in \<open>simp_all add: cs\<close>)
  ultimately show ?thesis using assms(7,10) by (simp add: AnchorChain_def cs anchor_step_def)
qed

text \<open>
  C14.  An accepted anchor chain has one root per size: every checkpoint in it is accepted, the sizes
  never shrink, and no two of its checkpoints, adjacent or not, give different roots for one size.
\<close>

theorem anchor_chain_never_forks:
  assumes "AnchorChain C L H v records proofs = None"
  shows "\<exists>cs. map rec_Checkpoint records = map Some cs \<and> cs \<noteq> [] \<and> (\<forall>c\<in>set cs. vf_Checkpoint C v c = None)
    \<and> sorted (map cp_Size cs)
    \<and> (\<forall>a\<in>set cs. \<forall>b\<in>set cs. cp_Size a = cp_Size b \<longrightarrow> cp_RootHash a = cp_RootHash b)"
proof -
  have len: "records \<noteq> []" "length proofs = length records" "anchor_chain C L H v 0 None (zip records proofs) = None"
    using assms by (auto simp: AnchorChain_def split: if_split_asm)
  from anchor_chain_sound [OF len(3)] obtain cs where cs: "map (rec_Checkpoint \<circ> fst) (zip records proofs) = map Some cs"
    "\<forall>c\<in>set cs. vf_Checkpoint C v c = None" "sorted (map cp_Size cs)"
    "successively (\<lambda>p c. cp_Size p = cp_Size c \<longrightarrow> cp_RootHash p = cp_RootHash c) cs" by auto
  have "map (rec_Checkpoint \<circ> fst) (zip records proofs) = map rec_Checkpoint (map fst (zip records proofs))" by simp
  with cs(1) len(2) have "map rec_Checkpoint records = map Some cs" by simp
  moreover from this len(1) have "cs \<noteq> []" by auto
  ultimately show ?thesis using cs(2,3) no_fork [OF cs(3,4)] by blast
qed

section \<open>Witnesses\<close>

lemma sample_tdlib_complete: "tdlib_complete sample_tdlib H"
  unfolding tdlib_complete_def by (auto simp: sample_tdlib_def)

theorem honest_log_audits_witness:
  "\<exists>e l' q. core_Get (sample_P None) (sample_log2 None) 0 = Inr e
     \<and> core_InclusionProof (sample_P None) (sample_log2 None) 0 1 = Some (l', Inr q)
     \<and> vf_Inclusion sample_crypto sample_tdlib rfc6962 e 1 q (MTH rfc6962 (map ent_LeafHash [sample_entry])) = None
     \<and> EntryChain sample_crypto rfc6962 [sample_entry] = None"
  using honest_log_audits [OF sample_sys_ok sample_fresh sample_run_log2 [of None] _ _, of 0 1] sample_tdlib_complete by simp

definition sample_verifier :: Verifier where
  "sample_verifier =
     \<lparr>vf_Origin = cp_Origin sample_cp, vf_RootPublicKey = RootPublicKey (sg_chain (snd sample_run0)),
      vf_Chain = Some (sg_chain (snd sample_run0)), vf_ThresholdGroup = None, vf_MinWitnesses = 0, vf_WitnessTrust = None\<rparr>"

definition sample_record :: "Checkpoint \<Rightarrow> Record" where
  "sample_record c = \<lparr>rec_Checkpoint = Some c, rec_SinkName = ''file'', rec_SinkRef = [], rec_AnchoredAt = 0, rec_RecordHash = []\<rparr>"

lemma sample_cp_accepted:
  "cp_Size sample_cp = 1" "cp_RootHash sample_cp = MTH rfc6962 [ent_LeafHash sample_entry]"
  "vf_Checkpoint sample_crypto sample_verifier sample_cp = None"
proof -
  note inv = sample_run_wf [of False] sample_run_signer_inv [of False]
  from file_ks.cp_Sign_accepted [OF inv inv(2), of "[]" 300 1 "MTH rfc6962 [ent_LeafHash sample_entry]" "ent_EntryHash sample_entry" None None]
    sample_cp_signed sample_checkpoint_signed(6)
  have "cp_Size sample_cp = 1 \<and> cp_RootHash sample_cp = MTH rfc6962 [ent_LeafHash sample_entry]
      \<and> cp_Verify sample_crypto sample_cp (Some (sg_chain (snd sample_run0))) (RootPublicKey (sg_chain (snd sample_run0))) None = None"
    by auto
  then show "cp_Size sample_cp = 1" "cp_RootHash sample_cp = MTH rfc6962 [ent_LeafHash sample_entry]"
    "vf_Checkpoint sample_crypto sample_verifier sample_cp = None"
    by (simp_all add: vf_Checkpoint_def sample_verifier_def)
qed

lemma sample_cp_commits: "commits rfc6962 (map ent_LeafHash [sample_entry]) sample_cp"
  by (simp add: commits_def sample_cp_accepted(1,2))

theorem honest_history_audits_witness:
  "AnchorChain sample_crypto sample_tdlib rfc6962 sample_verifier (map sample_record [sample_cp, sample_cp]) [[], []] = None"
proof -
  have "consistency_spec sample_tdlib rfc6962 (map ent_LeafHash [sample_entry]) 1 1 = Inr []" by (simp add: consistency_spec_def)
  then have "\<exists>l'. core_ConsistencyProof (sample_P None) (sample_log2 None) 1 1 = Some (l', Inr [])"
    using core_proofs_inv(2) [OF sample_sys_ok sample_inv_log2 [of None], of 1 1] by auto
  then have "log_serves (sample_P None) (sample_log2 None) (cp_Size (hd [sample_cp, sample_cp])) (map cp_Size (tl [sample_cp, sample_cp])) [[]]"
    by (simp add: sample_cp_accepted(1))
  then show ?thesis
    using honest_history_audits [OF sample_sys_ok sample_fresh sample_run_log2 [of None], of "[sample_cp, sample_cp]" sample_verifier
        "[[]]" sample_record "[]"] sample_tdlib_complete sample_cp_commits sample_cp_accepted(3)
    by (simp add: sample_record_def)
qed

theorem anchor_chain_never_forks_witness:
  "\<exists>cs. map rec_Checkpoint [sample_record sample_cp] = map Some cs \<and> sorted (map cp_Size cs)"
proof -
  have "AnchorChain sample_crypto sample_tdlib rfc6962 sample_verifier [sample_record sample_cp] [[]] = None"
    by (simp add: AnchorChain_def sample_record_def sample_cp_accepted anchor_step_def)
  from anchor_chain_never_forks [OF this] show ?thesis by blast
qed

end
