(* ===== verification/Treehash.thy ===== *)
theory Treehash
  imports Merkle Logentry
begin

text \<open>
  What a root hash is worth.  The hasher of \<open>pkg/merkle\<close> is RFC 6962's; under it, a root of a given
  size determines the leaf hashes, and the leaf hashes determine the entries, up to a collision of
  SHA-256 among the byte strings the two trees really hash.  The theory lists these byte strings, so
  that a collision is one that the holder of both logs has in hand.
\<close>

section \<open>Definitions\<close>

text \<open>Every input an inner node of the tree over these leaf hashes gives to SHA-256.\<close>

function tree_inputs :: "bytes list \<Rightarrow> bytes list" where
  "tree_inputs xs =
     (if length xs < 2 then []
      else let k = pow2_below (length xs)
           in (1 # MTH rfc6962 (take k xs) @ MTH rfc6962 (drop k xs)) # tree_inputs (take k xs) @ tree_inputs (drop k xs))"
  by pat_completeness auto
termination
proof (relation "measure length")
  fix xs :: "bytes list" and k
  assume "\<not> length xs < 2" "k = pow2_below (length xs)"
  with pow2_below_bounds [of "length xs"] have "0 < k \<and> k < length xs" by simp
  then show "(take k xs, xs) \<in> measure length" "(drop k xs, xs) \<in> measure length" by auto
qed simp

declare tree_inputs.simps [simp del]

text \<open>The same for a whole log: the inner nodes, the leaves, and the envelopes.\<close>

definition envelope_bytes :: "Entry \<Rightarrow> bytes" where
  "envelope_bytes e = (case ent_Envelope e of None \<Rightarrow> [] | Some env \<Rightarrow> env_Canonical env)"

definition log_inputs :: "Entry list \<Rightarrow> bytes list" where
  "log_inputs es = tree_inputs (map ent_LeafHash es) @ map (\<lambda>e. 0 # ent_Canonical e) es @ map envelope_bytes es"

definition log_collision :: "Entry list \<Rightarrow> Entry list \<Rightarrow> bool" where
  "log_collision es fs \<longleftrightarrow> list_ex (\<lambda>a. list_ex (collision a) (log_inputs fs)) (log_inputs es)"

text \<open>
  The committed part of an entry: all of it but the evidence blob and the signatures of the envelope,
  which no hash of the log covers.  In particular it has the producer, time, source, data, keys and
  evidence hash of the envelope.
\<close>

definition committed :: "Entry \<Rightarrow> u64 \<times> i64 \<times> bytes \<times> bool \<times> bytes \<times> bytes
    \<times> (string \<times> i64 \<times> string \<times> bytes \<times> bytes \<times> string \<times> bytes \<times> bytes) option" where
  "committed e = (ent_Index e, ent_TimeNanos e, ent_PrevHash e, ent_Honeypot e, ent_EntryHash e, ent_LeafHash e,
     map_option env_signed (ent_Envelope e))"

text \<open>The signed bytes of the envelope are fewer than a 32-bit length counts.\<close>

definition ent_small :: "Entry \<Rightarrow> bool" where
  "ent_small e \<longleftrightarrow> length (envelope_bytes e) < 2 ^ 32"

section \<open>Lemmas\<close>

lemma rfc6962_simps [simp]:
  "HashLeaf rfc6962 d = sha256 (0 # d)" "HashChildren rfc6962 l r = sha256 (1 # l @ r)"
  by (simp_all add: rfc6962_def)

lemma length_MTH:
  assumes "xs \<noteq> []" "\<forall>x\<in>set xs. length x = 32"
  shows "length (MTH rfc6962 xs) = 32"
proof (cases "length xs = 1")
  case True
  then obtain x where "xs = [x]" by (auto simp: length_Suc_conv)
  with assms(2) show ?thesis by simp
next
  case False
  with assms(1) have "2 \<le> length xs" by (cases xs) (auto simp: Suc_le_eq)
  then show ?thesis by (subst MTH_split) simp_all
qed

lemma MTH_binds:
  assumes "length xs = length ys" "\<forall>x\<in>set xs. length x = 32" "\<forall>y\<in>set ys. length y = 32"
    and "MTH rfc6962 xs = MTH rfc6962 ys"
  shows "xs = ys \<or> (\<exists>a\<in>set (tree_inputs xs). \<exists>b\<in>set (tree_inputs ys). collision a b)"
  using assms
proof (induction "length xs" arbitrary: xs ys rule: less_induct)
  case less
  let ?k = "pow2_below (length xs)"
  show ?case
  proof (cases "length xs < 2")
    case True
    then consider "xs = []" | x where "xs = [x]" by (cases xs) auto
    then show ?thesis
    proof cases
      case 2
      with less.prems(1) obtain y where "ys = [y]" by (cases ys) auto
      with 2 less.prems(4) show ?thesis by simp
    qed (use less.prems(1) in simp)
  next
    case False
    then have n: "2 \<le> length xs" "2 \<le> length ys" using less.prems(1) by simp_all
    have k: "0 < ?k" "?k < length xs" using pow2_below_bounds [of "length xs"] n by simp_all
    let ?a = "1 # MTH rfc6962 (take ?k xs) @ MTH rfc6962 (drop ?k xs)"
    let ?b = "1 # MTH rfc6962 (take ?k ys) @ MTH rfc6962 (drop ?k ys)"
    have ins: "tree_inputs xs = ?a # tree_inputs (take ?k xs) @ tree_inputs (drop ?k xs)"
      "tree_inputs ys = ?b # tree_inputs (take ?k ys) @ tree_inputs (drop ?k ys)"
      using n less.prems(1) by (subst tree_inputs.simps; simp add: Let_def)+
    have "sha256 ?a = sha256 ?b"
      using less.prems(1,4) MTH_split [OF n(1), of rfc6962] MTH_split [OF n(2), of rfc6962] by simp
    then consider "collision ?a ?b" | "?a = ?b" by (auto simp: sha256_eq_or_collision)
    then show ?thesis
    proof cases
      case 1
      then show ?thesis by (auto simp: ins)
    next
      case 2
      have sub: "\<forall>x\<in>set (take ?k xs). length x = 32" "\<forall>x\<in>set (take ?k ys). length x = 32"
        "\<forall>x\<in>set (drop ?k xs). length x = 32" "\<forall>x\<in>set (drop ?k ys). length x = 32"
        using less.prems(2,3) by (auto dest: in_set_takeD in_set_dropD)
      have ne: "take ?k xs \<noteq> []" "take ?k ys \<noteq> []" using k n less.prems(1) by auto
      have len: "length (MTH rfc6962 (take ?k xs)) = length (MTH rfc6962 (take ?k ys))"
        using length_MTH [OF ne(1) sub(1)] length_MTH [OF ne(2) sub(2)] by simp
      have eq: "MTH rfc6962 (take ?k xs) = MTH rfc6962 (take ?k ys)" "MTH rfc6962 (drop ?k xs) = MTH rfc6962 (drop ?k ys)"
        using 2 len by simp_all
      have l: "length (take ?k xs) = length (take ?k ys)" "length (drop ?k xs) = length (drop ?k ys)"
        using less.prems(1) by simp_all
      have lt: "length (take ?k xs) < length xs" "length (drop ?k xs) < length xs" using k by (simp_all del: pow2_below_pos)
      note h = less.hyps [OF lt(1) l(1) sub(1,2) eq(1)] less.hyps [OF lt(2) l(2) sub(3,4) eq(2)]
      have "take ?k xs = take ?k ys \<and> drop ?k xs = drop ?k ys \<Longrightarrow> xs = ys" by (metis append_take_drop_id)
      with h show ?thesis unfolding ins by auto
    qed
  qed
qed

lemma leaf_length:
  assumes "entries.chained C rfc6962 None es"
  shows "\<forall>x\<in>set (map ent_LeafHash es). length x = 32"
  using entries.chained_valid [OF assms] by (auto simp: ent_Verify_None)

lemma canonical_binds:
  assumes "entries.chained C rfc6962 None es" "entries.chained C' rfc6962 None fs"
    and "map ent_LeafHash es = map ent_LeafHash fs"
  shows "map ent_Canonical es = map ent_Canonical fs
    \<or> (\<exists>e\<in>set es. \<exists>f\<in>set fs. collision (0 # ent_Canonical e) (0 # ent_Canonical f))"
proof (rule disjCI)
  assume no: "\<not> (\<exists>e\<in>set es. \<exists>f\<in>set fs. collision (0 # ent_Canonical e) (0 # ent_Canonical f))"
  show "map ent_Canonical es = map ent_Canonical fs"
  proof (rule nth_equalityI)
    show "length (map ent_Canonical es) = length (map ent_Canonical fs)" using map_eq_imp_length_eq [OF assms(3)] by simp
    fix i assume "i < length (map ent_Canonical es)"
    then have i: "i < length es" "i < length fs" using map_eq_imp_length_eq [OF assms(3)] by simp_all
    have "ent_LeafHash (es ! i) = ent_LeafHash (fs ! i)" using assms(3) i by (metis nth_map)
    then have "sha256 (0 # ent_Canonical (es ! i)) = sha256 (0 # ent_Canonical (fs ! i))"
      using entries.chained_valid [OF assms(1) nth_mem [OF i(1)]] entries.chained_valid [OF assms(2) nth_mem [OF i(2)]]
      by (simp add: ent_Verify_None)
    then show "map ent_Canonical es ! i = map ent_Canonical fs ! i"
      using no i by (auto simp: sha256_eq_or_collision)
  qed
qed

lemma chained_prev:
  assumes "entries.chained C H None es" "i < length es"
  shows "length (ent_PrevHash (es ! i)) = 32"
proof -
  have "es = take i es @ [es ! i] @ drop (Suc i) es" using assms(2) by (simp add: id_take_nth_drop)
  with assms(1) have "entries.chained C H None (take i es @ [es ! i])" by (metis append.assoc entries.chained_append)
  then show ?thesis by (rule entries.prev_linkable)
qed

lemma small_fits:
  assumes "length (env_Canonical e) < 2 ^ 32"
  shows "env_fits e"
  using assms by (simp add: env_Canonical_def env_fits_def fits_def)

text \<open>One entry: the same canonical bytes and the same envelope bytes leave the same committed part.\<close>

lemma committed_eq:
  assumes "ent_Verify C H e = None" "ent_Verify C' H f = None" "length (ent_PrevHash e) = 32" "length (ent_PrevHash f) = 32"
    and "ent_Canonical e = ent_Canonical f" "envelope_bytes e = envelope_bytes f" "ent_small e"
  shows "committed e = committed f"
proof -
  obtain ee ff where env: "ent_Envelope e = Some ee" "ent_Envelope f = Some ff"
    using assms(1,2) by (auto simp: ent_Verify_None)
  have c: "env_Canonical ee = env_Canonical ff" using assms(6) env by (simp add: envelope_bytes_def)
  have l: "length (env_Canonical ee) < 2 ^ 32" using assms(7) env by (simp add: ent_small_def envelope_bytes_def)
  then have "length (env_Canonical ff) < 2 ^ 32" using c by simp
  from env_Canonical_inj [OF small_fits [OF l] small_fits [OF this]] c have "env_signed ee = env_signed ff" by simp
  with ent_Canonical_inj [OF assms(3-5)] assms(1,2,5) env show ?thesis
    by (simp add: committed_def ent_content_def ent_Verify_None)
qed

lemma envelope_binds:
  assumes "ent_Verify C H e = None" "ent_Verify C' H f = None" "length (ent_PrevHash e) = 32" "length (ent_PrevHash f) = 32"
    and "ent_Canonical e = ent_Canonical f"
  shows "envelope_bytes e = envelope_bytes f \<or> collision (envelope_bytes e) (envelope_bytes f)"
proof -
  obtain ee ff where env: "ent_Envelope e = Some ee" "ent_Envelope f = Some ff"
    using assms(1,2) by (auto simp: ent_Verify_None)
  with ent_Canonical_inj(2) [OF assms(3-5)] have "sha256 (envelope_bytes e) = sha256 (envelope_bytes f)"
    by (simp add: ent_content_def env_hash_of_def env_Hash_def envelope_bytes_def)
  then show ?thesis by (auto simp: sha256_eq_or_collision)
qed

lemma committed_binds:
  assumes "entries.chained C rfc6962 None es" "entries.chained C' rfc6962 None fs" "map ent_Canonical es = map ent_Canonical fs"
    and "list_all ent_small es"
  shows "map committed es = map committed fs \<or> log_collision es fs"
proof (rule disjCI)
  assume no: "\<not> log_collision es fs"
  show "map committed es = map committed fs"
  proof (rule nth_equalityI)
    show "length (map committed es) = length (map committed fs)" using map_eq_imp_length_eq [OF assms(3)] by simp
    fix i assume "i < length (map committed es)"
    then have i: "i < length es" "i < length fs" using map_eq_imp_length_eq [OF assms(3)] by simp_all
    have v: "ent_Verify C rfc6962 (es ! i) = None" "ent_Verify C' rfc6962 (fs ! i) = None"
      using entries.chained_valid [OF assms(1) nth_mem [OF i(1)]] entries.chained_valid [OF assms(2) nth_mem [OF i(2)]] by simp_all
    note p = chained_prev [OF assms(1) i(1)] chained_prev [OF assms(2) i(2)]
    have c: "ent_Canonical (es ! i) = ent_Canonical (fs ! i)" using assms(3) i by (metis nth_map)
    have "\<not> collision (envelope_bytes (es ! i)) (envelope_bytes (fs ! i))"
      using no nth_mem [OF i(1)] nth_mem [OF i(2)] by (auto simp: log_collision_def log_inputs_def list_ex_iff)
    with envelope_binds [OF v p c] have "envelope_bytes (es ! i) = envelope_bytes (fs ! i)" by blast
    from committed_eq [OF v p c this] assms(4) i show "map committed es ! i = map committed fs ! i"
      by (simp add: list_all_length)
  qed
qed

lemma root_binds_entries:
  assumes "entries.chained C rfc6962 None es" "entries.chained C' rfc6962 None fs" "length es = length fs"
    and "MTH rfc6962 (map ent_LeafHash es) = MTH rfc6962 (map ent_LeafHash fs)" "list_all ent_small es"
  shows "map committed es = map committed fs \<or> log_collision es fs"
proof -
  have "map ent_LeafHash es = map ent_LeafHash fs \<or> log_collision es fs"
    using MTH_binds [OF _ leaf_length [OF assms(1)] leaf_length [OF assms(2)] assms(4)] assms(3)
    by (auto simp: log_collision_def log_inputs_def list_ex_iff)
  moreover have "map ent_Canonical es = map ent_Canonical fs \<or> log_collision es fs" if "map ent_LeafHash es = map ent_LeafHash fs"
    using canonical_binds [OF assms(1,2) that] by (auto simp: log_collision_def log_inputs_def list_ex_iff)
  ultimately show ?thesis using committed_binds [OF assms(1,2) _ assms(5)] by blast
qed

section \<open>Roots commit to entries\<close>

text \<open>
  C6.  A root determines the committed part of the log.  Two chains of verified entries with the same
  length and the same RFC 6962 root agree, entry by entry, on index, time, links, hashes and flag and on
  every field the producer signed: identity, time, source, data, keys, type and evidence hash.  Otherwise
  two of the byte strings hashed in the two logs are a collision of SHA-256.  The evidence blob and the
  signatures of an envelope are under no hash, and the theorem leaves them open; the envelopes of one of
  the logs are below 4 GiB, so that their length prefixes do not wrap.
\<close>

theorem root_commits_to_entries:
  assumes "entries.chained C rfc6962 None es" "entries.chained C' rfc6962 None fs" "length es = length fs"
    and "MTH rfc6962 (map ent_LeafHash es) = MTH rfc6962 (map ent_LeafHash fs)" "list_all ent_small es"
  shows "map committed es = map committed fs \<or> log_collision es fs"
  by (rule root_binds_entries [OF assms])

text \<open>
  What is left open is really open: an entry whose envelope lost its evidence blob verifies as before,
  with the same hashes, so that neither a root nor a scan of the store shows the change.
\<close>

definition strip_evidence :: "Entry \<Rightarrow> Entry" where
  "strip_evidence e = e\<lparr>ent_Envelope := map_option (\<lambda>env. env\<lparr>env_Evidence := []\<rparr>) (ent_Envelope e)\<rparr>"

lemma strip_evidence_unnoticed:
  assumes "ent_Verify C H e = None"
  shows "ent_Verify C H (strip_evidence e) = None" "ent_LeafHash (strip_evidence e) = ent_LeafHash e"
    "VerifyChain (strip_evidence e) p = VerifyChain e p"
proof -
  obtain env where env: "ent_Envelope e = Some env" "env_Verify C env = None" using assms by (auto simp: ent_Verify_None)
  then have v: "env_Verify C (env\<lparr>env_Evidence := []\<rparr>) = None" by (simp add: env_Verify_def Let_def split: if_splits)
  have "ent_Canonical (strip_evidence e) = ent_Canonical e"
    using env(1) by (simp add: ent_Canonical_def strip_evidence_def env_hash_of_def env_Hash_def)
  then show "ent_Verify C H (strip_evidence e) = None" using assms v env(1) by (simp add: ent_Verify_None strip_evidence_def)
  show "ent_LeafHash (strip_evidence e) = ent_LeafHash e" "VerifyChain (strip_evidence e) p = VerifyChain e p"
    by (simp_all add: strip_evidence_def VerifyChain_def split: option.split)
qed

lemma sample_signed_sizes: "env_Type sample_signed = ''software''" "length (env_EvidenceHash sample_signed) = 32"
proof -
  note eq = soft_Sign_Inr [OF sample_attestor_wf, of 7 "''s''" "[1]", unfolded sample_signed_Sign sum.inject]
  show "env_Type sample_signed = ''software''" "length (env_EvidenceHash sample_signed) = 32"
    by (subst eq, simp add: soft_unsigned_def TypeSoftware_def Let_def)+
qed

lemma sample_signed_small: "length (env_Canonical sample_signed) < 2 ^ 32"
  using sample_signed_fields sample_signed_sizes by (simp add: env_Canonical_def)

theorem root_commits_to_entries_witness:
  "let e = ent_New rfc6962 9 0 None (Some sample_signed) False; f = strip_evidence e
   in committed e = committed f \<or> log_collision [e] [f]"
proof -
  let ?e = "ent_New rfc6962 9 0 None (Some sample_signed) False"
  have v: "ent_Verify sample_crypto rfc6962 ?e = None" "VerifyChain ?e None = None"
    using ent_New_verifies [OF sample_signed_verifies, of rfc6962 9 0 None False] by simp_all
  note s = strip_evidence_unnoticed [OF v(1)]
  have "ent_small ?e" using sample_signed_small by (simp add: ent_small_def envelope_bytes_def ent_New_def Seal_def Let_def)
  with root_commits_to_entries [of sample_crypto "[?e]" sample_crypto "[strip_evidence ?e]"] v s show ?thesis by simp
qed

end
