(* ===== verification/Tripwire.thy ===== *)
theory Tripwire
  imports Verifying Treehash
begin

text \<open>
  The tripwire (\<open>pkg/tripwire/tripwire.go\<close>): one pass that reads every stored entry again, checks
  its hashes and its link, rebuilds the Merkle root in memory and compares it with the latest stored
  checkpoint, and the background round that decides what a pass means.  The lemmas show that a pass
  over an honest log never raises the alarm and that a silent pass over any database has read the
  entries the checkpoint commits to.
\<close>

section \<open>Definitions\<close>

datatype tripwire_error = TwStore storage_error | TwCount u64 u64 | TwPanic

record tw_Result =
  tw_At :: i64
  tw_Size :: u64
  tw_ExpectedRoot :: bytes
  tw_DerivedRoot :: bytes
  tw_Tamper :: bool
  tw_FirstFailureIndex :: i64
  tw_Err :: "tripwire_error option"

text \<open>Why the callback ended the iteration: \<open>errStopIter\<close>, or a panic of the Merkle library.\<close>

datatype tw_stop = errStopIter | tw_panicked

definition tw_visit ::
    "('d, 'r, 'n, 'w, 'k) sys \<Rightarrow> u64 \<Rightarrow> tw_Result \<times> ('r, memLeafStore) Tree \<times> Entry option \<Rightarrow> Entry
      \<Rightarrow> (tw_Result \<times> ('r, memLeafStore) Tree \<times> Entry option) \<times> tw_stop option" where
  "tw_visit P sz st e =
     (case st of (res, tree, prev) \<Rightarrow>
        if ent_Index e \<ge> sz then (st, Some errStopIter)
        else if ent_Verify (sys_crypto P) (sys_hasher P) e \<noteq> None then
          ((res\<lparr>tw_Tamper := True, tw_FirstFailureIndex := ent_Index e\<rparr>, tree, prev), Some errStopIter)
        else if VerifyChain e prev \<noteq> None then
          ((res\<lparr>tw_Tamper := True, tw_FirstFailureIndex := ent_Index e\<rparr>, tree, prev), Some errStopIter)
        else (case AppendLeafHash (sys_lib P) (sys_hasher P) mem_store (ent_LeafHash e) tree of
                Inl _ \<Rightarrow> (st, Some tw_panicked)
              | Inr (tree, _) \<Rightarrow> ((res, tree, Some e), None)))"

definition tw_Run ::
    "('d, 'r, 'n, 'w, 'k) sys \<Rightarrow> i64 \<Rightarrow> (nat \<Rightarrow> bool) \<Rightarrow> 'd Store \<Rightarrow> u64 \<Rightarrow> bytes \<Rightarrow> tw_Result \<times> tripwire_error option" where
  "tw_Run P now cancelled s sz expectedRoot =
     (let res = \<lparr>tw_At = now, tw_Size = sz, tw_ExpectedRoot = expectedRoot, tw_DerivedRoot = [],
                 tw_Tamper = False, tw_FirstFailureIndex = - 1, tw_Err = None\<rparr>
      in if sz = 0 then
           (let derived = EmptyRoot (sys_hasher P)
            in (res\<lparr>tw_DerivedRoot := derived, tw_Tamper := \<not> bytesEqual derived expectedRoot\<rparr>, None))
         else
           (case IterateEntries (sys_db P) (sys_wire P) cancelled s 0 (tw_visit P sz) (res, NewTree (sys_lib P), None) of
              ((res, tree, prev), Some (Inl err)) \<Rightarrow> (res\<lparr>tw_Err := Some (TwStore err)\<rparr>, Some (TwStore err))
            | ((res, tree, prev), Some (Inr tw_panicked)) \<Rightarrow> (res, Some TwPanic)
            | ((res, tree, prev), _) \<Rightarrow>
                if tw_Tamper res then (res, None)
                else if Size (sys_lib P) tree \<noteq> sz then
                  (let err = TwCount (Size (sys_lib P) tree) sz in (res\<lparr>tw_Err := Some err\<rparr>, Some err))
                else (case Root (sys_lib P) (sys_hasher P) tree of
                        Inl _ \<Rightarrow> (res, Some TwPanic)
                      | Inr root \<Rightarrow>
                          (res\<lparr>tw_DerivedRoot := root, tw_Tamper := \<not> bytesEqual root expectedRoot\<rparr>, None))))"

text \<open>
  One round of the background runner: the label under which the round is counted, and the result
  handed to \<open>OnTamper\<close> when it is called.
\<close>

datatype tw_outcome = tw_error | tw_skipped | tw_tamper tw_Result | tw_ok

definition tw_runOnce ::
    "('d, 'r, 'n, 'w, 'k) sys \<Rightarrow> i64 \<Rightarrow> (nat \<Rightarrow> bool) \<Rightarrow> 'd Store \<Rightarrow> ('e + Checkpoint option) \<Rightarrow> tw_outcome" where
  "tw_runOnce P now cancelled s latest =
     (case latest of
        Inl _ \<Rightarrow> tw_error
      | Inr None \<Rightarrow> tw_skipped
      | Inr (Some c) \<Rightarrow>
          (case tw_Run P now cancelled s (cp_Size c) (cp_RootHash c) of
             (res, Some _) \<Rightarrow> tw_error
           | (res, None) \<Rightarrow> if tw_Tamper res then tw_tamper res else tw_ok))"

section \<open>An honest log\<close>

lemma NewTree_rep: "tdlib_ok L H rep \<Longrightarrow> rep (rng (NewTree L)) []"
  by (simp add: NewTree_def NewBoundedTree_def NewBoundedTreeWithStore_def tdlib_ok_def)

lemma tdlib_append:
  assumes "tdlib_ok L H rep" "rep (rng t) ls" "length ls < 2 ^ 63"
  obtains t' i where "AppendLeafHash L H S h t = Inr (t', i)" "rep (rng t') (ls @ [h])"
proof -
  obtain r vs where r: "lib_Append L H (rng t) h = Some (r, vs)" using assms unfolding tdlib_ok_def by meson
  then obtain t' i where a: "AppendLeafHash L H S h t = Inr (t', i)" by (simp add: AppendLeafHash_def Let_def)
  with AppendLeafHash_rep [OF assms a] that show ?thesis by blast
qed

lemma visit_prefix:
  assumes lib: "tdlib_ok (sys_lib P) (sys_hasher P) rep"
    and ch: "entries.chained (sys_crypto P) (sys_hasher P) None (xs @ ys)"
    and "length (xs @ ys) \<le> n" "n < 2 ^ 63" and "rep (rng t) (map ent_LeafHash xs)"
  shows "\<exists>t'. fold_until (tw_visit P (of_nat n)) ys (res, t, entries.last_of None xs)
      = ((res, t', entries.last_of None (xs @ ys)), None) \<and> rep (rng t') (map ent_LeafHash (xs @ ys))"
  using ch assms(3,5)
proof (induction ys arbitrary: xs t)
  case (Cons e ys)
  have ch: "entries.chained (sys_crypto P) (sys_hasher P) None ((xs @ [e]) @ ys)" using Cons.prems(1) by simp
  then have e: "entries.chained (sys_crypto P) (sys_hasher P) None (xs @ [e])" by (simp add: entries.chained_append)
  then have v: "ent_Verify (sys_crypto P) (sys_hasher P) e = None" "VerifyChain e (entries.last_of None xs) = None"
    "ent_Index e = of_nat (length xs)"
    by (simp_all add: entries.chained_snoc entries.index_last [OF e])
  have lt: "(of_nat (length xs) :: u64) < of_nat n" using Cons.prems(2) assms(4) by (simp add: of_nat_less_u64)
  obtain t' i where t': "AppendLeafHash (sys_lib P) (sys_hasher P) mem_store (ent_LeafHash e) t = Inr (t', i)"
    "rep (rng t') (map ent_LeafHash xs @ [ent_LeafHash e])"
    by (rule tdlib_append [OF lib Cons.prems(3)]) (use Cons.prems(2) assms(4) in simp)
  have "tw_visit P (of_nat n) (res, t, entries.last_of None xs) e = ((res, t', entries.last_of None (xs @ [e])), None)"
    using v lt t'(1) by (simp add: tw_visit_def leD entries.last_of_def)
  moreover have "length ((xs @ [e]) @ ys) \<le> n" "rep (rng t') (map ent_LeafHash (xs @ [e]))" using Cons.prems(2) t'(2) by simp_all
  ultimately show ?case using Cons.IH [OF ch, of t'] by simp
qed simp

lemma fold_until_append:
  "fold_until fn xs acc = (acc', None) \<Longrightarrow> fold_until fn (xs @ ys) acc = fold_until fn ys acc'"
  by (induction xs arbitrary: acc) (auto split: prod.splits option.splits)

lemma visit_log:
  assumes lib: "tdlib_ok (sys_lib P) (sys_hasher P) rep"
    and ch: "entries.chained (sys_crypto P) (sys_hasher P) None es" and n: "n \<le> length es" "length es < 2 ^ 63"
  shows "\<exists>t r. fold_until (tw_visit P (of_nat n)) es (res, NewTree (sys_lib P), None) = ((res, t, entries.last_of None (take n es)), r)
      \<and> rep (rng t) (map ent_LeafHash (take n es)) \<and> (r = None \<or> r = Some errStopIter)"
proof -
  have split: "entries.chained (sys_crypto P) (sys_hasher P) None (take n es @ drop n es)" using ch by simp
  then have "entries.chained (sys_crypto P) (sys_hasher P) None ([] @ take n es)" by (simp add: entries.chained_append del: append_take_drop_id)
  from visit_prefix [OF lib this _ _ , of n "NewTree (sys_lib P)" res] n NewTree_rep [OF lib] obtain t where
    t: "fold_until (tw_visit P (of_nat n)) (take n es) (res, NewTree (sys_lib P), None) = ((res, t, entries.last_of None (take n es)), None)"
    "rep (rng t) (map ent_LeafHash (take n es))" by (auto simp: entries.last_of_def)
  have f: "fold_until (tw_visit P (of_nat n)) es (res, NewTree (sys_lib P), None)
      = fold_until (tw_visit P (of_nat n)) (drop n es) (res, t, entries.last_of None (take n es))"
    using fold_until_append [OF t(1), of "drop n es"] by simp
  show ?thesis
  proof (cases "n = length es")
    case True
    then show ?thesis using f t by simp
  next
    case False
    then have "drop n es = es ! n # drop (Suc n) es" "ent_Index (es ! n) = of_nat n"
      using n entries.index_nth [OF ch] by (simp_all add: Cons_nth_drop_Suc)
    then show ?thesis using f t by (simp add: tw_visit_def)
  qed
qed

lemma tw_Run_honest:
  assumes "sys_ok P view rep" "holds_log (sys_wire P) (view (st_db s)) es"
    and ch: "entries.chained (sys_crypto P) (sys_hasher P) None es"
    and n: "n \<le> length es" "length es < 2 ^ 63" and nc: "\<And>i. \<not> cancelled i"
  shows "\<exists>res. tw_Run P now cancelled s (of_nat n) (MTH (sys_hasher P) (map ent_LeafHash (take n es))) = (res, None)
    \<and> \<not> tw_Tamper res \<and> tw_FirstFailureIndex res = - 1"
proof (cases "n = 0")
  case True
  then show ?thesis by (simp add: tw_Run_def MTH.simps bytesEqual_iff)
next
  case False
  let ?root = "MTH (sys_hasher P) (map ent_LeafHash (take n es))"
  let ?res = "\<lparr>tw_At = now, tw_Size = of_nat n, tw_ExpectedRoot = ?root, tw_DerivedRoot = [],
    tw_Tamper = False, tw_FirstFailureIndex = - 1, tw_Err = None\<rparr>"
  note lib = sys_okD(3) [OF assms(1)]
  have n0: "(of_nat n :: u64) \<noteq> 0" using False n by (simp add: word_of_nat_eq_0_iff nat_dvd_not_less)
  obtain t r where t: "fold_until (tw_visit P (of_nat n)) es (?res, NewTree (sys_lib P), None) = ((?res, t, entries.last_of None (take n es)), r)"
    "rep (rng t) (map ent_LeafHash (take n es))" "r = None \<or> r = Some errStopIter"
    using visit_log [OF lib ch n] by blast
  have "bdg_Value (sys_db P) (st_db s) k = view (st_db s) k" for k
    using sys_okD(2) [OF assms(1)] by (simp add: badger_reads_def)
  from IterateEntries_log [OF sys_okD(1) [OF assms(1)] assms(2) this nc, where fn = "tw_visit P (of_nat n)"] t(1)
  have it: "IterateEntries (sys_db P) (sys_wire P) cancelled s 0 (tw_visit P (of_nat n)) (?res, NewTree (sys_lib P), None)
      = ((?res, t, entries.last_of None (take n es)), map_option Inr r)" by simp
  have sz: "Size (sys_lib P) t = of_nat n" using lib t(2) n unfolding tdlib_ok_def Size_def by fastforce
  have "map ent_LeafHash (take n es) \<noteq> []" "length (map ent_LeafHash (take n es)) \<le> 2 ^ 63" using False n by auto
  then have root: "Root (sys_lib P) (sys_hasher P) t = Inr ?root"
    using tdlib_root [OF lib t(2)] sz n0 by (simp add: Root_def)
  show ?thesis
    using t(3) n0 by (auto simp: tw_Run_def it sz root bytesEqual_iff)
qed

section \<open>A silent pass\<close>

text \<open>What is stored under each of these keys decodes to these entries.\<close>

definition decodes :: "'d badger \<Rightarrow> wire \<Rightarrow> 'd \<Rightarrow> bytes list \<Rightarrow> Entry list \<Rightarrow> bool" where
  "decodes B W d ks es \<longleftrightarrow>
     list_all2 (\<lambda>k e. \<exists>b. bdg_Value B d k = Some b \<and> Unmarshal (unwire_entry W) b = Inr e) ks es"

lemma visit_None:
  assumes "tdlib_ok (sys_lib P) (sys_hasher P) rep" "rep (rng t) ls" "length ls < 2 ^ 63"
    and "tw_visit P n (res, t, prev) e = (st, None)"
  obtains t' where "st = (res, t', Some e)" "rep (rng t') (ls @ [ent_LeafHash e])"
    "ent_Verify (sys_crypto P) (sys_hasher P) e = None" "VerifyChain e prev = None"
  using assms(4) AppendLeafHash_rep [OF assms(1-3)] that
  by (auto simp: tw_visit_def split: if_splits sum.splits)

lemma visit_stop:
  "tw_visit P n (res, t, prev) e = ((res', t', prev'), Some errStopIter) \<Longrightarrow> \<not> tw_Tamper res' \<Longrightarrow> res' = res \<and> t' = t"
  by (auto simp: tw_visit_def split: if_splits sum.splits)

lemma scan_sound:
  assumes lib: "tdlib_ok (sys_lib P) (sys_hasher P) rep"
  shows "rep (rng t) ls \<Longrightarrow> length ls + length ks \<le> 2 ^ 63 \<Longrightarrow>
    iterate_entries B W d cancelled (tw_visit P n) ks i (res, t, prev) = ((res', t', prev'), r) \<Longrightarrow>
    \<not> tw_Tamper res' \<Longrightarrow> r = None \<or> r = Some (Inr errStopIter) \<Longrightarrow>
    \<exists>xs. entries.chained (sys_crypto P) (sys_hasher P) prev xs \<and> rep (rng t') (ls @ map ent_LeafHash xs)
      \<and> res' = res \<and> length xs \<le> length ks \<and> decodes B W d (take (length xs) ks) xs"
proof (induction ks arbitrary: t ls prev i res)
  case Nil
  then show ?case by (intro exI [of _ "[]"]) (auto simp: decodes_def)
next
  case (Cons k ks)
  show ?case
  proof (cases "has_prefix prefixEntry k")
    case False
    with Cons.prems show ?thesis by (intro exI [of _ "[]"]) (auto simp: decodes_def)
  next
    case True
    with Cons.prems(3,5) obtain b e st q where e: "bdg_Value B d k = Some b" "Unmarshal (unwire_entry W) b = Inr e"
      "tw_visit P n (res, t, prev) e = (st, q)"
      and rest: "case q of None \<Rightarrow> iterate_entries B W d cancelled (tw_visit P n) ks (i + 1) st = ((res', t', prev'), r)
        | Some stop \<Rightarrow> st = (res', t', prev') \<and> r = Some (Inr stop)"
      by (auto split: if_split_asm option.split_asm sum.split_asm prod.split_asm)
    show ?thesis
    proof (cases q)
      case (Some stop)
      with rest Cons.prems(5) have q: "st = (res', t', prev')" "q = Some errStopIter" by auto
      from visit_stop [OF e(3) [unfolded q] Cons.prems(4)] Cons.prems(1)
      show ?thesis by (intro exI [of _ "[]"]) (auto simp: decodes_def)
    next
      case None
      obtain t1 where t1: "st = (res, t1, Some e)" "rep (rng t1) (ls @ [ent_LeafHash e])"
        "ent_Verify (sys_crypto P) (sys_hasher P) e = None" "VerifyChain e prev = None"
        by (rule visit_None [OF lib Cons.prems(1) _ e(3) [unfolded None]]) (use Cons.prems(2) in simp)
      have len: "length (ls @ [ent_LeafHash e]) + length ks \<le> 2 ^ 63" using Cons.prems(2) by simp
      have it: "iterate_entries B W d cancelled (tw_visit P n) ks (i + 1) (res, t1, Some e) = ((res', t', prev'), r)"
        using rest None t1(1) by simp
      from Cons.IH [OF t1(2) len it Cons.prems(4,5)] obtain xs where
        "entries.chained (sys_crypto P) (sys_hasher P) (Some e) xs" "rep (rng t') ((ls @ [ent_LeafHash e]) @ map ent_LeafHash xs)"
        "res' = res" "length xs \<le> length ks" "decodes B W d (take (length xs) ks) xs" by blast
      with t1(3,4) e(1,2) show ?thesis by (intro exI [of _ "e # xs"]) (auto simp: decodes_def)
    qed
  qed
qed

lemma tw_Run_silent:
  assumes lib: "tdlib_ok (sys_lib P) (sys_hasher P) rep" and "tw_Run P now cancelled s n root = (res, None)" "\<not> tw_Tamper res"
    and keys: "length (bdg_Keys (sys_db P) (st_db s) (entryKey 0)) \<le> 2 ^ 63"
  shows "\<exists>xs. entries.chained (sys_crypto P) (sys_hasher P) None xs \<and> of_nat (length xs) = n
    \<and> root = MTH (sys_hasher P) (map ent_LeafHash xs) \<and> length xs \<le> length (bdg_Keys (sys_db P) (st_db s) (entryKey 0))
    \<and> decodes (sys_db P) (sys_wire P) (st_db s) (take (length xs) (bdg_Keys (sys_db P) (st_db s) (entryKey 0))) xs"
proof (cases "n = 0")
  case True
  with assms(2,3) show ?thesis
    by (intro exI [of _ "[]"]) (auto simp: tw_Run_def Let_def bytesEqual_iff MTH.simps decodes_def)
next
  case False
  let ?res = "\<lparr>tw_At = now, tw_Size = n, tw_ExpectedRoot = root, tw_DerivedRoot = [],
    tw_Tamper = False, tw_FirstFailureIndex = - 1, tw_Err = None\<rparr>"
  obtain r1 t p r where it: "IterateEntries (sys_db P) (sys_wire P) cancelled s 0 (tw_visit P n) (?res, NewTree (sys_lib P), None) = ((r1, t, p), r)"
    by (metis prod.collapse)
  with False assms(2,3) have q: "r = None \<or> r = Some (Inr errStopIter)" "\<not> tw_Tamper r1" "Size (sys_lib P) t = n"
    "Root (sys_lib P) (sys_hasher P) t = Inr root"
    by (auto simp: tw_Run_def Let_def bytesEqual_iff split: if_splits option.splits sum.splits tw_stop.splits)
  have "length ([] :: bytes list) + length (bdg_Keys (sys_db P) (st_db s) (entryKey 0)) \<le> 2 ^ 63" using keys by simp
  from scan_sound [OF lib NewTree_rep [OF lib] this it [unfolded IterateEntries_def] q(2,1)] obtain xs where
    xs: "entries.chained (sys_crypto P) (sys_hasher P) None xs" "rep (rng t) (map ent_LeafHash xs)"
    "length xs \<le> length (bdg_Keys (sys_db P) (st_db s) (entryKey 0))"
    "decodes (sys_db P) (sys_wire P) (st_db s) (take (length xs) (bdg_Keys (sys_db P) (st_db s) (entryKey 0))) xs" by auto
  have len: "length (map ent_LeafHash xs) \<le> 2 ^ 63" using xs(3) keys by simp
  have sz: "Size (sys_lib P) t = of_nat (length (map ent_LeafHash xs))"
    using lib xs(2) unfolding tdlib_ok_def Size_def by blast
  with q(3) False have "map ent_LeafHash xs \<noteq> []" by auto
  from tdlib_root [OF lib xs(2) this len] q(3,4) False have "root = MTH (sys_hasher P) (map ent_LeafHash xs)"
    by (simp add: Root_def)
  with xs sz q(3) show ?thesis by auto
qed

section \<open>What the tripwire promises\<close>

text \<open>
  C23.  The tripwire never cries wolf.  Of a log reached from an empty database by any sequence of
  operations, failures and restarts, a round against any checkpoint that was true of the log at some
  size, the present one or a past one, is counted as \<open>ok\<close>.
\<close>

theorem tripwire_no_false_alarm:
  assumes "sys_ok P view rep" and "fresh_store view s0" and "core_run P s0 l es" and "length es < 2 ^ 63"
    and "n \<le> length es" and "cp_Size c = of_nat n" and "cp_RootHash c = MTH (sys_hasher P) (map ent_LeafHash (take n es))"
    and "\<And>i. \<not> cancelled i"
  shows "tw_runOnce P now cancelled (lg_store l) (Inr (Some c)) = tw_ok"
proof -
  have inv: "log_inv P view rep l es" by (rule core_run_inv [OF assms(3,1,2,4)])
  then have "holds_log (sys_wire P) (view (st_db (lg_store l))) es" "entries.chained (sys_crypto P) (sys_hasher P) None es"
    by (simp_all add: log_inv_def)
  from tw_Run_honest [OF assms(1) this assms(5,4), of cancelled now] assms(8) obtain res where
    "tw_Run P now cancelled (lg_store l) (cp_Size c) (cp_RootHash c) = (res, None)" "\<not> tw_Tamper res"
    using assms(6,7) by auto
  then show ?thesis by (simp add: tw_runOnce_def)
qed

text \<open>
  C9.  A silent tripwire means that nothing committed was changed.  Whatever the database contains, when
  a round against a checkpoint of the log \<open>es\<close> is counted as \<open>ok\<close>, the stored entries it read are
  exactly as many as the checkpoint says, they form a verified chain, and their committed parts (index,
  time, links, hashes, flag and every field the producer signed) are those of \<open>es\<close>; otherwise a
  collision of SHA-256 is in hand.  The evidence blobs and signatures of the envelopes may differ, and
  envelopes are below 4 GiB.
\<close>

theorem tripwire_detects_tampering:
  assumes "tdlib_ok (sys_lib P) (sys_hasher P) rep" and "sys_hasher P = rfc6962"
    and "length (bdg_Keys (sys_db P) (st_db s) (entryKey 0)) \<le> 2 ^ 63"
    and "entries.chained C rfc6962 None es" "length es \<le> 2 ^ 63"
    and "cp_Size c = of_nat (length es)" "cp_RootHash c = MTH rfc6962 (map ent_LeafHash es)"
    and "tw_runOnce P now cancelled s (Inr (Some c)) = tw_ok" and "list_all ent_small es"
  shows "\<exists>xs. decodes (sys_db P) (sys_wire P) (st_db s) (take (length es) (bdg_Keys (sys_db P) (st_db s) (entryKey 0))) xs
    \<and> entries.chained (sys_crypto P) rfc6962 None xs
    \<and> (map committed es = map committed xs \<or> log_collision es xs)"
proof -
  obtain res where "tw_Run P now cancelled s (cp_Size c) (cp_RootHash c) = (res, None)" "\<not> tw_Tamper res"
    using assms(8) by (auto simp: tw_runOnce_def split: prod.splits option.splits if_splits)
  from tw_Run_silent [OF assms(1) this assms(3)] obtain xs where
    xs: "entries.chained (sys_crypto P) rfc6962 None xs" "(of_nat (length xs) :: u64) = of_nat (length es)"
    "MTH rfc6962 (map ent_LeafHash xs) = MTH rfc6962 (map ent_LeafHash es)"
    "length xs \<le> length (bdg_Keys (sys_db P) (st_db s) (entryKey 0))"
    "decodes (sys_db P) (sys_wire P) (st_db s) (take (length xs) (bdg_Keys (sys_db P) (st_db s) (entryKey 0))) xs"
    using assms(2,6,7) by auto
  have "length xs = length es"
    using xs(2,4) assms(3,5) by (simp add: word_of_nat_eq_iff take_bit_nat_eq_self)
  with xs root_binds_entries [OF assms(4) xs(1) _ xs(3) [symmetric] assms(9)] show ?thesis by auto
qed

section \<open>Witnesses\<close>

theorem tripwire_no_false_alarm_witness:
  "tw_runOnce (sample_P None) 7 (\<lambda>_. False) (lg_store (sample_log2 None)) (Inr (Some sample_cp)) = tw_ok"
  by (rule tripwire_no_false_alarm [OF sample_sys_ok sample_fresh sample_run_log2 [of None], where n = 1])
    (use sample_cp_accepted in simp_all)

lemma sample_quiet:
  "tw_runOnce (sample_P None) 7 (\<lambda>_. False) \<lparr>st_db = sample_db, st_replayTTL = 0\<rparr> (Inr (Some sample_cp)) = tw_ok"
proof -
  have ch: "entries.chained sample_crypto rfc6962 None [sample_entry]"
    using sample_inv_log2 [of None] by (simp add: log_inv_def)
  have "holds_log (sys_wire (sample_P None)) (map_of (st_db \<lparr>st_db = sample_db, st_replayTTL = 0\<rparr>)) [sample_entry]"
    using sample_db_log by simp
  from tw_Run_honest [OF sample_sys_ok this, of 1 "\<lambda>_. False" 7] ch sample_cp_accepted show ?thesis
    by (auto simp: tw_runOnce_def)
qed

theorem tripwire_detects_tampering_witness:
  "\<exists>xs. decodes (sample_badger (\<lambda>_. True)) (sample_wire sample_reg) sample_db
      (take 1 (bdg_Keys (sample_badger (\<lambda>_. True)) sample_db (entryKey 0))) xs
    \<and> (map committed [sample_entry] = map committed xs \<or> log_collision [sample_entry] xs)"
proof -
  have ch: "entries.chained sample_crypto rfc6962 None [sample_entry]"
    using sample_inv_log2 [of None] by (simp add: log_inv_def)
  have few: "length (bdg_Keys (sys_db (sample_P None)) (st_db \<lparr>st_db = sample_db, st_replayTTL = 0\<rparr>) (entryKey 0)) \<le> 2 ^ 63"
    using sample_keys_few by simp
  have "ent_Envelope sample_entry = Some sample_signed" by (simp add: sample_entry_def ent_New_def Seal_def Let_def)
  then have "list_all ent_small [sample_entry]" using sample_signed_small by (simp add: ent_small_def envelope_bytes_def)
  from tripwire_detects_tampering [OF _ _ few ch _ _ _ sample_quiet this, of "\<lambda>r ls. r = ls"] sample_tdlib_ok sample_cp_accepted
  show ?thesis by auto
qed

end
