(* ===== verification/Ingest.thy ===== *)
theory Ingest
  imports Http Complex_Main "HOL-Library.Finite_Map"
begin

text \<open>
  The guard of the API (\<open>pkg/api/ingest.go\<close>): a semaphore over the appends in flight and a token
  bucket per producer and per admin actor, with eviction of idle buckets.  The bucket itself is
  \<open>golang.org/x/time/rate\<close>, the parameter record \<open>rate_lib\<close>; rates (\<open>float64\<close> in the code) are
  rationals and times are nanoseconds.
\<close>

section \<open>Definitions\<close>

record 'l rate_lib =
  NewLimiter :: "rat \<Rightarrow> int \<Rightarrow> 'l"
  Allow :: "int \<Rightarrow> 'l \<Rightarrow> 'l \<times> bool"

record IngestPolicy =
  MaxConcurrentAppends :: int
  PerProducerRPS :: rat
  PerProducerBurst :: int
  PerAdminRPS :: rat
  PerAdminBurst :: int
  RetryAfter :: int

definition defaultConcurrency :: "int \<Rightarrow> int" where
  "defaultConcurrency numCPU =
     (let n = numCPU * 4; n = (if n < 16 then 16 else n) in if n > 256 then 256 else n)"

definition DefaultIngestPolicy :: "int \<Rightarrow> IngestPolicy" where
  "DefaultIngestPolicy numCPU =
     \<lparr>MaxConcurrentAppends = defaultConcurrency numCPU, PerProducerRPS = 100, PerProducerBurst = 200,
      PerAdminRPS = 5, PerAdminBurst = 10, RetryAfter = 1\<rparr>"

record 'l bucketEntry =
  bk_lim :: 'l
  bk_lastUsed :: int

type_synonym 'l bucket_table = "(string, 'l bucketEntry) fmap"

text \<open>The channel \<open>sem\<close>, \<open>None\<close> for nil: its capacity and how many slots are taken.\<close>

record 'l ingestGate =
  ig_policy :: IngestPolicy
  ig_sem :: "(nat \<times> nat) option"
  ig_producerLimits :: "'l bucket_table"
  ig_adminLimits :: "'l bucket_table"

definition newIngestGate :: "IngestPolicy \<Rightarrow> 'l ingestGate" where
  "newIngestGate p =
     \<lparr>ig_policy = p,
      ig_sem = (if MaxConcurrentAppends p > 0 then Some (nat (MaxConcurrentAppends p), 0) else None),
      ig_producerLimits = fmempty, ig_adminLimits = fmempty\<rparr>"

definition acquire :: "'l ingestGate \<Rightarrow> 'l ingestGate \<times> bool" where
  "acquire g =
     (case ig_sem g of None \<Rightarrow> (g, True)
      | Some (cap, used) \<Rightarrow> if used < cap then (g\<lparr>ig_sem := Some (cap, used + 1)\<rparr>, True) else (g, False))"

text \<open>A receive from an empty channel blocks: \<open>None\<close>.\<close>

definition release :: "'l ingestGate \<Rightarrow> 'l ingestGate option" where
  "release g =
     (case ig_sem g of None \<Rightarrow> Some g
      | Some (cap, used) \<Rightarrow> if used = 0 then None else Some (g\<lparr>ig_sem := Some (cap, used - 1)\<rparr>))"

definition allow :: "'l rate_lib \<Rightarrow> int \<Rightarrow> rat \<Rightarrow> int \<Rightarrow> 'l bucket_table \<Rightarrow> string \<Rightarrow> 'l bucket_table \<times> bool" where
  "allow R now rps burst table key =
     (if rps \<le> 0 then (table, True)
      else
        let b = (case fmlookup table key of
                   Some entry \<Rightarrow> bk_lim entry
                 | None \<Rightarrow> NewLimiter R rps (if burst \<le> 0 then 1 else burst));
            (b, ok) = Allow R now b
        in (fmupd key \<lparr>bk_lim = b, bk_lastUsed = now\<rparr> table, ok))"

definition allowProducer :: "'l rate_lib \<Rightarrow> int \<Rightarrow> 'l ingestGate \<Rightarrow> string \<Rightarrow> 'l ingestGate \<times> bool" where
  "allowProducer R now g i =
     (case allow R now (PerProducerRPS (ig_policy g)) (PerProducerBurst (ig_policy g)) (ig_producerLimits g) i of
        (t, ok) \<Rightarrow> (g\<lparr>ig_producerLimits := t\<rparr>, ok))"

definition allowAdmin :: "'l rate_lib \<Rightarrow> int \<Rightarrow> 'l ingestGate \<Rightarrow> string \<Rightarrow> 'l ingestGate \<times> bool" where
  "allowAdmin R now g actor =
     (case allow R now (PerAdminRPS (ig_policy g)) (PerAdminBurst (ig_policy g)) (ig_adminLimits g) actor of
        (t, ok) \<Rightarrow> (g\<lparr>ig_adminLimits := t\<rparr>, ok))"

definition evict_table :: "int \<Rightarrow> 'l bucket_table \<Rightarrow> 'l bucket_table \<times> nat" where
  "evict_table cutoff t =
     (let kept = fmfilter (\<lambda>i. case fmlookup t i of None \<Rightarrow> True | Some e \<Rightarrow> \<not> bk_lastUsed e < cutoff) t
      in (kept, fcard (fmdom t) - fcard (fmdom kept)))"

definition evictIdle :: "int \<Rightarrow> int \<Rightarrow> 'l ingestGate \<Rightarrow> 'l ingestGate \<times> nat" where
  "evictIdle now older g =
     (let cutoff = now - older; (p, n) = evict_table cutoff (ig_producerLimits g); (a, m) = evict_table cutoff (ig_adminLimits g)
      in (g\<lparr>ig_producerLimits := p, ig_adminLimits := a\<rparr>, n + m))"

text \<open>One tick of \<open>StartJanitor\<close>, whose loop does not start when both limits are disabled.\<close>

definition gate_janitor :: "int \<Rightarrow> int \<Rightarrow> 'l ingestGate \<Rightarrow> 'l ingestGate" where
  "gate_janitor now idleAfter g =
     (if PerProducerRPS (ig_policy g) \<le> 0 \<and> PerAdminRPS (ig_policy g) \<le> 0 then g
      else fst (evictIdle now (if idleAfter \<le> 0 then 60 * 60 * 1000000000 else idleAfter) g))"

definition retryAfterSeconds :: "'l ingestGate \<Rightarrow> int" where
  "retryAfterSeconds g = (if RetryAfter (ig_policy g) \<le> 0 then 1 else RetryAfter (ig_policy g))"

definition writeRetryAfter :: "nat \<Rightarrow> int \<Rightarrow> 'a reply" where
  "writeRetryAfter status retryAfter = HttpRetry status retryAfter"

section \<open>Buckets\<close>

lemma defaultConcurrency_bounds: "16 \<le> defaultConcurrency n \<and> defaultConcurrency n \<le> 256"
  by (simp add: defaultConcurrency_def Let_def)

lemma retryAfter_pos: "1 \<le> retryAfterSeconds g"
  by (simp add: retryAfterSeconds_def)

lemma allow_other: "k' \<noteq> key \<Longrightarrow> fmlookup (fst (allow R now rps burst t key)) k' = fmlookup t k'"
  by (simp add: allow_def Let_def split: prod.splits)

text \<open>The calls for one key, on a bucket of its own.\<close>

fun lone_bucket :: "'l rate_lib \<Rightarrow> 'l \<Rightarrow> int list \<Rightarrow> bool list" where
  "lone_bucket R b [] = []"
| "lone_bucket R b (now # ts) = (case Allow R now b of (b', ok) \<Rightarrow> ok # lone_bucket R b' ts)"

fun allow_all :: "'l rate_lib \<Rightarrow> rat \<Rightarrow> int \<Rightarrow> 'l bucket_table \<Rightarrow> (int \<times> string) list \<Rightarrow> (string \<times> bool) list" where
  "allow_all R rps burst t [] = []"
| "allow_all R rps burst t ((now, key) # qs) =
     (case allow R now rps burst t key of (t', ok) \<Rightarrow> (key, ok) # allow_all R rps burst t' qs)"

definition bucket_of :: "'l rate_lib \<Rightarrow> rat \<Rightarrow> int \<Rightarrow> 'l bucket_table \<Rightarrow> string \<Rightarrow> 'l" where
  "bucket_of R rps burst t key =
     (case fmlookup t key of Some e \<Rightarrow> bk_lim e | None \<Rightarrow> NewLimiter R rps (if burst \<le> 0 then 1 else burst))"

text \<open>
  Every key has a bucket of its own: what the callers of one key are answered is what a lone bucket
  answers them, however the calls of other keys are interleaved.
\<close>

lemma buckets_isolated:
  assumes "rps > 0"
  shows "map snd (filter (\<lambda>p. fst p = key) (allow_all R rps burst t qs))
    = lone_bucket R (bucket_of R rps burst t key) (map fst (filter (\<lambda>q. snd q = key) qs))"
proof (induction qs arbitrary: t)
  case (Cons q qs)
  obtain now k where q: "q = (now, k)" by force
  obtain b ok where a: "Allow R now (bucket_of R rps burst t k) = (b, ok)" by force
  have al: "allow R now rps burst t k = (fmupd k \<lparr>bk_lim = b, bk_lastUsed = now\<rparr> t, ok)"
    using assms a by (simp add: allow_def bucket_of_def Let_def)
  have "bucket_of R rps burst (fmupd k \<lparr>bk_lim = b, bk_lastUsed = now\<rparr> t) key
      = (if k = key then b else bucket_of R rps burst t key)"
    by (simp add: bucket_of_def)
  with Cons.IH al a show ?case by (auto simp: q)
qed simp

section \<open>Appends in flight\<close>

text \<open>
  The guard under concurrent requests: each append takes its token and its slot when it starts and
  gives the slot back when it ends, and between any two of these steps other requests and the
  janitor may do theirs.  The number counts the appends in flight.
\<close>

inductive gate_run :: "'l rate_lib \<Rightarrow> IngestPolicy \<Rightarrow> 'l ingestGate \<Rightarrow> nat \<Rightarrow> bool" for R p where
  start: "gate_run R p (newIngestGate p) 0"
| rate_limited: "gate_run R p g k \<Longrightarrow> allowProducer R now g i = (g', False) \<Longrightarrow> gate_run R p g' k"
| saturated: "gate_run R p g k \<Longrightarrow> allowProducer R now g i = (g', True) \<Longrightarrow> acquire g' = (g'', False) \<Longrightarrow> gate_run R p g'' k"
| admitted: "gate_run R p g k \<Longrightarrow> allowProducer R now g i = (g', True) \<Longrightarrow> acquire g' = (g'', True)
    \<Longrightarrow> gate_run R p g'' (Suc k)"
| finished: "gate_run R p g (Suc k) \<Longrightarrow> release g = Some g' \<Longrightarrow> gate_run R p g' k"
| admin: "gate_run R p g k \<Longrightarrow> allowAdmin R now g i = (g', ok) \<Longrightarrow> gate_run R p g' k"
| janitor: "gate_run R p g k \<Longrightarrow> gate_run R p (gate_janitor now idle g) k"

definition sem_of :: "IngestPolicy \<Rightarrow> nat \<Rightarrow> (nat \<times> nat) option" where
  "sem_of p k = (if MaxConcurrentAppends p > 0 then Some (nat (MaxConcurrentAppends p), k) else None)"

lemma buckets_keep_sem:
  "allowProducer R now g i = (g', ok) \<Longrightarrow> ig_sem g' = ig_sem g \<and> ig_policy g' = ig_policy g"
  "allowAdmin R now g i = (g', ok) \<Longrightarrow> ig_sem g' = ig_sem g \<and> ig_policy g' = ig_policy g"
  "ig_sem (gate_janitor now idle g) = ig_sem g \<and> ig_policy (gate_janitor now idle g) = ig_policy g"
  by (auto simp: allowProducer_def allowAdmin_def gate_janitor_def evictIdle_def Let_def split: prod.splits)

lemma acquire_sem:
  "ig_sem g = sem_of p k \<Longrightarrow> acquire g = (g', True) \<Longrightarrow>
     ig_sem g' = sem_of p (Suc k) \<and> (MaxConcurrentAppends p > 0 \<longrightarrow> int k < MaxConcurrentAppends p)"
  "acquire g = (g', False) \<Longrightarrow> g' = g"
  by (auto simp: acquire_def sem_of_def split: if_splits option.splits)

lemma gate_run_sem:
  "gate_run R p g k \<Longrightarrow> ig_sem g = sem_of p k \<and> (MaxConcurrentAppends p > 0 \<longrightarrow> int k \<le> MaxConcurrentAppends p)"
proof (induction rule: gate_run.induct)
  case start
  then show ?case by (simp add: newIngestGate_def sem_of_def)
next
  case (saturated g k now i g' g'')
  then show ?case using buckets_keep_sem(1) [OF saturated.hyps(2)] acquire_sem(2) [OF saturated.hyps(3)] by simp
next
  case (admitted g k now i g' g'')
  then have "ig_sem g' = sem_of p k" using buckets_keep_sem(1) by metis
  from acquire_sem(1) [OF this admitted.hyps(3)] show ?case by auto
next
  case (finished g k g')
  then show ?case by (auto simp: release_def sem_of_def split: if_splits)
qed (auto dest: buckets_keep_sem(1,2) simp: buckets_keep_sem(3))

text \<open>
  C25.  The cap on concurrent appends holds under every interleaving of requests: never more appends in
  flight than \<open>MaxConcurrentAppends\<close>, no slot is ever lost (a request is turned away exactly when the
  cap is reached), and giving a slot back never blocks.
\<close>

theorem appends_in_flight_bounded:
  assumes "gate_run R p g k" and "MaxConcurrentAppends p > 0"
  shows "int k \<le> MaxConcurrentAppends p \<and> (snd (acquire g) \<longleftrightarrow> int k < MaxConcurrentAppends p)
    \<and> (k > 0 \<longrightarrow> (\<exists>g'. release g = Some g' \<and> gate_run R p g' (k - 1)))"
proof -
  have g: "ig_sem g = Some (nat (MaxConcurrentAppends p), k)" "int k \<le> MaxConcurrentAppends p"
    using gate_run_sem [OF assms(1)] assms(2) by (simp_all add: sem_of_def)
  have "\<exists>g'. release g = Some g' \<and> gate_run R p g' (k - 1)" if pos: "k > 0"
  proof -
    obtain g' where g': "release g = Some g'" using g(1) pos by (auto simp: release_def)
    moreover have "gate_run R p g' (k - 1)"
      by (rule gate_run.finished [OF _ g']) (use assms(1) pos in simp)
    ultimately show ?thesis by blast
  qed
  with g assms(2) show ?thesis by (auto simp: acquire_def)
qed

definition sample_rate :: "int rate_lib" where
  "sample_rate = \<lparr>NewLimiter = (\<lambda>_ n. n), Allow = (\<lambda>_ n. if n > 0 then (n - 1, True) else (n, False))\<rparr>"

definition sample_policy :: IngestPolicy where
  "sample_policy = \<lparr>MaxConcurrentAppends = 1, PerProducerRPS = 100, PerProducerBurst = 2, PerAdminRPS = 5, PerAdminBurst = 1, RetryAfter = 1\<rparr>"

theorem appends_in_flight_bounded_witness:
  "\<exists>g. gate_run sample_rate sample_policy g 1 \<and> \<not> snd (acquire g)"
proof -
  let ?g0 = "newIngestGate sample_policy :: int ingestGate"
  obtain g1 where g1: "allowProducer sample_rate 7 ?g0 ''p1'' = (g1, True)" "ig_sem g1 = Some (1, 0)"
    by (simp add: allowProducer_def allow_def newIngestGate_def sample_policy_def sample_rate_def)
  obtain g2 where g2: "acquire g1 = (g2, True)" using g1(2) by (simp add: acquire_def)
  have "gate_run sample_rate sample_policy g2 1"
    using gate_run.admitted [OF gate_run.start g1(1) g2] by simp
  from appends_in_flight_bounded [OF this] this show ?thesis by (auto simp: sample_policy_def)
qed

end
