(* ===== verification/Honeylog.thy ===== *)
theory Honeylog
  imports Http
begin

text \<open>
  The honeypot alarm (\<open>pkg/honeylog/honeylog.go\<close>): alerts and the sinks that deliver them.  A sink is a
  function on the state of the world; the network and the standard error stream are that state.
\<close>

section \<open>Definitions\<close>

record Alert =
  ha_Origin :: string
  ha_EntryIdx :: u64
  ha_LeafHash :: bytes
  ha_CallerIP :: string
  ha_UserAgent :: string
  ha_Path :: string
  ha_Time :: i64
  ha_Note :: string

datatype honey_error = HoEmptyURL | HoMarshal | HoRequest | HoTransport | HoStatus int

type_synonym 'w Sink = "Alert \<Rightarrow> 'w \<Rightarrow> 'w \<times> honey_error option"

text \<open>
  \<open>post\<close> is the HTTP client: \<open>None\<close> when the request cannot be made, otherwise the world after it and
  the status of the reply, if there is one.
\<close>

definition WebhookSink_Fire ::
    "(Alert \<Rightarrow> bytes option) \<Rightarrow> (string \<Rightarrow> bytes \<Rightarrow> ('w \<Rightarrow> 'w \<times> int option) option) \<Rightarrow> string \<Rightarrow> 'w Sink" where
  "WebhookSink_Fire json post url a w =
     (if url = [] then (w, Some HoEmptyURL)
      else case json a of None \<Rightarrow> (w, Some HoMarshal)
      | Some body \<Rightarrow>
          (case post url body of None \<Rightarrow> (w, Some HoRequest)
           | Some send \<Rightarrow>
               (case send w of
                  (w, None) \<Rightarrow> (w, Some HoTransport)
                | (w, Some status) \<Rightarrow> (w, if status div 100 \<noteq> 2 then Some (HoStatus status) else None))))"

fun multi_fire :: "'w Sink list \<Rightarrow> honey_error option \<Rightarrow> 'w Sink" where
  "multi_fire [] firstErr a w = (w, firstErr)"
| "multi_fire (s # ss) firstErr a w =
     (case s a w of (w, r) \<Rightarrow> multi_fire ss (if firstErr = None then r else firstErr) a w)"

definition MultiSink_Fire :: "'w Sink list \<Rightarrow> 'w Sink" where
  "MultiSink_Fire sinks = multi_fire sinks None"

text \<open>\<open>out\<close> is the stream that the sink prints to.\<close>

definition StderrSink_Fire :: "(Alert \<Rightarrow> bytes) \<Rightarrow> (bytes \<Rightarrow> 'w \<Rightarrow> 'w) \<Rightarrow> 'w Sink" where
  "StderrSink_Fire json out a w = (out (of_str ''[HONEYLOG ALERT] '' @ json a @ of_str nl) w, None)"

section \<open>Lemmas\<close>

text \<open>Every sink is fired, in order, whatever the others answered, and the first error is reported.\<close>

lemma multi_fire_world: "fst (multi_fire ss r a w) = fold (\<lambda>s w. fst (s a w)) ss w"
  by (induction ss arbitrary: r w) (simp_all split: prod.splits)

lemma multi_fire_error: "r \<noteq> None \<Longrightarrow> snd (multi_fire ss r a w) = r"
  by (induction ss arbitrary: w) (auto split: prod.splits)

lemma MultiSink_fires_all: "fst (MultiSink_Fire ss a w) = fold (\<lambda>s w. fst (s a w)) ss w"
  by (simp add: MultiSink_Fire_def multi_fire_world)

lemma MultiSink_ok: "snd (MultiSink_Fire ss a w) = None \<longleftrightarrow>
    (\<forall>i < length ss. snd ((ss ! i) a (fold (\<lambda>s w. fst (s a w)) (take i ss) w)) = None)"
  unfolding MultiSink_Fire_def
proof (induction ss arbitrary: w)
  case (Cons s ss)
  obtain w' r where s: "s a w = (w', r)" by force
  show ?case
  proof (cases r)
    case None
    then show ?thesis using Cons.IH [of w'] s by (auto simp: less_Suc_eq_0_disj)
  next
    case (Some e)
    have "snd (multi_fire (s # ss) None a w) = r" using multi_fire_error [of r ss a w'] Some by (simp add: s)
    moreover have "snd (((s # ss) ! 0) a (fold (\<lambda>s w. fst (s a w)) (take 0 (s # ss)) w)) = r" by (simp add: s)
    ultimately show ?thesis using Some by (metis length_greater_0_conv list.discI option.discI)
  qed
qed simp

end
