(* ===== verification/Apiserver.thy ===== *)
theory Apiserver
  imports Ingest Honeylog Readlog Adminlog Verifying
begin

text \<open>
  The HTTP server of the operator (\<open>pkg/api/server.go\<close>, \<open>types.go\<close>): every handler, over the log
  instance, the two journals, the honeypot sink and the ingest guard.  A handler takes the request,
  what decoding its body gave, and the environment of the call (clocks, random bytes, how each write
  to a journal ends, what witnesses and sinks answer); it returns the server and the reply.
\<close>

section \<open>Definitions\<close>

subsection \<open>State\<close>

record ('d, 'r, 'k, 'w, 'l) Server =
  srv_Log :: "('d, 'r, 'k) Log"
  srv_keys :: 'w
  srv_HoneySink :: bool
  srv_alerts :: "Alert list"
  srv_AppendObserver :: bool
  srv_observed :: nat
  srv_RequireClientCertCN :: bool
  srv_ReadLog :: "((string \<rightharpoonup> bytes) \<times> Journal) option"
  srv_AdminLog :: "((string \<rightharpoonup> bytes) \<times> Journal) option"
  srv_gate :: "'l ingestGate"

text \<open>
  \<open>srv_keys\<close> is the world of the key store, \<open>srv_alerts\<close> the alerts handed to the sink (oldest first),
  \<open>srv_observed\<close> how often \<open>AppendObserver\<close> was called; a journal comes with the files of its directory.
  The parameters: JSON for journal events and for the details of an action, and the texts of errors.
\<close>

datatype admin_details =
    DWitness string bytes
  | DProducer bytes string bool
  | DRotate u64 u64
  | DIssue string i64 bool string
  | DConfirm string bool
  | DRevoke string

record api_wire =
  aw_read :: "ReadEvent \<Rightarrow> bytes option"
  aw_read_stream :: "bytes \<Rightarrow> ReadEvent list \<times> bool"
  aw_admin :: "AdminEvent \<Rightarrow> bytes option"
  aw_admin_stream :: "bytes \<Rightarrow> AdminEvent list \<times> bool"
  aw_details :: "admin_details \<Rightarrow> bytes option"
  aw_err :: "core_error \<Rightarrow> string"
  aw_rotate_err :: "fwdsec_error \<Rightarrow> string"

record call_env =
  ev_gate_now :: int
  ev_now :: i64
  ev_now2 :: i64
  ev_alert_now :: i64
  ev_journal_now :: "nat \<Rightarrow> i64"
  ev_journal_out :: "nat \<Rightarrow> append_outcome"
  ev_reads :: "string \<Rightarrow> bool"
  ev_id_rand :: "bytes option"
  ev_nonce_rand :: "bytes option"
  ev_beacon :: "(unit + Beacon option) option"
  ev_now_sec :: i64
  ev_replies :: "Witness list \<Rightarrow> Checkpoint \<Rightarrow> (string \<times> (string + WitnessSig)) list"
  ev_sinks :: "(string \<times> (Checkpoint \<Rightarrow> anchor_error + Record)) list"
  ev_chain_written :: bool

subsection \<open>Limits and the mux\<close>

record Limits =
  AppendBodyBytes :: i64
  AdminBodyBytes :: i64

definition DefaultLimits :: Limits where
  "DefaultLimits = \<lparr>AppendBodyBytes = 64 * 1024, AdminBodyBytes = 256 * 1024\<rparr>"

definition mux_limits :: "Limits \<Rightarrow> Limits" where
  "mux_limits limits =
     (let limits = (if AppendBodyBytes limits = 0 then limits\<lparr>AppendBodyBytes := AppendBodyBytes DefaultLimits\<rparr> else limits)
      in if AdminBodyBytes limits = 0 then limits\<lparr>AdminBodyBytes := AdminBodyBytes DefaultLimits\<rparr> else limits)"

definition zero_policy :: IngestPolicy where
  "zero_policy =
     \<lparr>MaxConcurrentAppends = 0, PerProducerRPS = 0, PerProducerBurst = 0, PerAdminRPS = 0, PerAdminBurst = 0, RetryAfter = 0\<rparr>"

definition NewMux :: "int \<Rightarrow> IngestPolicy \<Rightarrow> ('d, 'r, 'k, 'w, 'l) Server \<Rightarrow> ('d, 'r, 'k, 'w, 'l) Server" where
  "NewMux numCPU pol s = s\<lparr>srv_gate := newIngestGate (if pol = zero_policy then DefaultIngestPolicy numCPU else pol)\<rparr>"

subsection \<open>Who is calling\<close>

definition callerIdentity :: "Request \<Rightarrow> string" where
  "callerIdentity r =
     (case rq_TLS r of
        Some (cn # _) \<Rightarrow> if trim_space cn \<noteq> [] then trim_space cn else trim_space (rq_Admin r)
      | _ \<Rightarrow> trim_space (rq_Admin r))"

text \<open>\<open>strings.LastIndex\<close>; \<open>None\<close> for -1.\<close>

definition last_index :: "char \<Rightarrow> string \<Rightarrow> nat option" where
  "last_index c t = (case index_of c (rev t) of None \<Rightarrow> None | Some i \<Rightarrow> Some (length t - 1 - i))"

definition callerIdentityOrIP :: "Request \<Rightarrow> string" where
  "callerIdentityOrIP r =
     (if callerIdentity r \<noteq> [] then callerIdentity r
      else case last_index (CHR '':'') (rq_RemoteAddr r) of
        Some i \<Rightarrow> if i > 0 then take i (rq_RemoteAddr r) else rq_RemoteAddr r
      | None \<Rightarrow> rq_RemoteAddr r)"

definition rateLimitAdmin ::
    "'l rate_lib \<Rightarrow> call_env \<Rightarrow> Request \<Rightarrow> (('d, 'r, 'k, 'w, 'l) Server \<Rightarrow> ('d, 'r, 'k, 'w, 'l) Server \<times> 'a reply)
      \<Rightarrow> ('d, 'r, 'k, 'w, 'l) Server \<Rightarrow> ('d, 'r, 'k, 'w, 'l) Server \<times> 'a reply" where
  "rateLimitAdmin R E r next s =
     (if rq_Method r \<notin> set [''POST'', ''PUT'', ''DELETE'', ''PATCH''] then next s
      else case allowAdmin R (ev_gate_now E) (srv_gate s) (callerIdentityOrIP r) of
        (g, False) \<Rightarrow> (s\<lparr>srv_gate := g\<rparr>, writeRetryAfter 429 (retryAfterSeconds g))
      | (g, True) \<Rightarrow> next (s\<lparr>srv_gate := g\<rparr>))"

subsection \<open>Journals and alerts\<close>

definition recordRead ::
    "crypto \<Rightarrow> api_wire \<Rightarrow> call_env \<Rightarrow> nat \<Rightarrow> Request \<Rightarrow> u64 \<Rightarrow> bytes \<Rightarrow> string
      \<Rightarrow> ('d, 'r, 'k, 'w, 'l) Server \<Rightarrow> ('d, 'r, 'k, 'w, 'l) Server" where
  "recordRead C A E n r entryIdx leafHash oper s =
     (case srv_ReadLog s of None \<Rightarrow> s
      | Some (files, j) \<Rightarrow>
          (case rl_Append C (aw_read A) (ev_journal_out E n) (ev_journal_now E n) entryIdx leafHash oper
                  (rq_RemoteAddr r) (rq_UserAgent r) files j of
             (files, j, _) \<Rightarrow> s\<lparr>srv_ReadLog := Some (files, j)\<rparr>))"

definition recordAdmin ::
    "crypto \<Rightarrow> api_wire \<Rightarrow> call_env \<Rightarrow> Request \<Rightarrow> string \<Rightarrow> string \<Rightarrow> admin_details \<Rightarrow> string option
      \<Rightarrow> ('d, 'r, 'k, 'w, 'l) Server \<Rightarrow> ('d, 'r, 'k, 'w, 'l) Server" where
  "recordAdmin C A E r action subject details err s =
     (case srv_AdminLog s of None \<Rightarrow> s
      | Some (files, j) \<Rightarrow>
          (case al_Action C (aw_admin A) (ev_journal_out E 0) (ev_journal_now E 0) (Some (aw_details A details))
                  \<lparr>aa_action = action, aa_subject = subject,
                   aa_outcome = (if err = None then ''ok'' else ''error''),
                   aa_err = (case err of None \<Rightarrow> [] | Some t \<Rightarrow> t),
                   aa_actor = callerIdentity r, aa_callerIP = rq_RemoteAddr r, aa_userAgent = rq_UserAgent r\<rparr> files j of
             (files, j, _) \<Rightarrow> s\<lparr>srv_AdminLog := Some (files, j)\<rparr>))"

definition fireHoney ::
    "call_env \<Rightarrow> Request \<Rightarrow> u64 \<Rightarrow> bytes \<Rightarrow> string \<Rightarrow> ('d, 'r, 'k, 'w, 'l) Server \<Rightarrow> ('d, 'r, 'k, 'w, 'l) Server" where
  "fireHoney E r idx leafHash note s =
     (if \<not> srv_HoneySink s then s
      else s\<lparr>srv_alerts := srv_alerts s @
        [\<lparr>ha_Origin = sg_origin (csg_fws (lg_signer (srv_Log s))), ha_EntryIdx = idx, ha_LeafHash = leafHash,
          ha_CallerIP = rq_RemoteAddr r, ha_UserAgent = rq_UserAgent r, ha_Path = rq_Path r,
          ha_Time = ev_alert_now E, ha_Note = note\<rparr>]\<rparr>)"

subsection \<open>Appending\<close>

record AppendRequest =
  ar_Envelope :: "Envelope option"
  ar_Honeypot :: bool

text \<open>
  \<open>defer s.gate.release()\<close> runs after an \<open>acquire\<close> that succeeded, so that the channel is not empty.
\<close>

definition released :: "('d, 'r, 'k, 'w, 'l) Server \<Rightarrow> ('d, 'r, 'k, 'w, 'l) Server" where
  "released s = (case release (srv_gate s) of None \<Rightarrow> s | Some g \<Rightarrow> s\<lparr>srv_gate := g\<rparr>)"

text \<open>A panic of the log instance leaves the client without a reply; other errors have the status.\<close>

definition writeErr :: "nat \<Rightarrow> core_error \<Rightarrow> 'a reply" where
  "writeErr status err = (if err = CoPanic then HttpNothing else HttpErr status)"

definition client_cert_error :: "('d, 'r, 'k, 'w, 'l) Server \<Rightarrow> Request \<Rightarrow> Envelope \<Rightarrow> nat option" where
  "client_cert_error s r env =
     (if \<not> srv_RequireClientCertCN s then None
      else case rq_TLS r of
        Some (cn # _) \<Rightarrow> if trim_space cn \<noteq> env_ProducerID env then Some 403 else None
      | _ \<Rightarrow> Some 401)"

definition handleAppend ::
    "('d, 'r, 'n, 'w, 'k) sys \<Rightarrow> 'l rate_lib \<Rightarrow> call_env \<Rightarrow> Request \<Rightarrow> body_error + AppendRequest
      \<Rightarrow> ('d, 'r, 'k, 'w, 'l) Server \<Rightarrow> ('d, 'r, 'k, 'w, 'l) Server \<times> Entry reply" where
  "handleAppend P R E r body s =
     (if rq_Method r \<noteq> ''POST'' then (s, HttpErr 405)
      else case body of Inl e \<Rightarrow> (s, writeBodyErr e)
      | Inr req \<Rightarrow>
     (case ar_Envelope req of None \<Rightarrow> (s, HttpErr 400)
      | Some env \<Rightarrow>
     (case client_cert_error s r env of Some status \<Rightarrow> (s, HttpErr status)
      | None \<Rightarrow>
     (case allowProducer R (ev_gate_now E) (srv_gate s) (env_ProducerID env) of
        (g, False) \<Rightarrow> (s\<lparr>srv_gate := g\<rparr>, writeRetryAfter 429 (retryAfterSeconds g))
      | (g, True) \<Rightarrow>
     (case acquire g of
        (g, False) \<Rightarrow> (s\<lparr>srv_gate := g\<rparr>, writeRetryAfter 503 (retryAfterSeconds g))
      | (g, True) \<Rightarrow>
          let s = s\<lparr>srv_gate := g\<rparr>
          in case AppendCtx P (ev_now E) (ev_now2 E) (srv_Log s) (Some env) (ar_Honeypot req) of
               (l, Inl err) \<Rightarrow> (released (s\<lparr>srv_Log := l\<rparr>), writeErr 400 err)
             | (l, Inr entry) \<Rightarrow>
                 let s = s\<lparr>srv_Log := l\<rparr>; s = (if srv_AppendObserver s then s\<lparr>srv_observed := srv_observed s + 1\<rparr> else s)
                 in (released s, HttpOk entry))))))"

subsection \<open>Reading the journals\<close>

definition handleReadLogSize :: "Request \<Rightarrow> ('d, 'r, 'k, 'w, 'l) Server \<Rightarrow> (u64 \<times> bytes) reply" where
  "handleReadLogSize r s =
     (if rq_Method r \<noteq> ''GET'' then HttpErr 405
      else case srv_ReadLog s of None \<Rightarrow> HttpErr 404 | Some (_, j) \<Rightarrow> HttpOk (rl_Size j, jn_pub j))"

definition query_range :: "Request \<Rightarrow> (u64 \<times> u64) option" where
  "query_range r =
     (case parseUint (rq_Query r ''from'') of None \<Rightarrow> None
      | Some lo \<Rightarrow> (case parseUint (rq_Query r ''to'') of None \<Rightarrow> None | Some hi \<Rightarrow> Some (lo, hi)))"

definition handleReadLogRange ::
    "api_wire \<Rightarrow> call_env \<Rightarrow> Request \<Rightarrow> ('d, 'r, 'k, 'w, 'l) Server \<Rightarrow> ReadEvent list reply" where
  "handleReadLogRange A E r s =
     (if rq_Method r \<noteq> ''GET'' then HttpErr 405
      else case srv_ReadLog s of None \<Rightarrow> HttpErr 404
      | Some (files, j) \<Rightarrow>
          (case query_range r of None \<Rightarrow> HttpErr 400
           | Some (lo, hi) \<Rightarrow>
               (case rl_Range (aw_read_stream A) (ev_reads E) files lo hi of
                  Inl _ \<Rightarrow> HttpErr 400 | Inr events \<Rightarrow> HttpOk events)))"

definition handleAdminLogSize :: "Request \<Rightarrow> ('d, 'r, 'k, 'w, 'l) Server \<Rightarrow> (u64 \<times> bytes \<times> bytes) reply" where
  "handleAdminLogSize r s =
     (if rq_Method r \<noteq> ''GET'' then HttpErr 405
      else case srv_AdminLog s of None \<Rightarrow> HttpErr 404 | Some (_, j) \<Rightarrow> HttpOk (al_Size j, jn_pub j, jn_qPub j))"

definition handleAdminLogRange ::
    "api_wire \<Rightarrow> call_env \<Rightarrow> Request \<Rightarrow> ('d, 'r, 'k, 'w, 'l) Server \<Rightarrow> AdminEvent list reply" where
  "handleAdminLogRange A E r s =
     (if rq_Method r \<noteq> ''GET'' then HttpErr 405
      else case srv_AdminLog s of None \<Rightarrow> HttpErr 404
      | Some (files, j) \<Rightarrow>
          (case query_range r of None \<Rightarrow> HttpErr 400
           | Some (lo, hi) \<Rightarrow>
               (case al_Range (aw_admin_stream A) (ev_reads E) files j lo hi of
                  Inl _ \<Rightarrow> HttpErr 400 | Inr events \<Rightarrow> HttpOk events)))"

subsection \<open>Reading the log\<close>

definition entries_prefix :: string where
  "entries_prefix = ''/api/v0/entries/''"

text \<open>\<open>strings.TrimPrefix\<close>.\<close>

definition trim_prefix :: "string \<Rightarrow> string \<Rightarrow> string" where
  "trim_prefix pre t = (if take (length pre) t = pre then drop (length pre) t else t)"

text \<open>What is done for one entry that is served: the alert, then the record of the read.\<close>

definition serve_entry ::
    "crypto \<Rightarrow> api_wire \<Rightarrow> call_env \<Rightarrow> nat \<Rightarrow> Request \<Rightarrow> string \<Rightarrow> string \<Rightarrow> Entry
      \<Rightarrow> ('d, 'r, 'k, 'w, 'l) Server \<Rightarrow> ('d, 'r, 'k, 'w, 'l) Server" where
  "serve_entry C A E n r note oper e s =
     (let s = (if ent_Honeypot e then fireHoney E r (ent_Index e) (ent_LeafHash e) note s else s)
      in recordRead C A E n r (ent_Index e) (ent_LeafHash e) oper s)"

definition handleGetEntry ::
    "('d, 'r, 'n, 'w, 'k) sys \<Rightarrow> api_wire \<Rightarrow> call_env \<Rightarrow> Request
      \<Rightarrow> ('d, 'r, 'k, 'w, 'l) Server \<Rightarrow> ('d, 'r, 'k, 'w, 'l) Server \<times> Entry reply" where
  "handleGetEntry P A E r s =
     (if rq_Method r \<noteq> ''GET'' then (s, HttpErr 405)
      else let idxStr = trim_prefix entries_prefix (rq_Path r)
      in if idxStr = [] \<or> CHR ''/'' \<in> set idxStr then (s, HttpErr 400)
      else case parseUint idxStr of None \<Rightarrow> (s, HttpErr 400)
      | Some idx \<Rightarrow>
          (case core_Get P (srv_Log s) idx of Inl _ \<Rightarrow> (s, HttpErr 404)
           | Inr entry \<Rightarrow> (serve_entry (sys_crypto P) A E 0 r ''GET /entries/{idx}'' ''get_entry'' entry s, HttpOk entry)))"

function range_entries ::
    "('d, 'r, 'n, 'w, 'k) sys \<Rightarrow> api_wire \<Rightarrow> call_env \<Rightarrow> Request \<Rightarrow> u64 \<Rightarrow> nat \<Rightarrow> u64
      \<Rightarrow> ('d, 'r, 'k, 'w, 'l) Server \<Rightarrow> ('d, 'r, 'k, 'w, 'l) Server \<times> Entry list" where
  "range_entries P A E r hi n i s =
     (if \<not> i < hi then (s, [])
      else case core_Get P (srv_Log s) i of Inl _ \<Rightarrow> (s, [])
      | Inr e \<Rightarrow>
          (case range_entries P A E r hi (n + 1) (i + 1)
                  (serve_entry (sys_crypto P) A E n r ''GET /entries?from=..&to=..'' ''range_entry'' e s) of
             (s, es) \<Rightarrow> (s, e # es)))"
  by pat_completeness auto
termination
  by (relation "measure (\<lambda>(P, A, E, r, hi, n, i, s). unat hi - unat i)") (auto simp: unat_plus_one word_less_nat_alt)

definition handleEntriesRange ::
    "('d, 'r, 'n, 'w, 'k) sys \<Rightarrow> api_wire \<Rightarrow> call_env \<Rightarrow> Request
      \<Rightarrow> ('d, 'r, 'k, 'w, 'l) Server \<Rightarrow> ('d, 'r, 'k, 'w, 'l) Server \<times> (Entry list \<times> u64 \<times> u64) reply" where
  "handleEntriesRange P A E r s =
     (if rq_Method r \<noteq> ''GET'' then (s, HttpErr 405)
      else case query_range r of None \<Rightarrow> (s, HttpErr 400)
      | Some (lo, hi) \<Rightarrow>
          if hi \<le> lo then (s, HttpErr 400)
          else if hi - lo > 10000 then (s, HttpErr 400)
          else (case range_entries P A E r hi 0 lo s of (s, es) \<Rightarrow> (s, HttpOk (es, lo, hi))))"

declare range_entries.simps [simp del]

record SizeResponse =
  sz_Size :: u64
  sz_RootHash :: bytes
  sz_HeadHash :: bytes

definition handleSize ::
    "('d, 'r, 'n, 'w, 'k) sys \<Rightarrow> Request \<Rightarrow> ('d, 'r, 'k, 'w, 'l) Server \<Rightarrow> SizeResponse reply" where
  "handleSize P r s =
     (if rq_Method r \<noteq> ''GET'' then HttpErr 405
      else case core_Root P (srv_Log s) of Inl _ \<Rightarrow> HttpNothing
      | Inr rootHash \<Rightarrow>
          HttpOk \<lparr>sz_Size = core_Size P (srv_Log s), sz_RootHash = rootHash,
                  sz_HeadHash = (case core_LatestCheckpoint P (srv_Log s) of Inr (Some c) \<Rightarrow> cp_HeadHash c | _ \<Rightarrow> [])\<rparr>)"

definition handleCheckpoint ::
    "('d, 'r, 'n, 'w, 'k) sys \<Rightarrow> call_env \<Rightarrow> Request
      \<Rightarrow> ('d, 'r, 'k, 'w, 'l) Server \<Rightarrow> ('d, 'r, 'k, 'w, 'l) Server \<times> Checkpoint reply" where
  "handleCheckpoint P E r s =
     (if rq_Method r = ''GET'' then
        (case core_LatestCheckpoint P (srv_Log s) of
           Inl err \<Rightarrow> (s, writeErr 500 err)
         | Inr None \<Rightarrow> (s, HttpErr 404)
         | Inr (Some c) \<Rightarrow> (s, HttpOk c))
      else if rq_Method r = ''POST'' then
        (case CheckpointCtx P (srv_keys s) (ev_beacon E) (ev_now_sec E) (ev_now E) (ev_replies E) (srv_Log s) of
           (l, Inl err) \<Rightarrow> (s\<lparr>srv_Log := l\<rparr>, writeErr 500 err)
         | (l, Inr c) \<Rightarrow> (s\<lparr>srv_Log := l\<rparr>, HttpOk c))
      else (s, HttpErr 405))"

text \<open>The number of records is what the handler looks at; \<open>names\<close> are the names of the sinks.\<close>

definition handleAnchor ::
    "('d, 'r, 'n, 'w, 'k) sys \<Rightarrow> call_env \<Rightarrow> Request
      \<Rightarrow> ('d, 'r, 'k, 'w, 'l) Server \<Rightarrow> ('d, 'r, 'k, 'w, 'l) Server \<times> (string \<rightharpoonup> Record) reply" where
  "handleAnchor P E r s =
     (if rq_Method r \<noteq> ''POST'' then (s, HttpErr 405)
      else case core_Anchor P (ev_sinks E) (srv_Log s) of
        (l, recs, err) \<Rightarrow>
          (s\<lparr>srv_Log := l\<rparr>,
           case err of None \<Rightarrow> HttpOk recs
           | Some e \<Rightarrow> if list_all (\<lambda>(name, _). recs name = None) (ev_sinks E) then writeErr 500 e else HttpOk recs))"

record InclusionProofResponse =
  ip_Index :: u64
  ip_TreeSize :: u64
  ip_LeafHash :: bytes
  ip_Proof :: "bytes list"
  ip_RootHash :: bytes

text \<open>An optional size in the query, with the current size as its default.\<close>

definition query_size :: "Request \<Rightarrow> string \<Rightarrow> u64 \<Rightarrow> u64 option" where
  "query_size r name current = (if rq_Query r name = [] then Some current else parseUint (rq_Query r name))"

definition handleInclusionProof ::
    "('d, 'r, 'n, 'w, 'k) sys \<Rightarrow> Request
      \<Rightarrow> ('d, 'r, 'k, 'w, 'l) Server \<Rightarrow> ('d, 'r, 'k, 'w, 'l) Server \<times> InclusionProofResponse reply" where
  "handleInclusionProof P r s =
     (if rq_Method r \<noteq> ''GET'' then (s, HttpErr 405)
      else case parseUint (rq_Query r ''index'') of None \<Rightarrow> (s, HttpErr 400)
      | Some idx \<Rightarrow>
     (case query_size r ''tree_size'' (core_Size P (srv_Log s)) of None \<Rightarrow> (s, HttpErr 400)
      | Some treeSize \<Rightarrow>
     (case core_Get P (srv_Log s) idx of Inl _ \<Rightarrow> (s, HttpErr 404)
      | Inr entry \<Rightarrow>
     (case core_InclusionProof P (srv_Log s) idx treeSize of None \<Rightarrow> (s, HttpNothing)
      | Some (l, Inl err) \<Rightarrow> (s\<lparr>srv_Log := l\<rparr>, if err = MkPanic then HttpNothing else HttpErr 400)
      | Some (l, Inr proofHashes) \<Rightarrow>
     (case core_Root P l of Inl _ \<Rightarrow> (s\<lparr>srv_Log := l\<rparr>, HttpNothing)
      | Inr rootHash \<Rightarrow>
          if treeSize \<noteq> core_Size P l then (s\<lparr>srv_Log := l\<rparr>, HttpErr 501)
          else (s\<lparr>srv_Log := l\<rparr>,
                HttpOk \<lparr>ip_Index = idx, ip_TreeSize = treeSize, ip_LeafHash = ent_LeafHash entry,
                        ip_Proof = proofHashes, ip_RootHash = rootHash\<rparr>))))))"

record ConsistencyProofResponse =
  co_OldSize :: u64
  co_NewSize :: u64
  co_OldRoot :: bytes
  co_NewRoot :: bytes
  co_Proof :: "bytes list"

definition handleConsistencyProof ::
    "('d, 'r, 'n, 'w, 'k) sys \<Rightarrow> Request
      \<Rightarrow> ('d, 'r, 'k, 'w, 'l) Server \<Rightarrow> ('d, 'r, 'k, 'w, 'l) Server \<times> ConsistencyProofResponse reply" where
  "handleConsistencyProof P r s =
     (if rq_Method r \<noteq> ''GET'' then (s, HttpErr 405)
      else case parseUint (rq_Query r ''old'') of None \<Rightarrow> (s, HttpErr 400)
      | Some oldSize \<Rightarrow>
     (case query_size r ''new'' (core_Size P (srv_Log s)) of None \<Rightarrow> (s, HttpErr 400)
      | Some newSize \<Rightarrow>
          if newSize \<noteq> core_Size P (srv_Log s) then (s, HttpErr 501)
          else
     (case core_ConsistencyProof P (srv_Log s) oldSize newSize of None \<Rightarrow> (s, HttpNothing)
      | Some (l, Inl err) \<Rightarrow> (s\<lparr>srv_Log := l\<rparr>, if err = MkPanic then HttpNothing else HttpErr 400)
      | Some (l, Inr proofHashes) \<Rightarrow>
     (case core_Root P l of Inl _ \<Rightarrow> (s\<lparr>srv_Log := l\<rparr>, HttpNothing)
      | Inr newRoot \<Rightarrow>
          let oldRoot = (case core_LatestCheckpoint P l of
                           Inr (Some c) \<Rightarrow> if cp_Size c = oldSize then cp_RootHash c else []
                         | _ \<Rightarrow> [])
          in (s\<lparr>srv_Log := l\<rparr>,
              HttpOk \<lparr>co_OldSize = oldSize, co_NewSize = newSize, co_OldRoot = oldRoot, co_NewRoot = newRoot,
                      co_Proof = proofHashes\<rparr>)))))"

subsection \<open>Keys\<close>

abbreviation srv_chain :: "('d, 'r, 'k, 'w, 'l) Server \<Rightarrow> Chain" where
  "srv_chain s \<equiv> sg_chain (csg_fws (lg_signer (srv_Log s)))"

record PubKeyResponse =
  pk_Origin :: string
  pk_RootPublicKey :: bytes
  pk_ActiveEpoch :: u64
  pk_ActiveKeyID :: string

definition handlePubKey :: "Request \<Rightarrow> ('d, 'r, 'k, 'w, 'l) Server \<Rightarrow> PubKeyResponse reply" where
  "handlePubKey r s =
     (if rq_Method r \<noteq> ''GET'' then HttpErr 405
      else HttpOk \<lparr>pk_Origin = sg_origin (csg_fws (lg_signer (srv_Log s))), pk_RootPublicKey = RootPublicKey (srv_chain s),
             pk_ActiveEpoch = ActiveEpoch (srv_chain s), pk_ActiveKeyID = hex (take 8 (sha256 (ActivePublicKey (srv_chain s))))\<rparr>)"

definition handleKeyChain :: "Request \<Rightarrow> ('d, 'r, 'k, 'w, 'l) Server \<Rightarrow> Chain reply" where
  "handleKeyChain r s = (if rq_Method r \<noteq> ''GET'' then HttpErr 405 else HttpOk (srv_chain s))"

definition handleThresholdGroup :: "Request \<Rightarrow> ('d, 'r, 'k, 'w, 'l) Server \<Rightarrow> Group option reply" where
  "handleThresholdGroup r s =
     (if rq_Method r \<noteq> ''GET'' then HttpErr 405 else HttpOk (csg_threshGroup (lg_signer (srv_Log s))))"

definition handleRotate ::
    "('d, 'r, 'n, 'w, 'k) sys \<Rightarrow> api_wire \<Rightarrow> call_env \<Rightarrow> Request
      \<Rightarrow> ('d, 'r, 'k, 'w, 'l) Server \<Rightarrow> ('d, 'r, 'k, 'w, 'l) Server \<times> Chain reply" where
  "handleRotate P A E r s =
     (if rq_Method r \<noteq> ''POST'' then (s, HttpErr 405)
      else let preEpoch = ActiveEpoch (srv_chain s)
      in case core_Rotate P (ev_now E) (ev_chain_written E) (srv_keys s) (srv_Log s) of
        (w, l, err) \<Rightarrow>
          let s = s\<lparr>srv_keys := w, srv_Log := l\<rparr>;
              s = recordAdmin (sys_crypto P) A E r ''rotate'' [] (DRotate preEpoch (ActiveEpoch (srv_chain s)))
                    (map_option (aw_rotate_err A) err) s
          in (s, if err \<noteq> None then HttpErr 500 else HttpOk (srv_chain s)))"

subsection \<open>Witnesses and producers\<close>

definition handleWitnesses ::
    "('d, 'r, 'n, 'w, 'k) sys \<Rightarrow> api_wire \<Rightarrow> call_env \<Rightarrow> Request \<Rightarrow> body_error + Witness option
      \<Rightarrow> ('d, 'r, 'k, 'w, 'l) Server \<Rightarrow> ('d, 'r, 'k, 'w, 'l) Server \<times> Witness list reply" where
  "handleWitnesses P A E r body s =
     (if rq_Method r = ''GET'' then
        (s, case core_ListWitnesses P (srv_Log s) of (ws, None) \<Rightarrow> HttpOk ws | (_, Some _) \<Rightarrow> HttpErr 500)
      else if rq_Method r = ''POST'' then
        (case body of Inl e \<Rightarrow> (s, writeBodyErr e)
         | Inr None \<Rightarrow> (s, HttpErr 400)
         | Inr (Some w) \<Rightarrow>
             if wi_ID w = [] then (s, HttpErr 400)
             else let w = w\<lparr>wi_AddedAt := ev_now E\<rparr>
             in case core_RegisterWitness P (srv_Log s) (Some w) of
               (l, err) \<Rightarrow>
                 (recordAdmin (sys_crypto P) A E r ''witness_add'' (wi_ID w) (DWitness (wi_URL w) (wi_PublicKey w))
                    (map_option (aw_err A) err) (s\<lparr>srv_Log := l\<rparr>),
                  case err of Some e \<Rightarrow> writeErr 400 e | None \<Rightarrow> HttpOk [w]))
      else (s, HttpErr 405))"

definition list_producers :: "('d, 'r, 'n, 'w, 'k) sys \<Rightarrow> (Producer \<Rightarrow> bool) \<Rightarrow> ('d, 'r, 'k, 'w, 'l) Server \<Rightarrow> Producer list reply" where
  "list_producers P keep s =
     (case core_ListProducers P (srv_Log s) (\<lambda>out p. (if keep p then out @ [p] else out, None :: unit option)) [] of
        (ps, None) \<Rightarrow> HttpOk ps | (_, Some _) \<Rightarrow> HttpErr 500)"

text \<open>The reply shows the record as \<open>RegisterProducer\<close> has left it.\<close>

definition handleProducers ::
    "('d, 'r, 'n, 'w, 'k) sys \<Rightarrow> api_wire \<Rightarrow> call_env \<Rightarrow> Request \<Rightarrow> body_error + Producer option
      \<Rightarrow> ('d, 'r, 'k, 'w, 'l) Server \<Rightarrow> ('d, 'r, 'k, 'w, 'l) Server \<times> Producer list reply" where
  "handleProducers P A E r body s =
     (if rq_Method r = ''GET'' then (s, list_producers P (\<lambda>_. True) s)
      else if rq_Method r = ''POST'' then
        (case body of Inl e \<Rightarrow> (s, writeBodyErr e)
         | Inr None \<Rightarrow> (s, HttpErr 400)
         | Inr (Some p) \<Rightarrow>
             if pr_ID p = [] then (s, HttpErr 400)
             else let shown = fst (snd (RegisterProducer (sys_db P) (sys_wire P) (ev_now E) (lg_store (srv_Log s)) (Some p)))
             in case core_RegisterProducer P (ev_now E) (srv_Log s) (Some p) of
               (l, err) \<Rightarrow>
                 (recordAdmin (sys_crypto P) A E r ''producer_register'' (pr_ID p)
                    (DProducer (pr_PublicKey p) (pr_AttestationType p) (pr_QuantumPublicKey p \<noteq> []))
                    (map_option (aw_err A) err) (s\<lparr>srv_Log := l\<rparr>),
                  case err of Some e \<Rightarrow> writeErr 400 e | None \<Rightarrow> HttpOk (case shown of None \<Rightarrow> [] | Some q \<Rightarrow> [q])))
      else (s, HttpErr 405))"

record RevokeProducerRequest =
  rp_ID :: string
  rp_Reason :: string

definition handleRevokeProducer ::
    "('d, 'r, 'n, 'w, 'k) sys \<Rightarrow> api_wire \<Rightarrow> call_env \<Rightarrow> Request \<Rightarrow> body_error + RevokeProducerRequest
      \<Rightarrow> ('d, 'r, 'k, 'w, 'l) Server \<Rightarrow> ('d, 'r, 'k, 'w, 'l) Server \<times> string reply" where
  "handleRevokeProducer P A E r body s =
     (if rq_Method r \<noteq> ''POST'' then (s, HttpErr 405)
      else case body of Inl e \<Rightarrow> (s, writeBodyErr e)
      | Inr req \<Rightarrow>
          if rp_ID req = [] then (s, HttpErr 400)
          else (case core_RevokeProducer P (ev_now E) (srv_Log s) (rp_ID req) (rp_Reason req) of
                  (l, err) \<Rightarrow>
                    (recordAdmin (sys_crypto P) A E r ''producer_revoke'' (rp_ID req) (DRevoke (rp_Reason req))
                       (map_option (aw_err A) err) (s\<lparr>srv_Log := l\<rparr>),
                     case err of Some e \<Rightarrow> writeErr 400 e | None \<Rightarrow> HttpOk (rp_ID req))))"

subsection \<open>Enrollment\<close>

record api_EnrollmentRequest =
  eq_ID :: string
  eq_PublicKey :: bytes
  eq_QuantumPublicKey :: bytes
  eq_AttestationType :: string
  eq_Description :: string
  eq_Scope :: string
  eq_ValiditySeconds :: i64

text \<open>\<open>time.Duration(req.ValiditySeconds) * time.Second\<close> wraps at 64 bits.\<close>

definition core_request :: "api_EnrollmentRequest \<Rightarrow> EnrollmentRequest" where
  "core_request req =
     \<lparr>er_ID = eq_ID req, er_PublicKey = eq_PublicKey req, er_QuantumPublicKey = eq_QuantumPublicKey req,
      er_AttestationType = eq_AttestationType req, er_Description = eq_Description req, er_Scope = eq_Scope req,
      er_Validity = eq_ValiditySeconds req * 1000000000\<rparr>"

definition handleEnrollments ::
    "('d, 'r, 'n, 'w, 'k) sys \<Rightarrow> api_wire \<Rightarrow> call_env \<Rightarrow> Request \<Rightarrow> body_error + api_EnrollmentRequest
      \<Rightarrow> ('d, 'r, 'k, 'w, 'l) Server \<Rightarrow> ('d, 'r, 'k, 'w, 'l) Server \<times> Producer list reply" where
  "handleEnrollments P A E r body s =
     (if rq_Method r = ''GET'' then (s, list_producers P HasEnrollment s)
      else if rq_Method r = ''POST'' then
        (case body of Inl e \<Rightarrow> (s, writeBodyErr e)
         | Inr req \<Rightarrow>
             if eq_ID req = [] \<or> length (eq_PublicKey req) = 0 then (s, HttpErr 400)
             else (case IssueEnrollment P (srv_keys s) (ev_now E) (ev_now2 E) (srv_Log s) (core_request req) of
                (l, res) \<Rightarrow>
                  (recordAdmin (sys_crypto P) A E r ''enrollment_issue'' (eq_ID req)
                     (DIssue (eq_Scope req) (eq_ValiditySeconds req) (0 < length (eq_QuantumPublicKey req)) (eq_AttestationType req))
                     (case res of Inl e \<Rightarrow> Some (aw_err A e) | Inr _ \<Rightarrow> None) (s\<lparr>srv_Log := l\<rparr>),
                   case res of Inl e \<Rightarrow> writeErr 400 e | Inr pd \<Rightarrow> HttpOk [pd])))
      else (s, HttpErr 405))"

definition handleEnrollmentsBegin ::
    "call_env \<Rightarrow> Request \<Rightarrow> body_error + api_EnrollmentRequest
      \<Rightarrow> ('d, 'r, 'k, 'w, 'l) Server \<Rightarrow> ('d, 'r, 'k, 'w, 'l) Server \<times> BeginEnrollmentResult reply" where
  "handleEnrollmentsBegin E r body s =
     (if rq_Method r \<noteq> ''POST'' then (s, HttpErr 405)
      else case body of Inl e \<Rightarrow> (s, writeBodyErr e)
      | Inr req \<Rightarrow>
          if eq_ID req = [] \<or> length (eq_PublicKey req) = 0 then (s, HttpErr 400)
          else (case BeginEnrollment (ev_id_rand E) (ev_nonce_rand E) (ev_now E) (ev_now2 E) (srv_Log s) (core_request req) of
                  (l, Inl err) \<Rightarrow> (s\<lparr>srv_Log := l\<rparr>, writeErr 400 err)
                | (l, Inr res) \<Rightarrow> (s\<lparr>srv_Log := l\<rparr>, HttpOk res)))"

record ConfirmEnrollmentRequest =
  cq_ChallengeID :: string
  cq_Signature :: bytes
  cq_QuantumSignature :: bytes

definition handleEnrollmentsConfirm ::
    "('d, 'r, 'n, 'w, 'k) sys \<Rightarrow> api_wire \<Rightarrow> call_env \<Rightarrow> Request \<Rightarrow> body_error + ConfirmEnrollmentRequest
      \<Rightarrow> ('d, 'r, 'k, 'w, 'l) Server \<Rightarrow> ('d, 'r, 'k, 'w, 'l) Server \<times> Producer reply" where
  "handleEnrollmentsConfirm P A E r body s =
     (if rq_Method r \<noteq> ''POST'' then (s, HttpErr 405)
      else case body of Inl e \<Rightarrow> (s, writeBodyErr e)
      | Inr req \<Rightarrow>
          if cq_ChallengeID req = [] \<or> length (cq_Signature req) = 0 then (s, HttpErr 400)
          else (case ConfirmEnrollment P (srv_keys s) (ev_now E) (ev_now2 E) (srv_Log s) (cq_ChallengeID req) (cq_Signature req)
                       (cq_QuantumSignature req) of
             (l, res) \<Rightarrow>
               (recordAdmin (sys_crypto P) A E r ''enrollment_confirm'' (case res of Inr pd \<Rightarrow> pr_ID pd | Inl _ \<Rightarrow> [])
                  (DConfirm (cq_ChallengeID req) (case res of Inr pd \<Rightarrow> 0 < length (pr_QuantumPublicKey pd) | Inl _ \<Rightarrow> False))
                  (case res of Inl e \<Rightarrow> Some (aw_err A e) | Inr _ \<Rightarrow> None) (s\<lparr>srv_Log := l\<rparr>),
                case res of Inl e \<Rightarrow> writeErr 400 e | Inr pd \<Rightarrow> HttpOk pd)))"

subsection \<open>The routes\<close>

text \<open>
  The routes of \<open>NewMux\<close>, each with the decoded body where its handler reads one.  \<open>served\<close> keeps of a
  reply whether it is a success.
\<close>

datatype api_route =
    RtAppend "body_error + AppendRequest"
  | RtEntry
  | RtEntries
  | RtSize
  | RtInclusion
  | RtConsistency
  | RtPubKey
  | RtKeyChain
  | RtThresholdGroup
  | RtReadLogSize
  | RtReadLogEvents
  | RtAdminLogSize
  | RtAdminLogEvents
  | RtCheckpoint
  | RtAnchor
  | RtRotate
  | RtProducers "body_error + Producer option"
  | RtWitnesses "body_error + Witness option"
  | RtEnrollments "body_error + api_EnrollmentRequest"
  | RtEnrollmentsBegin "body_error + api_EnrollmentRequest"
  | RtEnrollmentsConfirm "body_error + ConfirmEnrollmentRequest"
  | RtRevoke "body_error + RevokeProducerRequest"

fun is_ok :: "'a reply \<Rightarrow> bool" where
  "is_ok (HttpOk _) = True"
| "is_ok _ = False"

definition served :: "('d, 'r, 'k, 'w, 'l) Server \<times> 'a reply \<Rightarrow> ('d, 'r, 'k, 'w, 'l) Server \<times> bool" where
  "served x = (fst x, is_ok (snd x))"

primrec mux_serve ::
    "('d, 'r, 'n, 'w, 'k) sys \<Rightarrow> api_wire \<Rightarrow> 'l rate_lib \<Rightarrow> call_env \<Rightarrow> Request \<Rightarrow> api_route
      \<Rightarrow> ('d, 'r, 'k, 'w, 'l) Server \<Rightarrow> ('d, 'r, 'k, 'w, 'l) Server \<times> bool" where
  "mux_serve P A R E r (RtAppend b) s = served (handleAppend P R E r b s)"
| "mux_serve P A R E r RtEntry s = served (handleGetEntry P A E r s)"
| "mux_serve P A R E r RtEntries s = served (handleEntriesRange P A E r s)"
| "mux_serve P A R E r RtSize s = served (s, handleSize P r s)"
| "mux_serve P A R E r RtInclusion s = served (handleInclusionProof P r s)"
| "mux_serve P A R E r RtConsistency s = served (handleConsistencyProof P r s)"
| "mux_serve P A R E r RtPubKey s = served (s, handlePubKey r s)"
| "mux_serve P A R E r RtKeyChain s = served (s, handleKeyChain r s)"
| "mux_serve P A R E r RtThresholdGroup s = served (s, handleThresholdGroup r s)"
| "mux_serve P A R E r RtReadLogSize s = served (s, handleReadLogSize r s)"
| "mux_serve P A R E r RtReadLogEvents s = served (s, handleReadLogRange A E r s)"
| "mux_serve P A R E r RtAdminLogSize s = served (s, handleAdminLogSize r s)"
| "mux_serve P A R E r RtAdminLogEvents s = served (s, handleAdminLogRange A E r s)"
| "mux_serve P A R E r RtCheckpoint s = served (rateLimitAdmin R E r (handleCheckpoint P E r) s)"
| "mux_serve P A R E r RtAnchor s = served (rateLimitAdmin R E r (handleAnchor P E r) s)"
| "mux_serve P A R E r RtRotate s = served (rateLimitAdmin R E r (handleRotate P A E r) s)"
| "mux_serve P A R E r (RtProducers b) s = served (rateLimitAdmin R E r (handleProducers P A E r b) s)"
| "mux_serve P A R E r (RtWitnesses b) s = served (rateLimitAdmin R E r (handleWitnesses P A E r b) s)"
| "mux_serve P A R E r (RtEnrollments b) s = served (rateLimitAdmin R E r (handleEnrollments P A E r b) s)"
| "mux_serve P A R E r (RtEnrollmentsBegin b) s = served (rateLimitAdmin R E r (handleEnrollmentsBegin E r b) s)"
| "mux_serve P A R E r (RtEnrollmentsConfirm b) s = served (rateLimitAdmin R E r (handleEnrollmentsConfirm P A E r b) s)"
| "mux_serve P A R E r (RtRevoke b) s = served (rateLimitAdmin R E r (handleRevokeProducer P A E r b) s)"

end
