(* ===== verification/Service.thy ===== *)
theory Service
  imports Apiserver
begin

text \<open>
  What the HTTP service promises.  Every request does to the log the operation it stands for, or nothing
  (\<open>api_refines_core\<close>), so what is proved of the log holds of the service; the replies are right;
  reads leave a trace while the journal can be written; and how far the limits of the guard go.
\<close>

section \<open>What a request stands for\<close>

text \<open>The operations of \<open>core.Log\<close> that the service can call, with their arguments.\<close>

datatype core_op =
    OpAppend Envelope bool
  | OpRegisterProducer Producer
  | OpRevokeProducer string string
  | OpIssueEnrollment EnrollmentRequest
  | OpBeginEnrollment EnrollmentRequest
  | OpConfirmEnrollment string bytes bytes
  | OpRegisterWitness Witness
  | OpCheckpoint
  | OpAnchor
  | OpInclusionProof u64 u64
  | OpConsistencyProof u64 u64
  | OpRotate

text \<open>The log after an operation, with the clocks, the random values and the replies of the call.\<close>

primrec core_apply ::
    "('d, 'r, 'n, 'w, 'k) sys \<Rightarrow> call_env \<Rightarrow> 'w \<Rightarrow> core_op \<Rightarrow> ('d, 'r, 'k) Log \<Rightarrow> ('d, 'r, 'k) Log" where
  "core_apply P E w (OpAppend env hp) l = fst (AppendCtx P (ev_now E) (ev_now2 E) l (Some env) hp)"
| "core_apply P E w (OpRegisterProducer p) l = fst (core_RegisterProducer P (ev_now E) l (Some p))"
| "core_apply P E w (OpRevokeProducer i reason) l = fst (core_RevokeProducer P (ev_now E) l i reason)"
| "core_apply P E w (OpIssueEnrollment req) l = fst (IssueEnrollment P w (ev_now E) (ev_now2 E) l req)"
| "core_apply P E w (OpBeginEnrollment req) l =
     fst (BeginEnrollment (ev_id_rand E) (ev_nonce_rand E) (ev_now E) (ev_now2 E) l req)"
| "core_apply P E w (OpConfirmEnrollment ch sig qsig) l = fst (ConfirmEnrollment P w (ev_now E) (ev_now2 E) l ch sig qsig)"
| "core_apply P E w (OpRegisterWitness wi) l = fst (core_RegisterWitness P l (Some wi))"
| "core_apply P E w OpCheckpoint l = fst (CheckpointCtx P w (ev_beacon E) (ev_now_sec E) (ev_now E) (ev_replies E) l)"
| "core_apply P E w OpAnchor l = fst (core_Anchor P (ev_sinks E) l)"
| "core_apply P E w (OpInclusionProof i n) l = (case core_InclusionProof P l i n of None \<Rightarrow> l | Some x \<Rightarrow> fst x)"
| "core_apply P E w (OpConsistencyProof m n) l = (case core_ConsistencyProof P l m n of None \<Rightarrow> l | Some x \<Rightarrow> fst x)"
| "core_apply P E w OpRotate l = fst (snd (core_Rotate P (ev_now E) (ev_chain_written E) w l))"

text \<open>
  The operation a request asks for, read off its route, method, query and body alone; \<open>None\<close> when it asks
  for none.
\<close>

definition posted :: "Request \<Rightarrow> 'e + 'a \<Rightarrow> ('a \<Rightarrow> core_op option) \<Rightarrow> core_op option" where
  "posted r body f = (if rq_Method r = ''POST'' then (case body of Inl _ \<Rightarrow> None | Inr x \<Rightarrow> f x) else None)"

definition proof_query :: "Request \<Rightarrow> string \<Rightarrow> string \<Rightarrow> u64 \<Rightarrow> (u64 \<times> u64) option" where
  "proof_query r a b current =
     (if rq_Method r = ''GET''
      then (case (parseUint (rq_Query r a), query_size r b current) of (Some i, Some n) \<Rightarrow> Some (i, n) | _ \<Rightarrow> None)
      else None)"

fun asked :: "call_env \<Rightarrow> u64 \<Rightarrow> Request \<Rightarrow> api_route \<Rightarrow> core_op option" where
  "asked E current r (RtAppend b) = posted r b (\<lambda>q. map_option (\<lambda>env. OpAppend env (ar_Honeypot q)) (ar_Envelope q))"
| "asked E current r RtInclusion = map_option (\<lambda>(i, n). OpInclusionProof i n) (proof_query r ''index'' ''tree_size'' current)"
| "asked E current r RtConsistency = map_option (\<lambda>(m, n). OpConsistencyProof m n) (proof_query r ''old'' ''new'' current)"
| "asked E current r RtCheckpoint = posted r (Inr () :: unit + unit) (\<lambda>_. Some OpCheckpoint)"
| "asked E current r RtAnchor = posted r (Inr () :: unit + unit) (\<lambda>_. Some OpAnchor)"
| "asked E current r RtRotate = posted r (Inr () :: unit + unit) (\<lambda>_. Some OpRotate)"
| "asked E current r (RtProducers b) = posted r b (map_option OpRegisterProducer)"
| "asked E current r (RtWitnesses b) = posted r b (map_option (\<lambda>w. OpRegisterWitness (w\<lparr>wi_AddedAt := ev_now E\<rparr>)))"
| "asked E current r (RtEnrollments b) = posted r b (\<lambda>q. Some (OpIssueEnrollment (core_request q)))"
| "asked E current r (RtEnrollmentsBegin b) = posted r b (\<lambda>q. Some (OpBeginEnrollment (core_request q)))"
| "asked E current r (RtEnrollmentsConfirm b) =
     posted r b (\<lambda>q. Some (OpConfirmEnrollment (cq_ChallengeID q) (cq_Signature q) (cq_QuantumSignature q)))"
| "asked E current r (RtRevoke b) = posted r b (\<lambda>q. Some (OpRevokeProducer (rp_ID q) (rp_Reason q)))"
| "asked E current r _ = None"

text \<open>
  What a request does to the log: nothing if it asks for no operation, and otherwise that operation, or
  nothing if it is refused.
\<close>

definition performs ::
    "('d, 'r, 'n, 'w, 'k) sys \<Rightarrow> call_env \<Rightarrow> core_op option \<Rightarrow> ('d, 'r, 'k, 'w, 'l) Server
      \<Rightarrow> ('d, 'r, 'k, 'w, 'l) Server \<times> bool \<Rightarrow> bool" where
  "performs P E oo s x \<longleftrightarrow>
     (case oo of None \<Rightarrow> srv_Log (fst x) = srv_Log s
      | Some op \<Rightarrow> srv_Log (fst x) = core_apply P E (srv_keys s) op (srv_Log s) \<or> srv_Log (fst x) = srv_Log s \<and> \<not> snd x)"

lemma records_keep_log [simp]:
  "srv_Log (recordRead C A E n r i lh oper s) = srv_Log s"
  "srv_Log (recordAdmin C A E r action subject details err s) = srv_Log s"
  "srv_Log (fireHoney E r i lh note s) = srv_Log s"
  "srv_Log (serve_entry C A E n r note oper e s) = srv_Log s"
  "srv_Log (released s) = srv_Log s"
  by (simp_all add: recordRead_def recordAdmin_def fireHoney_def serve_entry_def released_def Let_def
      split: option.splits prod.splits)

lemma range_keeps_log: "srv_Log (fst (range_entries P A E r hi n i s)) = srv_Log s"
proof (induction P A E r hi n i s rule: range_entries.induct)
  case (1 P A E r hi n i s)
  show ?case
  proof (cases "i < hi")
    case True
    then show ?thesis
    proof (cases "core_Get P (srv_Log s) i")
      case (Inr e)
      with 1 True show ?thesis by (auto simp: range_entries.simps [of P A E r hi n i s] split: prod.splits)
    qed (simp add: range_entries.simps [of P A E r hi n i s])
  qed (simp add: range_entries.simps [of P A E r hi n i s])
qed

lemma reads_move:
  "handleGetEntry P A E r s = (s', er) \<Longrightarrow> srv_Log s' = srv_Log s"
  "handleEntriesRange P A E r s = (s', rr) \<Longrightarrow> srv_Log s' = srv_Log s"
  using range_keeps_log [of P A E r _ 0 _ s]
  by (auto simp: handleGetEntry_def handleEntriesRange_def Let_def split: if_splits option.splits sum.splits prod.splits)
    (metis fst_conv)

lemma reply_simps [simp]:
  "\<not> is_ok (writeErr n e)" "\<not> is_ok (writeBodyErr b)" "\<not> is_ok (writeRetryAfter n k)"
  by (simp_all add: writeErr_def writeBodyErr_def writeRetryAfter_def)

lemma append_performs: "performs P E (asked E n r (RtAppend b)) s (served (handleAppend P R E r b s))"
  by (auto simp: performs_def served_def posted_def handleAppend_def Let_def
      split: sum.splits option.splits prod.splits bool.splits)

lemma proofs_perform:
  "performs P E (asked E (core_Size P (srv_Log s)) r RtInclusion) s (served (handleInclusionProof P r s))"
  "performs P E (asked E (core_Size P (srv_Log s)) r RtConsistency) s (served (handleConsistencyProof P r s))"
  by (auto simp: performs_def served_def proof_query_def handleInclusionProof_def handleConsistencyProof_def Let_def
      split: sum.splits option.splits prod.splits)

lemma admin_performs:
  "performs P E (asked E n r RtCheckpoint) s (served (handleCheckpoint P E r s))"
  "performs P E (asked E n r RtAnchor) s (served (handleAnchor P E r s))"
  "performs P E (asked E n r RtRotate) s (served (handleRotate P A E r s))"
  "performs P E (asked E n r (RtProducers pb)) s (served (handleProducers P A E r pb s))"
  "performs P E (asked E n r (RtWitnesses wb)) s (served (handleWitnesses P A E r wb s))"
  "performs P E (asked E n r (RtRevoke vb)) s (served (handleRevokeProducer P A E r vb s))"
  by (auto simp: performs_def served_def posted_def handleCheckpoint_def handleAnchor_def handleRotate_def handleProducers_def
      handleWitnesses_def handleRevokeProducer_def Let_def split: sum.splits option.splits prod.splits)

lemma enrollment_performs:
  "performs P E (asked E n r (RtEnrollments eb)) s (served (handleEnrollments P A E r eb s))"
  "performs P E (asked E n r (RtEnrollmentsBegin eb)) s (served (handleEnrollmentsBegin E r eb s))"
  "performs P E (asked E n r (RtEnrollmentsConfirm cb)) s (served (handleEnrollmentsConfirm P A E r cb s))"
  by (auto simp: performs_def served_def posted_def handleEnrollments_def handleEnrollmentsBegin_def handleEnrollmentsConfirm_def
      Let_def split: sum.splits option.splits prod.splits)

text \<open>The limiter passes the request on, or refuses it with the log untouched.\<close>

lemma rateLimit_performs:
  fixes "next" :: "('d, 'r, 'k, 'w, 'l) Server \<Rightarrow> ('d, 'r, 'k, 'w, 'l) Server \<times> 'a reply"
  assumes "\<And>s. performs P E oo s (served (next s))"
  shows "performs P E oo s (served (rateLimitAdmin R E r next s))"
proof -
  have g: "performs P E oo s (served (next (s\<lparr>srv_gate := g\<rparr>)))" for g
    using assms [of "s\<lparr>srv_gate := g\<rparr>"] by (cases oo) (simp_all add: performs_def)
  have "performs P E oo s (served (s\<lparr>srv_gate := g\<rparr>, writeRetryAfter m k :: 'a reply))" for g m k
    by (simp add: performs_def served_def split: option.split)
  with g assms show ?thesis by (simp add: rateLimitAdmin_def split: prod.split bool.split)
qed

lemma mux_performs: "performs P E (asked E (core_Size P (srv_Log s)) r q) s (mux_serve P A R E r q s)"
proof (cases q)
  case RtEntry
  with reads_move(1) [of P A E r s] show ?thesis by (simp add: performs_def served_def) (metis prod.collapse)
next
  case RtEntries
  with reads_move(2) [of P A E r s] show ?thesis by (simp add: performs_def served_def) (metis prod.collapse)
qed (simp_all only: mux_serve.simps append_performs proofs_perform rateLimit_performs [OF admin_performs(1)]
    rateLimit_performs [OF admin_performs(2)] rateLimit_performs [OF admin_performs(3)] rateLimit_performs [OF admin_performs(4)]
    rateLimit_performs [OF admin_performs(5)] rateLimit_performs [OF admin_performs(6)]
    rateLimit_performs [OF enrollment_performs(1)] rateLimit_performs [OF enrollment_performs(2)]
    rateLimit_performs [OF enrollment_performs(3)], simp_all add: performs_def served_def)

section \<open>Any sequence of requests\<close>

text \<open>
  An envelope arrives as JSON, so that it survives being stored as JSON (\<open>env_wires\<close>); nothing is assumed
  of a request otherwise.
\<close>

fun body_wires :: "wire \<Rightarrow> api_route \<Rightarrow> bool" where
  "body_wires W (RtAppend (Inr q)) = (case ar_Envelope q of None \<Rightarrow> True | Some env \<Rightarrow> env_wires W env)"
| "body_wires W _ = True"

text \<open>The operations are steps of the log instance.\<close>

lemma core_apply_step:
  assumes "\<And>env hp. op = OpAppend env hp \<Longrightarrow> env_wires (sys_wire P) env"
  shows "core_apply P E w op l = l \<or> (\<exists>es'. core_step P l es (core_apply P E w op l) es')"
proof (cases op)
  case (OpAppend env hp)
  obtain l' res where a: "AppendCtx P (ev_now E) (ev_now2 E) l (Some env) hp = (l', res)" by force
  have "\<exists>es'. core_step P l es l' es'"
    using a assms [OF OpAppend] by (cases res) (auto intro: core_step.append_ok core_step.append_fail)
  with a OpAppend show ?thesis by simp
next
  case (OpInclusionProof i n)
  then show ?thesis by (auto intro!: core_step.inclusion_proof split: option.split)
next
  case (OpConsistencyProof m n)
  then show ?thesis by (auto intro!: core_step.consistency_proof split: option.split)
next
  case OpAnchor
  then show ?thesis using core_step.anchor [of P "ev_sinks E" l "core_apply P E w op l"] by (simp, metis prod.collapse)
next
  case OpRotate
  then show ?thesis
    using core_step.rotate [of P "ev_now E" "ev_chain_written E" w l _ "core_apply P E w op l"] by (simp, metis prod.collapse)
qed (simp_all, (metis core_step.register_producer core_step.revoke_producer core_step.issue_enrollment core_step.begin_enrollment
      core_step.confirm_enrollment core_step.register_witness core_step.checkpoint prod.collapse)+)

inductive api_run ::
    "('d, 'r, 'n, 'w, 'k) sys \<Rightarrow> api_wire \<Rightarrow> 'l rate_lib \<Rightarrow> 'd Store \<Rightarrow> ('d, 'r, 'k, 'w, 'l) Server \<Rightarrow> bool"
    for P A R s0 where
  start: "core_New P cancelled opts = Inr (srv_Log s) \<Longrightarrow> opt_Store opts = Some s0 \<Longrightarrow> opt_Signer opts = Some sg
    \<Longrightarrow> \<forall>i. \<not> cancelled i \<Longrightarrow> api_run P A R s0 s"
| request: "api_run P A R s0 s \<Longrightarrow> body_wires (sys_wire P) q \<Longrightarrow> api_run P A R s0 (fst (mux_serve P A R E r q s))"
| enrollment_janitor: "api_run P A R s0 s \<Longrightarrow> api_run P A R s0 (s\<lparr>srv_Log := janitor_tick now (srv_Log s)\<rparr>)"
| rate_janitor: "api_run P A R s0 s \<Longrightarrow> api_run P A R s0 (s\<lparr>srv_gate := gate_janitor tnow idle (srv_gate s)\<rparr>)"
| expire: "api_run P A R s0 s \<Longrightarrow> drops_replays (sys_db P) (lg_store (srv_Log s)) st
    \<Longrightarrow> api_run P A R s0 (s\<lparr>srv_Log := with_store (srv_Log s) st\<rparr>)"

lemma asked_wires: "asked E n r q = Some (OpAppend env hp) \<Longrightarrow> body_wires W q \<Longrightarrow> env_wires W env"
  by (cases q) (auto simp: posted_def split: if_splits sum.splits)

lemma request_step:
  assumes "core_run P s0 (srv_Log s) es" "body_wires (sys_wire P) q"
  shows "\<exists>es'. core_run P s0 (srv_Log (fst (mux_serve P A R E r q s))) es'"
proof -
  let ?s = "fst (mux_serve P A R E r q s)" and ?oo = "asked E (core_Size P (srv_Log s)) r q"
  have "srv_Log ?s = srv_Log s \<or> (\<exists>op. ?oo = Some op \<and> srv_Log ?s = core_apply P E (srv_keys s) op (srv_Log s))"
    using mux_performs [of P E s r q A R] by (auto simp: performs_def split: option.split_asm)
  then have "srv_Log ?s = srv_Log s \<or> (\<exists>es'. core_step P (srv_Log s) es (srv_Log ?s) es')"
    using core_apply_step [of _ P E "srv_keys s" "srv_Log s" es] asked_wires [OF _ assms(2)] by metis
  with assms(1) show ?thesis by (metis core_run.step)
qed

text \<open>
  C7.  The service refines the log.  \<open>asked\<close> reads off the route, the method and the body of a request
  which operation of \<open>pkg/core\<close> it asks for, with which arguments (an append of the envelope in the
  body, a revocation of the producer named there, and so on; none for a GET that only reads).  In every
  state of the service a request that asks for no operation leaves the log alone; any other request
  does exactly that operation to the log, or leaves it alone and is not answered with success.  So,
  whatever sequence of requests is made, by whomever and in any order, with any failures of the
  database, the journals, the witnesses and the sinks, the log behind the service is one that operations
  of \<open>pkg/core\<close> reach.
\<close>

theorem api_refines_core:
  assumes "api_run P A R s0 s"
  shows "(\<exists>es. core_run P s0 (srv_Log s) es)
    \<and> (case asked E (core_Size P (srv_Log s)) r q of
         None \<Rightarrow> srv_Log (fst (mux_serve P A R E r q s)) = srv_Log s
       | Some op \<Rightarrow> srv_Log (fst (mux_serve P A R E r q s)) = core_apply P E (srv_keys s) op (srv_Log s)
           \<or> srv_Log (fst (mux_serve P A R E r q s)) = srv_Log s \<and> \<not> snd (mux_serve P A R E r q s))"
proof
  show "\<exists>es. core_run P s0 (srv_Log s) es"
    using assms
  proof (induction rule: api_run.induct)
    case (start cancelled opts s sg)
    then show ?case by (blast intro: core_run.start)
  next
    case (request s q E r)
    then show ?case using request_step by blast
  next
    case (enrollment_janitor s now)
    then show ?case using core_run.step [OF _ core_step.janitor [OF refl]] by fastforce
  next
    case (expire s st)
    then show ?case using core_run.step [OF _ core_step.expire] by fastforce
  qed simp
qed (use mux_performs [of P E s r q A R] in \<open>simp add: performs_def\<close>)

section \<open>The replies\<close>

lemma range_reply:
  assumes ok: "sys_ok P view rep" and "log_inv P view rep (srv_Log s) es" and hi: "hi < 2 ^ 64"
  shows "i \<le> hi \<Longrightarrow> snd (range_entries P A E r (of_nat hi) n (of_nat i) s) = drop i (take hi es)"
  using assms(2)
proof (induction "hi - i" arbitrary: i n s)
  case 0
  then have "i = hi" by simp
  then show ?case by (subst range_entries.simps) simp
next
  case (Suc d)
  then have lt: "i < hi" "(of_nat i :: u64) < of_nat hi" using hi by (simp_all add: of_nat_less_u64)
  show ?case
  proof (cases "i < length es")
    case True
    let ?s = "serve_entry (sys_crypto P) A E n r ''GET /entries?from=..&to=..'' ''range_entry'' (es ! i) s"
    have "snd (range_entries P A E r (of_nat hi) (n + 1) (of_nat (Suc i)) ?s) = drop (Suc i) (take hi es)"
      using Suc.hyps(1) [of "Suc i" ?s "n + 1"] Suc.hyps(2) Suc.prems lt by simp
    moreover have "drop i (take hi es) = es ! i # drop (Suc i) (take hi es)"
      using True lt by (subst Cons_nth_drop_Suc [symmetric]) simp_all
    ultimately show ?thesis
      using lt core_Get_inv [OF ok Suc.prems(2) True] by (auto simp: range_entries.simps [of P A E r "of_nat hi" n "of_nat i" s] add.commute split: prod.splits)
  next
    case False
    with lt hi core_Get_absent [OF ok Suc.prems(2), of i] show ?thesis
      by (simp add: range_entries.simps [of P A E r "of_nat hi" n "of_nat i" s])
  qed
qed

text \<open>The request for a range of entries, as a client of the API writes it.\<close>

definition range_query :: "u64 \<Rightarrow> u64 \<Rightarrow> Request \<Rightarrow> bool" where
  "range_query lo hi r \<longleftrightarrow> rq_Method r = ''GET'' \<and> rq_Query r ''from'' = dec_u64 lo \<and> rq_Query r ''to'' = dec_u64 hi"

lemma handleEntriesRange_reply:
  assumes "sys_ok P view rep" "log_inv P view rep (srv_Log s) es" "range_query (of_nat lo) (of_nat hi) r"
    and "lo < hi" "hi \<le> lo + 10000" "hi < 2 ^ 64"
  shows "snd (handleEntriesRange P A E r s) = HttpOk (drop lo (take hi es), of_nat lo, of_nat hi)"
proof -
  have "\<not> (of_nat hi :: u64) \<le> of_nat lo" using assms(4,6) by (simp add: of_nat_le_u64)
  moreover have "\<not> (of_nat hi :: u64) - of_nat lo > 10000"
  proof -
    have "(of_nat hi :: u64) - of_nat lo = of_nat (hi - lo)" using assms(4) by (simp add: of_nat_diff)
    moreover have "\<not> (10000 :: u64) < of_nat (hi - lo)"
      using assms(5,6) of_nat_less_u64 [of 10000 "hi - lo"] by simp
    ultimately show ?thesis by simp
  qed
  moreover have "query_range r = Some (of_nat lo, of_nat hi)" using assms(3) by (simp add: query_range_def range_query_def)
  ultimately show ?thesis
    using range_reply [OF assms(1,2,6), of lo A E r 0] assms(3,4)
    by (auto simp: handleEntriesRange_def range_query_def split: prod.splits)
qed

lemma handleSize_reply:
  assumes "sys_ok P view rep" "log_inv P view rep (srv_Log s) es" "rq_Method r = ''GET''"
  shows "\<exists>z. handleSize P r s = HttpOk z \<and> sz_Size z = of_nat (length es) \<and> sz_RootHash z = MTH (sys_hasher P) (map ent_LeafHash es)"
  using core_Root_inv [OF assms(1,2)] log_inv_Size [OF assms(1,2)] assms(3)
  by (simp add: handleSize_def core_Size_def MTH.simps)

text \<open>
  C8.  What the service serves is the log, and an auditor can check it.  Of a service in any state it can
  reach, \<open>/size\<close> reports the number of entries and their RFC 6962 root, \<open>/entries\<close> returns exactly the
  entries in the interval that was asked for, and \<open>/proof/inclusion\<close> returns for every entry a proof
  that the verifier of \<open>pkg/verify\<close> accepts for that entry against the very root and size in the reply.
\<close>

theorem api_serves_verifiable_log:
  assumes "sys_ok P view rep" and "fresh_store view s0" and "core_run P s0 (srv_Log s) es" and "length es < 2 ^ 63"
    and "tdlib_complete (sys_lib P) (sys_hasher P)" and "i < length es"
    and "rq_Method r = ''GET''" "rq_Query r ''index'' = dec_u64 (of_nat i)" "rq_Query r ''tree_size'' = []"
    and "range_query (of_nat lo) (of_nat hi) r'" "lo < hi" "hi \<le> lo + 10000" "hi < 2 ^ 64"
  shows "(\<exists>z. handleSize P r s = HttpOk z \<and> sz_Size z = of_nat (length es) \<and> sz_RootHash z = MTH (sys_hasher P) (map ent_LeafHash es))
    \<and> snd (handleEntriesRange P A E r' s) = HttpOk (drop lo (take hi es), of_nat lo, of_nat hi)
    \<and> (\<exists>s' q. handleInclusionProof P r s = (s', HttpOk q)
        \<and> ip_TreeSize q = of_nat (length es) \<and> ip_RootHash q = MTH (sys_hasher P) (map ent_LeafHash es)
        \<and> vf_Inclusion (sys_crypto P) (sys_lib P) (sys_hasher P) (es ! i) (ip_TreeSize q) (ip_Proof q) (ip_RootHash q) = None)"
proof (intro conjI)
  let ?ls = "map ent_LeafHash es" and ?L = "sys_lib P" and ?H = "sys_hasher P" and ?n = "of_nat (length es) :: u64"
  have inv: "log_inv P view rep (srv_Log s) es" by (rule core_run_inv [OF assms(3,1,2,4)])
  show "\<exists>z. handleSize P r s = HttpOk z \<and> sz_Size z = of_nat (length es) \<and> sz_RootHash z = MTH ?H ?ls"
    by (rule handleSize_reply [OF assms(1) inv assms(7)])
  show "snd (handleEntriesRange P A E r' s) = HttpOk (drop lo (take hi es), of_nat lo, of_nat hi)"
    by (rule handleEntriesRange_reply [OF assms(1) inv assms(10-13)])
  have sz: "core_Size P l = ?n" if "log_inv P view rep l es" for l
    using log_inv_Size [OF assms(1) that] by (simp add: core_Size_def)
  have lt: "(of_nat i :: u64) < ?n" using assms(4,6) by (simp add: of_nat_less_u64)
  obtain q where q: "inclusion_spec ?L ?H ?ls (of_nat i) ?n = Inr q" using specs_return(1) [OF assms(5) _ lt, of ?ls] by auto
  obtain l' where l': "core_InclusionProof P (srv_Log s) (of_nat i) ?n = Some (l', Inr q)" "log_inv P view rep l' es"
    using core_proofs_inv(1) [OF assms(1) inv, of "of_nat i" ?n] q by auto
  have root: "core_Root P l' = Inr (MTH ?H ?ls)" using core_Root_inv [OF assms(1) l'(2)] assms(6) by auto
  have "lib_VerifyInclusion ?L ?H (of_nat i) ?n (ent_LeafHash (es ! i)) q (MTH ?H ?ls)"
    using tdlib_completeD(3) [OF assms(5) q lt] assms(4,6) by (simp add: unat_of_nat_u64)
  moreover have ch: "entries.chained (sys_crypto P) ?H None es" using inv by (simp add: log_inv_def)
  then have "ent_Index (es ! i) = of_nat i" "ent_Verify (sys_crypto P) ?H (es ! i) = None"
    using entries.index_nth [OF ch assms(6)] entries.chained_valid [OF ch] assms(6) by simp_all
  ultimately have "vf_Inclusion (sys_crypto P) ?L ?H (es ! i) ?n q (MTH ?H ?ls) = None"
    using lt by (simp add: vf_Inclusion_def VerifyInclusion_def leD)
  then show "\<exists>s' q. handleInclusionProof P r s = (s', HttpOk q) \<and> ip_TreeSize q = ?n \<and> ip_RootHash q = MTH ?H ?ls
      \<and> vf_Inclusion (sys_crypto P) ?L ?H (es ! i) (ip_TreeSize q) (ip_Proof q) (ip_RootHash q) = None"
    using assms(7-9) l' root sz [OF inv] sz [OF l'(2)] core_Get_inv [OF assms(1) inv assms(6)]
    by (simp add: handleInclusionProof_def query_size_def)
qed

section \<open>Who may append\<close>

lemma handleAppend_Ok:
  assumes "handleAppend P R E r body s = (s', HttpOk e)"
  obtains req env l where "body = Inr req" "ar_Envelope req = Some env" "client_cert_error s r env = None"
    "AppendCtx P (ev_now E) (ev_now2 E) (srv_Log s) (Some env) (ar_Honeypot req) = (l, Inr e)" "srv_Log s' = l"
  using assms
  by (auto simp: handleAppend_def writeBodyErr_def writeRetryAfter_def writeErr_def Let_def
      split: if_splits sum.splits option.splits prod.splits bool.splits)

text \<open>
  C11.  A stolen signing key is not enough.  Where client certificates are required, an append is
  answered with an entry only if the connection carries a certificate whose common name is the
  producer of the envelope, and the envelope is signed by the key registered for that producer.
\<close>

theorem append_needs_certificate_and_key:
  assumes "handleAppend P R E r body s = (s', HttpOk e)" and "srv_RequireClientCertCN s"
  shows "\<exists>cn cns env pr. rq_TLS r = Some (cn # cns) \<and> ent_Envelope e = Some env \<and> trim_space cn = env_ProducerID env
    \<and> GetProducer (sys_db P) (sys_wire P) (lg_store (srv_Log s)) (env_ProducerID env) = Inr pr \<and> \<not> pr_Revoked pr
    \<and> ed_verify (sys_crypto P) (pr_PublicKey pr) (env_Canonical env) (env_Signature env)"
proof -
  obtain req :: AppendRequest and env l where a: "client_cert_error s r env = None"
    "AppendCtx P (ev_now E) (ev_now2 E) (srv_Log s) (Some env) (ar_Honeypot req) = (l, Inr e)"
    using assms(1) by (rule handleAppend_Ok) blast
  obtain cn cns where c: "rq_TLS r = Some (cn # cns)" "trim_space cn = env_ProducerID env"
    using a(1) assms(2) by (auto simp: client_cert_error_def split: option.splits list.splits if_splits)
  note ad = AppendCtx_admits [OF a(2), unfolded admit_None]
  then obtain pr where pr: "GetProducer (sys_db P) (sys_wire P) (lg_store (srv_Log s)) (env_ProducerID env) = Inr pr"
    "\<not> pr_Revoked pr" "pr_PublicKey pr = env_PublicKey env" by blast
  have "ed_verify (sys_crypto P) (env_PublicKey env) (env_Canonical env) (env_Signature env)"
    using ad by (auto simp: env_Verify_def ed25519_Verify_def Let_def split: if_splits)
  with c pr AppendCtx_envelope [OF a(2)] show ?thesis by auto
qed

section \<open>Reads leave a trace\<close>


text \<open>\<open>recordRead\<close> drops the error of the journal: an entry is served whether or not the event was written.\<close>

lemma unjournalled_read:
  assumes "rq_Method r = ''GET''" "trim_prefix entries_prefix (rq_Path r) = i" "i \<noteq> []" "CHR ''/'' \<notin> set i" "parseUint i = Some idx"
    and "core_Get P (srv_Log s) idx = Inr e"
    and "srv_ReadLog s = None \<or> (\<exists>files j err. srv_ReadLog s = Some (files, j)
      \<and> rl_Append (sys_crypto P) (aw_read A) (ev_journal_out E 0) (ev_journal_now E 0) (ent_Index e) (ent_LeafHash e) ''get_entry''
          (rq_RemoteAddr r) (rq_UserAgent r) files j = (files, j, Inl err))"
  shows "\<exists>s'. handleGetEntry P A E r s = (s', HttpOk e) \<and> srv_ReadLog s' = srv_ReadLog s"
  using assms by (auto simp: handleGetEntry_def serve_entry_def recordRead_def fireHoney_def Let_def)

section \<open>How far the limits go\<close>

text \<open>The same rotation request under a sequence of values of \<open>X-Stele-Admin\<close>.\<close>

fun rotate_as ::
    "('d, 'r, 'n, 'w, 'k) sys \<Rightarrow> api_wire \<Rightarrow> 'l rate_lib \<Rightarrow> call_env \<Rightarrow> Request \<Rightarrow> string list
      \<Rightarrow> ('d, 'r, 'k, 'w, 'l) Server \<Rightarrow> Chain reply list" where
  "rotate_as P A R E r [] s = []"
| "rotate_as P A R E r (h # hs) s =
     (case rateLimitAdmin R E (r\<lparr>rq_Admin := h\<rparr>) (handleRotate P A E (r\<lparr>rq_Admin := h\<rparr>)) s of
        (s', rep) \<Rightarrow> rep # rotate_as P A R E r hs s')"

text \<open>Documented by \<open>golang.org/x/time/rate\<close>: a new bucket is full.\<close>

definition starts_full :: "'l rate_lib \<Rightarrow> bool" where
  "starts_full R \<longleftrightarrow> (\<forall>rps burst now. rps > 0 \<longrightarrow> burst \<ge> 1 \<longrightarrow> snd (Allow R now (NewLimiter R rps burst)))"

lemma rotate_keeps_gate: "srv_gate (fst (handleRotate P A E r s)) = srv_gate s"
  by (simp add: handleRotate_def recordAdmin_def Let_def split: prod.splits option.splits)

lemma fresh_actor_passes:
  assumes "starts_full R" "fmlookup (ig_adminLimits g) actor = None"
  obtains g' where "allowAdmin R now g actor = (g', True)"
    "\<And>k. k \<noteq> actor \<Longrightarrow> fmlookup (ig_adminLimits g') k = fmlookup (ig_adminLimits g) k"
proof -
  let ?b = "PerAdminBurst (ig_policy g)" and ?r = "PerAdminRPS (ig_policy g)"
  obtain t ok where t: "allow R now ?r ?b (ig_adminLimits g) actor = (t, ok)" by force
  have ok
  proof (cases "?r \<le> 0")
    case True
    with t show ?thesis by (simp add: allow_def)
  next
    case False
    have "snd (Allow R now (NewLimiter R ?r (if ?b \<le> 0 then 1 else ?b)))"
      using assms(1) False by (simp add: starts_full_def)
    with t False assms(2) show ?thesis by (auto simp: allow_def Let_def split: prod.splits)
  qed
  moreover have "fmlookup t k = fmlookup (ig_adminLimits g) k" if "k \<noteq> actor" for k
    using allow_other [OF that, of R now ?r ?b "ig_adminLimits g"] t by simp
  ultimately show ?thesis using t by (intro that [of "g\<lparr>ig_adminLimits := t\<rparr>"]) (simp_all add: allowAdmin_def)
qed

text \<open>
  C38.  The limit on admin requests is per name, and the caller chooses the name.  Without a client
  certificate the bucket is found by the header \<open>X-Stele-Admin\<close>: one client that sends a new value
  with each request is never limited, however low the limit and however many requests.
\<close>

theorem admin_limit_bypassed_by_header:
  assumes "starts_full R" and "rq_TLS r = None" and "rq_Method r = ''POST''" and "distinct hs"
    and "\<forall>h\<in>set hs. h \<noteq> [] \<and> trim_space h = h \<and> fmlookup (ig_adminLimits (srv_gate s)) h = None"
  shows "\<forall>rep\<in>set (rotate_as P A R E r hs s). \<forall>k. rep \<noteq> HttpRetry 429 k"
  using assms(4,5)
proof (induction hs arbitrary: s)
  case (Cons h hs)
  let ?r = "r\<lparr>rq_Admin := h\<rparr>"
  have who: "callerIdentityOrIP ?r = h" using Cons.prems(2) assms(2) by (simp add: callerIdentityOrIP_def callerIdentity_def)
  obtain g' where g': "allowAdmin R (ev_gate_now E) (srv_gate s) h = (g', True)"
    "\<And>k. k \<noteq> h \<Longrightarrow> fmlookup (ig_adminLimits g') k = fmlookup (ig_adminLimits (srv_gate s)) k"
    using fresh_actor_passes [OF assms(1), of "srv_gate s" h "ev_gate_now E"] Cons.prems(2) by auto
  obtain s' rep where hr: "handleRotate P A E ?r (s\<lparr>srv_gate := g'\<rparr>) = (s', rep)" by force
  have lim: "rateLimitAdmin R E ?r (handleRotate P A E ?r) s = (s', rep)"
    using assms(3) who g'(1) hr by (simp add: rateLimitAdmin_def)
  have gate: "srv_gate s' = g'" using rotate_keeps_gate [of P A E ?r "s\<lparr>srv_gate := g'\<rparr>"] hr by simp
  have "\<forall>k\<in>set hs. k \<noteq> [] \<and> trim_space k = k \<and> fmlookup (ig_adminLimits (srv_gate s')) k = None"
  proof
    fix k assume k: "k \<in> set hs"
    with Cons.prems(1) have "k \<noteq> h" by auto
    with g'(2) [of k] Cons.prems(2) k show "k \<noteq> [] \<and> trim_space k = k \<and> fmlookup (ig_adminLimits (srv_gate s')) k = None"
      by (simp add: gate)
  qed
  with Cons.IH [of s'] Cons.prems(1) have "\<forall>q\<in>set (rotate_as P A R E r hs s'). \<forall>k. q \<noteq> HttpRetry 429 k" by simp
  moreover have "rep \<noteq> HttpRetry 429 k" for k
    using hr by (auto simp: handleRotate_def Let_def split: if_splits prod.splits)
  ultimately show ?case using lim by simp
qed simp

text \<open>
  The duration of an enrollment is a 64-bit number of nanoseconds, so that a long one wraps: 293 years
  become forever, and 585 years less than a second.
\<close>

lemma long_validity_wraps:
  "sint (9223372037 :: i64) = 9223372037 \<and> expires_at now (er_Validity (core_request (q\<lparr>eq_ValiditySeconds := 9223372037\<rparr>))) = 0"
  "sint (18446744074 :: i64) = 18446744074
   \<and> expires_at now (er_Validity (core_request (q\<lparr>eq_ValiditySeconds := 18446744074\<rparr>))) = now + 290448384"
  by (simp_all add: expires_at_def core_request_def)

section \<open>Witnesses\<close>

text \<open>The event that reading the sample entry leaves, and the codec that knows this event.\<close>

definition sample_served :: ReadEvent where
  "sample_served = rl_seal sample_crypto sample_journal
     (rl_event sample_journal 5 (ent_Index sample_entry) (ent_LeafHash sample_entry) ''get_entry'' ''1.2.3.4:5'' ''ua'')"

definition sample_api_wire :: api_wire where
  "sample_api_wire =
     \<lparr>aw_read = (\<lambda>e. if e = sample_served then Some [1] else None), aw_read_stream = line_stream (re_read_back sample_served),
      aw_admin = (\<lambda>_. None), aw_admin_stream = (\<lambda>_. ([], True)), aw_details = (\<lambda>_. None), aw_err = (\<lambda>_. []), aw_rotate_err = (\<lambda>_. [])\<rparr>"

definition sample_call :: call_env where
  "sample_call =
     \<lparr>ev_gate_now = 7, ev_now = 2, ev_now2 = 9, ev_alert_now = 3, ev_journal_now = (\<lambda>_. 5), ev_journal_out = (\<lambda>_. AppendOk),
      ev_reads = (\<lambda>_. False), ev_id_rand = None, ev_nonce_rand = None, ev_beacon = None, ev_now_sec = 0,
      ev_replies = (\<lambda>_ _. []), ev_sinks = [], ev_chain_written = True\<rparr>"

definition sample_request :: "string \<Rightarrow> string \<Rightarrow> (string \<times> string) list \<Rightarrow> string list option \<Rightarrow> Request" where
  "sample_request meth path q tls =
     \<lparr>rq_Method = meth, rq_Path = path, rq_Query = (\<lambda>k. case map_of q k of None \<Rightarrow> [] | Some v \<Rightarrow> v),
      rq_RemoteAddr = ''1.2.3.4:5'', rq_UserAgent = ''ua'', rq_Admin = [], rq_TLS = tls\<rparr>"

definition sample_server :: "sample_log \<Rightarrow> ((bytes \<times> bytes) list, bytes list, nat, FileWorld, int) Server" where
  "sample_server l =
     \<lparr>srv_Log = l, srv_keys = fst sample_run0, srv_HoneySink = True, srv_alerts = [], srv_AppendObserver = True, srv_observed = 0,
      srv_RequireClientCertCN = True, srv_ReadLog = Some (Map.empty, sample_journal), srv_AdminLog = None,
      srv_gate = newIngestGate sample_policy\<rparr>"

lemma sample_request_simps [simp]:
  "rq_Method (sample_request m p q t) = m" "rq_Path (sample_request m p q t) = p" "rq_TLS (sample_request m p q t) = t"
  "rq_RemoteAddr (sample_request m p q t) = ''1.2.3.4:5''" "rq_UserAgent (sample_request m p q t) = ''ua''"
  "rq_Query (sample_request m p q t) k = (case map_of q k of None \<Rightarrow> [] | Some v \<Rightarrow> v)"
  by (simp_all add: sample_request_def)

lemma sample_server_simps [simp]: "srv_Log (sample_server l) = l" "srv_ReadLog (sample_server l) = Some (Map.empty, sample_journal)"
  "srv_RequireClientCertCN (sample_server l)" "srv_gate (sample_server l) = newIngestGate sample_policy"
  by (simp_all add: sample_server_def)

lemma sample_post:
  obtains s' where "handleAppend (sample_P None) sample_rate sample_call (sample_request ''POST'' [] [] (Some [''p1'']))
      (Inr \<lparr>ar_Envelope = Some sample_signed, ar_Honeypot = False\<rparr>) (sample_server (sample_log1 (\<lambda>_. True) None)) = (s', HttpOk sample_entry)"
    "srv_Log s' = sample_log2 None"
proof -
  let ?s = "sample_server (sample_log1 (\<lambda>_. True) None)"
  have id: "env_ProducerID sample_signed = ''p1''" "trim_space ''p1'' = ''p1''"
    by (simp_all add: sample_signed_fields trim_space_def is_space_def)
  obtain g where g: "allowProducer sample_rate 7 (newIngestGate sample_policy) ''p1'' = (g, True)" "ig_sem g = Some (1, 0)"
    by (simp add: allowProducer_def allow_def newIngestGate_def sample_policy_def sample_rate_def)
  obtain g2 where g2: "acquire g = (g2, True)" using g(2) by (simp add: acquire_def)
  have "AppendCtx (sample_P None) 2 9 (srv_Log (?s\<lparr>srv_gate := g2\<rparr>)) (Some sample_signed) False = (sample_log2 None, Inr sample_entry)"
    using sample_append by simp
  then have "\<exists>s'. handleAppend (sample_P None) sample_rate sample_call (sample_request ''POST'' [] [] (Some [''p1'']))
      (Inr \<lparr>ar_Envelope = Some sample_signed, ar_Honeypot = False\<rparr>) ?s = (s', HttpOk sample_entry) \<and> srv_Log s' = sample_log2 None"
    using g(1) g2 by (simp add: handleAppend_def sample_request_def sample_call_def client_cert_error_def id Let_def)
  then show ?thesis using that by blast
qed

theorem append_needs_certificate_and_key_witness:
  "\<exists>cn cns env. \<exists>pr :: Producer. rq_TLS (sample_request ''POST'' [] [] (Some [''p1''])) = Some (cn # cns) \<and> ent_Envelope sample_entry = Some env
    \<and> trim_space cn = env_ProducerID env \<and> ed_verify sample_crypto (pr_PublicKey pr) (env_Canonical env) (env_Signature env)"
proof -
  obtain s' where s': "handleAppend (sample_P None) sample_rate sample_call (sample_request ''POST'' [] [] (Some [''p1'']))
      (Inr \<lparr>ar_Envelope = Some sample_signed, ar_Honeypot = False\<rparr>) (sample_server (sample_log1 (\<lambda>_. True) None)) = (s', HttpOk sample_entry)"
    by (rule sample_post)
  have "srv_RequireClientCertCN (sample_server (sample_log1 (\<lambda>_. True) None))" by simp
  from append_needs_certificate_and_key [OF s' this] show ?thesis by auto
qed

theorem api_refines_core_witness:
  "\<exists>s. api_run (sample_P None) sample_api_wire sample_rate sample_s0 s \<and> (\<exists>es. core_run (sample_P None) sample_s0 (srv_Log s) es)
     \<and> (let x = mux_serve (sample_P None) sample_api_wire sample_rate sample_call (sample_request ''POST'' [] [] (Some [''p1'']))
            (RtAppend (Inr \<lparr>ar_Envelope = Some sample_signed, ar_Honeypot = False\<rparr>)) s
        in srv_Log (fst x) = core_apply (sample_P None) sample_call (srv_keys s) (OpAppend sample_signed False) (srv_Log s)
          \<or> srv_Log (fst x) = srv_Log s \<and> \<not> snd x)"
proof -
  let ?r = "sample_request ''POST'' [] [] (Some [''p1''])" and ?q = "RtAppend (Inr \<lparr>ar_Envelope = Some sample_signed, ar_Honeypot = False\<rparr>)"
  have "api_run (sample_P None) sample_api_wire sample_rate sample_s0 (sample_server (sample_log0 (\<lambda>_. True) sample_reg None))"
    by (rule api_run.start [of _ "\<lambda>_. False" sample_opts]) (simp add: sample_New(1), simp_all add: sample_opts_def)
  moreover have "asked sample_call n ?r ?q = Some (OpAppend sample_signed False)" for n by (simp add: posted_def)
  ultimately show ?thesis
    using api_refines_core [of "sample_P None" sample_api_wire sample_rate sample_s0 _ sample_call ?r ?q] unfolding Let_def
    by (intro exI [of _ "sample_server (sample_log0 (\<lambda>_. True) sample_reg None)"] conjI) fastforce+
qed

theorem api_serves_verifiable_log_witness:
  "\<exists>s' q. handleInclusionProof (sample_P None) (sample_request ''GET'' [] [(''index'', ''0'')] None) (sample_server (sample_log2 None))
      = (s', HttpOk q)
    \<and> vf_Inclusion sample_crypto sample_tdlib rfc6962 sample_entry (ip_TreeSize q) (ip_Proof q) (ip_RootHash q) = None"
proof -
  have "dec_u64 0 = ''0''" "dec_u64 1 = ''1''" by code_simp+
  moreover have "core_run (sample_P None) sample_s0 (srv_Log (sample_server (sample_log2 None))) [sample_entry]"
    using sample_run_log2 by simp
  ultimately have "\<exists>s' q. handleInclusionProof (sample_P None) (sample_request ''GET'' [] [(''index'', ''0'')] None)
        (sample_server (sample_log2 None)) = (s', HttpOk q) \<and> ip_TreeSize q = of_nat (length [sample_entry])
      \<and> ip_RootHash q = MTH (sys_hasher (sample_P None)) (map ent_LeafHash [sample_entry])
      \<and> vf_Inclusion (sys_crypto (sample_P None)) (sys_lib (sample_P None)) (sys_hasher (sample_P None)) ([sample_entry] ! 0)
          (ip_TreeSize q) (ip_Proof q) (ip_RootHash q) = None"
    by (intro api_serves_verifiable_log [OF sample_sys_ok sample_fresh, of "\<lambda>_. True" sample_reg None "sample_server (sample_log2 None)"
          "[sample_entry]" 0 "sample_request ''GET'' [] [(''index'', ''0'')] None" 0 1
          "sample_request ''GET'' [] [(''from'', ''0''), (''to'', ''1'')] None" sample_api_wire sample_call, THEN conjunct2, THEN conjunct2])
      (use sample_tdlib_complete in \<open>simp_all add: range_query_def\<close>)
  then show ?thesis by auto
qed


theorem admin_limit_bypassed_by_header_witness:
  "\<nexists>k. HttpRetry 429 k \<in> set (rotate_as (sample_P None) sample_api_wire sample_rate sample_call (sample_request ''POST'' [] [] None)
      [''a'', ''b'', ''c''] (sample_server (sample_log2 None)))"
proof -
  have "\<forall>rep\<in>set (rotate_as (sample_P None) sample_api_wire sample_rate sample_call (sample_request ''POST'' [] [] None)
      [''a'', ''b'', ''c''] (sample_server (sample_log2 None))). \<forall>k. rep \<noteq> HttpRetry 429 k"
    by (rule admin_limit_bypassed_by_header)
      (simp_all add: starts_full_def sample_rate_def sample_request_def newIngestGate_def trim_space_def is_space_def)
  then show ?thesis by blast
qed

end
