(* ===== verification/Mirroring.thy ===== *)
theory Mirroring
  imports Service
begin

text \<open>
  The mirror (\<open>pkg/mirror/mirror.go\<close>, \<open>api.go\<close>): a process that pulls the entries of an operator over
  HTTP, verifies every one against the chain it has, stores them in a database of its own and serves
  them.  The operator is a parameter: what it replies to each request, honest or not.  The loop of
  \<open>syncOnce\<close> counts in 64 bits and is a partial function; \<open>None\<close> is a loop that never ends.
\<close>

section \<open>Definitions\<close>

record MirrorConfig =
  mc_Upstream :: string
  mc_PollEvery :: i64
  mc_ChunkSize :: u64

record 'd Mirror =
  mi_cfg :: MirrorConfig
  mi_store :: "'d Store"
  mi_prev :: "Entry option"
  mi_lastSize :: u64
  mi_totalEntries :: u64
  mi_lastSync :: i64
  mi_syncErrors :: u64

datatype mirror_error =
    MiUpstream
  | MiStore storage_error
  | MiTail storage_error
  | MiHttp http_error
  | MiEntry entry_error
  | MiRejected u64 mirror_error
  | MiPanic

text \<open>
  The operator as the mirror sees it in one round: its reply to \<open>/size\<close>, and to the \<open>n\<close>-th request for
  a range of entries; and the JSON decoders.
\<close>

record upstream =
  up_size :: "(int \<times> bytes) option"
  up_entries :: "nat \<Rightarrow> u64 \<Rightarrow> u64 \<Rightarrow> (int \<times> bytes) option"
  up_dec_size :: "bytes \<Rightarrow> u64 option"
  up_dec_entries :: "bytes \<Rightarrow> Entry option list option"

definition fetchUpstreamSize :: "upstream \<Rightarrow> http_error + u64" where
  "fetchUpstreamSize U = httpGet (up_dec_size U) (up_size U)"

definition fetchEntries :: "upstream \<Rightarrow> nat \<Rightarrow> u64 \<Rightarrow> u64 \<Rightarrow> http_error + Entry option list" where
  "fetchEntries U n lo hi = httpGet (up_dec_entries U) (up_entries U n lo hi)"

definition mirror_New ::
    "('d, 'r, 'n, 'w, 'k) sys \<Rightarrow> MirrorConfig \<Rightarrow> 'd Store \<Rightarrow> mirror_error + 'd Mirror" where
  "mirror_New P cfg s =
     (if mc_Upstream cfg = [] then Inl MiUpstream
      else
        let cfg = (if mc_PollEvery cfg = 0 then cfg\<lparr>mc_PollEvery := 30 * 1000000000\<rparr> else cfg);
            cfg = (if mc_ChunkSize cfg = 0 then cfg\<lparr>mc_ChunkSize := 256\<rparr> else cfg)
        in case st_Size (sys_db P) s of Inl err \<Rightarrow> Inl (MiStore err)
        | Inr sz \<Rightarrow>
            let m = \<lparr>mi_cfg = cfg, mi_store = s, mi_prev = None, mi_lastSize = sz, mi_totalEntries = sz, mi_lastSync = 0, mi_syncErrors = 0\<rparr>
            in if sz > 0 then
                 (case GetEntry (sys_db P) (sys_wire P) s (sz - 1) of
                    Inl err \<Rightarrow> Inl (MiTail err)
                  | Inr prev \<Rightarrow> Inr (m\<lparr>mi_prev := Some prev\<rparr>))
               else Inr m)"

definition acceptEntry ::
    "('d, 'r, 'n, 'w, 'k) sys \<Rightarrow> 'd Mirror \<Rightarrow> Entry \<Rightarrow> 'd Mirror \<times> mirror_error option" where
  "acceptEntry P m e =
     (case ent_Verify (sys_crypto P) (sys_hasher P) e of Some err \<Rightarrow> (m, Some (MiEntry err))
      | None \<Rightarrow>
     (case VerifyChain e (mi_prev m) of Some err \<Rightarrow> (m, Some (MiEntry err))
      | None \<Rightarrow>
     (case AppendEntry (sys_db P) (sys_wire P) (mi_store m) e of
        (s, Some err) \<Rightarrow> (m\<lparr>mi_store := s\<rparr>, Some (MiStore err))
      | (s, None) \<Rightarrow>
          (m\<lparr>mi_store := s, mi_prev := Some e, mi_lastSize := mi_lastSize m + 1,
             mi_totalEntries := mi_totalEntries m + 1\<rparr>, None))))"

text \<open>The inner loop; a null entry in the reply is dereferenced.\<close>

fun accept_entries ::
    "('d, 'r, 'n, 'w, 'k) sys \<Rightarrow> 'd Mirror \<Rightarrow> Entry option list \<Rightarrow> 'd Mirror \<times> mirror_error option" where
  "accept_entries P m [] = (m, None)"
| "accept_entries P m (None # es) = (m, Some MiPanic)"
| "accept_entries P m (Some e # es) =
     (case acceptEntry P m e of
        (m, Some err) \<Rightarrow> (m, Some (MiRejected (ent_Index e) err))
      | (m, None) \<Rightarrow> accept_entries P m es)"

partial_function (option) sync_chunks ::
    "('d, 'r, 'n, 'w, 'k) sys \<Rightarrow> upstream \<Rightarrow> u64 \<Rightarrow> 'd Mirror \<Rightarrow> nat \<Rightarrow> u64 \<Rightarrow> ('d Mirror \<times> mirror_error option) option" where
  "sync_chunks S U upstreamSize m n lo =
     (if \<not> lo < upstreamSize then Some (m, None)
      else
        let hi = lo + mc_ChunkSize (mi_cfg m); hi = (if hi > upstreamSize then upstreamSize else hi)
        in case fetchEntries U n lo hi of
             Inl err \<Rightarrow> Some (m, Some (MiHttp err))
           | Inr es \<Rightarrow>
               (case accept_entries S m es of
                  (m, Some err) \<Rightarrow> Some (m, Some err)
                | (m, None) \<Rightarrow> sync_chunks S U upstreamSize m (n + 1) (lo + mc_ChunkSize (mi_cfg m))))"

definition syncOnce ::
    "('d, 'r, 'n, 'w, 'k) sys \<Rightarrow> upstream \<Rightarrow> i64 \<Rightarrow> 'd Mirror \<Rightarrow> ('d Mirror \<times> mirror_error option) option" where
  "syncOnce P U now m =
     (case fetchUpstreamSize U of Inl err \<Rightarrow> Some (m, Some (MiHttp err))
      | Inr upstreamSize \<Rightarrow>
          if upstreamSize \<le> mi_lastSize m then Some (m\<lparr>mi_lastSync := now\<rparr>, None)
          else (case sync_chunks P U upstreamSize m 0 (mi_lastSize m) of None \<Rightarrow> None
                | Some (m, Some err) \<Rightarrow> Some (m, Some err)
                | Some (m, None) \<Rightarrow> Some (m\<lparr>mi_lastSync := now\<rparr>, None)))"

text \<open>One turn of \<open>loop\<close>: errors are counted; a panic in its goroutine ends the process.\<close>

definition mirror_tick ::
    "('d, 'r, 'n, 'w, 'k) sys \<Rightarrow> upstream \<Rightarrow> i64 \<Rightarrow> 'd Mirror \<Rightarrow> 'd Mirror option" where
  "mirror_tick P U now m =
     (case syncOnce P U now m of None \<Rightarrow> None
      | Some (m, Some MiPanic) \<Rightarrow> None
      | Some (m, Some _) \<Rightarrow> Some (m\<lparr>mi_syncErrors := mi_syncErrors m + 1\<rparr>)
      | Some (m, None) \<Rightarrow> Some m)"

subsection \<open>What the mirror serves\<close>

definition mirror_GetEntry :: "('d, 'r, 'n, 'w, 'k) sys \<Rightarrow> 'd Mirror \<Rightarrow> u64 \<Rightarrow> storage_error + Entry" where
  "mirror_GetEntry P m idx = GetEntry (sys_db P) (sys_wire P) (mi_store m) idx"

definition mirror_entry_handler :: "('d, 'r, 'n, 'w, 'k) sys \<Rightarrow> Request \<Rightarrow> 'd Mirror \<Rightarrow> Entry reply" where
  "mirror_entry_handler P r m =
     (case parseUint (trim_prefix entries_prefix (rq_Path r)) of None \<Rightarrow> HttpErr 400
      | Some idx \<Rightarrow> (case mirror_GetEntry P m idx of Inl _ \<Rightarrow> HttpErr 404 | Inr e \<Rightarrow> HttpOk e))"

function mirror_range :: "('d, 'r, 'n, 'w, 'k) sys \<Rightarrow> 'd Mirror \<Rightarrow> u64 \<Rightarrow> u64 \<Rightarrow> Entry list" where
  "mirror_range P m hi i =
     (if \<not> (i < hi \<and> i < mi_lastSize m) then []
      else case mirror_GetEntry P m i of Inl _ \<Rightarrow> [] | Inr e \<Rightarrow> e # mirror_range P m hi (i + 1))"
  by pat_completeness auto
termination
  by (relation "measure (\<lambda>(P, m, hi, i). unat hi - unat i)") (auto simp: unat_plus_one word_less_nat_alt)

declare mirror_range.simps [simp del]

definition mirror_entries_handler :: "('d, 'r, 'n, 'w, 'k) sys \<Rightarrow> Request \<Rightarrow> 'd Mirror \<Rightarrow> (Entry list \<times> u64 \<times> u64) reply" where
  "mirror_entries_handler P r m =
     (case query_range r of None \<Rightarrow> HttpErr 400
      | Some (lo, hi) \<Rightarrow>
          if hi \<le> lo \<or> hi - lo > 10000 then HttpErr 400 else HttpOk (mirror_range P m hi lo, lo, hi))"

record MirrorStatus =
  mst_Upstream :: string
  mst_MirroredSize :: u64
  mst_TotalEntries :: u64
  mst_LastSyncNs :: i64
  mst_SyncErrors :: u64

definition mirror_Status :: "'d Mirror \<Rightarrow> MirrorStatus" where
  "mirror_Status m =
     \<lparr>mst_Upstream = mc_Upstream (mi_cfg m), mst_MirroredSize = mi_lastSize m, mst_TotalEntries = mi_totalEntries m,
      mst_LastSyncNs = mi_lastSync m, mst_SyncErrors = mi_syncErrors m\<rparr>"

section \<open>The chain that a mirror holds\<close>

definition mirror_inv ::
    "('d, 'r, 'n, 'w, 'k) sys \<Rightarrow> ('d \<Rightarrow> bytes \<rightharpoonup> bytes) \<Rightarrow> 'd Mirror \<Rightarrow> Entry list \<Rightarrow> bool" where
  "mirror_inv P view m es \<longleftrightarrow>
     holds_log (sys_wire P) (view (st_db (mi_store m))) es \<and> entries.chained (sys_crypto P) (sys_hasher P) None es
     \<and> mi_prev m = entries.last_of None es \<and> mi_lastSize m = of_nat (length es) \<and> mi_totalEntries m = of_nat (length es)
     \<and> mc_ChunkSize (mi_cfg m) \<noteq> 0 \<and> length es < 2 ^ 63"

text \<open>
  A database is finite: no commit succeeds that would give it \<open>2 ^ 63\<close> keys.  The entries that arrive are
  decoded from JSON, so that storing them as JSON keeps them.
\<close>

definition db_bounded :: "'d badger \<Rightarrow> ('d \<Rightarrow> bytes \<rightharpoonup> bytes) \<Rightarrow> bool" where
  "db_bounded B view \<longleftrightarrow> (\<forall>d ws d'. bdg_Commit B d ws = (d', True) \<longrightarrow> card (dom (view d')) < 2 ^ 63)"

definition decodes_wired :: "wire \<Rightarrow> upstream \<Rightarrow> bool" where
  "decodes_wired W U \<longleftrightarrow> (\<forall>b es e. up_dec_entries U b = Some es \<longrightarrow> Some e \<in> set es \<longrightarrow> entry_wires W e)"

lemma holds_log_card:
  assumes "holds_log W m es" "finite (dom m)"
  shows "length es \<le> card (dom m)"
proof -
  have inj: "inj_on (\<lambda>i. entryKey (of_nat i)) {..<length es}"
    using assms(1) by (auto simp: inj_on_def holds_log_def of_nat_eq_u64)
  have "(\<lambda>i. entryKey (of_nat i)) ` {..<length es} \<subseteq> dom m" using assms(1) by (force simp: holds_log_def)
  from card_mono [OF assms(2) this] card_image [OF inj] show ?thesis by simp
qed

lemma AppendEntry_commits:
  "AppendEntry B W s e = (s', None) \<Longrightarrow> \<exists>ws. bdg_Commit B (st_db s) ws = (st_db s', True)"
  by (auto simp: AppendEntry_def commit_def split: if_splits sum.splits option.splits bool.splits prod.splits)

lemma acceptEntry_inv:
  assumes ok: "badger_ok (sys_db P) view" and cap: "db_bounded (sys_db P) view" and inv: "mirror_inv P view m es"
    and wires: "entry_wires (sys_wire P) e" and acc: "acceptEntry P m e = (m', r)"
  shows "mirror_inv P view m' (if r = None then es @ [e] else es) \<and> mi_cfg m' = mi_cfg m"
proof -
  have log: "holds_log (sys_wire P) (view (st_db (mi_store m))) es" and len: "length es < 2 ^ 63"
    using inv by (simp_all add: mirror_inv_def)
  obtain s q where ap: "AppendEntry (sys_db P) (sys_wire P) (mi_store m) e = (s, q)" by force
  have "Suc (length es) < 2 ^ 64" using len by simp
  note app = AppendEntry_log [OF ok log wires this ap]
  show ?thesis
  proof (cases "r = None")
    case True
    then have r: "ent_Verify (sys_crypto P) (sys_hasher P) e = None" "VerifyChain e (mi_prev m) = None" "q = None"
      "m' = m\<lparr>mi_store := s, mi_prev := Some e, mi_lastSize := mi_lastSize m + 1, mi_totalEntries := mi_totalEntries m + 1\<rparr>"
      using acc ap by (auto simp: acceptEntry_def split: option.splits)
    have log': "holds_log (sys_wire P) (view (st_db s)) (es @ [e])" using app(1) r(3) by blast
    obtain ws where "bdg_Commit (sys_db P) (st_db (mi_store m)) ws = (st_db s, True)" using AppendEntry_commits ap r(3) by blast
    then have "card (dom (view (st_db s))) < 2 ^ 63" using cap unfolding db_bounded_def by blast
    with holds_log_card [OF log' badger_okD(1) [OF ok]] have "length (es @ [e]) < 2 ^ 63" by simp
    with True r log' inv show ?thesis
      by (simp add: mirror_inv_def entries.chained_snoc entries.last_of_def)
  next
    case False
    then have "m' = m \<or> m' = m\<lparr>mi_store := s\<rparr> \<and> q \<noteq> None"
      using acc ap by (auto simp: acceptEntry_def split: option.splits)
    with False inv app(2) show ?thesis by (auto simp: mirror_inv_def)
  qed
qed

lemma accept_entries_inv:
  assumes "badger_ok (sys_db P) view" "db_bounded (sys_db P) view"
  shows "mirror_inv P view m es \<Longrightarrow> \<forall>e. Some e \<in> set xs \<longrightarrow> entry_wires (sys_wire P) e \<Longrightarrow> accept_entries P m xs = (m', r)
    \<Longrightarrow> \<exists>ys. mirror_inv P view m' (es @ ys) \<and> mi_cfg m' = mi_cfg m"
proof (induction xs arbitrary: m es)
  case Nil
  then show ?case by (auto intro: exI [of _ "[]"])
next
  case (Cons x xs)
  show ?case
  proof (cases x)
    case None
    with Cons.prems show ?thesis by (auto intro: exI [of _ "[]"])
  next
    case (Some e)
    obtain m1 q where a: "acceptEntry P m e = (m1, q)" by force
    from acceptEntry_inv [OF assms Cons.prems(1) _ a] Cons.prems(2) Some
    have i: "mirror_inv P view m1 (if q = None then es @ [e] else es)" "mi_cfg m1 = mi_cfg m" by auto
    show ?thesis
    proof (cases q)
      case None
      with Cons.prems(3) Some a have "accept_entries P m1 xs = (m', r)" by simp
      from Cons.IH [OF _ _ this, of "es @ [e]"] i None Cons.prems(2) obtain ys where
        "mirror_inv P view m' ((es @ [e]) @ ys)" "mi_cfg m' = mi_cfg m" by auto
      then show ?thesis by (intro exI [of _ "e # ys"]) simp
    next
      case (Some err)
      with Cons.prems(3) \<open>x = Some e\<close> a i show ?thesis by (auto intro: exI [of _ "[]"])
    qed
  qed
qed

lemma fetched_wires:
  "decodes_wired W U \<Longrightarrow> fetchEntries U n lo hi = Inr xs \<Longrightarrow> Some e \<in> set xs \<Longrightarrow> entry_wires W e"
  by (auto simp: fetchEntries_def httpGet_def decodes_wired_def split: option.splits prod.splits if_splits)

lemma sync_chunks_inv:
  assumes ok: "badger_ok (sys_db P) view" "db_bounded (sys_db P) view" and wired: "decodes_wired (sys_wire P) U"
    and ret: "sync_chunks P U sz m n lo = Some res" and inv: "mirror_inv P view m es"
  shows "\<exists>ys. mirror_inv P view (fst res) (es @ ys)"
proof -
  let ?Q = "\<lambda>S U' sz m n lo res. S = P \<longrightarrow> U' = U \<longrightarrow> (\<forall>es. mirror_inv P view m es \<longrightarrow> (\<exists>ys. mirror_inv P view (fst res) (es @ ys)))"
  have "?Q P U sz m n lo res"
  proof (rule sync_chunks.raw_induct [where P = ?Q, OF _ ret], intro impI allI)
    fix f :: "('a, 'b, 'c, 'd, 'e) sys \<Rightarrow> upstream \<Rightarrow> u64 \<Rightarrow> 'a Mirror \<Rightarrow> nat \<Rightarrow> u64 \<Rightarrow> ('a Mirror \<times> mirror_error option) option"
      and S U' sz m n lo res es
    assume IH: "\<And>S U' sz m n lo res. f S U' sz m n lo = Some res \<Longrightarrow> ?Q S U' sz m n lo res"
      and eq: "(if \<not> lo < sz then Some (m, None)
         else let hi = lo + mc_ChunkSize (mi_cfg m); hi = (if hi > sz then sz else hi)
           in case fetchEntries U' n lo hi of Inl err \<Rightarrow> Some (m, Some (MiHttp err))
              | Inr es \<Rightarrow> (case accept_entries S m es of (m, Some err) \<Rightarrow> Some (m, Some err)
                  | (m, None) \<Rightarrow> f S U' sz m (n + 1) (lo + mc_ChunkSize (mi_cfg m)))) = Some res"
      and S: "S = P" "U' = U" and inv: "mirror_inv P view m es"
    let ?hi = "if lo + mc_ChunkSize (mi_cfg m) > sz then sz else lo + mc_ChunkSize (mi_cfg m)"
    have stay: "\<exists>ys. mirror_inv P view m (es @ ys)" using inv by (auto intro: exI [of _ "[]"])
    show "\<exists>ys. mirror_inv P view (fst res) (es @ ys)"
    proof (cases "lo < sz")
      case False
      with eq stay show ?thesis by auto
    next
      case True
      show ?thesis
      proof (cases "fetchEntries U n lo ?hi")
        case (Inl err)
        with eq True S stay show ?thesis by (auto simp: Let_def)
      next
        case (Inr xs)
        obtain m1 q where a: "accept_entries P m xs = (m1, q)" by force
        have "\<forall>e. Some e \<in> set xs \<longrightarrow> entry_wires (sys_wire P) e" using fetched_wires [OF wired Inr] by blast
        from accept_entries_inv [OF ok inv this a] obtain ys where ys: "mirror_inv P view m1 (es @ ys)" by blast
        show ?thesis
        proof (cases q)
          case None
          with eq True Inr S a have "f P U sz m1 (n + 1) (lo + mc_ChunkSize (mi_cfg m1)) = Some res" by (simp add: Let_def)
          from IH [OF this] ys obtain zs where "mirror_inv P view (fst res) ((es @ ys) @ zs)" by blast
          then show ?thesis by (intro exI [of _ "ys @ zs"]) simp
        next
          case (Some err)
          with eq True Inr S a have "res = (m1, Some err)" by (simp add: Let_def)
          with ys show ?thesis by auto
        qed
      qed
    qed
  qed
  with inv show ?thesis by blast
qed

lemma mirror_inv_stats [simp]:
  "mirror_inv P view (m\<lparr>mi_lastSync := t\<rparr>) es = mirror_inv P view m es"
  "mirror_inv P view (m\<lparr>mi_syncErrors := c\<rparr>) es = mirror_inv P view m es"
  by (simp_all add: mirror_inv_def)

lemma syncOnce_inv:
  assumes "badger_ok (sys_db P) view" "db_bounded (sys_db P) view" "decodes_wired (sys_wire P) U"
    and "syncOnce P U now m = Some (m', r)" and inv: "mirror_inv P view m es"
  shows "\<exists>ys. mirror_inv P view m' (es @ ys)"
proof -
  have stay: "\<exists>ys. mirror_inv P view m (es @ ys)" using inv by (auto intro: exI [of _ "[]"])
  show ?thesis
  proof (cases "fetchUpstreamSize U")
    case (Inr sz)
    show ?thesis
    proof (cases "sz \<le> mi_lastSize m")
      case False
      then obtain res where res: "sync_chunks P U sz m 0 (mi_lastSize m) = Some res"
        using assms(4) Inr by (auto simp: syncOnce_def split: option.splits)
      from sync_chunks_inv [OF assms(1-3) res inv] res False Inr assms(4) show ?thesis
        by (cases res) (auto simp: syncOnce_def split: option.splits)
    qed (use assms(4) Inr stay in \<open>auto simp: syncOnce_def\<close>)
  qed (use assms(4) stay in \<open>auto simp: syncOnce_def\<close>)
qed

lemma mirror_tick_inv:
  assumes "badger_ok (sys_db P) view" "db_bounded (sys_db P) view" "decodes_wired (sys_wire P) U"
    and "mirror_tick P U now m = Some m'" "mirror_inv P view m es"
  shows "\<exists>ys. mirror_inv P view m' (es @ ys)"
proof -
  obtain m1 r where "syncOnce P U now m = Some (m1, r)" "m' = m1 \<or> m' = m1\<lparr>mi_syncErrors := mi_syncErrors m1 + 1\<rparr>"
    using assms(4) by (auto simp: mirror_tick_def split: option.splits mirror_error.splits)
  with syncOnce_inv [OF assms(1-3) _ assms(5)] show ?thesis by auto
qed

lemma mirror_New_inv:
  assumes "badger_ok (sys_db P) view" "holds_log (sys_wire P) (view (st_db s)) es"
    and "entries.chained (sys_crypto P) (sys_hasher P) None es" "length es < 2 ^ 63" and "mirror_New P cfg s = Inr m"
  shows "mirror_inv P view m es \<and> mi_store m = s"
proof -
  obtain sz where sz: "readSize (sys_db P) (st_db s) = Inr sz" using assms(5) by (auto simp: mirror_New_def st_Size_def Let_def split: if_splits sum.splits)
  have n: "sz = of_nat (length es)" by (rule readSize_log [OF assms(1,2) sz])
  show ?thesis
  proof (cases "es = []")
    case True
    with assms sz n show ?thesis
      by (auto simp: mirror_New_def st_Size_def Let_def mirror_inv_def entries.last_of_def split: if_splits)
  next
    case False
    have pos: "sz > 0" using False assms(4) of_nat_less_u64 [of 0 "length es"] by (simp add: n)
    have "sz - 1 = of_nat (length es - 1)" using False by (simp add: n of_nat_diff Suc_leI)
    moreover obtain e where e: "GetEntry (sys_db P) (sys_wire P) s (sz - 1) = Inr e"
      using assms(5) sz pos by (auto simp: mirror_New_def st_Size_def Let_def split: if_splits sum.splits)
    ultimately have "e = es ! (length es - 1)" using GetEntry_log [OF assms(1,2), of "length es - 1" e] False by simp
    then have "e = last es" using False by (simp add: last_conv_nth)
    with assms sz n pos e False show ?thesis
      by (auto simp: mirror_New_def st_Size_def Let_def mirror_inv_def entries.last_of_def split: if_splits)
  qed
qed

text \<open>The life of a mirror, with any operator at every turn of its loop, and restarts.\<close>

inductive mirror_run :: "('d, 'r, 'n, 'w, 'k) sys \<Rightarrow> 'd Store \<Rightarrow> 'd Mirror \<Rightarrow> bool" for P s0 where
  start: "mirror_New P cfg s0 = Inr m \<Longrightarrow> mirror_run P s0 m"
| tick: "mirror_run P s0 m \<Longrightarrow> mirror_tick P U now m = Some m' \<Longrightarrow> decodes_wired (sys_wire P) U \<Longrightarrow> mirror_run P s0 m'"
| crash: "mirror_run P s0 m \<Longrightarrow> syncOnce P U now m = Some (m', r) \<Longrightarrow> decodes_wired (sys_wire P) U
    \<Longrightarrow> mirror_New P cfg (mi_store m') = Inr m'' \<Longrightarrow> mirror_run P s0 m''"

lemma mirror_run_inv:
  assumes "mirror_run P s0 m" "badger_ok (sys_db P) view" "db_bounded (sys_db P) view" "fresh_store view s0"
  shows "\<exists>es. mirror_inv P view m es"
  using assms(1)
proof induction
  case (start cfg m)
  from mirror_New_inv [OF assms(2) _ _ _ start, of "[]"] assms(4) show ?case
    by (auto simp: fresh_store_def holds_log_empty)
next
  case (tick m U now m')
  then show ?case using mirror_tick_inv [OF assms(2,3)] by blast
next
  case (crash m U now m' r cfg m'')
  then obtain es where es: "mirror_inv P view m' es" using syncOnce_inv [OF assms(2,3)] by blast
  then have "holds_log (sys_wire P) (view (st_db (mi_store m'))) es" "entries.chained (sys_crypto P) (sys_hasher P) None es"
    "length es < 2 ^ 63" by (simp_all add: mirror_inv_def)
  from mirror_New_inv [OF assms(2) this crash.hyps(4)] show ?case by blast
qed

lemma mirror_GetEntry_inv:
  assumes "badger_reads (sys_db P) view" "mirror_inv P view m es" "i < length es"
  shows "mirror_GetEntry P m (of_nat i) = Inr (es ! i)"
proof -
  obtain b where "view (st_db (mi_store m)) (entryKey (of_nat i)) = Some b" "Unmarshal (unwire_entry (sys_wire P)) b = Inr (es ! i)"
    using assms(2,3) by (auto simp: mirror_inv_def holds_log_def)
  then show ?thesis using fetch_live [OF assms(1)] by (simp add: mirror_GetEntry_def GetEntry_def)
qed

text \<open>
  C10.  A mirror trusts nobody.  Whatever the operator replies, in whatever order, with any failures of the
  mirror's database and any restarts, the mirror holds and serves a chain of entries that all verify
  and are linked from index 0, its size is their number, and every turn of its loop keeps the entries
  it had and only adds entries that continue the chain: an operator cannot make it forget or replace one.
\<close>

theorem mirror_only_extends_verified_chain:
  assumes "sys_ok P view rep" and "db_bounded (sys_db P) view" and "fresh_store view s0" and "mirror_run P s0 m"
    and "mirror_tick P U now m = Some m'" and "decodes_wired (sys_wire P) U"
  shows "\<exists>es ys. entries.chained (sys_crypto P) (sys_hasher P) None (es @ ys)
    \<and> mi_lastSize m = of_nat (length es) \<and> (\<forall>i < length es. mirror_GetEntry P m (of_nat i) = Inr (es ! i))
    \<and> mi_lastSize m' = of_nat (length (es @ ys)) \<and> (\<forall>i < length (es @ ys). mirror_GetEntry P m' (of_nat i) = Inr ((es @ ys) ! i))"
proof -
  note ok = sys_okD(1,2) [OF assms(1)]
  obtain es where es: "mirror_inv P view m es" using mirror_run_inv [OF assms(4) ok(1) assms(2,3)] by blast
  obtain ys where ys: "mirror_inv P view m' (es @ ys)" using mirror_tick_inv [OF ok(1) assms(2,6,5) es] by blast
  have "entries.chained (sys_crypto P) (sys_hasher P) None (es @ ys)" "mi_lastSize m = of_nat (length es)"
    "mi_lastSize m' = of_nat (length (es @ ys))" using es ys by (simp_all add: mirror_inv_def)
  with mirror_GetEntry_inv [OF ok(2) es] mirror_GetEntry_inv [OF ok(2) ys] show ?thesis by blast
qed

section \<open>The loop\<close>

lemma acceptEntry_cfg: "acceptEntry P m e = (m', r) \<Longrightarrow> mi_cfg m' = mi_cfg m"
  by (auto simp: acceptEntry_def split: option.splits prod.splits)

lemma accept_entries_cfg: "accept_entries P m xs = (m', r) \<Longrightarrow> mi_cfg m' = mi_cfg m"
proof (induction P m xs rule: accept_entries.induct)
  case (3 P m e xs)
  obtain m1 q where a: "acceptEntry P m e = (m1, q)" by force
  with 3 acceptEntry_cfg [OF a] show ?case by (cases q) auto
qed simp_all

lemma sync_chunks_unfold:
  "sync_chunks P U sz m n lo =
     (if \<not> lo < sz then Some (m, None)
      else case fetchEntries U n lo (if lo + mc_ChunkSize (mi_cfg m) > sz then sz else lo + mc_ChunkSize (mi_cfg m)) of
             Inl err \<Rightarrow> Some (m, Some (MiHttp err))
           | Inr es \<Rightarrow>
               (case accept_entries P m es of
                  (m', Some err) \<Rightarrow> Some (m', Some err)
                | (m', None) \<Rightarrow> sync_chunks P U sz m' (n + 1) (lo + mc_ChunkSize (mi_cfg m))))"
  using accept_entries_cfg [of P m]
  by (subst sync_chunks.simps) (auto simp: Let_def split: sum.splits prod.splits option.splits)

lemma sync_chunks_returns:
  assumes "mc_ChunkSize (mi_cfg m) \<noteq> 0" "unat sz + unat (mc_ChunkSize (mi_cfg m)) \<le> 2 ^ 64"
  shows "\<exists>res. sync_chunks P U sz m n lo = Some res"
  using assms
proof (induction "unat sz - unat lo" arbitrary: m n lo rule: less_induct)
  case less
  let ?c = "mc_ChunkSize (mi_cfg m)"
  show ?case
  proof (cases "lo < sz")
    case False
    then show ?thesis by (simp add: sync_chunks_unfold [of P U sz m])
  next
    case True
    have lt: "unat lo < unat sz" using True by (simp add: word_less_nat_alt)
    have pos: "0 < unat ?c" using less.prems(1) by (simp add: unat_gt_0)
    have add: "unat (lo + ?c) = unat lo + unat ?c"
      using lt less.prems(2) by (simp add: unat_word_ariths)
    show ?thesis
    proof (cases "fetchEntries U n lo (if lo + ?c > sz then sz else lo + ?c)")
      case (Inl err)
      with True show ?thesis by (simp add: sync_chunks_unfold [of P U sz m])
    next
      case (Inr xs)
      obtain m1 q where a: "accept_entries P m xs = (m1, q)" by force
      have cfg: "mi_cfg m1 = mi_cfg m" by (rule accept_entries_cfg [OF a])
      have "\<exists>res. sync_chunks P U sz m1 (n + 1) (lo + ?c) = Some res"
        by (rule less.hyps) (use lt pos add less.prems cfg in auto)
      with True Inr a show ?thesis by (cases q) (simp_all add: sync_chunks_unfold [of P U sz m])
    qed
  qed
qed

lemma sync_chunks_cfg: "sync_chunks P U sz m n lo = Some res \<Longrightarrow> mi_cfg (fst res) = mi_cfg m"
proof (erule sync_chunks.raw_induct [where P = "\<lambda>S U sz m n lo res. mi_cfg (fst res) = mi_cfg m", rotated], goal_cases)
  case (1 f S U sz m n lo res)
  then show ?case
    using accept_entries_cfg [of S m]
    by (auto simp: Let_def split: if_splits sum.splits prod.splits option.splits) (metis fst_conv)+
qed

lemma mirror_run_chunk: "mirror_run P s0 m \<Longrightarrow> mc_ChunkSize (mi_cfg m) \<noteq> 0"
proof (induction rule: mirror_run.induct)
  case (tick m U now m')
  then have "mi_cfg m' = mi_cfg m"
    using sync_chunks_cfg [of P U _ m 0 "mi_lastSize m"]
    by (auto simp: mirror_tick_def syncOnce_def split: option.splits mirror_error.splits sum.splits if_splits)
  with tick.IH show ?case by simp
qed (auto simp: mirror_New_def Let_def split: if_splits sum.splits)

text \<open>
  C26.  A round of the mirror ends.  For every operator, whatever it replies to the requests for entries,
  \<open>syncOnce\<close> returns, with success or an error, as long as the size the operator claims leaves room for
  one more chunk in 64 bits.
\<close>

theorem mirror_sync_returns:
  assumes "mirror_run P s0 m"
    and "\<And>sz. fetchUpstreamSize U = Inr sz \<Longrightarrow> unat sz + unat (mc_ChunkSize (mi_cfg m)) \<le> 2 ^ 64"
  shows "\<exists>m' r. syncOnce P U now m = Some (m', r)"
proof -
  have chunk: "mc_ChunkSize (mi_cfg m) \<noteq> 0" by (rule mirror_run_chunk [OF assms(1)])
  show ?thesis
  proof (cases "fetchUpstreamSize U")
    case (Inr sz)
    obtain res where "sync_chunks P U sz m 0 (mi_lastSize m) = Some res"
      using sync_chunks_returns [OF chunk assms(2) [OF Inr]] by blast
    with Inr show ?thesis by (cases res) (auto simp: syncOnce_def split: option.splits)
  qed (simp add: syncOnce_def)
qed

lemma sync_chunks_diverges:
  assumes empty: "\<And>n lo hi. fetchEntries U n lo hi = Inr []"
  shows "sync_chunks P U' sz m n lo = Some res
    \<Longrightarrow> \<not> (U' = U \<and> sz = - 1 \<and> mc_ChunkSize (mi_cfg m) = 256 \<and> 256 dvd unat lo)"
proof (erule sync_chunks.raw_induct [where P = "\<lambda>S U' sz m n lo res.
      \<not> (U' = U \<and> sz = - 1 \<and> mc_ChunkSize (mi_cfg m) = 256 \<and> 256 dvd unat lo)", rotated], goal_cases)
  case (1 f S U' sz m n lo res)
  show ?case
  proof
    assume a: "U' = U \<and> sz = - 1 \<and> mc_ChunkSize (mi_cfg m) = 256 \<and> 256 dvd unat lo"
    have "unat (lo + 256) = (unat lo + 256) mod 2 ^ 64" by (simp add: unat_word_ariths)
    moreover have "(256 :: nat) dvd (unat lo + 256) mod 2 ^ 64" using a by (intro dvd_mod) simp_all
    ultimately have next_dvd: "256 dvd unat (lo + 256)" by simp
    have "unat (- 1 :: u64) = 2 ^ 64 - 1" by (simp add: unsigned_minus_1_eq_mask mask_eq_exp_minus_1)
    then have "\<not> 256 dvd unat (- 1 :: u64)" by simp
    then have "lo \<noteq> - 1" using a by auto
    then have "lo < - 1" using word_order.extremum [of lo] by (simp add: order_less_le)
    then have "f S U (- 1) m (n + 1) (lo + 256) = Some res" using 1(2) a empty by (simp add: Let_def)
    with 1(1) a next_dvd show False by blast
  qed
qed

text \<open>
  C39.  An operator can hang a mirror.  An operator that claims \<open>2 ^ 64 - 1\<close> entries and answers every request
  for entries with an empty list keeps a mirror with the default chunk size in \<open>syncOnce\<close> forever,
  with its lock held: the counter of the loop wraps to 0 before it reaches the size.
\<close>

theorem hostile_size_hangs_mirror:
  assumes "fetchUpstreamSize U = Inr (- 1)" and "\<And>n lo hi. fetchEntries U n lo hi = Inr []"
    and "mc_ChunkSize (mi_cfg m) = 256" and "mi_lastSize m = 0"
  shows "syncOnce P U now m = None"
proof -
  have "sync_chunks P U (- 1) m 0 0 = None"
    using sync_chunks_diverges [OF assms(2), of P U "- 1" m 0 0] assms(3) by (auto simp: not_Some_eq [symmetric])
  with assms(1,4) show ?thesis by (simp add: syncOnce_def)
qed

section \<open>A mirror of an honest operator\<close>

text \<open>
  The replies the mirror decodes are those of the handlers of the API server of a log; the entries of
  the log have a JSON encoding, and it gives them back.
\<close>

definition mirrors_server ::
    "('d, 'r, 'n, 'w, 'k) sys \<Rightarrow> api_wire \<Rightarrow> call_env \<Rightarrow> ('d, 'r, 'k, 'w, 'l) Server \<Rightarrow> upstream \<Rightarrow> bool" where
  "mirrors_server P A E s U \<longleftrightarrow>
     (\<forall>r z. rq_Method r = ''GET'' \<longrightarrow> handleSize P r s = HttpOk z \<longrightarrow> fetchUpstreamSize U = Inr (sz_Size z))
     \<and> (\<forall>n lo hi r xs. range_query lo hi r \<longrightarrow> snd (handleEntriesRange P A E r s) = HttpOk (xs, lo, hi)
          \<longrightarrow> fetchEntries U n lo hi = Inr (map Some xs))"

definition entry_encodes :: "wire \<Rightarrow> Entry \<Rightarrow> bool" where
  "entry_encodes W e \<longleftrightarrow> wire_entry W e \<noteq> None \<and> entry_wires W e"

lemma acceptEntry_live:
  assumes ok: "sys_ok P view rep" and live: "badger_commits (sys_db P)" and inv: "mirror_inv P view m xs"
    and ch: "entries.chained (sys_crypto P) (sys_hasher P) None (xs @ [e])" and enc: "entry_encodes (sys_wire P) e"
    and len: "Suc (length xs) < 2 ^ 63"
  shows "\<exists>m'. acceptEntry P m e = (m', None) \<and> mirror_inv P view m' (xs @ [e]) \<and> mi_cfg m' = mi_cfg m"
proof -
  have v: "ent_Verify (sys_crypto P) (sys_hasher P) e = None" "VerifyChain e (entries.last_of None xs) = None"
    using ch by (simp_all add: entries.chained_snoc)
  have log: "holds_log (sys_wire P) (view (st_db (mi_store m))) xs"
    and chx: "entries.chained (sys_crypto P) (sys_hasher P) None xs" using inv by (simp_all add: mirror_inv_def)
  have hd: "length (head_of xs) = 32" by (rule length_head_of) (use chained_hashes(1) [OF chx] in blast)
  have idx: "ent_Index e = of_nat (length xs)" by (rule entries.index_last [OF ch])
  have prv: "ent_PrevHash e = head_of xs"
    using v(2) by (cases "xs = []") (simp_all add: entries.last_of_def VerifyChain_None VerifyChain_Some head_of_def)
  have "length (ent_EntryHash e) = 32" "length (ent_LeafHash e) = 32"
    using chained_hashes [OF ch, of e] sys_okD(5) [OF ok] by simp_all
  then have "ent_EntryHash e \<noteq> []" "ent_LeafHash e \<noteq> []" by auto
  with AppendEntry_live [OF sys_okD(2) [OF ok] log hd live _ idx prv] enc len
  have "snd (AppendEntry (sys_db P) (sys_wire P) (mi_store m) e) = None" by (simp add: entry_encodes_def)
  then obtain s where a: "AppendEntry (sys_db P) (sys_wire P) (mi_store m) e = (s, None)" by (metis prod.collapse)
  have "holds_log (sys_wire P) (view (st_db s)) (xs @ [e])"
    using AppendEntry_log(1) [OF sys_okD(1) [OF ok] log _ _ a] enc len by (simp add: entry_encodes_def)
  with a v inv ch len show ?thesis
    by (simp add: acceptEntry_def mirror_inv_def) (simp add: entries.last_of_def)
qed

lemma accept_entries_live:
  assumes ok: "sys_ok P view rep" "badger_commits (sys_db P)"
  shows "mirror_inv P view m xs \<Longrightarrow> entries.chained (sys_crypto P) (sys_hasher P) None (xs @ ys)
    \<Longrightarrow> \<forall>e \<in> set ys. entry_encodes (sys_wire P) e \<Longrightarrow> length (xs @ ys) < 2 ^ 63
    \<Longrightarrow> \<exists>m'. accept_entries P m (map Some ys) = (m', None) \<and> mirror_inv P view m' (xs @ ys) \<and> mi_cfg m' = mi_cfg m"
proof (induction ys arbitrary: m xs)
  case (Cons e ys)
  have "entries.chained (sys_crypto P) (sys_hasher P) None (xs @ [e])"
    using Cons.prems(2) entries.chained_append [of _ _ None "xs @ [e]" ys] by simp
  from acceptEntry_live [OF ok Cons.prems(1) this] Cons.prems(3,4)
  obtain m1 where m1: "acceptEntry P m e = (m1, None)" "mirror_inv P view m1 (xs @ [e])" "mi_cfg m1 = mi_cfg m" by auto
  from Cons.IH [OF m1(2)] Cons.prems(2-4) m1(1,3) show ?case by simp
qed simp

lemma sync_chunks_live:
  assumes ok: "sys_ok P view rep" "badger_commits (sys_db P)" and log: "log_inv P view rep (srv_Log s) es"
    and up: "mirrors_server P A E s U" and enc: "\<forall>e \<in> set es. entry_encodes (sys_wire P) e" and len: "length es < 2 ^ 63"
  shows "mirror_inv P view m (take lo es) \<Longrightarrow> mc_ChunkSize (mi_cfg m) \<le> 10000 \<Longrightarrow> lo < 2 ^ 63 + 10000
    \<Longrightarrow> \<exists>m'. sync_chunks P U (of_nat (length es)) m n (of_nat lo) = Some (m', None) \<and> mirror_inv P view m' es"
proof (induction "length es - lo" arbitrary: m n lo rule: less_induct)
  case less
  define c where "c = unat (mc_ChunkSize (mi_cfg m))"
  have c: "mc_ChunkSize (mi_cfg m) = of_nat c" "0 < c" "c \<le> 10000"
    using less.prems(1,2) by (simp_all add: c_def mirror_inv_def unat_gt_0 word_le_nat_alt)
  show ?case
  proof (cases "lo < length es")
    case False
    then have "\<not> (of_nat lo :: u64) < of_nat (length es)" using less.prems(3) len by (simp add: of_nat_less_u64)
    with False less.prems(1) show ?thesis by (simp add: sync_chunks_unfold)
  next
    case True
    let ?hi = "min (length es) (lo + c)"
    have "(of_nat (length es) :: u64) < of_nat lo + of_nat c \<longleftrightarrow> length es < lo + c"
      using of_nat_less_u64 [of "length es" "lo + c"] True len c(3) by simp
    then have hi: "(if of_nat lo + mc_ChunkSize (mi_cfg m) > (of_nat (length es) :: u64) then of_nat (length es)
        else of_nat lo + mc_ChunkSize (mi_cfg m)) = (of_nat ?hi :: u64)" by (simp add: c(1) min_def)
    define r :: Request where "r = (sample_request ''GET'' [] [] None)\<lparr>rq_Method := ''GET'',
      rq_Query := (\<lambda>k. if k = ''from'' then dec_u64 (of_nat lo) else dec_u64 (of_nat ?hi))\<rparr>"
    have r: "range_query (of_nat lo) (of_nat ?hi) r" by (simp add: r_def range_query_def)
    have "snd (handleEntriesRange P A E r s) = HttpOk (drop lo (take ?hi es), of_nat lo, of_nat ?hi)"
      using True c len by (intro handleEntriesRange_reply [OF ok(1) log r]) auto
    with up r have f: "fetchEntries U n (of_nat lo) (of_nat ?hi) = Inr (map Some (drop lo (take ?hi es)))"
      by (auto simp: mirrors_server_def)
    have split: "take lo es @ drop lo (take ?hi es) = take (lo + c) es"
      using append_take_drop_id [of lo "take (lo + c) es"] True by (simp add: min_def)
    have "entries.chained (sys_crypto P) (sys_hasher P) None (take (lo + c) es)"
      using log entries.chained_append [of _ _ None "take (lo + c) es" "drop (lo + c) es"] by (simp add: log_inv_def)
    moreover have "length (take (lo + c) es) < 2 ^ 63" using len by simp
    moreover have "\<forall>e \<in> set (drop lo (take ?hi es)). entry_encodes (sys_wire P) e"
      using enc by (meson in_set_dropD in_set_takeD)
    ultimately obtain m1 where m1: "accept_entries P m (map Some (drop lo (take ?hi es))) = (m1, None)"
      "mirror_inv P view m1 (take (lo + c) es)" "mi_cfg m1 = mi_cfg m"
      using accept_entries_live [OF ok less.prems(1), of "drop lo (take ?hi es)"] unfolding split by blast
    have "\<exists>m'. sync_chunks P U (of_nat (length es)) m1 (n + 1) (of_nat (lo + c)) = Some (m', None) \<and> mirror_inv P view m' es"
      using True c len less.prems(2) m1(3) by (intro less.hyps [OF _ m1(2)]) auto
    moreover have "(of_nat lo :: u64) < of_nat (length es)" using True len by (simp add: of_nat_less_u64)
    ultimately show ?thesis using f m1(1)
      unfolding sync_chunks_unfold [of P U "of_nat (length es)" m n "of_nat lo"] hi by (simp add: c(1))
  qed
qed

text \<open>
  C16.  An honest operator's mirror catches up.  Take a mirror that holds any first part of the log, with
  a chunk size of at most 10000 (what \<open>handleEntriesRange\<close> allows), a database in which every commit
  succeeds, and entries that can be encoded, and an operator whose API answers every request.  One round
  of \<open>syncOnce\<close> then fetches everything the operator serves: the round succeeds, and the mirror serves
  exactly the operator's log, entry by entry.
\<close>

theorem mirror_catches_up:
  assumes "sys_ok P view rep" and "badger_commits (sys_db P)" and "fresh_store view s0"
    and "core_run P s0 (srv_Log s) es" and "length es < 2 ^ 63" and "\<forall>e \<in> set es. entry_encodes (sys_wire P) e"
    and "mirrors_server P A E s U" and "mirror_inv P view m (take k es)" and "mc_ChunkSize (mi_cfg m) \<le> 10000"
  shows "\<exists>m'. syncOnce P U now m = Some (m', None) \<and> mi_lastSize m' = of_nat (length es)
    \<and> (\<forall>i < length es. mirror_GetEntry P m' (of_nat i) = Inr (es ! i))"
proof -
  have log: "log_inv P view rep (srv_Log s) es" by (rule core_run_inv [OF assms(4,1,3,5)])
  let ?lo = "min k (length es)"
  have tk: "mirror_inv P view m (take ?lo es)" using assms(8) by (cases "k \<le> length es") simp_all
  then have last: "mi_lastSize m = of_nat ?lo" by (simp add: mirror_inv_def)
  have lo: "?lo < 2 ^ 63 + 10000" using assms(5) min.cobounded2 [of k "length es"] by linarith
  have "rq_Method (sample_request ''GET'' [] [] None) = ''GET''" by (simp add: sample_request_def)
  with handleSize_reply [OF assms(1) log this] assms(7)
  have sz: "fetchUpstreamSize U = Inr (of_nat (length es))" unfolding mirrors_server_def by metis
  obtain m' where m': "sync_chunks P U (of_nat (length es)) m 0 (of_nat ?lo) = Some (m', None)" "mirror_inv P view m' es"
    using sync_chunks_live [OF assms(1,2) log assms(7,6,5) tk assms(9) lo, of 0] by blast
  have "\<exists>m'. syncOnce P U now m = Some (m', None) \<and> mirror_inv P view m' es"
  proof (cases "of_nat (length es) \<le> mi_lastSize m")
    case True
    then have "length es \<le> ?lo" using assms(5) by (simp add: last of_nat_le_u64)
    then have "mirror_inv P view m es" using tk by simp
    with True sz show ?thesis by (simp add: syncOnce_def mirror_inv_def)
  next
    case False
    with sz m' show ?thesis by (simp add: syncOnce_def last mirror_inv_def)
  qed
  then obtain m'' where "syncOnce P U now m = Some (m'', None)" "mirror_inv P view m'' es" by blast
  with mirror_GetEntry_inv [OF sys_okD(2) [OF assms(1)]] show ?thesis by (auto simp: mirror_inv_def)
qed

section \<open>Instances\<close>

text \<open>
  A database that refuses to grow beyond a thousand writes, a mirror over it, and an operator with one
  entry: the size is the first byte of its reply, and the entries are encoded as one byte;
  past its entry it has none.
\<close>

definition sample_capped :: "((bytes \<times> bytes) list, bytes list, NodeID list, FileWorld, nat) sys" where
  "sample_capped = (sample_P None)\<lparr>sys_db := (sample_badger (\<lambda>_. True))\<lparr>bdg_Commit :=
     (\<lambda>d ws. if length (fold sample_write ws d) < 1000 then (fold sample_write ws d, True) else (d, False))\<rparr>\<rparr>"

definition sample_upstream :: "u64 \<Rightarrow> Entry option list \<Rightarrow> upstream" where
  "sample_upstream sz es =
     \<lparr>up_size = Some (200, []), up_entries = (\<lambda>n lo hi. Some (200, if lo = 0 then [1] else [])),
      up_dec_size = (\<lambda>b. Some sz), up_dec_entries = (\<lambda>b. Some (if b = [1] then es else []))\<rparr>"

definition sample_cfg :: MirrorConfig where
  "sample_cfg = \<lparr>mc_Upstream = ''http://op'', mc_PollEvery = 0, mc_ChunkSize = 0\<rparr>"

definition sample_mirror :: "(bytes \<times> bytes) list Mirror" where
  "sample_mirror = \<lparr>mi_cfg = \<lparr>mc_Upstream = ''http://op'', mc_PollEvery = 30000000000, mc_ChunkSize = 256\<rparr>,
     mi_store = sample_s0, mi_prev = None, mi_lastSize = 0, mi_totalEntries = 0, mi_lastSync = 0, mi_syncErrors = 0\<rparr>"

lemma sample_fetch:
  "fetchUpstreamSize (sample_upstream sz es) = Inr sz" "fetchEntries (sample_upstream sz es) n lo hi = Inr (if lo = 0 then es else [])"
  by (simp_all add: fetchUpstreamSize_def fetchEntries_def httpGet_def sample_upstream_def)

lemma sample_capped_sel [simp]:
  "sys_wire sample_capped = sample_wire sample_reg" "sys_lib sample_capped = sample_tdlib" "sys_hasher sample_capped = rfc6962"
  "sys_crypto sample_capped = sample_crypto"
  by (simp_all add: sample_capped_def)

lemma sample_capped_ok: "sys_ok sample_capped map_of (\<lambda>r ls. r = ls)"
proof -
  have "badger_ok (sys_db sample_capped) map_of" "badger_reads (sys_db sample_capped) map_of"
    by (auto simp: sample_capped_def sample_badger_def badger_ok_def badger_reads_def finite_dom_map_of map_of_sample_writes
        split: if_splits)
  then show ?thesis using sample_sys_ok [of "\<lambda>_. True" sample_reg None] by (simp add: sys_ok_def)
qed

lemma sample_capped_bounded: "db_bounded (sys_db sample_capped) map_of"
proof -
  have le: "card (dom (map_of d)) \<le> length d" for d :: "(bytes \<times> bytes) list"
    using card_image_le [of "set d" fst] card_length [of d] by (simp add: dom_map_of_conv_image_fst)
  have "card (dom (map_of d)) < 2 ^ 63" if "length d < 1000" for d :: "(bytes \<times> bytes) list"
    by (rule less_trans [OF le_less_trans [OF le that]]) simp
  then show ?thesis by (auto simp: db_bounded_def sample_capped_def split: if_splits)
qed

lemma sample_mirror_New:
  assumes "sys_db P = sample_badger ok \<or> P = sample_capped"
  shows "mirror_New P sample_cfg sample_s0 = Inr sample_mirror"
proof -
  have "st_Size (sys_db P) sample_s0 = Inr 0"
    using assms by (auto simp: st_Size_def readSize_def sample_s0_def sample_badger_def sample_capped_def fetch_def)
  then show ?thesis by (simp add: mirror_New_def sample_cfg_def sample_mirror_def)
qed

lemma sample_entry_wires: "entry_wires (sample_wire pr) e"
  by (simp add: entry_wires_def sample_wire_def Unmarshal_def)

lemma sample_decodes: "decodes_wired (sample_wire pr) (sample_upstream sz es)"
  by (simp add: decodes_wired_def sample_entry_wires)

lemma sample_mirror_run: "mirror_run sample_capped sample_s0 sample_mirror"
  by (rule mirror_run.start [OF sample_mirror_New]) simp

lemma sample_tick: "\<exists>m'. mirror_tick sample_capped (sample_upstream 1 [Some sample_entry]) 7 sample_mirror = Some m' \<and> mi_lastSize m' = 1"
proof -
  have ch: "entries.chained sample_crypto rfc6962 None [sample_entry]"
    using sample_inv_log2 [of None] by (simp add: log_inv_def)
  then have v: "ent_Verify sample_crypto rfc6962 sample_entry = None" "VerifyChain sample_entry None = None" by simp_all
  have e: "ent_Index sample_entry = 0" "ent_PrevHash sample_entry = ZeroHash" "ent_EntryHash sample_entry \<noteq> []" "ent_LeafHash sample_entry \<noteq> []"
    using v chained_hashes [OF ch, of sample_entry] by (auto simp: VerifyChain_None rfc6962_def)
  obtain s where "AppendEntry (sys_db sample_capped) (sample_wire sample_reg) sample_s0 sample_entry = (s, None)"
    using that e
    by (simp add: AppendEntry_def readSize_def readHead_def fetch_def commit_def sample_capped_def sample_badger_def sample_s0_def
        sample_wire_def Unmarshal_def ZeroHash_def)
  with v obtain m' where m': "acceptEntry sample_capped sample_mirror sample_entry = (m', None)" "mi_lastSize m' = 1" "mi_cfg m' = mi_cfg sample_mirror"
    by (simp add: acceptEntry_def sample_mirror_def)
  then show ?thesis
    by (simp add: mirror_tick_def syncOnce_def sample_fetch sync_chunks_unfold sample_mirror_def)
qed

theorem mirror_only_extends_verified_chain_witness:
  "\<exists>m' e es. mirror_tick sample_capped (sample_upstream 1 [Some sample_entry]) 7 sample_mirror = Some m' \<and> mi_lastSize m' = 1
    \<and> entries.chained sample_crypto rfc6962 None (e # es) \<and> mirror_GetEntry sample_capped m' 0 = Inr e"
proof -
  let ?U = "sample_upstream 1 [Some sample_entry]"
  obtain m' where m': "mirror_tick sample_capped ?U 7 sample_mirror = Some m'" "mi_lastSize m' = 1" using sample_tick by blast
  have "decodes_wired (sys_wire sample_capped) ?U" by (simp add: sample_decodes)
  from mirror_only_extends_verified_chain [OF sample_capped_ok sample_capped_bounded sample_fresh sample_mirror_run m'(1) this] obtain es ys
    where r: "entries.chained sample_crypto rfc6962 None (es @ ys)" "mi_lastSize m' = of_nat (length (es @ ys))"
      "\<forall>i < length (es @ ys). mirror_GetEntry sample_capped m' (of_nat i) = Inr ((es @ ys) ! i)" by auto
  then obtain e zs where z: "es @ ys = e # zs" using m'(2) by (cases "es @ ys") auto
  have "mirror_GetEntry sample_capped m' 0 = Inr e" using r(3) [rule_format, of 0] unfolding z by simp
  then show ?thesis using m' r(1) unfolding z by blast
qed

theorem mirror_sync_returns_witness:
  "\<exists>m' r. syncOnce sample_capped (sample_upstream 1 [Some sample_entry]) 7 sample_mirror = Some (m', r)"
  by (rule mirror_sync_returns [OF sample_mirror_run]) (simp add: sample_fetch sample_mirror_def)

theorem hostile_size_hangs_mirror_witness:
  "mirror_New sample_capped sample_cfg sample_s0 = Inr sample_mirror
    \<and> syncOnce sample_capped (sample_upstream (- 1) []) 7 sample_mirror = None"
  using hostile_size_hangs_mirror [of "sample_upstream (- 1) []" sample_mirror sample_capped 7] sample_mirror_New [of sample_capped]
  by (simp add: sample_fetch sample_mirror_def)

lemma sample_mirrors: "mirrors_server (sample_P None) A E (sample_server (sample_log2 None)) (sample_upstream 1 [Some sample_entry])"
proof -
  let ?s = "sample_server (sample_log2 None)"
  have log: "log_inv (sample_P None) map_of (\<lambda>r ls. r = ls) (srv_Log ?s) [sample_entry]"
    using sample_inv_log2 by (simp add: sample_server_def)
  have "sz_Size z = 1" if "rq_Method r = ''GET''" "handleSize (sample_P None) r ?s = HttpOk z" for r z
    using handleSize_reply [OF sample_sys_ok log that(1)] that(2) by auto
  moreover have "map Some xs = (if lo = 0 then [Some sample_entry] else [])"
    if q: "range_query lo hi r" and x: "snd (handleEntriesRange (sample_P None) A E r ?s) = HttpOk (xs, lo, hi)" for lo hi r xs
  proof -
    have "query_range r = Some (lo, hi)" "rq_Method r = ''GET''" using q by (simp_all add: query_range_def range_query_def)
    then have b: "lo < hi" "hi - lo \<le> 10000" using x by (auto simp: handleEntriesRange_def split: if_splits)
    then have "unat lo < unat hi" "unat hi \<le> unat lo + 10000"
      by (simp_all add: word_less_nat_alt word_le_nat_alt unat_sub_if_size)
    moreover have "unat hi < 2 ^ 64" using unsigned_less [of hi] by simp
    ultimately have "snd (handleEntriesRange (sample_P None) A E r ?s) = HttpOk (drop (unat lo) (take (unat hi) [sample_entry]), lo, hi)"
      using handleEntriesRange_reply [OF sample_sys_ok log, of "unat lo" "unat hi" r A E] q by simp
    with x have "xs = drop (unat lo) (take (unat hi) [sample_entry])" by simp
    with b show ?thesis by (cases "unat lo"; cases "unat hi") (auto simp: unat_eq_zero)
  qed
  ultimately show ?thesis by (simp add: mirrors_server_def sample_fetch)
qed

theorem mirror_catches_up_witness:
  "\<exists>m'. syncOnce (sample_P None) (sample_upstream 1 [Some sample_entry]) 7 sample_mirror = Some (m', None)
    \<and> mi_lastSize m' = 1 \<and> mirror_GetEntry (sample_P None) m' 0 = Inr sample_entry"
proof -
  let ?s = "sample_server (sample_log2 None)"
  have run: "core_run (sample_P None) sample_s0 (srv_Log ?s) [sample_entry]"
    using sample_run_log2 by (simp add: sample_server_def)
  have "mirror_New (sample_P None) sample_cfg sample_s0 = Inr sample_mirror" by (rule sample_mirror_New [where ok = "\<lambda>_. True"]) simp
  then have inv: "mirror_inv (sample_P None) map_of sample_mirror (take 0 [sample_entry])"
    using mirror_New_inv [OF sys_okD(1) [OF sample_sys_ok], of "\<lambda>_. True" sample_reg None sample_s0 "[]"]
    by (simp add: sample_s0_def holds_log_empty)
  have enc: "\<forall>e \<in> set [sample_entry]. entry_encodes (sys_wire (sample_P None)) e"
    by (simp add: entry_encodes_def sample_entry_wires) (simp add: sample_wire_def)
  have "badger_commits (sys_db (sample_P None))" by (simp add: sample_commits)
  from mirror_catches_up [OF sample_sys_ok this sample_fresh run _ enc sample_mirrors inv, of 7]
  show ?thesis by (simp add: sample_mirror_def)
qed

end
