(* ===== verification/Expiry.thy ===== *)
theory Expiry
  imports Verifying
begin

text \<open>
  A log whose store was opened with a replay TTL, as \<open>steled\<close> does by default.  The same envelope is
  appended, covered by a checkpoint and, once the database has dropped its replay record, appended
  again: the log then has two entries around one envelope, and its latest checkpoint covers the first.
\<close>

section \<open>What an append leaves alone\<close>

lemma AppendEntry_other:
  assumes "badger_ok B view" "AppendEntry B W s e = (s', r)" "\<not> log_key k"
  shows "view (st_db s') k = view (st_db s) k"
proof -
  have "s' = s \<or> (\<exists>b n. commit B s [WSet (entryKey (ent_Index e)) b, WSet (leafKey (ent_Index e)) (ent_LeafHash e),
      WSet keyMetaSize n, WSet keyMetaHead (ent_EntryHash e)] = (s', r))"
    using assms(2) by (auto simp: AppendEntry_def split: if_split_asm sum.split_asm bool.split_asm option.split_asm)
  then show ?thesis
  proof
    assume "\<exists>b n. commit B s [WSet (entryKey (ent_Index e)) b, WSet (leafKey (ent_Index e)) (ent_LeafHash e),
      WSet keyMetaSize n, WSet keyMetaHead (ent_EntryHash e)] = (s', r)"
    then obtain b n where c: "commit B s [WSet (entryKey (ent_Index e)) b, WSet (leafKey (ent_Index e)) (ent_LeafHash e),
      WSet keyMetaSize n, WSet keyMetaHead (ent_EntryHash e)] = (s', r)" by blast
    show ?thesis by (rule commit_other [OF assms(1) c]) (use assms(3) in auto)
  qed simp
qed

lemma AppendCtx_other:
  assumes "badger_ok (sys_db P) view" "AppendCtx P now enow l (Some env) hp = (l', r)"
    and "\<not> log_key k" "\<not> has_prefix prefixReplay k"
  shows "view (st_db (lg_store l')) k = view (st_db (lg_store l)) k"
proof -
  have "k \<noteq> replayKey h" for h using assms(4) by auto
  then have c: "view (st_db s) k = view (st_db (lg_store l)) k"
    if "CheckAndRecordEnvelope (sys_db P) (lg_store l) h i = (s, x)" for h i s x
    using CheckAndRecord_log(2) [OF assms(1) that] by blast
  have a: "view (st_db s') k = view (st_db s) k" if "AppendEntry (sys_db P) (sys_wire P) s e = (s', x)" for e s s' x
    by (rule AppendEntry_other [OF assms(1) that assms(3)])
  show ?thesis using assms(2)
    by (auto simp: AppendCtx_def Let_def dest!: c a AppendLeafHash_store
        split: option.split_asm prod.split_asm sum.split_asm)
qed

lemma AppendCtx_enrollment: "AppendCtx P now enow l eo hp = (l', r) \<Longrightarrow> lg_requireEnrollment l' = lg_requireEnrollment l"
  by (auto simp: AppendCtx_def Let_def split: option.split_asm prod.split_asm sum.split_asm)

text \<open>The keys of checkpoints sort before all keys that an append writes.\<close>

lemma low_key: "k \<le> checkpointKey n \<Longrightarrow> \<not> log_key k \<and> \<not> has_prefix prefixReplay k"
  by (cases k) (auto simp: log_key_def key_defs)

lemma distinct_single:
  assumes "distinct xs" "set xs = {a}"
  shows "xs = [a]"
proof -
  have "length xs = 1" using distinct_card [OF assms(1)] assms(2) by simp
  then obtain x where "xs = [x]" by (auto simp: length_Suc_conv)
  with assms(2) show ?thesis by simp
qed

lemma GetCheckpoint_only:
  assumes "badger_ok B view" "badger_reads B view" "view (st_db s) (checkpointKey m) = Some body"
    and "m \<le> n" "checkpointKey m \<le> checkpointKey n"
    and "\<And>k. k \<in> dom (view (st_db s)) \<Longrightarrow> k \<le> checkpointKey n \<Longrightarrow> k = checkpointKey m"
  shows "GetCheckpoint B s n = Inr (body, m)"
proof -
  let ?ks = "filter (\<lambda>k. k \<le> checkpointKey n) (sorted_list_of_set (dom (view (st_db s))))"
  have "set ?ks = {checkpointKey m}" using badger_okD(1) [OF assms(1)] assms(3,5,6) by auto
  then have "?ks = [checkpointKey m]" by (rule distinct_single [rotated]) simp
  then have "bdg_KeysRev B (st_db s) (checkpointKey n) = [checkpointKey m]" using badger_okD(5) [OF assms(1)] by simp
  moreover have "bdg_Value B (st_db s) (checkpointKey m) = Some body" using assms(2,3) by (simp add: badger_reads_def)
  ultimately show ?thesis using assms(4) by (simp add: GetCheckpoint_def) (simp add: checkpointKey_def leD)
qed

section \<open>A log with two entries around one envelope\<close>

definition sample_second :: Entry where
  "sample_second = ent_New rfc6962 9 1 (prev_entry 1 (ent_EntryHash sample_entry)) (Some sample_signed) False"

definition sample_wire2 :: wire where
  "sample_wire2 = (sample_wire sample_reg)
     \<lparr>wire_entry := (\<lambda>e. if e = sample_entry then Some [1] else if e = sample_second then Some [4] else None),
      unwire_entry := (\<lambda>b. if b = [1] then Some (sample_entry, False, False)
        else if b = [4] then Some (sample_second, False, False) else None)\<rparr>"

definition sample_P2 :: "((bytes \<times> bytes) list, bytes list, NodeID list, FileWorld, nat) sys" where
  "sample_P2 = (sample_P (Some sample_cp))\<lparr>sys_wire := sample_wire2\<rparr>"

definition sample_ttl :: "(bytes \<times> bytes) list Store" where
  "sample_ttl = \<lparr>st_db = [], st_replayTTL = 86400000000000\<rparr>"

lemma sample_P2_sel [simp]:
  "sys_db sample_P2 = sample_badger (\<lambda>_. True)" "sys_wire sample_P2 = sample_wire2" "sys_lib sample_P2 = sample_tdlib"
  "sys_hasher sample_P2 = rfc6962" "sys_crypto sample_P2 = sample_crypto" "sys_keys sample_P2 = sample_store False"
  "sys_wire_checkpoint sample_P2 sample_cp = Some [3]" "sys_unwire_checkpoint sample_P2 [3] = Some sample_cp"
  by (simp_all add: sample_P2_def sample_sys_def)

lemma sample_P2_ok: "sys_ok sample_P2 map_of (\<lambda>r ls. r = ls)" "fresh_store map_of sample_ttl" "env_wires sample_wire2 env"
proof -
  show "sys_ok sample_P2 map_of (\<lambda>r ls. r = ls)" using sample_sys_ok [of "\<lambda>_. True" sample_reg None] by (simp add: sys_ok_def)
  show "fresh_store map_of sample_ttl" by (simp add: fresh_store_def sample_ttl_def)
  show "env_wires sample_wire2 env" by (simp add: env_wires_def entry_wires_def sample_wire2_def Unmarshal_def)
qed

lemma sample_start:
  obtains l where "core_run sample_P2 sample_ttl l []" "lg_store l = sample_ttl" "\<not> lg_requireEnrollment l"
    "lg_signer l = cp_NewSigner (snd sample_run0)"
proof -
  let ?o = "sample_opts\<lparr>opt_Store := Some sample_ttl\<rparr>"
  have o: "opt_Store ?o = Some sample_ttl" "opt_Signer ?o = Some (cp_NewSigner (snd sample_run0))" "\<not> opt_RequireEnrollment ?o"
    by (simp_all add: sample_opts_def)
  have e: "map_of (st_db sample_ttl) = Map.empty" by (simp add: sample_ttl_def)
  from core_New_reopens [where cancelled = "\<lambda>_. False", OF sample_P2_ok(1) _ _ _ _ _ _ o(1,2), of "[]"] e o(3)
  obtain l where l: "core_New sample_P2 (\<lambda>_. False) ?o = Inr l" "lg_store l = sample_ttl" "\<not> lg_requireEnrollment l"
    "lg_signer l = cp_NewSigner (snd sample_run0)"
    by (auto simp: holds_log_empty mirror_full_def env_replayed_def)
  have "core_run sample_P2 sample_ttl l []" by (rule core_run.start [OF l(1) o(1,2)]) simp
  from that [OF this l(2-4)] show ?thesis .
qed

text \<open>The producer is registered, and nothing else is in the database.\<close>

lemma sample_start_registered:
  obtains l where "core_run sample_P2 sample_ttl l []" "st_db (lg_store l) = [(producerKey ''p1'', [2])]" "\<not> lg_requireEnrollment l"
    "lg_signer l = cp_NewSigner (snd sample_run0)" "st_replayTTL (lg_store l) = 86400000000000"
proof -
  obtain l where l: "core_run sample_P2 sample_ttl l []" "lg_store l = sample_ttl" "\<not> lg_requireEnrollment l"
    "lg_signer l = cp_NewSigner (snd sample_run0)" by (rule sample_start)
  have r: "pr_ID sample_reg = ''p1''" "pr_RegisteredAt sample_reg = 1" "length (pr_PublicKey sample_reg) = 32"
    by (simp_all add: sample_reg_def sample_producer_def)
  let ?s = "sample_ttl\<lparr>st_db := [(producerKey ''p1'', [2])]\<rparr>"
  have "RegisterProducer (sample_badger (\<lambda>_. True)) sample_wire2 1 sample_ttl (Some sample_reg) = (?s, Some sample_reg, None)"
    by (simp add: RegisterProducer_def r key_sizes sample_wire2_def sample_wire_def commit_def sample_badger_def sample_ttl_def)
  then have "core_RegisterProducer sample_P2 1 l (Some sample_reg) = (with_store l ?s, None)"
    by (simp add: core_RegisterProducer_def l(2))
  from core_run.step [OF l(1) core_step.register_producer [OF this]] l(3,4) show ?thesis by (intro that [of "with_store l ?s"]) (simp_all add: sample_ttl_def)
qed

lemma sample_admitted:
  assumes "map_of (st_db (lg_store l)) (producerKey ''p1'') = Some [2]" "\<not> lg_requireEnrollment l"
  shows "admit sample_P2 2 l sample_signed = None"
proof -
  have "GetProducer (sample_badger (\<lambda>_. True)) sample_wire2 (lg_store l) ''p1'' = Inr sample_reg"
    using assms(1) by (simp add: GetProducer_def fetch_def sample_badger_def sample_wire2_def sample_wire_def domIff)
  moreover have "\<not> pr_Revoked sample_reg" "pr_PublicKey sample_reg = replicate 32 1"
    "pr_QuantumPublicKey sample_reg = replicate 1952 2" by (simp_all add: sample_reg_def sample_producer_def)
  ultimately show ?thesis using assms(2) by (simp add: admit_None sample_signed_fields sample_signed_verifies)
qed

text \<open>One append on the way, at any length.\<close>

lemma sample_append2:
  assumes "core_run sample_P2 sample_ttl l es" "length es < 2 ^ 62" "map_of (st_db (lg_store l)) (producerKey ''p1'') = Some [2]"
    and "\<not> lg_requireEnrollment l" "map_of (st_db (lg_store l)) (replayKey (env_Hash sample_signed)) = None"
    and "e = ent_New rfc6962 9 (of_nat (length es)) (prev_entry (of_nat (length es)) (head_of es)) (Some sample_signed) False"
    and "wire_entry sample_wire2 e \<noteq> None"
  obtains l' where "core_run sample_P2 sample_ttl l' (es @ [e])" "\<not> lg_requireEnrollment l'" "lg_signer l' = lg_signer l"
    "\<And>k. \<not> log_key k \<Longrightarrow> \<not> has_prefix prefixReplay k \<Longrightarrow> map_of (st_db (lg_store l')) k = map_of (st_db (lg_store l)) k"
    "st_replayTTL (lg_store l') = st_replayTTL (lg_store l)"
proof -
  have len: "length es < 2 ^ 63" using assms(2) by simp
  have inv: "log_inv sample_P2 map_of (\<lambda>r ls. r = ls) l es" by (rule core_run_inv [OF assms(1) sample_P2_ok(1,2) len])
  from AppendCtx_live [OF sample_P2_ok(1) inv len _ _ sample_admitted [OF assms(3,4)] assms(5), of 9 False]
    assms(6,7) sample_commits sample_P2_ok(3)
  obtain l' e' where a: "AppendCtx sample_P2 2 9 l (Some sample_signed) False = (l', Inr e')" by auto
  with AppendCtx_inv [OF sample_P2_ok(1) inv len _ a] sample_P2_ok(3) assms(6) have "e' = e" by simp
  with a have a: "AppendCtx sample_P2 2 9 l (Some sample_signed) False = (l', Inr e)" by simp
  have w: "env_wires (sys_wire sample_P2) sample_signed" using sample_P2_ok(3) by simp
  from core_run.step [OF assms(1) core_step.append_ok [OF w a]] AppendCtx_enrollment [OF a] AppendCtx_signer [OF a]
    AppendCtx_other [OF sys_okD(1) [OF sample_P2_ok(1)] a] AppendCtx_ttl [OF a] assms(4)
  show ?thesis by (intro that [of l']) simp_all
qed

text \<open>The checkpoint of the first entry, as in the log without a TTL.\<close>

lemma sample_gather2: "GatherWitnessSignatures sample_P2 replies l c = Some (c, Map.empty)"
  using no_witnesses [of "sample_badger (\<lambda>_. True)" "st_db (lg_store l)" prefixWitness "\<lambda>out w. (out @ [w], None :: unit option)"
      "bdg_Keys (sample_badger (\<lambda>_. True)) (st_db (lg_store l)) prefixWitness" "[] :: Witness list"]
  by (auto simp: GatherWitnessSignatures_def core_ListWitnesses_def ListWitnesses_def sample_wire2_def sample_wire_def)

lemma sample_checkpointed:
  assumes "core_run sample_P2 sample_ttl l [sample_entry]" "lg_signer l = cp_NewSigner (snd sample_run0)"
  obtains s where "core_run sample_P2 sample_ttl (with_store l s) [sample_entry]" "st_replayTTL s = st_replayTTL (lg_store l)"
    "map_of (st_db s) = (map_of (st_db (lg_store l)))(checkpointKey (cp_Size sample_cp) \<mapsto> [3])"
proof -
  have inv: "log_inv sample_P2 map_of (\<lambda>r ls. r = ls) l [sample_entry]" by (rule core_run_inv [OF assms(1) sample_P2_ok(1,2)]) simp
  have r: "core_Root sample_P2 l = Inr (MTH rfc6962 [ent_LeafHash sample_entry])"
    using core_Root_inv [OF sample_P2_ok(1) inv] by simp
  have h: "HeadHash (sample_badger (\<lambda>_. True)) (lg_store l) = Inr (ent_EntryHash sample_entry)"
    using HeadHash_log [OF sample_P2_ok(1) inv] by (simp add: head_of_def)
  have z: "core_Size sample_P2 l = 1" using log_inv_Size [OF sample_P2_ok(1) inv] by (simp add: core_Size_def)
  have b: "fetch_beacon None = None" by (simp add: fetch_beacon_def)
  obtain s where s: "SaveCheckpoint (sample_badger (\<lambda>_. True)) (lg_store l) (cp_Size sample_cp) [3] = (s, None)"
    using commit_live [OF sample_commits] unfolding SaveCheckpoint_def by (metis prod.collapse)
  with sample_cp_signed have c: "CheckpointCtx sample_P2 (fst sample_run0) None 0 300 (\<lambda>_ _. []) l = (with_store l s, Inr sample_cp)"
    by (simp add: CheckpointCtx_def r h z b assms(2) sample_gather2)
  note v = commit_ok [OF sample_badger_ok(1) _ s [unfolded SaveCheckpoint_def]]
  from core_run.step [OF assms(1) core_step.checkpoint [OF c]] v show ?thesis by (intro that [of s]) simp_all
qed

lemma sample_expired:
  fixes s :: "(bytes \<times> bytes) list Store" and h :: bytes
  assumes "0 < sint (st_replayTTL s)"
  defines "s' \<equiv> s\<lparr>st_db := filter (\<lambda>p. fst p \<noteq> replayKey h) (st_db s)\<rparr>"
  shows "drops_replays (sample_badger ok) s s'" "map_of (st_db s') = (map_of (st_db s))(replayKey h := None)"
proof -
  show v: "map_of (st_db s') = (map_of (st_db s))(replayKey h := None)" by (simp add: s'_def map_of_filter_ne)
  have "fetch (sample_badger ok) d k = Inr (map_of d k)" for d k by (rule fetch_live [OF sample_badger_ok(2)])
  with v assms(1) show "drops_replays (sample_badger ok) s s'" by (auto simp: drops_replays_def) (simp_all add: s'_def)
qed

lemma same_envelope_run:
  obtains l where "core_run sample_P2 sample_ttl l [sample_entry, sample_second]" "lg_signer l = cp_NewSigner (snd sample_run0)"
    "\<And>k. k \<le> checkpointKey 2 \<Longrightarrow> map_of (st_db (lg_store l)) k = (if k = checkpointKey 1 then Some [3] else None)"
proof -
  have enc: "wire_entry sample_wire2 sample_entry \<noteq> None" "wire_entry sample_wire2 sample_second \<noteq> None"
    by (simp_all add: sample_wire2_def)
  have first: "sample_entry = ent_New rfc6962 9 (of_nat (length ([] :: Entry list))) (prev_entry (of_nat (length ([] :: Entry list))) (head_of []))
      (Some sample_signed) False" by (simp add: sample_entry_def prev_entry_def)
  have second: "sample_second = ent_New rfc6962 9 (of_nat (length [sample_entry])) (prev_entry (of_nat (length [sample_entry])) (head_of [sample_entry]))
      (Some sample_signed) False" by (simp add: sample_second_def head_of_def)
  have pk: "\<not> log_key (producerKey ''p1'')" "\<not> has_prefix prefixReplay (producerKey ''p1'')" by simp_all
  note sz = sample_cp_accepted(1)
  obtain l1 where l1: "core_run sample_P2 sample_ttl l1 []" "st_db (lg_store l1) = [(producerKey ''p1'', [2])]" "\<not> lg_requireEnrollment l1"
    "lg_signer l1 = cp_NewSigner (snd sample_run0)" "st_replayTTL (lg_store l1) = 86400000000000" by (rule sample_start_registered)
  have "map_of (st_db (lg_store l1)) (replayKey (env_Hash sample_signed)) = None" by (simp add: l1(2) key_defs)
  from sample_append2 [OF l1(1) _ _ l1(3) this first enc(1)] l1(2)
  obtain l2 where l2: "core_run sample_P2 sample_ttl l2 [sample_entry]" "\<not> lg_requireEnrollment l2" "lg_signer l2 = lg_signer l1"
    "\<And>k. \<not> log_key k \<Longrightarrow> \<not> has_prefix prefixReplay k \<Longrightarrow> map_of (st_db (lg_store l2)) k = map_of (st_db (lg_store l1)) k"
    "st_replayTTL (lg_store l2) = st_replayTTL (lg_store l1)" by auto
  obtain s3 where s3: "core_run sample_P2 sample_ttl (with_store l2 s3) [sample_entry]" "st_replayTTL s3 = st_replayTTL (lg_store l2)"
    "map_of (st_db s3) = (map_of (st_db (lg_store l2)))(checkpointKey (cp_Size sample_cp) \<mapsto> [3])"
    by (rule sample_checkpointed [OF l2(1)]) (simp add: l2(3) l1(4))
  have "0 < sint (st_replayTTL s3)" by (simp add: s3(2) l2(5) l1(5))
  note ex = sample_expired [OF this, where h = "env_Hash sample_signed"]
  define s4 where "s4 = s3\<lparr>st_db := filter (\<lambda>p. fst p \<noteq> replayKey (env_Hash sample_signed)) (st_db s3)\<rparr>"
  note ex = ex [folded s4_def]
  let ?l4 = "with_store (with_store l2 s3) s4"
  have run4: "core_run sample_P2 sample_ttl ?l4 [sample_entry]"
    by (rule core_run.step [OF s3(1) core_step.expire]) (simp add: ex(1))
  have "map_of (st_db (lg_store ?l4)) (producerKey ''p1'') = Some [2]"
    using l2(4) [OF pk] l1(2) by (simp add: ex(2) s3(3) key_defs)
  from sample_append2 [OF run4 _ this _ _ second enc(2)] l2(2) ex(2)
  obtain l5 where l5: "core_run sample_P2 sample_ttl l5 [sample_entry, sample_second]" "lg_signer l5 = lg_signer l2"
    "\<And>k. \<not> log_key k \<Longrightarrow> \<not> has_prefix prefixReplay k \<Longrightarrow> map_of (st_db (lg_store l5)) k = map_of (st_db s4) k" by auto
  have low: "map_of (st_db (lg_store l5)) k = (if k = checkpointKey 1 then Some [3] else None)" if "k \<le> checkpointKey 2" for k
  proof -
    have "\<not> producerKey ''p1'' \<le> checkpointKey 2" by (simp add: key_defs)
    with that have "k \<noteq> producerKey ''p1''" by blast
    moreover have "k \<noteq> replayKey h" for h using low_key [OF that] by auto
    ultimately show ?thesis using low_key [OF that] l5(3) l2(4) l1(2) by (simp add: ex(2) s3(3) sz)
  qed
  from that [of l5] l5(1,2) l2(3) l1(4) low show ?thesis by simp
qed

text \<open>
  With the TTL, an envelope that is in the log is accepted again once its replay record has gone; and the
  latest checkpoint of the log is the one that covers the first entry only.
\<close>

theorem same_envelope_twice:
  "\<exists>l. core_run sample_P2 sample_ttl l [sample_entry, sample_second]
     \<and> ent_Envelope sample_entry = ent_Envelope sample_second
     \<and> core_LatestCheckpoint sample_P2 l = Inr (Some sample_cp) \<and> lg_signer l = cp_NewSigner (snd sample_run0)"
proof -
  obtain l5 where l5: "core_run sample_P2 sample_ttl l5 [sample_entry, sample_second]" "lg_signer l5 = cp_NewSigner (snd sample_run0)"
    and low: "\<And>k. k \<le> checkpointKey 2 \<Longrightarrow> map_of (st_db (lg_store l5)) k = (if k = checkpointKey 1 then Some [3] else None)"
    using same_envelope_run by blast
  have inv: "log_inv sample_P2 map_of (\<lambda>r ls. r = ls) l5 [sample_entry, sample_second]"
    by (rule core_run_inv [OF l5(1) sample_P2_ok(1,2)]) simp
  have "st_Size (sample_badger (\<lambda>_. True)) (lg_store l5) = Inr 2"
    using reads_live(1) [OF sys_okD(2) [OF sample_P2_ok(1)] _ log_inv_head [OF inv], of sample_wire2 "st_db (lg_store l5)"] inv
    by (simp add: st_Size_def log_inv_def)
  moreover have "checkpointKey 1 \<le> checkpointKey 2" by code_simp
  then have "GetCheckpoint (sample_badger (\<lambda>_. True)) (lg_store l5) 2 = Inr ([3], 1)"
    by (intro GetCheckpoint_only [OF sample_badger_ok]) (use low in \<open>auto split: if_splits\<close>)
  ultimately have "core_LatestCheckpoint sample_P2 l5 = Inr (Some sample_cp)"
    by (simp add: core_LatestCheckpoint_def st_LatestCheckpoint_def)
  with l5 show ?thesis by (intro exI [of _ l5]) (simp add: sample_entry_def sample_second_def)
qed

end
