(* ===== verification/Auditing.thy ===== *)
theory Auditing
  imports Service Expiry
begin

text \<open>
  The audit command (\<open>pkg/audit/audit.go\<close>): one pass over an operator's read API, and the verdict.  The
  operator is a parameter: what each GET returned to the auditor, honest or not.  A null signature in a
  checkpoint, or a size that is negative as an \<open>int\<close>, ends the audit in a panic, which is \<open>None\<close>.  The
  last part joins the audit with the handlers of an honest operator.
\<close>

section \<open>Definitions\<close>

record AuditConfig =
  au_OperatorURL :: string
  au_RootPublicKey :: "bytes option"
  au_TrustAnchorSource :: string
  au_SampleN :: int

datatype Status = StatusPass | StatusFail | StatusWarn

datatype audit_error =
    AeNoURL
  | AeHttp http_error
  | AeNoChain
  | AeChain chain_error
  | AeVerify verify_error
  | AeFetchEntry http_error
  | AeFetchProof http_error
  | AeProof merkle_error

datatype audit_finding =
    AfPubKey http_error
  | AfAnchorMismatch
  | AfAnchorUnspecified
  | AfKeychain http_error
  | AfChain "audit_error option"
  | AfCheckpointFetch http_error
  | AfNoCheckpoint
  | AfCheckpoint "audit_error option"
  | AfSizeRegression u64 u64
  | AfSample u64 "audit_error option"

record TrustAnchorSummary =
  ta_Source :: string
  ta_RootPublicKeyHex :: string
  ta_RootKeyID :: string
  ta_MatchedOnServer :: bool
  ta_Notes :: string

record EpochSummary =
  es_Epoch :: u64
  es_StartedAt :: i64
  es_KeyID :: string
  es_Hybrid :: bool
  es_Threshold :: bool

record ChainSummary =
  cs_Origin :: string
  cs_ActiveEpoch :: u64
  cs_Epochs :: nat
  cs_Verified :: bool
  cs_VerifyError :: "audit_error option"
  cs_EpochSummary :: "EpochSummary list"

record CheckpointSummary =
  ks_Size :: u64
  ks_RootHashHex :: string
  ks_SignedAt :: i64
  ks_Epoch :: u64
  ks_Verified :: bool
  ks_VerifyError :: "audit_error option"
  ks_BeaconBound :: bool
  ks_BeaconSource :: string
  ks_WitnessCount :: nat
  ks_Witnesses :: "(string \<times> string) list"
  ks_ThresholdMode :: bool
  ks_ThresholdActual :: nat
  ks_HybridSigned :: bool

record InclusionSample =
  is_Index :: u64
  is_Verified :: bool
  is_Producer :: string
  is_Error :: "audit_error option"

record AuditReport =
  ar_OperatorURL :: string
  ar_Origin :: string
  ar_Size :: u64
  ar_AuditTime :: i64
  ar_TrustAnchor :: TrustAnchorSummary
  ar_Chain :: ChainSummary
  ar_LatestCheckpoint :: CheckpointSummary
  ar_Samples :: "InclusionSample list"
  ar_Status :: Status
  ar_Findings :: "audit_finding list"

text \<open>
  What the operator returned to each GET; an entry is reduced to the fields that are read, its leaf hash
  and its producer, and both are empty when the reply lacks them.
\<close>

record operator_api =
  oa_pubkey :: "http_error + PubKeyResponse"
  oa_keychain :: "http_error + Chain option"
  oa_checkpoint :: "http_error + Checkpoint option"
  oa_size :: "http_error + u64"
  oa_entry :: "u64 \<Rightarrow> http_error + bytes \<times> string"
  oa_proof :: "u64 \<Rightarrow> u64 \<Rightarrow> http_error + bytes list"

definition pickStatus :: "Status \<Rightarrow> Status \<Rightarrow> Status" where
  "pickStatus current candidate =
     (if current = StatusFail \<or> candidate = StatusFail then StatusFail
      else if current = StatusWarn \<or> candidate = StatusWarn then StatusWarn
      else StatusPass)"

definition checkTrustAnchor :: "AuditConfig \<Rightarrow> bytes \<Rightarrow> TrustAnchorSummary" where
  "checkTrustAnchor cfg serverRoot =
     (let out = \<lparr>ta_Source = au_TrustAnchorSource cfg, ta_RootPublicKeyHex = hex serverRoot, ta_RootKeyID = KeyID serverRoot,
                 ta_MatchedOnServer = False, ta_Notes = []\<rparr>
      in case au_RootPublicKey cfg of
           None \<Rightarrow> out\<lparr>ta_Notes := ''no pre-shared trust anchor supplied; server-reported root is unchecked''\<rparr>
         | Some key \<Rightarrow>
             let out = out\<lparr>ta_MatchedOnServer := bytesEqual key serverRoot\<rparr>
             in if \<not> ta_MatchedOnServer out
                then out\<lparr>ta_Notes := ''mismatch '' @ [CHR 0xE2, CHR 0x80, CHR 0x94] @ '' operator-reported root does NOT match the trust anchor''\<rparr>
                else out)"

definition no_chain :: ChainSummary where
  "no_chain = \<lparr>cs_Origin = [], cs_ActiveEpoch = 0, cs_Epochs = 0, cs_Verified = False, cs_VerifyError = None, cs_EpochSummary = []\<rparr>"

definition summarizeChain :: "crypto \<Rightarrow> Chain option \<Rightarrow> bytes \<Rightarrow> ChainSummary" where
  "summarizeChain C chain rootKey =
     (case chain of None \<Rightarrow> no_chain\<lparr>cs_VerifyError := Some AeNoChain\<rparr>
      | Some chain \<Rightarrow>
          let out = no_chain\<lparr>cs_Origin := ch_Origin chain, cs_ActiveEpoch := ActiveEpoch chain, cs_Epochs := length (ch_Certs chain)\<rparr>
          in case ch_VerifyChain C chain rootKey of
               Some err \<Rightarrow> out\<lparr>cs_VerifyError := Some (AeChain err)\<rparr>
             | None \<Rightarrow>
                 out\<lparr>cs_Verified := True,
                     cs_EpochSummary := map (\<lambda>c. \<lparr>es_Epoch = rc_Epoch c, es_StartedAt = rc_StartedAt c, es_KeyID = KeyID (rc_PublicKey c),
                       es_Hybrid = (length (rc_QuantumPublicKey c) > 0), es_Threshold = (length (rc_MemberSigs c) > 0)\<rparr>) (ch_Certs chain)\<rparr>)"

definition no_checkpoint :: CheckpointSummary where
  "no_checkpoint =
     \<lparr>ks_Size = 0, ks_RootHashHex = [], ks_SignedAt = 0, ks_Epoch = 0, ks_Verified = False, ks_VerifyError = None,
      ks_BeaconBound = False, ks_BeaconSource = [], ks_WitnessCount = 0, ks_Witnesses = [], ks_ThresholdMode = False,
      ks_ThresholdActual = 0, ks_HybridSigned = False\<rparr>"

definition summarizeCheckpoint :: "crypto \<Rightarrow> Checkpoint \<Rightarrow> Verifier option \<Rightarrow> CheckpointSummary option" where
  "summarizeCheckpoint C c v =
     (let out = no_checkpoint\<lparr>ks_Size := cp_Size c, ks_RootHashHex := hex (cp_RootHash c), ks_SignedAt := cp_TimeNanos c,
            ks_Epoch := cp_EpochIdx c, ks_WitnessCount := length (cp_Witnesses c),
            ks_ThresholdMode := (cp_ThresholdGroupDigest c \<noteq> []), ks_HybridSigned := (length (cp_QuantumSignature c) > 0)\<rparr>;
          out = (case cp_Beacon c of None \<Rightarrow> out | Some b \<Rightarrow> out\<lparr>ks_BeaconBound := True, ks_BeaconSource := bc_Source b\<rparr>);
          out = (if cp_ThresholdGroupDigest c \<noteq> [] then out\<lparr>ks_ThresholdActual := length (cp_MemberSigs c)\<rparr> else out)
      in if None \<in> set (cp_Witnesses c) then None
         else
           let out = out\<lparr>ks_Witnesses := map (\<lambda>w. (ws_WitnessID w, KeyID (ws_PublicKey w))) (map the (cp_Witnesses c))\<rparr>
           in case v of None \<Rightarrow> Some (out\<lparr>ks_Verified := True\<rparr>)
              | Some v \<Rightarrow>
                  (case vf_Checkpoint C v c of Some err \<Rightarrow> Some (out\<lparr>ks_VerifyError := Some (AeVerify err)\<rparr>)
                   | None \<Rightarrow> Some (out\<lparr>ks_Verified := True\<rparr>)))"

text \<open>One turn of the loop of \<open>sampleInclusion\<close>, and the loop, which stops after \<open>n\<close> samples.\<close>

definition sample_index ::
    "('r, 'n) tdlib \<Rightarrow> LogHasher \<Rightarrow> operator_api \<Rightarrow> u64 \<Rightarrow> Checkpoint \<Rightarrow> u64 \<Rightarrow> InclusionSample" where
  "sample_index L H OA sz ckpt i =
     (let sample = \<lparr>is_Index = i, is_Verified = False, is_Producer = [], is_Error = None\<rparr>
      in case oa_entry OA i of Inl err \<Rightarrow> sample\<lparr>is_Error := Some (AeFetchEntry err)\<rparr>
      | Inr (leafHash, producer) \<Rightarrow>
          let sample = sample\<lparr>is_Producer := producer\<rparr>
          in case oa_proof OA i sz of Inl err \<Rightarrow> sample\<lparr>is_Error := Some (AeFetchProof err)\<rparr>
          | Inr prf \<Rightarrow>
              (case VerifyInclusion L H i sz leafHash prf (cp_RootHash ckpt) of
                 Some err \<Rightarrow> sample\<lparr>is_Error := Some (AeProof err)\<rparr>
               | None \<Rightarrow> sample\<lparr>is_Verified := True\<rparr>))"

fun sample_loop ::
    "('r, 'n) tdlib \<Rightarrow> LogHasher \<Rightarrow> operator_api \<Rightarrow> u64 \<Rightarrow> Checkpoint \<Rightarrow> u64 \<Rightarrow> u64 \<Rightarrow> nat \<Rightarrow> InclusionSample list" where
  "sample_loop L H OA sz ckpt step i 0 = []"
| "sample_loop L H OA sz ckpt step i (Suc n) =
     (if i < sz then sample_index L H OA sz ckpt i # sample_loop L H OA sz ckpt step (i + step) n else [])"

definition sampleInclusion ::
    "('r, 'n) tdlib \<Rightarrow> LogHasher \<Rightarrow> operator_api \<Rightarrow> AuditConfig \<Rightarrow> u64 \<Rightarrow> Checkpoint \<Rightarrow> InclusionSample list option" where
  "sampleInclusion L H OA cfg sz ckpt =
     (let n = au_SampleN cfg;
          n = (if n > sint sz then sint sz else n)
      in if n < 0 then None
         else let step = sz div of_int n;
                  step = (if step = 0 then 1 else step)
              in Some (sample_loop L H OA sz ckpt step 0 (nat n)))"

subsection \<open>The steps of \<open>Run\<close>\<close>

definition audit_fail :: "audit_finding \<Rightarrow> AuditReport \<Rightarrow> AuditReport" where
  "audit_fail f rep = rep\<lparr>ar_Status := StatusFail, ar_Findings := ar_Findings rep @ [f]\<rparr>"

definition audit_warn :: "audit_finding \<Rightarrow> AuditReport \<Rightarrow> AuditReport" where
  "audit_warn f rep = rep\<lparr>ar_Status := pickStatus (ar_Status rep) StatusWarn, ar_Findings := ar_Findings rep @ [f]\<rparr>"

definition audit_anchor :: "AuditConfig \<Rightarrow> PubKeyResponse \<Rightarrow> AuditReport \<Rightarrow> AuditReport" where
  "audit_anchor cfg pk rep =
     (let rep = rep\<lparr>ar_TrustAnchor := checkTrustAnchor cfg (pk_RootPublicKey pk)\<rparr>;
          rep = (if \<not> ta_MatchedOnServer (ar_TrustAnchor rep) \<and> au_TrustAnchorSource cfg \<noteq> [] then audit_fail AfAnchorMismatch rep else rep)
      in if au_TrustAnchorSource cfg = [] then audit_warn AfAnchorUnspecified rep else rep)"

definition audit_chain :: "crypto \<Rightarrow> operator_api \<Rightarrow> PubKeyResponse \<Rightarrow> AuditReport \<Rightarrow> AuditReport" where
  "audit_chain C OA pk rep =
     (case oa_keychain OA of
        Inl err \<Rightarrow> audit_fail (AfKeychain err) (rep\<lparr>ar_Chain := no_chain\<lparr>cs_VerifyError := Some (AeHttp err)\<rparr>\<rparr>)
      | Inr chain \<Rightarrow>
          let rep = rep\<lparr>ar_Chain := summarizeChain C chain (pk_RootPublicKey pk)\<rparr>
          in if \<not> cs_Verified (ar_Chain rep) then audit_fail (AfChain (cs_VerifyError (ar_Chain rep))) rep else rep)"

definition audit_verifier :: "operator_api \<Rightarrow> PubKeyResponse \<Rightarrow> Verifier" where
  "audit_verifier OA pk =
     \<lparr>vf_Origin = pk_Origin pk, vf_RootPublicKey = pk_RootPublicKey pk,
      vf_Chain = (case oa_keychain OA of Inl _ \<Rightarrow> None | Inr chain \<Rightarrow> chain),
      vf_ThresholdGroup = None, vf_MinWitnesses = 0, vf_WitnessTrust = None\<rparr>"

definition audit_checkpoint :: "crypto \<Rightarrow> operator_api \<Rightarrow> PubKeyResponse \<Rightarrow> AuditReport \<Rightarrow> AuditReport option" where
  "audit_checkpoint C OA pk rep =
     (case oa_checkpoint OA of
        Inl err \<Rightarrow> Some (audit_fail (AfCheckpointFetch err) (rep\<lparr>ar_LatestCheckpoint := no_checkpoint\<lparr>ks_VerifyError := Some (AeHttp err)\<rparr>\<rparr>))
      | Inr None \<Rightarrow> Some (audit_warn AfNoCheckpoint rep)
      | Inr (Some c) \<Rightarrow>
          (case summarizeCheckpoint C c (Some (audit_verifier OA pk)) of None \<Rightarrow> None
           | Some k \<Rightarrow>
               let rep = rep\<lparr>ar_LatestCheckpoint := k, ar_Size := cp_Size c\<rparr>
               in Some (if \<not> ks_Verified k then audit_fail (AfCheckpoint (ks_VerifyError k)) rep else rep)))"

definition audit_size :: "operator_api \<Rightarrow> AuditReport \<Rightarrow> AuditReport" where
  "audit_size OA rep =
     (case oa_size OA of Inl _ \<Rightarrow> rep
      | Inr sz \<Rightarrow>
          if ks_Size (ar_LatestCheckpoint rep) > 0 \<and> sz < ks_Size (ar_LatestCheckpoint rep)
          then audit_fail (AfSizeRegression sz (ks_Size (ar_LatestCheckpoint rep))) rep else rep)"

definition audit_samples ::
    "('r, 'n) tdlib \<Rightarrow> LogHasher \<Rightarrow> operator_api \<Rightarrow> AuditConfig \<Rightarrow> AuditReport \<Rightarrow> AuditReport option" where
  "audit_samples L H OA cfg rep =
     (case oa_checkpoint OA of Inr (Some c) \<Rightarrow>
        if au_SampleN cfg > 0 \<and> ks_Size (ar_LatestCheckpoint rep) > 0 then
          (case sampleInclusion L H OA cfg (ks_Size (ar_LatestCheckpoint rep)) c of None \<Rightarrow> None
           | Some ss \<Rightarrow>
               Some (fold (\<lambda>s rep. if \<not> is_Verified s then audit_fail (AfSample (is_Index s) (is_Error s)) rep else rep)
                       ss (rep\<lparr>ar_Samples := ss\<rparr>)))
        else Some rep
      | _ \<Rightarrow> Some rep)"

definition audit_start :: "string \<Rightarrow> i64 \<Rightarrow> AuditReport" where
  "audit_start url now =
     \<lparr>ar_OperatorURL = url, ar_Origin = [], ar_Size = 0, ar_AuditTime = now,
      ar_TrustAnchor = \<lparr>ta_Source = [], ta_RootPublicKeyHex = [], ta_RootKeyID = [], ta_MatchedOnServer = False, ta_Notes = []\<rparr>,
      ar_Chain = no_chain, ar_LatestCheckpoint = no_checkpoint, ar_Samples = [], ar_Status = StatusPass, ar_Findings = []\<rparr>"

definition audit_Run ::
    "crypto \<Rightarrow> ('r, 'n) tdlib \<Rightarrow> LogHasher \<Rightarrow> operator_api \<Rightarrow> i64 \<Rightarrow> AuditConfig \<Rightarrow> (audit_error + AuditReport) option" where
  "audit_Run C L H OA now cfg =
     (if au_OperatorURL cfg = [] then Some (Inl AeNoURL)
      else
        let rep = audit_start (au_OperatorURL cfg) now
        in case oa_pubkey OA of Inl err \<Rightarrow> Some (Inr (audit_fail (AfPubKey err) rep))
        | Inr pk \<Rightarrow>
            let rep = audit_chain C OA pk (audit_anchor cfg pk (rep\<lparr>ar_Origin := pk_Origin pk\<rparr>))
            in case audit_checkpoint C OA pk rep of None \<Rightarrow> None
               | Some rep \<Rightarrow> map_option Inr (audit_samples L H OA cfg (audit_size OA rep)))"

section \<open>Lemmas\<close>

lemmas audit_steps =
  audit_anchor_def audit_chain_def audit_checkpoint_def audit_size_def audit_fail_def audit_warn_def pickStatus_def Let_def

lemma fold_samples:
  fixes rep :: AuditReport
  defines "step \<equiv> (\<lambda>s rep. if \<not> is_Verified s then audit_fail (AfSample (is_Index s) (is_Error s)) rep else rep)"
  shows "ar_Status (fold step ss rep) = (if \<forall>s\<in>set ss. is_Verified s then ar_Status rep else StatusFail)"
    and "ar_Samples (fold step ss rep) = ar_Samples rep"
  unfolding step_def by (induction ss arbitrary: rep) (simp_all add: audit_fail_def)

text \<open>The samples are evenly spaced, and there are as many as were asked for, or as there are entries.\<close>

lemma sample_loop_all:
  assumes "j + n \<le> N" "N * step \<le> unat sz" "0 < step"
  shows "sample_loop L H OA sz c (of_nat step) (of_nat (j * step)) n = map (\<lambda>k. sample_index L H OA sz c (of_nat (k * step))) [j..<j + n]"
  using assms(1)
proof (induction n arbitrary: j)
  case (Suc n)
  have "Suc j * step \<le> N * step" using Suc.prems by (intro mult_right_mono) simp_all
  then have "j * step < unat sz" using assms(2,3) by simp
  then have "(of_nat (j * step) :: u64) < sz"
    using unsigned_less [of sz, where ?'a = nat] by (simp add: word_less_nat_alt unat_of_nat_u64 del: of_nat_mult)
  moreover have "(of_nat (j * step) :: u64) + of_nat step = of_nat (Suc j * step)" by (simp add: algebra_simps)
  ultimately have "sample_loop L H OA sz c (of_nat step) (of_nat (j * step)) (Suc n)
      = sample_index L H OA sz c (of_nat (j * step)) # map (\<lambda>k. sample_index L H OA sz c (of_nat (k * step))) [Suc j..<Suc j + n]"
    using Suc.IH [of "Suc j"] Suc.prems by (simp del: of_nat_mult of_nat_Suc mult_Suc)
  then show ?case by (simp add: upt_conv_Cons del: of_nat_mult upt_Suc sample_loop.simps)
qed simp

lemma sampleInclusion_spaced:
  assumes "0 < au_SampleN cfg" "0 < sz" "unat sz < 2 ^ 63"
  defines "n \<equiv> min (nat (au_SampleN cfg)) (unat sz)"
  shows "sampleInclusion L H OA cfg sz c = Some (map (\<lambda>k. sample_index L H OA sz c (of_nat (k * (unat sz div n)))) [0..<n])"
proof -
  have si: "sint sz = int (unat sz)"
  proof -
    have "int (unat sz) < int (2 ^ 63)" using assms(3) by (subst of_nat_less_iff)
    then have "uint sz < 2 ^ 63" by simp
    moreover have "- (2 ^ 63) \<le> uint sz" by (rule order_trans [OF _ unsigned_greater_eq]) simp
    ultimately have "signed_take_bit 63 (uint sz) = uint sz" by (intro signed_take_bit_int_eq_self)
    then show ?thesis by (simp add: sint_uint)
  qed
  have pos: "0 < unat sz" using assms(2) by (simp add: word_less_nat_alt)
  then have n: "0 < n" "n \<le> unat sz" using assms(1) by (simp_all add: n_def)
  have m: "(if au_SampleN cfg > sint sz then sint sz else au_SampleN cfg) = int n"
  proof -
    have "(if k > int u then int u else k) = int (min (nat k) u)" if "0 < k" for k :: int and u :: nat
      using that by (simp add: min_def) linarith
    from this [OF assms(1), of "unat sz"] show ?thesis unfolding si n_def .
  qed
  have "0 < unat sz div n" using n by (simp add: div_greater_zero_iff)
  moreover have "sz div of_int (int n) = of_nat (unat sz div n)"
  proof -
    have "unat (of_nat n :: u64) = n" using n assms(3) by (simp add: unat_of_nat_u64)
    then have "unat (sz div of_nat n) = unat sz div n" by (simp add: unat_div_distrib)
    from arg_cong [OF this, of "of_nat :: nat \<Rightarrow> u64"] show ?thesis by simp
  qed
  moreover have "(of_nat (unat sz div n) :: u64) \<noteq> 0"
    using calculation(1) assms(3) of_nat_eq_u64 [of "unat sz div n" 0] div_le_dividend [of "unat sz" n] by simp
  ultimately have "sampleInclusion L H OA cfg sz c = Some (sample_loop L H OA sz c (of_nat (unat sz div n)) 0 n)"
    by (simp add: sampleInclusion_def m Let_def)
  with sample_loop_all [of 0 n n "unat sz div n" sz L H OA c] \<open>0 < unat sz div n\<close> show ?thesis
    by (simp add: times_div_less_eq_dividend mult.commute)
qed

text \<open>A pass survives a step only if the step has nothing to report.\<close>

lemma audit_anchor_pass:
  "ar_Status (audit_anchor cfg pk rep) = StatusPass \<longleftrightarrow>
     ar_Status rep = StatusPass \<and> au_TrustAnchorSource cfg \<noteq> [] \<and> au_RootPublicKey cfg = Some (pk_RootPublicKey pk)"
  by (auto simp: audit_steps checkTrustAnchor_def bytesEqual_iff split: if_splits option.splits)

lemma audit_chain_pass:
  "ar_Status (audit_chain C OA pk rep) = StatusPass \<longleftrightarrow>
     ar_Status rep = StatusPass \<and> (\<exists>chain. oa_keychain OA = Inr (Some chain) \<and> ch_VerifyChain C chain (pk_RootPublicKey pk) = None)"
  by (auto simp: audit_steps summarizeChain_def no_chain_def split: sum.splits option.splits)

lemma summarizeCheckpoint_Some:
  "summarizeCheckpoint C c (Some v) = Some k \<Longrightarrow>
     ks_Size k = cp_Size c \<and> None \<notin> set (cp_Witnesses c) \<and> (ks_Verified k \<longleftrightarrow> vf_Checkpoint C v c = None)"
  by (auto simp: summarizeCheckpoint_def no_checkpoint_def Let_def split: if_splits option.splits)

lemma audit_checkpoint_pass:
  assumes "audit_checkpoint C OA pk rep = Some rep'" "ar_Status rep' = StatusPass"
  shows "ar_Status rep = StatusPass \<and> (\<exists>c. oa_checkpoint OA = Inr (Some c) \<and> vf_Checkpoint C (audit_verifier OA pk) c = None
    \<and> ks_Size (ar_LatestCheckpoint rep') = cp_Size c)"
  using assms by (auto simp: audit_steps dest: summarizeCheckpoint_Some split: sum.splits option.splits if_splits)

lemma audit_size_pass:
  "ar_Status (audit_size OA rep) = StatusPass \<longleftrightarrow> ar_Status rep = StatusPass
     \<and> (\<forall>sz. oa_size OA = Inr sz \<longrightarrow> \<not> (0 < ks_Size (ar_LatestCheckpoint rep) \<and> sz < ks_Size (ar_LatestCheckpoint rep)))"
  "ar_LatestCheckpoint (audit_size OA rep) = ar_LatestCheckpoint rep"
  by (auto simp: audit_steps split: sum.splits)

lemma audit_samples_pass:
  assumes "oa_checkpoint OA = Inr (Some c)" "audit_samples L H OA cfg rep = Some rep'"
  shows "ar_Status rep' = StatusPass \<longleftrightarrow> ar_Status rep = StatusPass
    \<and> (0 < au_SampleN cfg \<and> 0 < ks_Size (ar_LatestCheckpoint rep) \<longrightarrow>
        (\<exists>ss. sampleInclusion L H OA cfg (ks_Size (ar_LatestCheckpoint rep)) c = Some ss \<and> (\<forall>s\<in>set ss. is_Verified s)))"
  using assms by (auto simp: audit_samples_def fold_samples split: if_splits option.splits)

lemma audit_samples_passD:
  "audit_samples L H OA cfg rep = Some rep' \<Longrightarrow> ar_Status rep' = StatusPass \<Longrightarrow> ar_Status rep = StatusPass"
  by (auto simp: audit_samples_def fold_samples split: if_splits option.splits sum.splits)

lemma sample_index_verified:
  "is_Verified (sample_index L H OA sz c i) \<longleftrightarrow>
     (\<exists>leaf pd prf. oa_entry OA i = Inr (leaf, pd) \<and> oa_proof OA i sz = Inr prf \<and> VerifyInclusion L H i sz leaf prf (cp_RootHash c) = None)"
  by (auto simp: sample_index_def Let_def split: sum.splits option.splits)

lemma sint_nonneg: "0 \<le> sint sz \<Longrightarrow> unat (sz :: u64) < 2 ^ 63"
proof -
  assume "0 \<le> sint sz"
  moreover have "sint sz < 2 ^ 63" using sint_lt [of sz] by simp
  ultimately have "take_bit 64 (sint sz) = sint sz" by (intro take_bit_int_eq_self) simp_all
  then have "uint sz = sint sz" using uint_sint [of sz] by simp
  with \<open>sint sz < 2 ^ 63\<close> have "uint sz < 2 ^ 63" by simp
  then show ?thesis unfolding unat_eq_nat_uint by (subst nat_less_iff) simp_all
qed

lemma sampleInclusion_Some: "sampleInclusion L H OA cfg sz c = Some ss \<Longrightarrow> 0 < au_SampleN cfg \<Longrightarrow> unat sz < 2 ^ 63"
  by (rule sint_nonneg) (auto simp: sampleInclusion_def Let_def split: if_splits)

text \<open>
  A genesis key that was supplied without a source is not enforced; a checkpoint in threshold mode never
  verifies, since the audit does not fetch the group; and a size of \<open>2 ^ 63\<close> or more ends the audit.
\<close>

lemma unlabelled_anchor_warns:
  "au_TrustAnchorSource cfg = [] \<Longrightarrow> ar_Status rep = StatusPass \<Longrightarrow> ar_Status (audit_anchor cfg pk rep) = StatusWarn"
  by (simp add: audit_steps)

lemma threshold_checkpoint_fails:
  "oa_checkpoint OA = Inr (Some c) \<Longrightarrow> cp_MemberSigs c \<noteq> [] \<Longrightarrow> audit_checkpoint C OA pk rep = Some rep' \<Longrightarrow> ar_Status rep' = StatusFail"
  by (auto simp: audit_steps vf_Checkpoint_def cp_Verify_def audit_verifier_def dest!: summarizeCheckpoint_Some split: option.split_asm if_split_asm)

lemma huge_size_panics: "0 < au_SampleN cfg \<Longrightarrow> 2 ^ 63 \<le> unat sz \<Longrightarrow> sampleInclusion L H OA cfg sz c = None"
  using sampleInclusion_Some [of L H OA cfg sz c] by (cases "sampleInclusion L H OA cfg sz c") simp_all

text \<open>
  C13.  What a PASS is worth.  Against every operator, whatever it replies: if the audit passes, the
  genesis key the operator reports is the one the auditor brought, its whole key chain verifies from
  that key, the latest checkpoint is signed under the chain, and as many evenly spaced entries as the
  auditor asked for (all of them, if the log has fewer) were shown with an inclusion proof that
  verifies against the root of that checkpoint.
\<close>

theorem audit_pass_sound:
  assumes "audit_Run C L H OA now cfg = Some (Inr rep)" and "ar_Status rep = StatusPass"
  shows "\<exists>pk chain c n. oa_pubkey OA = Inr pk \<and> au_RootPublicKey cfg = Some (pk_RootPublicKey pk)
    \<and> oa_keychain OA = Inr (Some chain) \<and> ch_VerifyChain C chain (pk_RootPublicKey pk) = None
    \<and> oa_checkpoint OA = Inr (Some c) \<and> cp_Origin c = pk_Origin pk \<and> cp_Verify C c (Some chain) (pk_RootPublicKey pk) None = None
    \<and> n = min (nat (au_SampleN cfg)) (unat (cp_Size c))
    \<and> (\<forall>k < n. \<exists>leaf pd prf. oa_entry OA (of_nat (k * (unat (cp_Size c) div n))) = Inr (leaf, pd)
          \<and> VerifyInclusion L H (of_nat (k * (unat (cp_Size c) div n))) (cp_Size c) leaf prf (cp_RootHash c) = None)"
proof -
  let ?r = "\<lambda>pk. audit_chain C OA pk (audit_anchor cfg pk (audit_start (au_OperatorURL cfg) now\<lparr>ar_Origin := pk_Origin pk\<rparr>))"
  obtain pk r1 where pk: "oa_pubkey OA = Inr pk" and r1: "audit_checkpoint C OA pk (?r pk) = Some r1"
    and r2: "audit_samples L H OA cfg (audit_size OA r1) = Some rep"
    using assms by (auto simp: audit_Run_def Let_def audit_fail_def split: if_split_asm sum.split_asm option.split_asm)
  have size_pass: "ar_Status (audit_size OA r1) = StatusPass" by (rule audit_samples_passD [OF r2 assms(2)])
  then have "ar_Status r1 = StatusPass" by (rule audit_size_pass(1) [THEN iffD1, THEN conjunct1])
  from audit_checkpoint_pass [OF r1 this] obtain c where p: "ar_Status (?r pk) = StatusPass" and c: "oa_checkpoint OA = Inr (Some c)"
    "vf_Checkpoint C (audit_verifier OA pk) c = None" "ks_Size (ar_LatestCheckpoint r1) = cp_Size c" by blast
  from p obtain chain where ch: "oa_keychain OA = Inr (Some chain)" "ch_VerifyChain C chain (pk_RootPublicKey pk) = None"
    and anchor: "au_RootPublicKey cfg = Some (pk_RootPublicKey pk)" unfolding audit_chain_pass audit_anchor_pass by blast
  have cp: "cp_Origin c = pk_Origin pk" "cp_Verify C c (Some chain) (pk_RootPublicKey pk) None = None"
    using c(2) ch(1) by (simp_all add: vf_Checkpoint_def audit_verifier_def split: if_split_asm option.split_asm)
  define n where "n = min (nat (au_SampleN cfg)) (unat (cp_Size c))"
  let ?i = "\<lambda>k. of_nat (k * (unat (cp_Size c) div n)) :: u64"
  have "is_Verified (sample_index L H OA (cp_Size c) c (?i k))" if "k < n" for k
  proof -
    have pos: "0 < au_SampleN cfg" "0 < cp_Size c" using that by (auto simp: n_def word_greater_zero_iff)
    with audit_samples_pass [OF c(1) r2] assms(2) c(3) obtain ss where
      ss: "sampleInclusion L H OA cfg (cp_Size c) c = Some ss" "\<forall>s\<in>set ss. is_Verified s" unfolding audit_size_pass(2) c(3) by blast
    have "ss = map (\<lambda>k. sample_index L H OA (cp_Size c) c (?i k)) [0..<n]"
      using sampleInclusion_spaced [OF pos sampleInclusion_Some [OF ss(1) pos(1)], of L H OA c] ss(1) unfolding n_def by simp
    with ss(2) that show ?thesis by simp
  qed
  then have "\<forall>k < n. \<exists>leaf pd prf. oa_entry OA (?i k) = Inr (leaf, pd)
      \<and> VerifyInclusion L H (?i k) (cp_Size c) leaf prf (cp_RootHash c) = None" unfolding sample_index_verified by blast
  then show ?thesis using pk anchor ch c(1) cp n_def
    by (intro exI [of _ pk] exI [of _ chain] exI [of _ c] exI [of _ n] conjI) assumption+
qed

section \<open>The audit of an honest operator\<close>

text \<open>
  What a client gets of a reply, and an operator whose log, latest checkpoint and keys stay the same
  while the audit runs; reads may change its journals and caches between two requests.
\<close>

definition fetched :: "'a reply \<Rightarrow> http_error + 'a" where
  "fetched rep = (case rep of HttpOk a \<Rightarrow> Inr a | HttpErr n \<Rightarrow> Inl (HtStatus (int n) [])
     | HttpRetry n _ \<Rightarrow> Inl (HtStatus (int n) []) | HttpNothing \<Rightarrow> Inl HtTransport)"

definition audit_state ::
    "('d, 'r, 'n, 'w, 'k) sys \<Rightarrow> 'd Store \<Rightarrow> Entry list \<Rightarrow> Checkpoint \<Rightarrow> 'k CheckpointSigner \<Rightarrow> ('d, 'r, 'k, 'w, 'l) Server \<Rightarrow> bool" where
  "audit_state P s0 es c sg s \<longleftrightarrow>
     core_run P s0 (srv_Log s) es \<and> core_LatestCheckpoint P (srv_Log s) = Inr (Some c) \<and> lg_signer (srv_Log s) = sg"

definition audited ::
    "('d, 'r, 'n, 'w, 'k) sys \<Rightarrow> api_wire \<Rightarrow> call_env \<Rightarrow> (('d, 'r, 'k, 'w, 'l) Server \<Rightarrow> bool) \<Rightarrow> operator_api \<Rightarrow> bool" where
  "audited P A E st OA \<longleftrightarrow>
     (\<exists>s r. st s \<and> rq_Method r = ''GET'' \<and> oa_pubkey OA = fetched (handlePubKey r s))
     \<and> (\<exists>s r. st s \<and> rq_Method r = ''GET'' \<and> oa_keychain OA = map_sum id Some (fetched (handleKeyChain r s)))
     \<and> (\<exists>s r. st s \<and> rq_Method r = ''GET'' \<and> oa_checkpoint OA = map_sum id Some (fetched (snd (handleCheckpoint P E r s))))
     \<and> (\<exists>s r. st s \<and> rq_Method r = ''GET'' \<and> oa_size OA = map_sum id sz_Size (fetched (handleSize P r s)))
     \<and> (\<forall>i. \<exists>s r. st s \<and> rq_Method r = ''GET'' \<and> rq_Path r = entries_prefix @ dec_u64 i
          \<and> oa_entry OA i = map_sum id (\<lambda>e. (ent_LeafHash e, case ent_Envelope e of None \<Rightarrow> [] | Some env \<Rightarrow> env_ProducerID env))
              (fetched (snd (handleGetEntry P A E r s))))
     \<and> (\<forall>i n. \<exists>s r. st s \<and> rq_Method r = ''GET'' \<and> rq_Query r ''index'' = dec_u64 i \<and> rq_Query r ''tree_size'' = dec_u64 n
          \<and> oa_proof OA i n = map_sum id ip_Proof (fetched (snd (handleInclusionProof P r s))))"

lemma dec_u64_digits: "dec_u64 i \<noteq> []" "CHR ''/'' \<notin> set (dec_u64 i)"
proof -
  show "dec_u64 i \<noteq> []" using parseUint_dec [of i] by (auto simp: parseUint_def)
  have "index_of (CHR ''/'') dectable = None" by code_simp
  then show "CHR ''/'' \<notin> set (dec_u64 i)" using dec_nat_digits [of "unat i"] by (auto simp: dec_u64_def list_all_iff)
qed

lemma handleGetEntry_reply:
  assumes "sys_ok P view rep" "log_inv P view rep (srv_Log s) es" "i < length es"
    and "rq_Method r = ''GET''" "rq_Path r = entries_prefix @ dec_u64 (of_nat i)"
  shows "snd (handleGetEntry P A E r s) = HttpOk (es ! i)"
  using core_Get_inv [OF assms(1-3)] dec_u64_digits [of "of_nat i"] assms(4,5)
  by (simp add: handleGetEntry_def trim_prefix_def Let_def)

lemma handleInclusionProof_reply:
  assumes "sys_ok P view rep" "log_inv P view rep (srv_Log s) es" "length es < 2 ^ 63" "tdlib_complete (sys_lib P) (sys_hasher P)"
    and "rq_Method r = ''GET''" "rq_Query r ''index'' = dec_u64 (of_nat i)" "rq_Query r ''tree_size'' = dec_u64 (of_nat n)"
    and "i < n" "n \<le> length es"
  shows "n < length es \<Longrightarrow> snd (handleInclusionProof P r s) = HttpErr 501"
    and "n = length es \<Longrightarrow> \<exists>q. snd (handleInclusionProof P r s) = HttpOk q
      \<and> VerifyInclusion (sys_lib P) (sys_hasher P) (of_nat i) (of_nat n) (ent_LeafHash (es ! i)) (ip_Proof q)
          (MTH (sys_hasher P) (map ent_LeafHash es)) = None"
proof -
  let ?L = "sys_lib P" and ?H = "sys_hasher P" and ?ls = "map ent_LeafHash es"
  have lt: "(of_nat i :: u64) < of_nat n" "(of_nat n :: u64) \<le> of_nat (length ?ls)"
    using assms(3,8,9) by (simp_all add: of_nat_less_u64 of_nat_le_u64)
  obtain q where q: "inclusion_spec ?L ?H ?ls (of_nat i) (of_nat n) = Inr q" using specs_return(1) [OF assms(4) lt(2,1)] by blast
  obtain l' where l': "core_InclusionProof P (srv_Log s) (of_nat i) (of_nat n) = Some (l', Inr q)" "log_inv P view rep l' es"
    using core_proofs_inv(1) [OF assms(1,2), of "of_nat i" "of_nat n"] q by auto
  have sz: "core_Size P l' = of_nat (length es)" using log_inv_Size [OF assms(1) l'(2)] by (simp add: core_Size_def)
  have rt: "core_Root P l' = Inr (MTH ?H ?ls)" using core_Root_inv [OF assms(1) l'(2)] assms(8,9) by auto
  have get: "core_Get P (srv_Log s) (of_nat i) = Inr (es ! i)" using core_Get_inv [OF assms(1,2)] assms(8,9) by simp
  note step = assms(5-7) l'(1) sz rt get dec_u64_digits(1) [of "of_nat n"]
  show "snd (handleInclusionProof P r s) = HttpErr 501" if "n < length es"
  proof -
    have "(of_nat n :: u64) \<noteq> of_nat (length es)" using that assms(3) by (simp add: of_nat_eq_u64)
    then show ?thesis using step by (simp add: handleInclusionProof_def query_size_def)
  qed
  show "\<exists>q. snd (handleInclusionProof P r s) = HttpOk q
      \<and> VerifyInclusion ?L ?H (of_nat i) (of_nat n) (ent_LeafHash (es ! i)) (ip_Proof q) (MTH ?H ?ls) = None" if "n = length es"
  proof -
    have "lib_VerifyInclusion ?L ?H (of_nat i) (of_nat n) (ent_LeafHash (es ! i)) q (MTH ?H ?ls)"
      using tdlib_completeD(3) [OF assms(4) q lt(1)] assms(3,8,9) that by (simp add: unat_of_nat_u64)
    then show ?thesis using step that by (simp add: handleInclusionProof_def query_size_def VerifyInclusion_def)
  qed
qed

lemma audited_samples:
  fixes st :: "('d, 'r, 'k, 'w, 'l) Server \<Rightarrow> bool" and P :: "('d, 'r, 'n, 'w, 'k) sys"
  assumes ok: "sys_ok P view rep" "fresh_store view s0" and len: "length es < 2 ^ 63"
    and lib: "tdlib_complete (sys_lib P) (sys_hasher P)" and aud: "audited P A E st OA"
    and state: "\<And>s. st s \<Longrightarrow> audit_state P s0 es c sg s"
    and c: "commits (sys_hasher P) (map ent_LeafHash es) c" and i: "i < unat (cp_Size c)"
  shows "is_Verified (sample_index (sys_lib P) (sys_hasher P) OA (cp_Size c) c (of_nat i)) \<longleftrightarrow> cp_Size c = of_nat (length es)"
proof -
  let ?L = "sys_lib P" and ?H = "sys_hasher P" and ?n = "unat (cp_Size c)"
  have n: "?n \<le> length es" "of_nat ?n = cp_Size c" and rt: "cp_RootHash c = MTH ?H (map ent_LeafHash (take ?n es))"
    using c by (simp_all add: commits_def take_map)
  have same: "cp_Size c = of_nat (length es) \<longleftrightarrow> ?n = length es"
    using of_nat_eq_u64 [of ?n "length es"] n len by simp
  have st: "log_inv P view rep (srv_Log s) es" if "st s" for s
    using state [OF that] core_run_inv [OF _ ok len] by (simp add: audit_state_def)
  obtain s r where e: "st s" "rq_Method r = ''GET''" "rq_Path r = entries_prefix @ dec_u64 (of_nat i)"
    and oe: "oa_entry OA (of_nat i) = map_sum id (\<lambda>e. (ent_LeafHash e, case ent_Envelope e of None \<Rightarrow> [] | Some env \<Rightarrow> env_ProducerID env))
      (fetched (snd (handleGetEntry P A E r s)))" using aud unfolding audited_def by blast
  have "snd (handleGetEntry P A E r s) = HttpOk (es ! i)"
    using i n(1) by (intro handleGetEntry_reply [OF ok(1) st [OF e(1)] _ e(2,3)]) simp
  with oe have entry: "oa_entry OA (of_nat i) = Inr (ent_LeafHash (es ! i), case ent_Envelope (es ! i) of None \<Rightarrow> [] | Some env \<Rightarrow> env_ProducerID env)"
    by (simp add: fetched_def)
  obtain s' r' where p: "st s'" "rq_Method r' = ''GET''" "rq_Query r' ''index'' = dec_u64 (of_nat i)"
      "rq_Query r' ''tree_size'' = dec_u64 (of_nat ?n)"
    and op: "oa_proof OA (of_nat i) (of_nat ?n) = map_sum id ip_Proof (fetched (snd (handleInclusionProof P r' s')))"
    using aud unfolding audited_def by blast
  note incl = handleInclusionProof_reply [OF ok(1) st [OF p(1)] len lib p(2-4) i n(1)]
  show ?thesis
  proof (cases "?n = length es")
    case True
    from incl(2) [OF True] obtain q where q: "snd (handleInclusionProof P r' s') = HttpOk q"
      "VerifyInclusion ?L ?H (of_nat i) (of_nat ?n) (ent_LeafHash (es ! i)) (ip_Proof q) (MTH ?H (map ent_LeafHash es)) = None" by blast
    from q(1) op have "oa_proof OA (of_nat i) (cp_Size c) = Inr (ip_Proof q)" unfolding n(2) by (simp add: fetched_def)
    moreover have "VerifyInclusion ?L ?H (of_nat i) (cp_Size c) (ent_LeafHash (es ! i)) (ip_Proof q) (cp_RootHash c) = None"
      using q(2) True rt unfolding n(2) by simp
    ultimately show ?thesis using True entry unfolding same sample_index_verified by blast
  next
    case False
    with n(1) have "snd (handleInclusionProof P r' s') = HttpErr 501" by (intro incl(1)) simp
    with op have "oa_proof OA (of_nat i) (cp_Size c) = Inl (HtStatus 501 [])" unfolding n(2) by (simp add: fetched_def)
    with False show ?thesis unfolding same sample_index_verified by simp
  qed
qed

lemma audited_replies:
  fixes st :: "('d, 'r, 'k, 'w, 'l) Server \<Rightarrow> bool" and P :: "('d, 'r, 'n, 'w, 'k) sys"
  assumes ok: "sys_ok P view rep" "fresh_store view s0" and len: "length es < 2 ^ 63" and aud: "audited P A E st OA"
    and state: "\<And>s. st s \<Longrightarrow> audit_state P s0 es c sg s"
  shows "\<exists>pk. oa_pubkey OA = Inr pk \<and> pk_RootPublicKey pk = RootPublicKey (sg_chain (csg_fws sg)) \<and> pk_Origin pk = sg_origin (csg_fws sg)"
    and "oa_keychain OA = Inr (Some (sg_chain (csg_fws sg)))" "oa_checkpoint OA = Inr (Some c)" "oa_size OA = Inr (of_nat (length es))"
proof -
  have st: "lg_signer (srv_Log s) = sg" "core_LatestCheckpoint P (srv_Log s) = Inr (Some c)" "log_inv P view rep (srv_Log s) es"
    if "st s" for s using state [OF that] core_run_inv [OF _ ok len] by (simp_all add: audit_state_def)
  show "\<exists>pk. oa_pubkey OA = Inr pk \<and> pk_RootPublicKey pk = RootPublicKey (sg_chain (csg_fws sg)) \<and> pk_Origin pk = sg_origin (csg_fws sg)"
    using aud st(1) by (auto simp: audited_def handlePubKey_def fetched_def)
  show "oa_keychain OA = Inr (Some (sg_chain (csg_fws sg)))" using aud st(1) by (auto simp: audited_def handleKeyChain_def fetched_def)
  show "oa_checkpoint OA = Inr (Some c)" using aud st(2) by (auto simp: audited_def handleCheckpoint_def fetched_def)
  obtain s r where s: "st s" "rq_Method r = ''GET''" "oa_size OA = map_sum id sz_Size (fetched (handleSize P r s))"
    using aud unfolding audited_def by blast
  with handleSize_reply [OF ok(1) st(3) [OF s(1)] s(2)] show "oa_size OA = Inr (of_nat (length es))" by (auto simp: fetched_def)
qed

lemma sample_indices:
  assumes "0 < m" "m \<le> (n :: nat)" "j < m"
  shows "j * (n div m) < n"
proof -
  have "j * (n div m) < m * (n div m)" using assms by (simp add: div_greater_zero_iff)
  then show ?thesis using times_div_less_eq_dividend [of m n] by linarith
qed

lemma summarizeCheckpoint_returns:
  assumes "None \<notin> set (cp_Witnesses c)" "vf_Checkpoint C v c = None"
  obtains k where "summarizeCheckpoint C c (Some v) = Some k" "ks_Verified k" "ks_Size k = cp_Size c"
proof -
  have "summarizeCheckpoint C c (Some v) \<noteq> None" using assms(1) by (simp add: summarizeCheckpoint_def Let_def split: option.split)
  then obtain k where k: "summarizeCheckpoint C c (Some v) = Some k" by blast
  with summarizeCheckpoint_Some [OF this] assms(2) that show thesis by blast
qed

text \<open>The steps before the samples, when the operator is in order: the only thing to report is a missing label.\<close>

definition anchor_verdict :: "AuditConfig \<Rightarrow> Status" where
  "anchor_verdict cfg = (if au_TrustAnchorSource cfg = [] then StatusWarn else StatusPass)"

lemma audit_honest_steps:
  assumes "ar_Status rep = StatusPass"
  shows "au_RootPublicKey cfg = Some (pk_RootPublicKey pk) \<Longrightarrow> ar_Status (audit_anchor cfg pk rep) = anchor_verdict cfg"
    and "oa_keychain OA = Inr (Some chain) \<Longrightarrow> ch_VerifyChain C chain (pk_RootPublicKey pk) = None
      \<Longrightarrow> ar_Status (audit_chain C OA pk rep') = ar_Status rep'"
    and "oa_size OA = Inr sz \<Longrightarrow> \<not> sz < ks_Size (ar_LatestCheckpoint rep') \<Longrightarrow> audit_size OA rep' = rep'"
  using assms by (simp_all add: audit_steps anchor_verdict_def checkTrustAnchor_def summarizeChain_def no_chain_def bytesEqual_iff)

lemma audit_samples_verdict:
  assumes "oa_checkpoint OA = Inr (Some c)" "0 < ks_Size (ar_LatestCheckpoint rep)"
    and "0 < au_SampleN cfg \<Longrightarrow> sampleInclusion L H OA cfg (ks_Size (ar_LatestCheckpoint rep)) c = Some ss"
    and "0 < au_SampleN cfg \<Longrightarrow> (\<forall>s\<in>set ss. is_Verified s) \<longleftrightarrow> good"
  shows "\<exists>rep'. audit_samples L H OA cfg rep = Some rep'
    \<and> ar_Status rep' = (if 0 < au_SampleN cfg \<and> \<not> good then StatusFail else ar_Status rep)"
  using assms by (auto simp: audit_samples_def fold_samples)

lemma audit_verdict:
  assumes "sys_ok P view rep" and "fresh_store view s0" and "length es < 2 ^ 63" and "tdlib_complete (sys_lib P) (sys_hasher P)"
    and "audited P A E (audit_state P s0 es c sg) OA" and "commits (sys_hasher P) (map ent_LeafHash es) c"
    and "None \<notin> set (cp_Witnesses c)" and "chain = sg_chain (csg_fws sg)" and "cp_Origin c = sg_origin (csg_fws sg)"
    and "ch_VerifyChain (sys_crypto P) chain (RootPublicKey chain) = None"
    and "cp_Verify (sys_crypto P) c (Some chain) (RootPublicKey chain) None = None"
    and "au_OperatorURL cfg \<noteq> []" and "au_RootPublicKey cfg = Some (RootPublicKey chain)"
  shows "\<exists>rep. audit_Run (sys_crypto P) (sys_lib P) (sys_hasher P) OA now cfg = Some (Inr rep)
    \<and> ar_Status rep = (if 0 < au_SampleN cfg \<and> cp_Size c \<noteq> of_nat (length es) then StatusFail else anchor_verdict cfg)"
proof -
  let ?C = "sys_crypto P" and ?L = "sys_lib P" and ?H = "sys_hasher P" and ?n = "unat (cp_Size c)"
  have n: "0 < cp_Size c" "?n \<le> length es" using assms(6) by (simp_all add: commits_def)
  have "?n < 2 ^ 63" using n(2) assms(3) by (rule le_less_trans)
  obtain pk where pk: "oa_pubkey OA = Inr pk" "pk_RootPublicKey pk = RootPublicKey chain" "pk_Origin pk = cp_Origin c"
    and kc: "oa_keychain OA = Inr (Some chain)" and cp: "oa_checkpoint OA = Inr (Some c)" and sz: "oa_size OA = Inr (of_nat (length es))"
    using audited_replies [OF assms(1-3,5), of c sg] assms(8,9) by auto
  have vf: "vf_Checkpoint ?C (audit_verifier OA pk) c = None"
    using assms(11) pk kc by (simp add: vf_Checkpoint_def audit_verifier_def)
  let ?start = "audit_start (au_OperatorURL cfg) now\<lparr>ar_Origin := pk_Origin pk\<rparr>"
  let ?r = "audit_chain ?C OA pk (audit_anchor cfg pk ?start)"
  have s0: "ar_Status ?start = StatusPass" by (simp add: audit_start_def)
  have p0: "ar_Status ?r = anchor_verdict cfg"
    using audit_honest_steps(1) [OF s0, of cfg pk] audit_honest_steps(2) [OF s0 kc, of ?C pk "audit_anchor cfg pk ?start"] assms(10,13) pk(2) by simp
  obtain k where k: "summarizeCheckpoint ?C c (Some (audit_verifier OA pk)) = Some k" "ks_Verified k" "ks_Size k = cp_Size c"
    using summarizeCheckpoint_returns [OF assms(7) vf] .
  define r1 where "r1 = ?r\<lparr>ar_LatestCheckpoint := k, ar_Size := cp_Size c\<rparr>"
  have r1: "audit_checkpoint ?C OA pk ?r = Some r1" using cp k by (simp add: audit_checkpoint_def r1_def Let_def)
  have k1: "ar_LatestCheckpoint r1 = k" "ar_Status r1 = anchor_verdict cfg" using p0 by (simp_all add: r1_def)
  have "\<not> (of_nat (length es) :: u64) < cp_Size c"
    using n(2) assms(3) by (simp add: word_less_nat_alt unat_of_nat_u64 not_less)
  then have size: "audit_size OA r1 = r1" using audit_honest_steps(3) [OF s0 sz, of r1] k(3) k1(1) by simp
  define m where "m = min (nat (au_SampleN cfg)) ?n"
  define ss where "ss = map (\<lambda>j. sample_index ?L ?H OA (cp_Size c) c (of_nat (j * (?n div m)))) [0..<m]"
  have m: "0 < m" "m \<le> ?n" if "0 < au_SampleN cfg" using that n(1) by (simp_all add: m_def word_less_nat_alt)
  have sm: "sampleInclusion ?L ?H OA cfg (ks_Size (ar_LatestCheckpoint r1)) c = Some ss" if "0 < au_SampleN cfg"
    using sampleInclusion_spaced [OF that n(1) \<open>?n < 2 ^ 63\<close>] by (simp add: m_def ss_def k1 k(3))
  have ver: "(\<forall>x\<in>set ss. is_Verified x) \<longleftrightarrow> cp_Size c = of_nat (length es)" if "0 < au_SampleN cfg"
    using audited_samples [OF assms(1-5) _ assms(6) sample_indices [OF m [OF that]]] m(1) [OF that] by (auto simp: ss_def)
  have "0 < ks_Size (ar_LatestCheckpoint r1)" using n(1) k1 k(3) by simp
  from audit_samples_verdict [OF cp this sm ver] obtain rep where "audit_samples ?L ?H OA cfg r1 = Some rep"
    "ar_Status rep = (if 0 < au_SampleN cfg \<and> cp_Size c \<noteq> of_nat (length es) then StatusFail else anchor_verdict cfg)"
    unfolding k1(2) by blast
  with assms(12) pk(1) r1 size show ?thesis by (simp add: audit_Run_def Let_def)
qed

text \<open>
  C40.  The verdict on an honest operator depends on the moment.  Take an operator that signs alone (a
  checkpoint in threshold mode never verifies here, see \<open>threshold_checkpoint_fails\<close>), whose key chain
  verifies from the genesis key the auditor brought, whose latest checkpoint verifies and covers a
  non-empty first part of its log.  If the audit samples entries and an entry was appended since that
  checkpoint, it says FAIL: the service refuses every inclusion proof for a size that is not the current
  one, and the audit asks for the size of the checkpoint.  In every other case (nothing appended since,
  or no samples asked for) it says PASS, or WARN if the genesis key was given without a source.
\<close>

theorem audit_verdict_honest:
  assumes "sys_ok P view rep" and "fresh_store view s0" and "length es < 2 ^ 63" and "tdlib_complete (sys_lib P) (sys_hasher P)"
    and "audited P A E (audit_state P s0 es c sg) OA" and "commits (sys_hasher P) (map ent_LeafHash es) c"
    and "None \<notin> set (cp_Witnesses c)" and "chain = sg_chain (csg_fws sg)" and "cp_Origin c = sg_origin (csg_fws sg)"
    and "ch_VerifyChain (sys_crypto P) chain (RootPublicKey chain) = None"
    and "cp_Verify (sys_crypto P) c (Some chain) (RootPublicKey chain) None = None"
    and "au_OperatorURL cfg \<noteq> []" and "au_RootPublicKey cfg = Some (RootPublicKey chain)"
  shows "\<exists>rep. audit_Run (sys_crypto P) (sys_lib P) (sys_hasher P) OA now cfg = Some (Inr rep)
    \<and> ar_Status rep =
        (if 0 < au_SampleN cfg \<and> cp_Size c \<noteq> of_nat (length es) then StatusFail
         else if au_TrustAnchorSource cfg = [] then StatusWarn else StatusPass)"
  using audit_verdict [OF assms] unfolding anchor_verdict_def .

section \<open>Instances\<close>

text \<open>The handlers of one state of a service, as the operator an auditor talks to.\<close>

definition sample_oa ::
    "((bytes \<times> bytes) list, bytes list, NodeID list, FileWorld, nat) sys
      \<Rightarrow> ((bytes \<times> bytes) list, bytes list, nat, FileWorld, int) Server \<Rightarrow> operator_api" where
  "sample_oa P s =
     \<lparr>oa_pubkey = fetched (handlePubKey (sample_request ''GET'' [] [] None) s),
      oa_keychain = map_sum id Some (fetched (handleKeyChain (sample_request ''GET'' [] [] None) s)),
      oa_checkpoint = map_sum id Some (fetched (snd (handleCheckpoint P sample_call (sample_request ''GET'' [] [] None) s))),
      oa_size = map_sum id sz_Size (fetched (handleSize P (sample_request ''GET'' [] [] None) s)),
      oa_entry = (\<lambda>i. map_sum id (\<lambda>e. (ent_LeafHash e, case ent_Envelope e of None \<Rightarrow> [] | Some env \<Rightarrow> env_ProducerID env))
        (fetched (snd (handleGetEntry P sample_api_wire sample_call (sample_request ''GET'' (entries_prefix @ dec_u64 i) [] None) s)))),
      oa_proof = (\<lambda>i n. map_sum id ip_Proof (fetched (snd (handleInclusionProof P
        (sample_request ''GET'' [] [(''index'', dec_u64 i), (''tree_size'', dec_u64 n)] None) s))))\<rparr>"

definition sample_audit_cfg :: AuditConfig where
  "sample_audit_cfg = \<lparr>au_OperatorURL = ''http://op'', au_RootPublicKey = Some (RootPublicKey (sg_chain (snd sample_run0))),
     au_TrustAnchorSource = ''paper'', au_SampleN = 10\<rparr>"

lemma sample_oa_audited: "st s \<Longrightarrow> audited P sample_api_wire sample_call st (sample_oa P s)"
  unfolding audited_def
  by (intro conjI allI exI [of _ s]; (intro exI conjI)?; (simp add: sample_oa_def sample_request_def)?) 

lemma sample_audit_state:
  "\<exists>l. audit_state (sample_P (Some sample_cp)) sample_s0 [sample_entry] sample_cp (cp_NewSigner (snd sample_run0)) (sample_server l)"
proof -
  let ?P = "sample_P (Some sample_cp)"
  obtain l where l: "CheckpointCtx ?P (fst sample_run0) None 0 300 (\<lambda>_ _. []) (sample_log2 (Some sample_cp)) = (l, Inr sample_cp)"
    using sample_checkpoint_ctx by blast
  have "core_run ?P sample_s0 l [sample_entry]" by (rule core_run.step [OF sample_run_log2 core_step.checkpoint [OF l]])
  moreover have "core_LatestCheckpoint ?P l = Inr (Some sample_cp)"
    by (rule CheckpointCtx_latest(2) [OF sample_sys_ok sample_inv_log2 _ _ sample_codec l]) (simp_all add: sample_cp_accepted)
  moreover obtain s' where "l = with_store (sample_log2 (Some sample_cp)) s'" by (rule CheckpointCtx_Inr [OF l])
  then have "lg_signer l = cp_NewSigner (snd sample_run0)" by (simp add: sample_log2_signer)
  ultimately show ?thesis by (auto simp: audit_state_def sample_server_def)
qed

lemma sample_audit_facts:
  defines "f \<equiv> snd sample_run0"
  shows "ch_VerifyChain sample_crypto (sg_chain f) (RootPublicKey (sg_chain f)) = None"
    and "cp_Origin sample_cp = sg_origin f" "cp_Witnesses sample_cp = []"
    and "cp_Verify sample_crypto sample_cp (Some (sg_chain f)) (RootPublicKey (sg_chain f)) None = None"
proof -
  note inv = sample_run_wf [of False] sample_run_signer_inv [of False]
  show "ch_VerifyChain sample_crypto (sg_chain f) (RootPublicKey (sg_chain f)) = None"
    using inv(2) by (simp add: f_def signer_inv_def ch_VerifyChain_def)
  have "cp_Origin sample_cp = sg_origin f \<and> cp_Witnesses sample_cp = []"
    using file_ks.cp_Sign_accepted [OF inv inv(2), of "[]" 300 1 "MTH rfc6962 [ent_LeafHash sample_entry]" "ent_EntryHash sample_entry" None None]
      sample_cp_signed sample_checkpoint_signed(6) unfolding f_def by auto
  then show "cp_Origin sample_cp = sg_origin f" "cp_Witnesses sample_cp = []" by simp_all
  show "cp_Verify sample_crypto sample_cp (Some (sg_chain f)) (RootPublicKey (sg_chain f)) None = None"
    using sample_cp_accepted(3) by (simp add: f_def vf_Checkpoint_def sample_verifier_def split: option.split_asm)
qed

lemmas sample_audit = sample_audit_facts sample_tdlib_complete sample_cp_commits sample_cp_accepted(1)

lemma sample_audit_passes:
  "\<exists>OA rep. audit_Run sample_crypto sample_tdlib rfc6962 OA 7 sample_audit_cfg = Some (Inr rep) \<and> ar_Status rep = StatusPass"
proof -
  let ?P = "sample_P (Some sample_cp)" and ?f = "snd sample_run0"
  obtain l where st: "audit_state ?P sample_s0 [sample_entry] sample_cp (cp_NewSigner ?f) (sample_server l)" using sample_audit_state by blast
  show ?thesis
    using audit_verdict [OF sample_sys_ok sample_fresh _ _ sample_oa_audited [where st = "audit_state ?P sample_s0 [sample_entry] sample_cp (cp_NewSigner ?f)", OF st]
        _ _ refl, of sample_audit_cfg 7] sample_audit
    by (auto simp: sample_audit_cfg_def cp_NewSigner_def anchor_verdict_def)
qed

theorem audit_pass_sound_witness:
  "\<exists>OA rep pk c. audit_Run sample_crypto sample_tdlib rfc6962 OA 7 sample_audit_cfg = Some (Inr rep) \<and> ar_Status rep = StatusPass
    \<and> oa_pubkey OA = Inr pk \<and> pk_RootPublicKey pk = RootPublicKey (sg_chain (snd sample_run0)) \<and> oa_checkpoint OA = Inr (Some c)
    \<and> cp_Origin c = pk_Origin pk"
proof -
  obtain OA rep where r: "audit_Run sample_crypto sample_tdlib rfc6962 OA 7 sample_audit_cfg = Some (Inr rep)" "ar_Status rep = StatusPass"
    using sample_audit_passes by blast
  from audit_pass_sound [OF r] obtain pk c where "oa_pubkey OA = Inr pk" "au_RootPublicKey sample_audit_cfg = Some (pk_RootPublicKey pk)"
    "oa_checkpoint OA = Inr (Some c)" "cp_Origin c = pk_Origin pk" by blast
  with r show ?thesis by (auto simp: sample_audit_cfg_def)
qed

theorem audit_verdict_honest_witness:
  "\<exists>l rep l2 rep2. core_LatestCheckpoint (sample_P (Some sample_cp)) l = Inr (Some sample_cp)
    \<and> audit_Run sample_crypto sample_tdlib rfc6962 (sample_oa (sample_P (Some sample_cp)) (sample_server l)) 7 sample_audit_cfg = Some (Inr rep)
    \<and> ar_Status rep = StatusPass
    \<and> core_run sample_P2 sample_ttl l2 [sample_entry, sample_second] \<and> core_LatestCheckpoint sample_P2 l2 = Inr (Some sample_cp)
    \<and> audit_Run sample_crypto sample_tdlib rfc6962 (sample_oa sample_P2 (sample_server l2)) 7 sample_audit_cfg = Some (Inr rep2)
    \<and> ar_Status rep2 = StatusFail"
proof -
  let ?P = "sample_P (Some sample_cp)" and ?f = "snd sample_run0"
  obtain l where st: "audit_state ?P sample_s0 [sample_entry] sample_cp (cp_NewSigner ?f) (sample_server l)" using sample_audit_state by blast
  have l: "core_LatestCheckpoint ?P l = Inr (Some sample_cp)" using st by (simp add: audit_state_def sample_server_def)
  from audit_verdict_honest [OF sample_sys_ok sample_fresh _ _ sample_oa_audited
        [where st = "audit_state ?P sample_s0 [sample_entry] sample_cp (cp_NewSigner ?f)", OF st] _ _ refl, of sample_audit_cfg 7] sample_audit
  obtain rep where rep: "audit_Run sample_crypto sample_tdlib rfc6962 (sample_oa ?P (sample_server l)) 7 sample_audit_cfg = Some (Inr rep)"
    "ar_Status rep = StatusPass" by (auto simp: sample_audit_cfg_def cp_NewSigner_def)
  obtain l2 where l2: "core_run sample_P2 sample_ttl l2 [sample_entry, sample_second]" "core_LatestCheckpoint sample_P2 l2 = Inr (Some sample_cp)"
    "lg_signer l2 = cp_NewSigner ?f" using same_envelope_twice by blast
  then have st2: "audit_state sample_P2 sample_ttl [sample_entry, sample_second] sample_cp (cp_NewSigner ?f) (sample_server l2)"
    by (simp add: audit_state_def)
  have "commits (sys_hasher sample_P2) (map ent_LeafHash [sample_entry, sample_second]) sample_cp"
    using sample_cp_accepted(1,2) by (simp add: commits_def)
  from audit_verdict_honest [OF sample_P2_ok(1,2) _ _ sample_oa_audited
        [where st = "audit_state sample_P2 sample_ttl [sample_entry, sample_second] sample_cp (cp_NewSigner ?f)", OF st2] this _ refl, of sample_audit_cfg 7]
    sample_audit
  obtain rep2 where "audit_Run sample_crypto sample_tdlib rfc6962 (sample_oa sample_P2 (sample_server l2)) 7 sample_audit_cfg = Some (Inr rep2)"
    "ar_Status rep2 = StatusFail" by (auto simp: sample_audit_cfg_def cp_NewSigner_def)
  with l rep l2 show ?thesis by blast
qed

end
