(* ===== verification/Watching.thy ===== *)
theory Watching
  imports Cosigning
begin

text \<open>
  The watcher (\<open>pkg/watcher/watcher.go\<close>): one pass that compares the operator's latest checkpoint with
  the signed views of its witnesses.  What the operator and the witnesses reply is a parameter; the
  last part joins the watcher with the witness server.
\<close>

section \<open>Definitions\<close>

record WatcherConfig =
  wc_Origin :: string
  wc_OperatorURL :: string
  wc_WitnessURLs :: "string list"

datatype watcher_error =
    WaOrigin
  | WaOperatorURL
  | WaHttp http_error
  | WaNoCheckpoint
  | WaNoStatement
  | WaInvalid statement_error
  | WaNoView u64

record SourceView =
  sw_Name :: string
  sw_Reachable :: bool
  sw_Size :: u64
  sw_RootHex :: string
  sw_Err :: "watcher_error option"

record Divergence =
  dv_Source :: string
  dv_Size :: u64
  dv_OperatorRoot :: string
  dv_SourceRoot :: string

record WatchReport =
  wr_Origin :: string
  wr_At :: i64
  wr_OperatorView :: SourceView
  wr_WitnessViews :: "SourceView list"
  wr_Divergences :: "Divergence list"

datatype Outcome = OutcomeConsistent | OutcomeDiverged | OutcomeErrored

text \<open>The reply to the GET of the operator's checkpoint, and to the \<open>n\<close>-th GET of a witness.\<close>

record watched =
  wd_checkpoint :: "http_error + Checkpoint option"
  wd_seen :: "nat \<Rightarrow> string \<Rightarrow> string \<Rightarrow> http_error + SignedSeen option"

definition fetchOperatorCheckpoint :: "watched \<Rightarrow> watcher_error + u64 \<times> bytes" where
  "fetchOperatorCheckpoint W =
     (case wd_checkpoint W of Inl err \<Rightarrow> Inl (WaHttp err)
      | Inr None \<Rightarrow> Inl WaNoCheckpoint
      | Inr (Some c) \<Rightarrow> Inr (cp_Size c, cp_RootHash c))"

definition fetchSignedSeen :: "crypto \<Rightarrow> watched \<Rightarrow> nat \<Rightarrow> string \<Rightarrow> string \<Rightarrow> watcher_error + SignedSeen" where
  "fetchSignedSeen C W n witnessURL origin =
     (case wd_seen W n witnessURL origin of Inl err \<Rightarrow> Inl (WaHttp err)
      | Inr None \<Rightarrow> Inl WaNoStatement
      | Inr (Some ss) \<Rightarrow> (case ss_Verify C ss of Some err \<Rightarrow> Inl (WaInvalid err) | None \<Rightarrow> Inr ss))"

fun fetchWitnessSeenAtSize :: "crypto \<Rightarrow> watched \<Rightarrow> string \<Rightarrow> u64 \<Rightarrow> nat \<Rightarrow> string list \<Rightarrow> SourceView list" where
  "fetchWitnessSeenAtSize C W origin sz n [] = []"
| "fetchWitnessSeenAtSize C W origin sz n (u # us) =
     (let sv = \<lparr>sw_Name = u, sw_Reachable = False, sw_Size = sz, sw_RootHex = [], sw_Err = None\<rparr>
      in case fetchSignedSeen C W n u origin of
           Inl err \<Rightarrow> sv\<lparr>sw_Err := Some err\<rparr>
         | Inr ss \<Rightarrow>
             let sv = sv\<lparr>sw_Reachable := True\<rparr>
             in case fmlookup (ss_Seen ss) sz of
                  Some hexRoot \<Rightarrow> sv\<lparr>sw_RootHex := hexRoot\<rparr>
                | None \<Rightarrow> sv\<lparr>sw_Err := Some (WaNoView sz)\<rparr>)
     # fetchWitnessSeenAtSize C W origin sz (n + 1) us"

text \<open>The highest size in a view; the order of the range over the map makes no difference.\<close>

definition max_seen :: "(u64, string) fmap \<Rightarrow> u64 \<times> string" where
  "max_seen seen =
     fold (\<lambda>sz (maxSize, maxRoot). if sz \<ge> maxSize then (sz, the (fmlookup seen sz)) else (maxSize, maxRoot))
       (sorted_list_of_fset (fmdom seen)) (0, [])"

fun fetchWitnessSeen :: "crypto \<Rightarrow> watched \<Rightarrow> string \<Rightarrow> nat \<Rightarrow> string list \<Rightarrow> SourceView list" where
  "fetchWitnessSeen C W origin n [] = []"
| "fetchWitnessSeen C W origin n (u # us) =
     (let sv = \<lparr>sw_Name = u, sw_Reachable = False, sw_Size = 0, sw_RootHex = [], sw_Err = None\<rparr>
      in case fetchSignedSeen C W n u origin of
           Inl err \<Rightarrow> sv\<lparr>sw_Err := Some err\<rparr>
         | Inr ss \<Rightarrow>
             (case max_seen (ss_Seen ss) of (maxSize, maxRoot) \<Rightarrow>
                sv\<lparr>sw_Reachable := True, sw_Size := maxSize, sw_RootHex := maxRoot\<rparr>))
     # fetchWitnessSeen C W origin (n + 1) us"

definition divergences :: "SourceView \<Rightarrow> SourceView list \<Rightarrow> Divergence list" where
  "divergences op wvs =
     sort_key dv_Source
       (map (\<lambda>wv. \<lparr>dv_Source = sw_Name wv, dv_Size = sw_Size op, dv_OperatorRoot = sw_RootHex op, dv_SourceRoot = sw_RootHex wv\<rparr>)
         (filter (\<lambda>wv. \<not> (\<not> sw_Reachable wv \<or> sw_RootHex wv = []) \<and> sw_RootHex wv \<noteq> sw_RootHex op) wvs))"

definition watcher_Run ::
    "crypto \<Rightarrow> watched \<Rightarrow> i64 \<Rightarrow> WatcherConfig \<Rightarrow> WatchReport option \<times> Outcome \<times> watcher_error option" where
  "watcher_Run C W now cfg =
     (if wc_Origin cfg = [] then (None, OutcomeErrored, Some WaOrigin)
      else if wc_OperatorURL cfg = [] then (None, OutcomeErrored, Some WaOperatorURL)
      else case fetchOperatorCheckpoint W of
        Inl err \<Rightarrow>
          (Some \<lparr>wr_Origin = wc_Origin cfg, wr_At = now,
                 wr_OperatorView = \<lparr>sw_Name = ''operator'', sw_Reachable = False, sw_Size = 0, sw_RootHex = [], sw_Err = Some err\<rparr>,
                 wr_WitnessViews = fetchWitnessSeen C W (wc_Origin cfg) 0 (wc_WitnessURLs cfg), wr_Divergences = []\<rparr>,
           OutcomeErrored, None)
      | Inr (sz, rootHash) \<Rightarrow>
          let op = \<lparr>sw_Name = ''operator'', sw_Reachable = True, sw_Size = sz, sw_RootHex = hex rootHash, sw_Err = None\<rparr>;
              wvs = fetchWitnessSeenAtSize C W (wc_Origin cfg) sz 0 (wc_WitnessURLs cfg);
              rep = \<lparr>wr_Origin = wc_Origin cfg, wr_At = now, wr_OperatorView = op, wr_WitnessViews = wvs, wr_Divergences = divergences op wvs\<rparr>
          in if length (wr_Divergences rep) > 0 then (Some rep, OutcomeDiverged, None)
             else if list_all (\<lambda>wv. \<not> sw_Reachable wv) wvs \<and> length wvs > 0 then (Some rep, OutcomeErrored, None)
             else (Some rep, OutcomeConsistent, None))"

section \<open>Lemmas\<close>

lemma length_fetchWitnessSeenAtSize [simp]: "length (fetchWitnessSeenAtSize C W origin sz n us) = length us"
  by (induction us arbitrary: n) simp_all

lemma fetchWitnessSeenAtSize_nth:
  "i < length us \<Longrightarrow> sw_Name (fetchWitnessSeenAtSize C W origin sz n us ! i) = us ! i
    \<and> (sw_Reachable (fetchWitnessSeenAtSize C W origin sz n us ! i) \<and> sw_RootHex (fetchWitnessSeenAtSize C W origin sz n us ! i) = h \<and> h \<noteq> []
       \<longleftrightarrow> h \<noteq> [] \<and> (\<exists>ss. fetchSignedSeen C W (n + i) (us ! i) origin = Inr ss \<and> fmlookup (ss_Seen ss) sz = Some h))"
proof (induction us arbitrary: n i)
  case (Cons u us)
  show ?case
  proof (cases i)
    case 0
    then show ?thesis by (auto simp: Let_def split: sum.split option.split)
  next
    case (Suc j)
    with Cons.IH [of j "n + 1"] Cons.prems show ?thesis by simp
  qed
qed simp

text \<open>The watcher reports exactly the witnesses whose verified view has another root at the operator's size.\<close>

lemma divergences_iff:
  assumes "wvs = fetchWitnessSeenAtSize C W origin sz 0 us"
  shows "d \<in> set (divergences op wvs) \<longleftrightarrow>
    (\<exists>i ss h. i < length us \<and> fetchSignedSeen C W i (us ! i) origin = Inr ss \<and> fmlookup (ss_Seen ss) sz = Some h \<and> h \<noteq> [] \<and> h \<noteq> sw_RootHex op
      \<and> d = \<lparr>dv_Source = us ! i, dv_Size = sw_Size op, dv_OperatorRoot = sw_RootHex op, dv_SourceRoot = h\<rparr>)" (is "_ \<longleftrightarrow> ?R")
proof -
  let ?D = "\<lambda>wv. \<lparr>dv_Source = sw_Name wv, dv_Size = sw_Size op, dv_OperatorRoot = sw_RootHex op, dv_SourceRoot = sw_RootHex wv\<rparr>"
  have "d \<in> set (divergences op wvs) \<longleftrightarrow>
    (\<exists>i < length us. sw_Reachable (wvs ! i) \<and> sw_RootHex (wvs ! i) \<noteq> [] \<and> sw_RootHex (wvs ! i) \<noteq> sw_RootHex op \<and> d = ?D (wvs ! i))"
    by (auto simp: divergences_def in_set_conv_nth assms)
  also have "\<dots> \<longleftrightarrow> ?R"
    using fetchWitnessSeenAtSize_nth [of _ us C W origin sz 0] unfolding assms by (auto; metis)
  finally show ?thesis .
qed

lemma watcher_Run_diverged:
  assumes "wc_Origin cfg \<noteq> []" "wc_OperatorURL cfg \<noteq> []" "wd_checkpoint W = Inr (Some c)"
    and "i < length (wc_WitnessURLs cfg)" "fetchSignedSeen C W i (wc_WitnessURLs cfg ! i) (wc_Origin cfg) = Inr ss"
    and "fmlookup (ss_Seen ss) (cp_Size c) = Some h" "h \<noteq> []" "h \<noteq> hex (cp_RootHash c)"
  shows "\<exists>rep. watcher_Run C W now cfg = (Some rep, OutcomeDiverged, None)
    \<and> \<lparr>dv_Source = wc_WitnessURLs cfg ! i, dv_Size = cp_Size c, dv_OperatorRoot = hex (cp_RootHash c), dv_SourceRoot = h\<rparr> \<in> set (wr_Divergences rep)"
proof -
  let ?op = "\<lparr>sw_Name = ''operator'', sw_Reachable = True, sw_Size = cp_Size c, sw_RootHex = hex (cp_RootHash c), sw_Err = None\<rparr>"
  let ?wvs = "fetchWitnessSeenAtSize C W (wc_Origin cfg) (cp_Size c) 0 (wc_WitnessURLs cfg)"
  have d: "\<lparr>dv_Source = wc_WitnessURLs cfg ! i, dv_Size = cp_Size c, dv_OperatorRoot = hex (cp_RootHash c), dv_SourceRoot = h\<rparr>
      \<in> set (divergences ?op ?wvs)"
    unfolding divergences_iff [OF refl] using assms(4-8) by auto
  then have "length (divergences ?op ?wvs) > 0" by (cases "divergences ?op ?wvs") auto
  with d assms(1-3) show ?thesis by (simp add: watcher_Run_def fetchOperatorCheckpoint_def Let_def)
qed

text \<open>
  C12.  A split view does not get past the watcher.  A witness, with its restarts, refusals, gossip and
  failing writes, has countersigned a checkpoint; its handler answers the watcher.  An operator that
  shows the watcher another root for the same size is reported: the outcome is a divergence, and the
  report names that witness and both roots, whatever the other witnesses reply or withhold.
\<close>

theorem watcher_catches_split_view:
  assumes "\<And>m b. enc_seen J m = Some b \<Longrightarrow> dec_seen J b = Some m" and "witness_run C L J files0 s issued" and "c \<in> set issued"
    and "ed_correct C (sv_priv s)" "sv_pub s = ed_Public (sv_priv s)" and "cp_Origin c \<noteq> []" "cp_RootHash c \<noteq> []"
    and "wc_Origin cfg = cp_Origin c" "wc_OperatorURL cfg \<noteq> []" "i < length (wc_WitnessURLs cfg)"
    and "seen_signed_handler C t ''GET'' (cp_Origin c) s = HttpOk ss"
    and "wd_seen W i (wc_WitnessURLs cfg ! i) (cp_Origin c) = Inr (Some ss)"
    and "wd_checkpoint W = Inr (Some c')" "cp_Size c' = cp_Size c" "cp_RootHash c' \<noteq> cp_RootHash c"
  shows "\<exists>rep. watcher_Run C W now cfg = (Some rep, OutcomeDiverged, None)
    \<and> \<lparr>dv_Source = wc_WitnessURLs cfg ! i, dv_Size = cp_Size c, dv_OperatorRoot = hex (cp_RootHash c'), dv_SourceRoot = hex (cp_RootHash c)\<rparr>
        \<in> set (wr_Divergences rep)"
proof -
  have ss: "ss = IssueSignedSeen C t s (cp_Origin c)" using assms(6,11) by (simp add: seen_signed_handler_def)
  have "ss_Verify C ss = None"
    unfolding ss IssueSignedSeen_def Let_def by (rule signed_statement_ok [OF assms(4)]) (simp add: assms(5))
  then have f: "fetchSignedSeen C W i (wc_WitnessURLs cfg ! i) (wc_Origin cfg) = Inr ss"
    using assms(8,12) by (simp add: fetchSignedSeen_def)
  have "lookup2 (sv_seen s) (cp_Origin c) (cp_Size c) = Some (hex (cp_RootHash c))"
    using witness_run_inv [OF assms(1,2)] assms(3) by (simp add: witness_inv_def)
  then have seen: "fmlookup (ss_Seen ss) (cp_Size c') = Some (hex (cp_RootHash c))"
    by (simp add: ss IssueSignedSeen_def Let_def lookup2_SeenFor assms(14))
  have "hex (cp_RootHash c) \<noteq> []" using assms(7) by (cases "cp_RootHash c") simp_all
  from watcher_Run_diverged [OF _ assms(9,13,10) f seen this, of now] assms(6,8,14,15) show ?thesis by simp
qed

section \<open>Instances\<close>

definition sample_split :: Checkpoint where
  "sample_split = sample_checkpoint\<lparr>cp_RootHash := []\<rparr>"

definition sample_watched :: "SignedSeen \<Rightarrow> watched" where
  "sample_watched ss = \<lparr>wd_checkpoint = Inr (Some sample_split), wd_seen = (\<lambda>n u origin. if n = 1 then Inr (Some ss) else Inl HtTransport)\<rparr>"

definition sample_watch_cfg :: WatcherConfig where
  "sample_watch_cfg = \<lparr>wc_Origin = ''log'', wc_OperatorURL = ''http://op'', wc_WitnessURLs = [''http://down'', ''http://w'']\<rparr>"

theorem watcher_catches_split_view_witness:
  "\<exists>s ss rep. witness_run sample_crypto (\<lambda>_. None) sample_wcodec Map.empty s [sample_checkpoint]
    \<and> seen_signed_handler sample_crypto 500 ''GET'' ''log'' s = HttpOk ss
    \<and> watcher_Run sample_crypto (sample_watched ss) 600 sample_watch_cfg = (Some rep, OutcomeDiverged, None)"
proof -
  obtain s sig where c: "Cosign sample_crypto sample_wcodec (\<lambda>_. WriteOk) 400 sample_checkpoint
      (Some (sg_chain (snd sample_run0))) None sample_witness = (s, Inr sig)" using sample_first by blast
  have run: "witness_run sample_crypto (\<lambda>_. None) sample_wcodec Map.empty s [sample_checkpoint]"
    by (rule witness_run.cosign [OF sample_witness_run0 c])
  have keys: "ed_correct sample_crypto (sv_priv s)" "sv_pub s = ed_Public (sv_priv s)"
    using Cosign_keys [OF c] by (simp_all add: sample_witness_fields sample_ed_correct ed_Public_def)
  define ss where "ss = IssueSignedSeen sample_crypto 500 s ''log''"
  have h: "seen_signed_handler sample_crypto 500 ''GET'' ''log'' s = HttpOk ss" by (simp add: seen_signed_handler_def ss_def)
  have "cp_RootHash sample_checkpoint = replicate 32 7"
    using file_ks.cp_Sign_accepted [OF sample_run_wf [of False] sample_run_signer_inv [of False] sample_run_signer_inv [of False],
        of "[]" 300 1 "replicate 32 7" "replicate 32 9" None None] sample_checkpoint_signed(1,6) by auto
  then have root: "cp_RootHash sample_checkpoint \<noteq> []" by simp
  from watcher_catches_split_view [OF sample_wcodec_ok run _ keys, of sample_checkpoint sample_watch_cfg 1 500 ss "sample_watched ss" sample_split 600]
  show ?thesis using run h root
    by (auto simp: sample_checkpoint_origin sample_watch_cfg_def sample_watched_def sample_split_def)
qed

end
