(* ===== verification/Rotating.thy ===== *)
theory Rotating
  imports Apiserver
begin

text \<open>
  The watchdog (\<open>pkg/watchdog/watchdog.go\<close>), which rotates the operator's key on a schedule, on changes in
  the key directory and on anomalies of the append rate.  Times are nanoseconds and the zero time is
  \<open>None\<close>; the \<open>Rotator\<close> is a function on a state of its own; fsnotify is the events it delivers; the
  arithmetic of \<open>float64\<close> is the parameter record \<open>floats\<close>.  The text of a detail is left out.
\<close>

section \<open>Definitions\<close>

datatype Reason = ReasonScheduled | ReasonKeyTamper | ReasonRateSurge | ReasonRateDrop | ReasonManual

record 'e Event =
  we_At :: int
  we_Reason :: Reason
  we_Success :: bool
  we_Err :: "'e option"

record WatchdogConfig =
  dc_Interval :: i64
  dc_KeyDir :: string
  dc_MinDebounce :: i64
  dc_EnableRateMonitor :: bool
  dc_RateWindow :: i64
  dc_EventSink :: bool

record rateBucket =
  rb_end :: "int option"
  rb_count :: u64

text \<open>\<open>dog_ignored\<close> is the counter of the file watcher, \<open>dog_events\<close> what the sink was given.\<close>

record 'e Watchdog =
  dog_cfg :: WatchdogConfig
  dog_lastRot :: "int option"
  dog_rateBuckets :: "rateBucket list"
  dog_bucketDur :: int
  dog_ignored :: nat
  dog_events :: "'e Event list"

datatype watchdog_error = DogNilRotator | DogFsnotify | DogPanic

record 'f floats =
  fl_of_u64 :: "u64 \<Rightarrow> 'f"
  fl_of_nat :: "nat \<Rightarrow> 'f"
  fl_div :: "'f \<Rightarrow> 'f \<Rightarrow> 'f"
  fl_mul :: "'f \<Rightarrow> 'f \<Rightarrow> 'f"
  fl_less :: "'f \<Rightarrow> 'f \<Rightarrow> bool"
  fl_tenth :: 'f

text \<open>\<open>time.Since\<close> saturates; it is the longest duration for the zero time.\<close>

definition since :: "int \<Rightarrow> int option \<Rightarrow> int" where
  "since now t0 = (case t0 of None \<Rightarrow> 2 ^ 63 - 1 | Some t \<Rightarrow> min (2 ^ 63 - 1) (max (- (2 ^ 63)) (now - t)))"

text \<open>A ticker without a positive period panics in the goroutine of the rate monitor.\<close>

definition watchdog_Start :: "bool \<Rightarrow> bool \<Rightarrow> WatchdogConfig \<Rightarrow> watchdog_error + 'e Watchdog" where
  "watchdog_Start rotator fsnotify cfg =
     (if \<not> rotator then Inl DogNilRotator
      else
        let cfg = (if dc_MinDebounce cfg = 0 then cfg\<lparr>dc_MinDebounce := 30 * 1000000000\<rparr> else cfg);
            cfg = (if dc_RateWindow cfg = 0 then cfg\<lparr>dc_RateWindow := 5 * 60 * 1000000000\<rparr> else cfg);
            dur = sgn (sint (dc_RateWindow cfg)) * (\<bar>sint (dc_RateWindow cfg)\<bar> div 30);
            w = \<lparr>dog_cfg = cfg, dog_lastRot = None, dog_rateBuckets = replicate 30 \<lparr>rb_end = None, rb_count = 0\<rparr>,
                 dog_bucketDur = dur, dog_ignored = 2, dog_events = []\<rparr>
        in if dc_KeyDir cfg \<noteq> [] \<and> \<not> fsnotify then Inl DogFsnotify
           else if dc_EnableRateMonitor cfg \<and> dur \<le> 0 then Inl DogPanic
           else Inr w)"

definition ObserveAppend :: "int \<Rightarrow> 'e Watchdog \<Rightarrow> 'e Watchdog" where
  "ObserveAppend now w =
     (if \<not> dc_EnableRateMonitor (dog_cfg w) then w
      else
        let bs = dog_rateBuckets w
        in if (case rb_end (last bs) of None \<Rightarrow> True | Some t \<Rightarrow> t < now)
           then w\<lparr>dog_rateBuckets := tl bs @ [\<lparr>rb_end = Some (now + dog_bucketDur w), rb_count = 1\<rparr>]\<rparr>
           else w\<lparr>dog_rateBuckets := butlast bs @ [(last bs)\<lparr>rb_count := rb_count (last bs) + 1\<rparr>]\<rparr>)"

definition trigger ::
    "('s \<Rightarrow> 's \<times> 'e option) \<Rightarrow> int \<Rightarrow> Reason \<Rightarrow> 'e Watchdog \<Rightarrow> 's \<Rightarrow> 'e Watchdog \<times> 's" where
  "trigger rot now reason w s =
     (if since now (dog_lastRot w) < sint (dc_MinDebounce (dog_cfg w)) then (w, s)
      else
        let w = w\<lparr>dog_lastRot := Some now\<rparr>
        in case rot s of (s, err) \<Rightarrow>
             let ev = \<lparr>we_At = now, we_Reason = reason, we_Success = (err = None), we_Err = err\<rparr>
             in (if dc_EventSink (dog_cfg w) then w\<lparr>dog_events := dog_events w @ [ev]\<rparr> else w, s))"

definition detectRateAnomaly :: "'f floats \<Rightarrow> 'e Watchdog \<Rightarrow> Reason option" where
  "detectRateAnomaly F w =
     (let bs = dog_rateBuckets w
      in if length bs < 2 then None
         else
           let lastRate = fl_of_u64 F (rb_count (last bs));
               baseline = sum_list (map rb_count (butlast bs));
               baselineRate = fl_div F (fl_of_u64 F baseline) (fl_of_nat F (length bs - 1))
           in if fl_less F (fl_of_nat F 0) baselineRate \<and> fl_less F (fl_mul F baselineRate (fl_of_nat F 10)) lastRate then Some ReasonRateSurge
              else if fl_less F (fl_of_nat F 5) baselineRate \<and> fl_less F lastRate (fl_mul F baselineRate (fl_tenth F)) then Some ReasonRateDrop
              else None)"

text \<open>What can happen: a tick of the scheduler, an event of fsnotify (only of metadata, or not), a tick of the rate monitor, an append.\<close>

datatype dog_input = SchedulerTick | FsEvent bool | RateTick | Appended

definition scheduler :: "('s \<Rightarrow> 's \<times> 'e option) \<Rightarrow> int \<Rightarrow> 'e Watchdog \<Rightarrow> 's \<Rightarrow> 'e Watchdog \<times> 's" where
  "scheduler rot now w s = (if sint (dc_Interval (dog_cfg w)) > 0 then trigger rot now ReasonScheduled w s else (w, s))"

definition startFSWatcher :: "('s \<Rightarrow> 's \<times> 'e option) \<Rightarrow> int \<Rightarrow> bool \<Rightarrow> 'e Watchdog \<Rightarrow> 's \<Rightarrow> 'e Watchdog \<times> 's" where
  "startFSWatcher rot now metadata w s =
     (if dc_KeyDir (dog_cfg w) = [] then (w, s)
      else if metadata then (w, s)
      else if dog_ignored w > 0 then (w\<lparr>dog_ignored := dog_ignored w - 1\<rparr>, s)
      else trigger rot now ReasonKeyTamper w s)"

definition rateMonitor :: "('s \<Rightarrow> 's \<times> 'e option) \<Rightarrow> 'f floats \<Rightarrow> int \<Rightarrow> int \<Rightarrow> 'e Watchdog \<Rightarrow> 's \<Rightarrow> 'e Watchdog \<times> 's" where
  "rateMonitor rot F startedAt now w s =
     (if \<not> dc_EnableRateMonitor (dog_cfg w) then (w, s)
      else if since now (Some startedAt) < sint (dc_RateWindow (dog_cfg w)) then (w, s)
      else case detectRateAnomaly F w of None \<Rightarrow> (w, s) | Some reason \<Rightarrow> trigger rot now reason w s)"

fun dog_step :: "('s \<Rightarrow> 's \<times> 'e option) \<Rightarrow> 'f floats \<Rightarrow> int \<Rightarrow> int \<Rightarrow> dog_input \<Rightarrow> 'e Watchdog \<Rightarrow> 's \<Rightarrow> 'e Watchdog \<times> 's" where
  "dog_step rot F startedAt now SchedulerTick w s = scheduler rot now w s"
| "dog_step rot F startedAt now (FsEvent metadata) w s = startFSWatcher rot now metadata w s"
| "dog_step rot F startedAt now RateTick w s = rateMonitor rot F startedAt now w s"
| "dog_step rot F startedAt now Appended w s = (ObserveAppend now w, s)"

section \<open>Lemmas\<close>

text \<open>
  The life of a watchdog: inputs at times that do not go back.  The last argument is the list of the
  times at which the key was rotated, the latest first.
\<close>

inductive dog_run ::
    "('s \<Rightarrow> 's \<times> 'e option) \<Rightarrow> 'f floats \<Rightarrow> WatchdogConfig \<Rightarrow> int \<Rightarrow> 's \<Rightarrow> 'e Watchdog \<Rightarrow> 's \<Rightarrow> int \<Rightarrow> int list \<Rightarrow> bool"
    for rot F cfg t0 s0 where
  start: "watchdog_Start rotator fsnotify cfg = Inr w \<Longrightarrow> dog_run rot F cfg t0 s0 w s0 t0 []"
| step: "dog_run rot F cfg t0 s0 w s t rots \<Longrightarrow> t \<le> t' \<Longrightarrow> dog_step rot F t0 t' inp w s = (w', s')
    \<Longrightarrow> dog_run rot F cfg t0 s0 w' s' t' (if dog_lastRot w' = dog_lastRot w then rots else t' # rots)"

lemma since_bounds: "0 \<le> sint (d :: i64) \<Longrightarrow> since now (Some t) < sint d \<longleftrightarrow> now - t < sint d"
  using sint_lt [of d] by (auto simp: since_def)

lemma since_zero: "\<not> since now None < sint (d :: i64)"
  using sint_lt [of d] by (simp add: since_def)

lemma trigger_cases:
  assumes "trigger rot now reason w s = (w', s')"
  shows "dog_cfg w' = dog_cfg w"
    and "if since now (dog_lastRot w) < sint (dc_MinDebounce (dog_cfg w)) then w' = w \<and> s' = s
         else dog_lastRot w' = Some now \<and> s' = fst (rot s)"
  using assms by (auto simp: trigger_def Let_def split: if_splits prod.splits)

lemma dog_step_cases:
  assumes "dog_step rot F t0 now inp w s = (w', s')"
  shows "dog_cfg w' = dog_cfg w \<and> (dog_lastRot w' = dog_lastRot w \<and> s' = s
    \<or> \<not> since now (dog_lastRot w) < sint (dc_MinDebounce (dog_cfg w)) \<and> dog_lastRot w' = Some now \<and> s' = fst (rot s))"
proof -
  have t: "dog_cfg x = dog_cfg w \<and> (dog_lastRot x = dog_lastRot w \<and> y = s
      \<or> \<not> since now (dog_lastRot w) < sint (dc_MinDebounce (dog_cfg w)) \<and> dog_lastRot x = Some now \<and> y = fst (rot s))"
    if "trigger rot now reason w s = (x, y)" for reason x y
    using trigger_cases [OF that] by (auto split: if_splits)
  show ?thesis
    using assms t
    by (cases inp) (auto simp: scheduler_def startFSWatcher_def rateMonitor_def ObserveAppend_def Let_def split: if_splits option.splits)
qed

definition dog_inv :: "('s \<Rightarrow> 's \<times> 'e option) \<Rightarrow> i64 \<Rightarrow> 's \<Rightarrow> 'e Watchdog \<Rightarrow> 's \<Rightarrow> int \<Rightarrow> int list \<Rightarrow> bool" where
  "dog_inv rot d s0 w s t rots \<longleftrightarrow>
     dc_MinDebounce (dog_cfg w) = d \<and> dog_lastRot w = (case rots of [] \<Rightarrow> None | u # _ \<Rightarrow> Some u)
     \<and> s = ((fst \<circ> rot) ^^ length rots) s0 \<and> successively (\<lambda>u v. sint d \<le> u - v) rots \<and> (rots \<noteq> [] \<longrightarrow> hd rots \<le> t)"

lemma debounce_pos: "0 \<le> sint (d :: i64) \<Longrightarrow> 0 < sint (if d = 0 then 30 * 1000000000 else d)"
  using signed_eq_0_iff [of d] by (auto simp: order_less_le)

lemma dog_run_inv:
  assumes "dog_run rot F cfg t0 s0 w s t rots" "0 \<le> sint (dc_MinDebounce cfg)"
  shows "dog_inv rot (if dc_MinDebounce cfg = 0 then 30 * 1000000000 else dc_MinDebounce cfg) s0 w s t rots"
    (is "dog_inv rot ?d s0 w s t rots")
  using assms(1)
proof induction
  case (start rotator fsnotify w)
  then show ?case by (auto simp: watchdog_Start_def Let_def dog_inv_def split: if_splits)
next
  case (step w s t rots t' inp w' s')
  note pos = debounce_pos [OF assms(2)]
  have inv: "dc_MinDebounce (dog_cfg w) = ?d" "dog_lastRot w = (case rots of [] \<Rightarrow> None | u # _ \<Rightarrow> Some u)"
    "s = ((fst \<circ> rot) ^^ length rots) s0" "successively (\<lambda>u v. sint ?d \<le> u - v) rots" "rots \<noteq> [] \<longrightarrow> hd rots \<le> t"
    using step.IH by (simp_all add: dog_inv_def)
  from dog_step_cases [OF step.hyps(3)] consider
      (same) "dog_cfg w' = dog_cfg w" "dog_lastRot w' = dog_lastRot w" "s' = s"
    | (fire) "dog_cfg w' = dog_cfg w" "\<not> since t' (dog_lastRot w) < sint ?d" "dog_lastRot w' = Some t'" "s' = fst (rot s)"
    unfolding inv(1) by blast
  then show ?case
  proof cases
    case same
    with inv step.hyps(2) show ?thesis by (auto simp: dog_inv_def)
  next
    case fire
    have gap: "sint ?d \<le> t' - u" if "rots = u # us" for u us
      using fire(2) inv(2) that since_bounds [of ?d t' u] pos by simp
    then have "dog_lastRot w' \<noteq> dog_lastRot w" using fire(3) inv(2) pos by (cases rots) auto
    with fire(1,3,4) inv gap show ?thesis by (cases rots) (auto simp: dog_inv_def successively_Cons)
  qed
qed

text \<open>
  The contract of the \<open>Rotator\<close> interface, and what it gives for a whole run; a log is a \<open>Rotator\<close> that
  keeps its entries.  The clock and the outcome of the write of the \<open>n\<close>-th rotation are \<open>env n\<close>.
\<close>

locale Rotator =
  fixes rot :: "'s \<Rightarrow> 's \<times> 'e option" and ok :: "'s \<Rightarrow> bool"
  assumes rot_keeps: "ok s \<Longrightarrow> ok (fst (rot s))"
begin

lemma run_keeps:
  assumes "dog_run rot F cfg t0 s0 w s t rots" "ok s0"
  shows "ok s"
  using assms
proof induction
  case (step w s t rots t' inp w' s')
  with dog_step_cases [OF step.hyps(3)] show ?case using rot_keeps by blast
qed

end

definition log_rotator ::
    "('d, 'r, 'n, 'w, 'k) sys \<Rightarrow> (nat \<Rightarrow> i64 \<times> bool) \<Rightarrow> 'w \<times> ('d, 'r, 'k) Log \<times> nat \<Rightarrow> ('w \<times> ('d, 'r, 'k) Log \<times> nat) \<times> fwdsec_error option" where
  "log_rotator P env s =
     (case s of (w, l, n) \<Rightarrow> (case core_Rotate P (fst (env n)) (snd (env n)) w l of (w, l, err) \<Rightarrow> ((w, l, n + 1), err)))"

interpretation log_rot: Rotator "log_rotator P env" "\<lambda>(w, l, n). log_inv P view rep l es" for P env view rep es
  by unfold_locales (auto simp: log_rotator_def core_Rotate_def log_inv_def split: prod.splits)

lemma watchdog_keeps_log:
  assumes "dog_run (log_rotator P env) F cfg t0 (w0, l0, 0) w (w1, l, n) t rots" "log_inv P view rep l0 es"
  shows "log_inv P view rep l es"
  using log_rot.run_keeps [OF assms(1), of view rep es] assms(2) by simp

text \<open>Inputs that call for a rotation.\<close>

definition alarmed :: "'f floats \<Rightarrow> int \<Rightarrow> int \<Rightarrow> dog_input \<Rightarrow> 'e Watchdog \<Rightarrow> bool" where
  "alarmed F t0 now inp w =
     (case inp of SchedulerTick \<Rightarrow> sint (dc_Interval (dog_cfg w)) > 0
      | FsEvent metadata \<Rightarrow> dc_KeyDir (dog_cfg w) \<noteq> [] \<and> \<not> metadata \<and> dog_ignored w = 0
      | RateTick \<Rightarrow> dc_EnableRateMonitor (dog_cfg w) \<and> sint (dc_RateWindow (dog_cfg w)) \<le> since now (Some t0) \<and> detectRateAnomaly F w \<noteq> None
      | Appended \<Rightarrow> False)"

lemma alarmed_triggers:
  assumes "alarmed F t0 now inp w" "dog_step rot F t0 now inp w s = (w', s')"
  obtains reason where "trigger rot now reason w s = (w', s')"
  using assms
  by (cases inp) (auto simp: alarmed_def scheduler_def startFSWatcher_def rateMonitor_def split: option.splits)

text \<open>
  C28.  The watchdog rotates neither too often nor too late.  In every run, whatever the inputs and
  whichever rotations fail, two rotations are at least the debounce interval apart, the key was rotated
  exactly at the recorded times, and after every input that calls for a rotation the latest one is less
  than the debounce interval ago.
\<close>

theorem watchdog_rotates_on_time:
  assumes "dog_run rot F cfg t0 s0 w s t rots" and "0 \<le> sint (dc_MinDebounce cfg)"
    and "d = sint (if dc_MinDebounce cfg = 0 then 30 * 1000000000 else dc_MinDebounce cfg)"
    and "t \<le> now" and "dog_step rot F t0 now inp w s = (w', s')"
  shows "successively (\<lambda>u v. d \<le> u - v) rots \<and> s = ((fst \<circ> rot) ^^ length rots) s0
    \<and> (alarmed F t0 now inp w \<longrightarrow> (\<exists>u. dog_lastRot w' = Some u \<and> u \<le> now \<and> now - u < d))"
proof -
  note inv = dog_run_inv [OF assms(1,2)] and pos = debounce_pos [OF assms(2)]
  have "\<exists>u. dog_lastRot w' = Some u \<and> u \<le> now \<and> now - u < d" if alarm: "alarmed F t0 now inp w"
  proof -
    obtain reason where tr: "trigger rot now reason w s = (w', s')" by (rule alarmed_triggers [OF alarm assms(5)])
    have d: "sint (dc_MinDebounce (dog_cfg w)) = d" using inv assms(3) by (simp add: dog_inv_def)
    show ?thesis
    proof (cases "since now (dog_lastRot w) < d")
      case True
      then have w': "w' = w" using trigger_cases(2) [OF tr] by (simp add: d)
      obtain u where u: "dog_lastRot w = Some u"
        using True since_zero [of now "dc_MinDebounce (dog_cfg w)"] by (cases "dog_lastRot w") (simp_all add: d)
      moreover have "u \<le> t" using inv u by (auto simp: dog_inv_def split: list.splits)
      moreover have "now - u < d" using True u since_bounds [of "dc_MinDebounce (dog_cfg w)" now u] pos assms(3) by (simp add: d)
      ultimately show ?thesis using w' assms(4) by auto
    next
      case False
      then have "dog_lastRot w' = Some now" using trigger_cases(2) [OF tr] by (simp add: d)
      with pos assms(3) show ?thesis by auto
    qed
  qed
  with inv assms(3) show ?thesis by (simp add: dog_inv_def)
qed

text \<open>
  The rate is looked at only as far as appends move it: as long as nothing is appended, the verdict of
  \<open>detectRateAnomaly\<close> does not change, so a log that falls silent is never reported for it.
\<close>

lemma dog_step_buckets: "inp \<noteq> Appended \<Longrightarrow> dog_rateBuckets (fst (dog_step rot F t0 now inp w s)) = dog_rateBuckets w"
  by (cases inp) (auto simp: scheduler_def startFSWatcher_def rateMonitor_def trigger_def Let_def split: option.splits prod.splits)

lemma silence_unseen:
  assumes "detectRateAnomaly F w = None" "\<forall>(now, inp)\<in>set inps. inp \<noteq> Appended"
  shows "detectRateAnomaly F (fst (foldl (\<lambda>(w, s) (now, inp). dog_step rot F t0 now inp w s) (w, s) inps)) = None"
  using assms
proof (induction inps arbitrary: w s)
  case (Cons x inps)
  obtain now inp where x: "x = (now, inp)" by force
  obtain w1 s1 where st: "dog_step rot F t0 now inp w s = (w1, s1)" by force
  have "dog_rateBuckets w1 = dog_rateBuckets w" using dog_step_buckets [of inp rot F t0 now w s] Cons.prems(2) x st by simp
  then have "detectRateAnomaly F w1 = None" using Cons.prems(1) by (simp add: detectRateAnomaly_def)
  from Cons.IH [OF this, of s1] Cons.prems(2) x st show ?case by simp
qed simp

section \<open>Instances\<close>

definition sample_floats :: "rat floats" where
  "sample_floats = \<lparr>fl_of_u64 = (\<lambda>x. of_nat (unat x)), fl_of_nat = of_nat, fl_div = (/), fl_mul = (*), fl_less = (<), fl_tenth = 1 / 10\<rparr>"

definition sample_dog_cfg :: WatchdogConfig where
  "sample_dog_cfg = \<lparr>dc_Interval = 60000000000, dc_KeyDir = [], dc_MinDebounce = 0, dc_EnableRateMonitor = False, dc_RateWindow = 0, dc_EventSink = False\<rparr>"

theorem watchdog_rotates_on_time_witness:
  "\<exists>w w'. watchdog_Start True True sample_dog_cfg = Inr w
    \<and> dog_step (\<lambda>n. (n + 1, None)) sample_floats 0 60000000000 SchedulerTick w (0 :: nat) = (w', 1 :: nat)
    \<and> dog_lastRot (w' :: unit Watchdog) = Some 60000000000"
proof -
  obtain w :: "unit Watchdog" where w: "watchdog_Start True True sample_dog_cfg = Inr w" "dog_lastRot w = None" "dc_MinDebounce (dog_cfg w) = 30000000000"
    "sint (dc_Interval (dog_cfg w)) > 0"
    by (auto simp: watchdog_Start_def sample_dog_cfg_def Let_def)
  let ?rot = "\<lambda>n :: nat. (n + 1, None :: unit option)"
  obtain w' s' where st: "dog_step ?rot sample_floats 0 60000000000 SchedulerTick w 0 = (w', s')" by force
  have run: "dog_run ?rot sample_floats sample_dog_cfg 0 0 w 0 0 []" by (rule dog_run.start [OF w(1)])
  from watchdog_rotates_on_time [OF run _ refl _ st] w
  have "\<exists>u. dog_lastRot w' = Some u" by (auto simp: sample_dog_cfg_def alarmed_def)
  moreover have "dog_lastRot w' = Some 60000000000 \<and> s' = 1"
    using st w since_zero [of 60000000000 30000000000] by (auto simp: scheduler_def trigger_def Let_def split: if_splits)
  ultimately show ?thesis using w(1) st by blast
qed

end
