(* ===== verification/Trustdns.thy ===== *)
theory Trustdns
  imports Keyfiles
begin

text \<open>
  Trust anchors from DNS (\<open>pkg/trustdns/trustdns.go\<close>, \<open>codec.go\<close>): the TXT record that names an
  operator's root key, its parser and its printer, and what is made of the reply of a resolver.  The
  resolver is a parameter: a response code, the bit for authenticated data and the answers.
\<close>

section \<open>Definitions\<close>

subsection \<open>Parts of \<open>strings\<close> and \<open>encoding/hex\<close>\<close>

fun split_on :: "char \<Rightarrow> string \<Rightarrow> string list" where
  "split_on c [] = [[]]"
| "split_on c (x # xs) = (if x = c then [] # split_on c xs else (case split_on c xs of [] \<Rightarrow> [[x]] | y # ys \<Rightarrow> (x # y) # ys))"

fun join :: "string \<Rightarrow> string list \<Rightarrow> string" where
  "join sep [] = []"
| "join sep [p] = p"
| "join sep (p # ps) = p @ sep @ join sep ps"

text \<open>\<open>SplitN\<close> into two; \<open>None\<close> when the separator is missing.\<close>

fun cut_at :: "char \<Rightarrow> string \<Rightarrow> (string \<times> string) option" where
  "cut_at c [] = None"
| "cut_at c (x # xs) = (if x = c then Some ([], xs) else map_option (\<lambda>(k, v). (x # k, v)) (cut_at c xs))"

definition lower :: "char \<Rightarrow> char" where
  "lower c = (let n = of_char c :: nat in if 65 \<le> n \<and> n \<le> 90 then char_of (n + 32) else c)"

definition unhexdigit :: "char \<Rightarrow> nat option" where
  "unhexdigit c = index_of (lower c) hextable"

fun unhex :: "string \<Rightarrow> bytes option" where
  "unhex [] = Some []"
| "unhex [c] = None"
| "unhex (c # d # cs) =
     (case (unhexdigit c, unhexdigit d, unhex cs) of
        (Some m, Some n, Some bs) \<Rightarrow> Some (of_nat (m * 16 + n) # bs)
      | _ \<Rightarrow> None)"

subsection \<open>Records\<close>

record TrustRecord =
  td_Origin :: string
  td_RootPublicKey :: bytes
  td_RootQuantumPublicKey :: bytes
  td_ChainDigest :: bytes
  td_Witnesses :: "bytes list"
  td_Version :: string

datatype trustdns_error =
    TdOrigin
  | TdQuery
  | TdRcode int
  | TdNoAD
  | TdNoRecord nat
  | TdEmpty
  | TdRootPubkey
  | TdRootQpubkey
  | TdChainDigest
  | TdWitness
  | TdMissingRoot
  | TdVersion string

definition decodeBase64 :: "string \<Rightarrow> bytes option" where
  "decodeBase64 s = b64_decode (trim_space s)"

definition encodeBase64 :: "bytes \<Rightarrow> string" where
  "encodeBase64 b = b64_encode b"

definition decodeHex :: "string \<Rightarrow> bytes option" where
  "decodeHex s = unhex (trim_space s)"

definition encodeHex :: "bytes \<Rightarrow> string" where
  "encodeHex b = hex b"

fun parse_witnesses :: "string list \<Rightarrow> TrustRecord \<Rightarrow> trustdns_error + TrustRecord" where
  "parse_witnesses [] rec = Inr rec"
| "parse_witnesses (w # ws) rec =
     (let w = trim_space w
      in if w = [] then parse_witnesses ws rec
         else case decodeBase64 w of None \<Rightarrow> Inl TdWitness
         | Some b \<Rightarrow> parse_witnesses ws (rec\<lparr>td_Witnesses := td_Witnesses rec @ [b]\<rparr>))"

text \<open>The \<open>switch\<close> over the key, and the loop body around it.\<close>

definition set_field :: "string \<Rightarrow> string \<Rightarrow> TrustRecord \<Rightarrow> trustdns_error + TrustRecord" where
  "set_field k v rec =
     (if k = ''v'' \<or> k = ''version'' then Inr (rec\<lparr>td_Version := v\<rparr>)
      else if k = ''root_pubkey'' then
        (case decodeBase64 v of None \<Rightarrow> Inl TdRootPubkey | Some b \<Rightarrow> Inr (rec\<lparr>td_RootPublicKey := b\<rparr>))
      else if k = ''root_qpubkey'' then
        (case decodeBase64 v of None \<Rightarrow> Inl TdRootQpubkey | Some b \<Rightarrow> Inr (rec\<lparr>td_RootQuantumPublicKey := b\<rparr>))
      else if k = ''chain_digest'' then
        (case decodeHex v of None \<Rightarrow> Inl TdChainDigest | Some b \<Rightarrow> Inr (rec\<lparr>td_ChainDigest := b\<rparr>))
      else if k = ''witnesses'' then parse_witnesses (split_on (CHR '','') v) rec
      else Inr rec)"

definition parse_part :: "string \<Rightarrow> TrustRecord \<Rightarrow> trustdns_error + TrustRecord" where
  "parse_part part rec =
     (case cut_at (CHR ''='') (trim_space part) of None \<Rightarrow> Inr rec
      | Some (k, v) \<Rightarrow> set_field (map lower (trim_space k)) (trim_space v) rec)"

fun parse_parts :: "string list \<Rightarrow> TrustRecord \<Rightarrow> trustdns_error + TrustRecord" where
  "parse_parts [] rec = Inr rec"
| "parse_parts (p # ps) rec = (case parse_part p rec of Inl err \<Rightarrow> Inl err | Inr rec \<Rightarrow> parse_parts ps rec)"

definition ParseTXT :: "string \<Rightarrow> trustdns_error + TrustRecord" where
  "ParseTXT raw =
     (if raw = [] then Inl TdEmpty
      else case parse_parts (split_on (CHR '';'') raw)
                  \<lparr>td_Origin = [], td_RootPublicKey = [], td_RootQuantumPublicKey = [], td_ChainDigest = [], td_Witnesses = [], td_Version = []\<rparr> of
        Inl err \<Rightarrow> Inl err
      | Inr rec \<Rightarrow>
          if length (td_RootPublicKey rec) = 0 then Inl TdMissingRoot
          else if td_Version rec \<noteq> [] \<and> take 7 (td_Version rec) \<noteq> ''stele/v'' then Inl (TdVersion (td_Version rec))
          else Inr rec)"

definition FormatTXT :: "TrustRecord \<Rightarrow> string" where
  "FormatTXT r =
     join ''; ''
       ([''v=stele/v1'', ''root_pubkey='' @ encodeBase64 (td_RootPublicKey r)]
        @ (if length (td_RootQuantumPublicKey r) > 0 then [''root_qpubkey='' @ encodeBase64 (td_RootQuantumPublicKey r)] else [])
        @ (if length (td_ChainDigest r) > 0 then [''chain_digest='' @ encodeHex (td_ChainDigest r)] else [])
        @ (if length (td_Witnesses r) > 0 then [''witnesses='' @ join '','' (map encodeBase64 (td_Witnesses r))] else []))"

text \<open>A reply: the response code, the bit, and the answers, of which only TXT records have strings.\<close>

record dns_reply =
  dr_Rcode :: int
  dr_AuthenticatedData :: bool
  dr_Answer :: "string list option list"

fun first_record :: "string \<Rightarrow> string list option list \<Rightarrow> TrustRecord option" where
  "first_record origin [] = None"
| "first_record origin (None # rrs) = first_record origin rrs"
| "first_record origin (Some strs # rrs) =
     (case ParseTXT (concat strs) of Inl _ \<Rightarrow> first_record origin rrs | Inr rec \<Rightarrow> Some (rec\<lparr>td_Origin := origin\<rparr>))"

text \<open>\<open>net.SplitHostPort\<close>, of which only the error matters here.\<close>

definition splitHostPort_ok :: "string \<Rightarrow> bool" where
  "splitHostPort_ok hp =
     (if CHR '':'' \<notin> set hp then False
      else
        let i = length hp - 1 - length (takeWhile (\<lambda>c. c \<noteq> CHR '':'') (rev hp))
        in if hd hp = CHR ''['' then
             (let e = length (takeWhile (\<lambda>c. c \<noteq> CHR '']'') hp)
              in e < length hp \<and> e + 1 = i
                 \<and> CHR ''['' \<notin> set (drop 1 hp) \<and> CHR '']'' \<notin> set (drop (e + 1) hp))
           else CHR '':'' \<notin> set (take i hp) \<and> CHR ''['' \<notin> set hp \<and> CHR '']'' \<notin> set hp)"

definition ensurePort :: "string \<Rightarrow> string" where
  "ensurePort host = (if splitHostPort_ok host then host else host @ '':53'')"

record trust_config =
  tc_Resolver :: string
  tc_Timeout :: int

text \<open>
  \<open>fqdn\<close> and \<open>exchange\<close> are \<open>Fqdn\<close> and \<open>ExchangeContext\<close> of the DNS library: the second takes the
  name asked for, the server and the timeout in nanoseconds, and gives \<open>None\<close> when the query fails.
\<close>

definition trust_Fetch ::
  "(string \<Rightarrow> string) \<Rightarrow> (string \<Rightarrow> string \<Rightarrow> int \<Rightarrow> dns_reply option) \<Rightarrow> trust_config \<Rightarrow> string
     \<Rightarrow> trustdns_error + TrustRecord" where
  "trust_Fetch fqdn exchange cfg origin =
     (if origin = [] then Inl TdOrigin
      else
        let resolver = (if tc_Resolver cfg = [] then ''1.1.1.1:53'' else tc_Resolver cfg);
            timeout = (if tc_Timeout cfg \<le> 0 then 5000000000 else tc_Timeout cfg)
        in case exchange (fqdn (''_stele.'' @ origin)) (ensurePort resolver) timeout of None \<Rightarrow> Inl TdQuery
           | Some m \<Rightarrow>
               if dr_Rcode m \<noteq> 0 then Inl (TdRcode (dr_Rcode m))
               else if \<not> dr_AuthenticatedData m then Inl TdNoAD
               else case first_record origin (dr_Answer m) of
                 None \<Rightarrow> Inl (TdNoRecord (length (dr_Answer m)))
               | Some rec \<Rightarrow> Inr rec)"

section \<open>Lemmas\<close>

lemma split_on_none: "c \<notin> set s \<Longrightarrow> split_on c s = [s]"
  by (induction s) auto

lemma split_on_append: "c \<notin> set s \<Longrightarrow> split_on c (s @ c # t) = s # split_on c t"
  by (induction s) auto

lemma split_on_prefix: "c \<notin> set sp \<Longrightarrow> split_on c t = y # ys \<Longrightarrow> split_on c (sp @ t) = (sp @ y) # ys"
  by (induction sp) auto

lemma split_join:
  assumes "c \<notin> set sp"
  shows "\<forall>p\<in>set (p # ps). c \<notin> set p \<Longrightarrow> split_on c (join (c # sp) (p # ps)) = p # map (\<lambda>q. sp @ q) ps"
proof (induction ps arbitrary: p)
  case (Cons q qs)
  have "split_on c (join (c # sp) (q # qs)) = q # map (\<lambda>q. sp @ q) qs" using Cons by simp
  then have "split_on c (sp @ join (c # sp) (q # qs)) = (sp @ q) # map (\<lambda>q. sp @ q) qs"
    by (rule split_on_prefix [OF assms])
  then show ?case using Cons.prems split_on_append [of c p] by simp
qed (simp add: split_on_none)

text \<open>Text without blanks and without the separators of a record.\<close>

definition plain :: "string \<Rightarrow> bool" where
  "plain s \<longleftrightarrow> list_all (\<lambda>c. \<not> is_space c \<and> c \<noteq> CHR '';'') s"

lemma plain_simps [simp]:
  "plain []"
  "plain (c # s) \<longleftrightarrow> \<not> is_space c \<and> c \<noteq> CHR '';'' \<and> plain s"
  "plain (s @ t) \<longleftrightarrow> plain s \<and> plain t"
  by (auto simp: plain_def)

lemma trim_plain:
  assumes "plain s"
  shows "trim_space s = s" "trim_space (CHR '' '' # s) = s"
proof -
  have f: "dropWhile is_space s = s" using assms by (cases s) auto
  have b: "dropWhile is_space (rev s) = rev s" using assms by (cases s rule: rev_cases) auto
  show "trim_space s = s" "trim_space (CHR '' '' # s) = s"
    by (simp_all add: trim_space_def f b) (simp add: is_space_def f b)
qed

lemma cut_at_first: "c \<notin> set k \<Longrightarrow> cut_at c (k @ c # v) = Some (k, v)"
  by (induction k) auto

lemma b64char_plain:
  "n < 64 \<Longrightarrow> \<not> is_space (b64char n) \<and> b64char n \<noteq> CHR '';'' \<and> b64char n \<noteq> CHR '',''"
proof -
  have "list_all (\<lambda>n. \<not> is_space (b64char n) \<and> b64char n \<noteq> CHR '';'' \<and> b64char n \<noteq> CHR '','') [0..<64]" by code_simp
  then show "n < 64 \<Longrightarrow> ?thesis" by (simp add: list_all_iff)
qed

lemma b64_plain: "plain (b64_encode xs)" "CHR '','' \<notin> set (b64_encode xs)"
proof -
  have "\<not> is_space (CHR ''='')" by (simp add: is_space_def)
  then have "list_all (\<lambda>c. \<not> is_space c \<and> c \<noteq> CHR '';'' \<and> c \<noteq> CHR '','') (b64_encode xs)"
    by (induction xs rule: b64_encode.induct) (simp_all add: b64char_plain b64_digits)
  then show "plain (b64_encode xs)" "CHR '','' \<notin> set (b64_encode xs)" by (auto simp: plain_def list_all_iff)
qed

lemma unhexdigit_hexdigit: "n < 16 \<Longrightarrow> unhexdigit (hexdigit n) = Some n \<and> plain [hexdigit n]"
proof -
  have "list_all (\<lambda>n. unhexdigit (hexdigit n) = Some n \<and> plain [hexdigit n]) [0..<16]" by code_simp
  then show "n < 16 \<Longrightarrow> ?thesis" by (simp add: list_all_iff)
qed

lemma unhex_hex: "unhex (hex b) = Some b \<and> plain (hex b)"
proof (induction b)
  case (Cons x xs)
  then show ?case
    using unhexdigit_hexdigit [OF byte_high_nibble [of x]] unhexdigit_hexdigit [of "unat x mod 16"] by simp
qed simp

lemma codec_roundtrip:
  "decodeBase64 (b64_encode b) = Some b" "decodeHex (hex b) = Some b"
  by (simp_all add: decodeBase64_def decodeHex_def trim_plain(1) b64_plain(1) unhex_hex)

text \<open>One field as the printer writes it, with or without the blank before it.\<close>

definition keyname :: "string \<Rightarrow> bool" where
  "keyname k \<longleftrightarrow> plain k \<and> map lower k = k \<and> CHR ''='' \<notin> set k"

lemma parse_field:
  assumes "keyname k" "plain v"
  shows "parse_part (k @ CHR ''='' # v) rec = set_field k v rec"
    "parse_part (CHR '' '' # k @ CHR ''='' # v) rec = set_field k v rec"
proof -
  have "plain (k @ CHR ''='' # v)" using assms by (simp add: is_space_def keyname_def)
  then show "parse_part (k @ CHR ''='' # v) rec = set_field k v rec"
    "parse_part (CHR '' '' # k @ CHR ''='' # v) rec = set_field k v rec"
    using assms by (simp_all add: keyname_def parse_part_def trim_plain cut_at_first)
qed

lemma key_names:
  "keyname ''v''" "keyname ''root_pubkey''" "keyname ''root_qpubkey''" "keyname ''chain_digest''" "keyname ''witnesses''"
  by code_simp+

lemma parse_printed:
  "parse_part ''v=stele/v1'' rec = Inr (rec\<lparr>td_Version := ''stele/v1''\<rparr>)"
  "parse_part ('' '' @ ''root_pubkey='' @ b64_encode b) rec = Inr (rec\<lparr>td_RootPublicKey := b\<rparr>)"
  "parse_part ('' '' @ ''root_qpubkey='' @ b64_encode b) rec = Inr (rec\<lparr>td_RootQuantumPublicKey := b\<rparr>)"
  "parse_part ('' '' @ ''chain_digest='' @ hex b) rec = Inr (rec\<lparr>td_ChainDigest := b\<rparr>)"
  "plain v \<Longrightarrow> parse_part ('' '' @ ''witnesses='' @ v) rec = parse_witnesses (split_on (CHR '','') v) rec"
proof -
  have "plain ''stele/v1''" by code_simp
  then show "parse_part ''v=stele/v1'' rec = Inr (rec\<lparr>td_Version := ''stele/v1''\<rparr>)"
    using parse_field(1) [OF key_names(1), of "''stele/v1''" rec] by (simp add: set_field_def)
  show "parse_part ('' '' @ ''root_pubkey='' @ b64_encode b) rec = Inr (rec\<lparr>td_RootPublicKey := b\<rparr>)"
    using parse_field(2) [OF key_names(2) b64_plain(1), of b rec] by (simp add: set_field_def codec_roundtrip)
  show "parse_part ('' '' @ ''root_qpubkey='' @ b64_encode b) rec = Inr (rec\<lparr>td_RootQuantumPublicKey := b\<rparr>)"
    using parse_field(2) [OF key_names(3) b64_plain(1), of b rec] by (simp add: set_field_def codec_roundtrip)
  show "parse_part ('' '' @ ''chain_digest='' @ hex b) rec = Inr (rec\<lparr>td_ChainDigest := b\<rparr>)"
    using parse_field(2) [OF key_names(4) conjunct2 [OF unhex_hex], of b rec]
    by (simp add: set_field_def codec_roundtrip)
  show "plain v \<Longrightarrow> parse_part ('' '' @ ''witnesses='' @ v) rec = parse_witnesses (split_on (CHR '','') v) rec"
    using parse_field(2) [OF key_names(5), of v rec] by (simp add: set_field_def)
qed

lemma parse_witnesses_encoded:
  "[] \<notin> set ws \<Longrightarrow> parse_witnesses (map b64_encode ws) rec = Inr (rec\<lparr>td_Witnesses := td_Witnesses rec @ ws\<rparr>)"
  by (induction ws arbitrary: rec) (auto simp: trim_plain(1) b64_plain(1) b64_encode_Nil_iff codec_roundtrip)

lemma join_plain: "\<forall>p\<in>set ps. plain p \<Longrightarrow> plain (join '','' ps)"
  by (induction "'',''" ps rule: join.induct) (auto simp: is_space_def)

text \<open>The fields of a printed record, and that none of them has a separator.\<close>

definition printed_fields :: "TrustRecord \<Rightarrow> string list" where
  "printed_fields r =
     (''root_pubkey='' @ b64_encode (td_RootPublicKey r))
     # (if td_RootQuantumPublicKey r = [] then [] else [''root_qpubkey='' @ b64_encode (td_RootQuantumPublicKey r)])
     @ (if td_ChainDigest r = [] then [] else [''chain_digest='' @ hex (td_ChainDigest r)])
     @ (if td_Witnesses r = [] then [] else [''witnesses='' @ join '','' (map b64_encode (td_Witnesses r))])"

lemma FormatTXT_fields: "FormatTXT r = join ''; '' (''v=stele/v1'' # printed_fields r)"
  by (simp add: FormatTXT_def printed_fields_def encodeBase64_def [abs_def] encodeHex_def)

lemma plain_no_separator: "plain s \<Longrightarrow> CHR '';'' \<notin> set s"
  by (auto simp: plain_def list_all_iff)

lemma printed_no_separator: "\<forall>p\<in>set (''v=stele/v1'' # printed_fields r). CHR '';'' \<notin> set p"
proof -
  have "CHR '';'' \<notin> set (join '','' (map b64_encode (td_Witnesses r)))"
    by (rule plain_no_separator, rule join_plain) (simp add: b64_plain(1))
  then show ?thesis
    using plain_no_separator [OF b64_plain(1)] plain_no_separator [OF conjunct2 [OF unhex_hex]]
    by (simp add: printed_fields_def)
qed

lemma split_witnesses: "ws \<noteq> [] \<Longrightarrow> split_on (CHR '','') (join '','' (map b64_encode ws)) = map b64_encode ws"
  by (cases ws) (simp_all add: split_join [where sp = "[]", simplified] b64_plain(2) del: join.simps)

lemma parse_parts_append:
  "parse_parts (ps @ qs) rec = (case parse_parts ps rec of Inl err \<Rightarrow> Inl err | Inr rec \<Rightarrow> parse_parts qs rec)"
  by (induction ps arbitrary: rec) (simp_all split: sum.splits)

lemma parse_printed_fields:
  assumes "[] \<notin> set (td_Witnesses r)" "td_RootQuantumPublicKey z = []" "td_ChainDigest z = []" "td_Witnesses z = []"
  shows "parse_parts (map (\<lambda>q. '' '' @ q) (printed_fields r)) z
    = Inr (r\<lparr>td_Origin := td_Origin z, td_Version := td_Version z\<rparr>)"
proof -
  have w: "parse_part ('' '' @ ''witnesses='' @ join '','' (map b64_encode (td_Witnesses r))) rec
      = Inr (rec\<lparr>td_Witnesses := td_Witnesses rec @ td_Witnesses r\<rparr>)" if "td_Witnesses r \<noteq> []" for rec
    using that by (subst parse_printed(5)) (simp_all add: join_plain b64_plain(1) split_witnesses parse_witnesses_encoded assms(1))
  show ?thesis
    using w assms(2-) parse_printed(2-4)
    by (cases r; cases z) (simp add: printed_fields_def parse_parts_append)
qed

text \<open>
  A record is read back from its printed form, except for the origin, which the record does not
  carry, and the version, which is always printed as the current one.
\<close>

lemma ParseTXT_FormatTXT:
  assumes "td_RootPublicKey r \<noteq> []" "[] \<notin> set (td_Witnesses r)"
  shows "ParseTXT (FormatTXT r) = Inr (r\<lparr>td_Origin := [], td_Version := ''stele/v1''\<rparr>)"
proof -
  have "split_on (CHR '';'') (FormatTXT r) = ''v=stele/v1'' # map (\<lambda>q. '' '' @ q) (printed_fields r)"
    unfolding FormatTXT_fields by (rule split_join) (simp, rule printed_no_separator)
  moreover have "FormatTXT r \<noteq> []" by (simp add: FormatTXT_fields printed_fields_def)
  ultimately show ?thesis
    using assms by (simp add: ParseTXT_def parse_printed(1) parse_printed_fields [OF assms(2), simplified])
qed

text \<open>What the parser accepts names a root key.\<close>

lemma ParseTXT_root: "ParseTXT raw = Inr rec \<Longrightarrow> td_RootPublicKey rec \<noteq> []"
  by (auto simp: ParseTXT_def split: if_splits sum.splits)

lemma first_record_sound:
  "first_record origin rrs = Some rec \<Longrightarrow>
   \<exists>strs rec'. Some strs \<in> set rrs \<and> ParseTXT (concat strs) = Inr rec' \<and> rec = rec'\<lparr>td_Origin := origin\<rparr>"
  by (induction origin rrs rule: first_record.induct) (auto split: sum.splits)

text \<open>
  The key that a lookup hands out was in a TXT record of a reply that the resolver asked for
  \<open>_stele.<origin>\<close> marked as authenticated, and it is never empty.
\<close>

lemma trust_Fetch_sound:
  assumes "trust_Fetch fqdn exchange cfg origin = Inr rec"
  shows "\<exists>m server timeout strs rec'. exchange (fqdn (''_stele.'' @ origin)) server timeout = Some m \<and> timeout > 0
    \<and> dr_Rcode m = 0 \<and> dr_AuthenticatedData m \<and> Some strs \<in> set (dr_Answer m)
    \<and> ParseTXT (concat strs) = Inr rec' \<and> rec = rec'\<lparr>td_Origin := origin\<rparr> \<and> td_RootPublicKey rec \<noteq> []"
proof -
  obtain m server timeout where m: "exchange (fqdn (''_stele.'' @ origin)) server timeout = Some m" "timeout > 0"
      "dr_Rcode m = 0" "dr_AuthenticatedData m" "first_record origin (dr_Answer m) = Some rec"
    using assms unfolding trust_Fetch_def Let_def
    by (auto split: if_splits option.splits)
  obtain strs rec' where t: "Some strs \<in> set (dr_Answer m)" "ParseTXT (concat strs) = Inr rec'" "rec = rec'\<lparr>td_Origin := origin\<rparr>"
    using first_record_sound [OF m(5)] by blast
  have "td_RootPublicKey rec \<noteq> []" using ParseTXT_root [OF t(2)] t(3) by simp
  then show ?thesis using m(1-4) t by blast
qed

lemma first_record_skip: "first_record origin (replicate n None @ rrs) = first_record origin rrs"
  by (induction n) simp_all

text \<open>
  C31.  What an operator publishes is what a lookup returns: the record that \<open>FormatTXT\<close> prints, cut
  into the strings of a TXT record in any way, is found by \<open>Fetch\<close> with every key, the digest and the
  witnesses in order, and with the origin that was asked for, whenever the resolver marks its reply as
  authenticated and only answers that are not TXT records, such as signatures, come first.  The record
  needs a root key, and no witness key may be empty.
\<close>

theorem trust_Fetch_published:
  assumes "td_RootPublicKey r \<noteq> []" "[] \<notin> set (td_Witnesses r)" "origin \<noteq> []"
    and "\<And>server timeout. exchange (fqdn (''_stele.'' @ origin)) server timeout
           = Some \<lparr>dr_Rcode = 0, dr_AuthenticatedData = True, dr_Answer = replicate n None @ Some strs # rrs\<rparr>"
    and "concat strs = FormatTXT r"
  shows "trust_Fetch fqdn exchange cfg origin = Inr (r\<lparr>td_Origin := origin, td_Version := ''stele/v1''\<rparr>)"
  using assms(1-3,5) unfolding trust_Fetch_def Let_def assms(4)
  by (simp add: ParseTXT_FormatTXT first_record_skip)

definition sample_record :: TrustRecord where
  "sample_record = \<lparr>td_Origin = ''log.example'', td_RootPublicKey = [1, 2, 3], td_RootQuantumPublicKey = [4],
     td_ChainDigest = [0xAB, 0xCD], td_Witnesses = [[5, 6], [7]], td_Version = ''stele/v1''\<rparr>"

theorem trust_Fetch_published_witness:
  "trust_Fetch (\<lambda>n. n @ ''.'')
     (\<lambda>name server timeout.
        if name = ''_stele.log.example.'' then
          Some \<lparr>dr_Rcode = 0, dr_AuthenticatedData = True,
            dr_Answer = [None, Some [take 20 (FormatTXT sample_record), drop 20 (FormatTXT sample_record)]]\<rparr>
        else None)
     \<lparr>tc_Resolver = ''9.9.9.9'', tc_Timeout = 0\<rparr> ''log.example''
   = Inr sample_record"
  by (subst trust_Fetch_published [where r = sample_record and n = 1 and rrs = "[]"
        and strs = "[take 20 (FormatTXT sample_record), drop 20 (FormatTXT sample_record)]"])
    (simp_all add: sample_record_def)

end
