(* ===== verification/Sdk.thy ===== *)
theory Sdk
  imports Attest Base64
begin

text \<open>
  The producer libraries in Python and TypeScript (\<open>sdk/python/stele\<close>, \<open>sdk/typescript/src\<close>): the
  envelopes they build, the bytes they sign, and the JSON object they send.  The lemmas show that both
  sign the bytes that \<open>Envelope.Canonical\<close> of the operator computes, and that what \<open>log\<close> sends is
  decoded to an envelope that \<open>Envelope.Verify\<close> accepts.  The TypeScript library sends the time as a
  JavaScript number: the rounding to 53 bits and the shortest decimal text are modelled, and times of
  whole milliseconds come through while others do not.  Text is given by its UTF-8 bytes.
\<close>

section \<open>Definitions\<close>

subsection \<open>The JSON object of an envelope\<close>

text \<open>
  Optional fields are \<open>None\<close> when the object does not have them.  The time is \<open>None\<close> when its text is
  not an integer literal.
\<close>

record wire_envelope =
  we_producer_id :: string
  we_time_ns :: "int option"
  we_source :: string
  we_data :: string
  we_public_key :: string
  we_attestation_type :: string
  we_signature :: string
  we_evidence_hash :: "string option"
  we_evidence :: "string option"
  we_quantum_public_key :: "string option"
  we_quantum_signature :: "string option"

definition in_int64 :: "int \<Rightarrow> bool" where
  "in_int64 n \<longleftrightarrow> - (2 ^ 63) \<le> n \<and> n < 2 ^ 63"

fun opt_bytes :: "string option \<Rightarrow> bytes option" where
  "opt_bytes None = Some []"
| "opt_bytes (Some s) = b64_decode s"

text \<open>What \<open>encoding/json\<close> makes of the object, by the tags of the struct.\<close>

definition unmarshal_envelope :: "wire_envelope \<Rightarrow> Envelope option" where
  "unmarshal_envelope w =
     (case we_time_ns w of None \<Rightarrow> None
      | Some t \<Rightarrow>
          if \<not> in_int64 t then None
          else case (b64_decode (we_data w), b64_decode (we_public_key w), b64_decode (we_signature w)) of
            (Some d, Some p, Some s) \<Rightarrow>
              (case (opt_bytes (we_evidence_hash w), opt_bytes (we_evidence w),
                     opt_bytes (we_quantum_public_key w), opt_bytes (we_quantum_signature w)) of
                 (Some eh, Some ev, Some qp, Some qs) \<Rightarrow>
                   Some \<lparr>env_ProducerID = we_producer_id w, env_TimeNanos = of_int t, env_Source = we_source w,
                     env_Data = d, env_PublicKey = p, env_Type = we_attestation_type w, env_EvidenceHash = eh,
                     env_Evidence = ev, env_Signature = s, env_QuantumPublicKey = qp, env_QuantumSignature = qs\<rparr>
               | _ \<Rightarrow> None)
          | _ \<Rightarrow> None)"

definition unless_empty :: "bytes \<Rightarrow> string option" where
  "unless_empty b = (if b = [] then None else Some (b64_encode b))"

subsection \<open>Python\<close>

record py_Envelope =
  py_producer_id :: string
  py_time_nanos :: int
  py_source :: string
  py_data :: bytes
  py_public_key :: bytes
  py_attestation_type :: string
  py_evidence_hash :: bytes
  py_evidence :: bytes
  py_signature :: bytes
  py_quantum_public_key :: bytes
  py_quantum_signature :: bytes

text \<open>\<open>struct.pack\<close> raises on a value out of range, which is \<open>None\<close>.\<close>

definition put_bytes :: "bytes \<Rightarrow> bytes \<Rightarrow> bytes option" where
  "put_bytes buf b = (if length b < 2 ^ 32 then Some (buf @ be_nat 4 (length b) @ b) else None)"

definition canonical_bytes ::
  "string \<Rightarrow> int \<Rightarrow> string \<Rightarrow> bytes \<Rightarrow> bytes \<Rightarrow> string \<Rightarrow> bytes \<Rightarrow> bytes \<Rightarrow> bytes option" where
  "canonical_bytes producer_id time_nanos source data public_key attestation_type evidence_hash quantum_public_key =
     Option.bind (put_bytes [] (of_str producer_id)) (\<lambda>out.
     Option.bind (if in_int64 time_nanos then Some (out @ be_nat 8 (nat (time_nanos mod 2 ^ 64))) else None) (\<lambda>out.
     Option.bind (put_bytes out (of_str source)) (\<lambda>out.
     Option.bind (put_bytes out data) (\<lambda>out.
     Option.bind (put_bytes out public_key) (\<lambda>out.
     Option.bind (put_bytes out (of_str attestation_type)) (\<lambda>out.
     Option.bind (put_bytes out evidence_hash) (\<lambda>out.
     put_bytes out quantum_public_key)))))))"

definition py_canonical :: "py_Envelope \<Rightarrow> bytes option" where
  "py_canonical e =
     canonical_bytes (py_producer_id e) (py_time_nanos e) (py_source e) (py_data e) (py_public_key e)
       (py_attestation_type e) (py_evidence_hash e) (py_quantum_public_key e)"

definition py_hash :: "py_Envelope \<Rightarrow> bytes option" where
  "py_hash e = map_option sha256 (py_canonical e)"

text \<open>A key is the pair of seed and public key in the 64-byte form of Go.\<close>

definition py_sign :: "crypto \<Rightarrow> bytes \<Rightarrow> py_Envelope \<Rightarrow> py_Envelope option" where
  "py_sign C priv e =
     (let e = (if py_public_key e = [] then e\<lparr>py_public_key := ed_Public priv\<rparr> else e)
      in map_option (\<lambda>c. e\<lparr>py_signature := ed_sign C priv c\<rparr>) (py_canonical e))"

definition to_dict :: "py_Envelope \<Rightarrow> wire_envelope" where
  "to_dict e =
     \<lparr>we_producer_id = py_producer_id e, we_time_ns = Some (py_time_nanos e), we_source = py_source e,
      we_data = b64_encode (py_data e), we_public_key = b64_encode (py_public_key e),
      we_attestation_type = py_attestation_type e, we_signature = b64_encode (py_signature e),
      we_evidence_hash = unless_empty (py_evidence_hash e), we_evidence = unless_empty (py_evidence e),
      we_quantum_public_key = unless_empty (py_quantum_public_key e),
      we_quantum_signature = unless_empty (py_quantum_signature e)\<rparr>"

definition new_envelope :: "int \<Rightarrow> string \<Rightarrow> bytes \<Rightarrow> string \<Rightarrow> bytes \<Rightarrow> string \<Rightarrow> int option \<Rightarrow> py_Envelope" where
  "new_envelope now producer_id public_key source data attestation_type time_nanos =
     \<lparr>py_producer_id = producer_id, py_time_nanos = (case time_nanos of None \<Rightarrow> now | Some t \<Rightarrow> t),
      py_source = source, py_data = data, py_public_key = public_key, py_attestation_type = attestation_type,
      py_evidence_hash = [], py_evidence = [], py_signature = [], py_quantum_public_key = [], py_quantum_signature = []\<rparr>"

text \<open>The body that \<open>Producer.log\<close> posts, with the honeypot flag.\<close>

definition py_log :: "crypto \<Rightarrow> bytes \<Rightarrow> string \<Rightarrow> string \<Rightarrow> int \<Rightarrow> string \<Rightarrow> bytes \<Rightarrow> bool \<Rightarrow> (wire_envelope \<times> bool) option" where
  "py_log C priv pid atype now source data honeypot =
     map_option (\<lambda>e. (to_dict e, honeypot)) (py_sign C priv (new_envelope now pid (ed_Public priv) source data atype None))"

subsection \<open>Numbers of JavaScript\<close>

fun bit_len :: "nat \<Rightarrow> nat" where
  "bit_len n = (if n = 0 then 0 else Suc (bit_len (n div 2)))"

declare bit_len.simps [simp del]

text \<open>\<open>Number\<close> of a \<open>bigint\<close>: the nearest double, on a tie the one with an even significand.\<close>

definition round53 :: "nat \<Rightarrow> nat" where
  "round53 n =
     (let k = bit_len n - 53; q = n div 2 ^ k; r = n mod 2 ^ k
      in if 2 * r > 2 ^ k \<or> 2 * r = 2 ^ k \<and> odd q then (q + 1) * 2 ^ k else q * 2 ^ k)"

definition js_Number :: "int \<Rightarrow> int" where
  "js_Number n = (if n < 0 then - int (round53 (nat (- n))) else int (round53 (nat n)))"

text \<open>
  The decimal text of a whole double below \<open>10 ^ 21\<close>: the fewest digits that read back as the
  double, so the largest number \<open>z\<close> of zeros at the end, and of two such texts the nearer one.
\<close>

definition pick_text :: "nat \<Rightarrow> nat \<Rightarrow> nat option" where
  "pick_text x z =
     (let q = x div 10 ^ z; lo = q * 10 ^ z; hi = (q + 1) * 10 ^ z
      in if round53 lo = x \<and> round53 hi = x then
           Some (if x - lo < hi - x \<or> x - lo = hi - x \<and> even q then lo else hi)
         else if round53 lo = x then Some lo
         else if round53 hi = x then Some hi
         else None)"

fun shortest_text :: "nat \<Rightarrow> nat \<Rightarrow> nat" where
  "shortest_text x 0 = x"
| "shortest_text x (Suc z) = (case pick_text x (Suc z) of Some c \<Rightarrow> c | None \<Rightarrow> shortest_text x z)"

text \<open>
  \<open>JSON.stringify\<close> of such a number; from \<open>10 ^ 21\<close> on it writes an exponent, which \<open>encoding/json\<close>
  refuses for an \<open>int64\<close>.
\<close>

definition stringify_int :: "int \<Rightarrow> int option" where
  "stringify_int x =
     (if \<bar>x\<bar> \<ge> 10 ^ 21 then None
      else if x < 0 then Some (- int (shortest_text (nat (- x)) 20))
      else Some (int (shortest_text (nat x) 20)))"

subsection \<open>TypeScript\<close>

record ts_Envelope =
  ts_producerId :: string
  ts_timeNanos :: int
  ts_source :: string
  ts_data :: bytes
  ts_publicKey :: bytes
  ts_attestationType :: string
  ts_evidenceHash :: "bytes option"
  ts_evidence :: "bytes option"
  ts_signature :: "bytes option"
  ts_quantumPublicKey :: "bytes option"
  ts_quantumSignature :: "bytes option"

text \<open>\<open>setUint32\<close> and \<open>setBigInt64\<close> reduce their argument to the width.\<close>

definition putBytes :: "bytes \<Rightarrow> bytes" where
  "putBytes b = be_nat 4 (length b mod 2 ^ 32) @ b"

definition putInt64BE :: "int \<Rightarrow> bytes" where
  "putInt64BE n = be_nat 8 (nat (n mod 2 ^ 64))"

fun or_empty :: "bytes option \<Rightarrow> bytes" where
  "or_empty None = []"
| "or_empty (Some b) = b"

definition canonicalBytes ::
  "string \<Rightarrow> int \<Rightarrow> string \<Rightarrow> bytes \<Rightarrow> bytes \<Rightarrow> string option \<Rightarrow> bytes option \<Rightarrow> bytes option \<Rightarrow> bytes" where
  "canonicalBytes producerId timeNanos source data publicKey attestationType evidenceHash quantumPublicKey =
     concat
       [putBytes (of_str producerId), putInt64BE timeNanos, putBytes (of_str source), putBytes data,
        putBytes publicKey, putBytes (of_str (case attestationType of None \<Rightarrow> ''software'' | Some a \<Rightarrow> a)),
        putBytes (or_empty evidenceHash), putBytes (or_empty quantumPublicKey)]"

definition envelopeHash :: "ts_Envelope \<Rightarrow> bytes" where
  "envelopeHash e =
     sha256 (canonicalBytes (ts_producerId e) (ts_timeNanos e) (ts_source e) (ts_data e) (ts_publicKey e)
       (Some (ts_attestationType e)) (ts_evidenceHash e) (ts_quantumPublicKey e))"

text \<open>\<open>None\<close> is the error for an envelope without a signature.\<close>

definition envelopeToWire :: "ts_Envelope \<Rightarrow> wire_envelope option" where
  "envelopeToWire e =
     (if or_empty (ts_signature e) = [] then None
      else Some
        \<lparr>we_producer_id = ts_producerId e, we_time_ns = stringify_int (js_Number (ts_timeNanos e)),
         we_source = ts_source e, we_data = b64_encode (ts_data e), we_public_key = b64_encode (ts_publicKey e),
         we_attestation_type = ts_attestationType e, we_signature = b64_encode (or_empty (ts_signature e)),
         we_evidence_hash = unless_empty (or_empty (ts_evidenceHash e)),
         we_evidence = unless_empty (or_empty (ts_evidence e)),
         we_quantum_public_key = unless_empty (or_empty (ts_quantumPublicKey e)),
         we_quantum_signature = unless_empty (or_empty (ts_quantumSignature e))\<rparr>)"

text \<open>The body that \<open>Producer.log\<close> posts; \<open>now\<close> is \<open>Date.now()\<close>, in milliseconds.\<close>

definition ts_log ::
  "crypto \<Rightarrow> bytes \<Rightarrow> string \<Rightarrow> string \<Rightarrow> int \<Rightarrow> string \<Rightarrow> bytes \<Rightarrow> bool \<Rightarrow> (wire_envelope \<times> bool) option" where
  "ts_log C priv pid atype now source data honeypot =
     (let env = \<lparr>ts_producerId = pid, ts_timeNanos = now * 1000000, ts_source = source, ts_data = data,
            ts_publicKey = ed_Public priv, ts_attestationType = atype, ts_evidenceHash = None, ts_evidence = None,
            ts_signature = None, ts_quantumPublicKey = None, ts_quantumSignature = None\<rparr>;
          canonical = canonicalBytes (ts_producerId env) (ts_timeNanos env) (ts_source env) (ts_data env)
            (ts_publicKey env) (Some (ts_attestationType env)) None None;
          env = env\<lparr>ts_signature := Some (ed_sign C priv canonical)\<rparr>
      in map_option (\<lambda>w. (w, honeypot)) (envelopeToWire env))"

section \<open>Numbers\<close>

lemma bit_len_lower: "n > 0 \<Longrightarrow> 2 ^ (bit_len n - 1) \<le> n"
proof (induction n rule: bit_len.induct)
  case (1 n)
  show ?case
  proof (cases "n div 2 = 0")
    case True
    then show ?thesis using 1(2) by (simp add: bit_len.simps [of n] bit_len.simps [of 0])
  next
    case False
    then have "bit_len (n div 2) \<ge> 1" by (simp add: bit_len.simps [of "n div 2"])
    then have "bit_len n - 1 = Suc (bit_len (n div 2) - 1)" using 1(2) by (simp add: bit_len.simps [of n])
    moreover have "2 ^ (bit_len (n div 2) - 1) \<le> n div 2" using 1(1) 1(2) False by simp
    ultimately show ?thesis by simp
  qed
qed

lemma near_multiple:
  fixes n d :: nat
  assumes "d > 0"
  shows "d \<le> 2 * (n mod d) \<Longrightarrow> 2 * \<bar>int ((n div d + 1) * d) - int n\<bar> \<le> int d"
    and "2 * (n mod d) \<le> d \<Longrightarrow> 2 * \<bar>int (n div d * d) - int n\<bar> \<le> int d"
proof -
  define a r where "a = n div d * d" and "r = n mod d"
  have n: "n = a + r" "r < d" using assms by (simp_all add: a_def r_def)
  have up: "(n div d + 1) * d = a + d" by (simp add: a_def)
  show "d \<le> 2 * (n mod d) \<Longrightarrow> 2 * \<bar>int ((n div d + 1) * d) - int n\<bar> \<le> int d"
    unfolding up r_def [symmetric] using n by (simp add: abs_if)
  show "2 * (n mod d) \<le> d \<Longrightarrow> 2 * \<bar>int (n div d * d) - int n\<bar> \<le> int d"
    unfolding a_def [symmetric] r_def [symmetric] using n by (simp add: abs_if)
qed

text \<open>The relative error of rounding is at most \<open>2 ^ -53\<close>.\<close>

lemma round53_error: "2 ^ 53 * \<bar>int (round53 n) - int n\<bar> \<le> int n"
proof (cases "bit_len n \<le> 53")
  case True
  then show ?thesis by (simp add: round53_def)
next
  case False
  define k where "k = bit_len n - 53"
  have n0: "n > 0" using False by (cases "n = 0") (simp_all add: bit_len.simps [of 0])
  have "bit_len n - 1 = k + 52" using False by (simp add: k_def)
  then have "2 ^ k * 2 ^ 52 \<le> n" using bit_len_lower [OF n0] by (simp add: power_add)
  then have low: "(2::int) ^ k * 2 ^ 52 \<le> int n" by (metis (mono_tags) of_nat_le_iff of_nat_mult of_nat_numeral of_nat_power)
  have d: "(2 :: nat) ^ k > 0" by simp
  have "2 * \<bar>int (round53 n) - int n\<bar> \<le> int (2 ^ k)"
  proof (cases "2 * (n mod 2 ^ k) > 2 ^ k \<or> 2 * (n mod 2 ^ k) = 2 ^ k \<and> odd (n div 2 ^ k)")
    case True
    then have "round53 n = (n div 2 ^ k + 1) * 2 ^ k" unfolding round53_def k_def Let_def by (simp only: if_True)
    moreover have "2 ^ k \<le> 2 * (n mod 2 ^ k)" using True by linarith
    ultimately show ?thesis using near_multiple(1) [OF d, of n] by (simp only:)
  next
    case False
    then have "round53 n = n div 2 ^ k * 2 ^ k" unfolding round53_def k_def Let_def by (simp only: if_False)
    moreover have "2 * (n mod 2 ^ k) \<le> 2 ^ k" using False by linarith
    ultimately show ?thesis using near_multiple(2) [OF d, of n] by (simp only:)
  qed
  then show ?thesis using low by simp
qed

text \<open>Two numbers in the range of the clock that round to one double are close.\<close>

lemma round53_close:
  assumes "round53 c = round53 t" "t < 2 ^ 63"
  shows "\<bar>int c - int t\<bar> < 4096"
proof -
  define x where "x = int (round53 t)"
  have "2 ^ 53 * \<bar>x - int c\<bar> \<le> int c" "2 ^ 53 * \<bar>x - int t\<bar> \<le> int t"
    using round53_error [of c] round53_error [of t] assms(1) by (simp_all add: x_def)
  moreover have "int t < 2 ^ 63" using assms(2) by simp
  ultimately show ?thesis by (simp add: abs_if split: if_splits)
qed

lemma multiples_close:
  fixes c t :: nat
  assumes "1000000 dvd c" "1000000 dvd t" "\<bar>int c - int t\<bar> < 1000000"
  shows "c = t"
proof -
  obtain i j where "c = 1000000 * i" "t = 1000000 * j" using assms(1,2) by (auto elim!: dvdE)
  then have "i = j" using assms(3) by simp
  then show ?thesis using \<open>c = 1000000 * i\<close> \<open>t = 1000000 * j\<close> by simp
qed

lemma pick_text_Some:
  assumes "pick_text x z = Some c"
  shows "round53 c = x" "10 ^ z dvd c"
proof -
  have "round53 c = x \<and> (c = x div 10 ^ z * 10 ^ z \<or> c = (x div 10 ^ z + 1) * 10 ^ z)"
    using assms unfolding pick_text_def Let_def by (simp split: if_splits)
  then show "round53 c = x" "10 ^ z dvd c" by (blast, metis dvd_triv_right)
qed

lemma pick_text_exists:
  assumes "round53 t = x" "t < 2 ^ 63" "1000000 dvd t"
  shows "pick_text x 6 \<noteq> None"
proof -
  define q where "q = x div 1000000"
  obtain j where j: "t = 1000000 * j" using assms(3) by (auto elim!: dvdE)
  have e: "2 ^ 53 * \<bar>int x - int t\<bar> \<le> int t" using round53_error [of t] assms(1) by simp
  moreover have "int t < 2 ^ 63" using assms(2) by simp
  ultimately have "\<bar>int x - int t\<bar> < 4096" by (simp add: abs_if split: if_splits)
  moreover have "x = q * 1000000 + x mod 1000000" "x mod 1000000 < 1000000" by (simp_all add: q_def)
  ultimately have "j = q \<or> j = q + 1" unfolding j by linarith
  then have "t = q * 1000000 \<or> t = (q + 1) * 1000000" unfolding j by auto
  then show ?thesis using assms(1) by (auto simp: pick_text_def Let_def q_def)
qed

lemma shortest_text_millis:
  assumes "round53 t = x" "t < 2 ^ 63" "1000000 dvd t"
  shows "shortest_text x (n + 6) = t"
proof (induction n)
  have ten: "(1000000 :: nat) = 10 ^ 6" by simp
  have pick: "c = t" if "pick_text x (m + 6) = Some c" for c m
  proof (rule multiples_close [OF _ assms(3)])
    show "1000000 dvd c"
      using pick_text_Some(2) [OF that] unfolding ten by (metis dvd_mult_left power_add mult.commute)
    have "\<bar>int c - int t\<bar> < 4096"
      using round53_close [of c t] pick_text_Some(1) [OF that] assms(1,2) by simp
    then show "\<bar>int c - int t\<bar> < 1000000" by linarith
  qed
  {
    case 0
    obtain c where "pick_text x 6 = Some c" using pick_text_exists [OF assms] by auto
    then show ?case using pick [of 0 c] shortest_text.simps(2) [of x 5] by simp
  next
    case (Suc n)
    then show ?case using pick [of "Suc n"] unfolding add_Suc shortest_text.simps(2) by (simp only: split: option.split) blast
  }
qed

text \<open>So a time of whole milliseconds is sent as it is.\<close>

lemma stringify_millis:
  assumes "0 \<le> now" "now * 1000000 < 2 ^ 63"
  shows "stringify_int (js_Number (now * 1000000)) = Some (now * 1000000)"
proof -
  define t where "t = nat (now * 1000000)"
  have t: "int t = now * 1000000" "t < 2 ^ 63" using assms by (simp_all add: t_def)
  have d: "1000000 dvd t" using assms(1) by (simp add: t_def nat_mult_distrib)
  have "2 ^ 53 * \<bar>int (round53 t) - int t\<bar> \<le> int t" by (rule round53_error)
  moreover have "int t < 2 ^ 63" using t(2) by simp
  ultimately have "int (round53 t) < 10 ^ 21" by (simp add: abs_if split: if_splits)
  moreover have "js_Number (now * 1000000) = int (round53 t)" using assms(1) by (simp add: js_Number_def t_def)
  moreover have "shortest_text (round53 t) 20 = t" using shortest_text_millis [OF refl t(2) d, of 14] by simp
  ultimately show ?thesis using t(1) by (simp add: stringify_int_def)
qed

section \<open>The bytes that are signed\<close>

lemma of_int_be64: "be64 (of_int t) = be_nat 8 (nat (t mod 2 ^ 64))"
proof -
  have "unat (of_int t :: u64) = nat (t mod 2 ^ 64)" by (simp add: unat_eq_nat_uint uint_word_of_int)
  then show ?thesis by (simp add: be64_def)
qed

lemma putBytes_put: "putBytes b = put b"
proof -
  have "unat (of_nat (length b) :: u32) = length b mod 2 ^ 32" by (simp add: unat_of_nat)
  then show ?thesis by (simp add: putBytes_def put_def be32_def)
qed

lemma put_bytes_put: "put_bytes buf b = (if fits b then Some (buf @ put b) else None)"
  unfolding putBytes_put [symmetric] by (simp add: put_bytes_def fits_def putBytes_def)

text \<open>The envelope of the operator with the fields of one of the libraries.\<close>

definition py_view :: "py_Envelope \<Rightarrow> Envelope" where
  "py_view e =
     \<lparr>env_ProducerID = py_producer_id e, env_TimeNanos = of_int (py_time_nanos e), env_Source = py_source e,
      env_Data = py_data e, env_PublicKey = py_public_key e, env_Type = py_attestation_type e,
      env_EvidenceHash = py_evidence_hash e, env_Evidence = py_evidence e, env_Signature = py_signature e,
      env_QuantumPublicKey = py_quantum_public_key e, env_QuantumSignature = py_quantum_signature e\<rparr>"

definition ts_view :: "ts_Envelope \<Rightarrow> Envelope" where
  "ts_view e =
     \<lparr>env_ProducerID = ts_producerId e, env_TimeNanos = of_int (ts_timeNanos e), env_Source = ts_source e,
      env_Data = ts_data e, env_PublicKey = ts_publicKey e, env_Type = ts_attestationType e,
      env_EvidenceHash = or_empty (ts_evidenceHash e), env_Evidence = or_empty (ts_evidence e),
      env_Signature = or_empty (ts_signature e), env_QuantumPublicKey = or_empty (ts_quantumPublicKey e),
      env_QuantumSignature = or_empty (ts_quantumSignature e)\<rparr>"

text \<open>
  Python signs the bytes of \<open>Envelope.Canonical\<close>, or raises: exactly when a field does not fit its
  length or the time its 64 bits.  TypeScript signs them always.
\<close>

lemma py_canonical_agrees:
  "py_canonical e = (if in_int64 (py_time_nanos e) \<and> env_fits (py_view e) then Some (env_Canonical (py_view e)) else None)"
  by (simp add: py_canonical_def canonical_bytes_def put_bytes_put env_fits_def env_Canonical_def py_view_def of_int_be64)

lemma canonicalBytes_agrees:
  "canonicalBytes (ts_producerId e) (ts_timeNanos e) (ts_source e) (ts_data e) (ts_publicKey e)
     (Some (ts_attestationType e)) (ts_evidenceHash e) (ts_quantumPublicKey e) = env_Canonical (ts_view e)"
  by (simp add: canonicalBytes_def putBytes_put putInt64BE_def env_Canonical_def ts_view_def of_int_be64)

text \<open>Both libraries compute the identifier of the replay table.\<close>

lemma sdk_hash_agrees:
  "py_hash e = Some h \<Longrightarrow> h = env_Hash (py_view e)" "envelopeHash e' = env_Hash (ts_view e')"
  by (auto simp: py_hash_def py_canonical_agrees env_Hash_def envelopeHash_def canonicalBytes_agrees split: if_splits)

section \<open>What the operator decodes\<close>

lemma opt_bytes_unless_empty [simp]: "opt_bytes (unless_empty b) = Some b"
  by (simp add: unless_empty_def)

lemma unmarshal_to_dict: "in_int64 (py_time_nanos e) \<Longrightarrow> unmarshal_envelope (to_dict e) = Some (py_view e)"
  by (simp add: unmarshal_envelope_def to_dict_def py_view_def)

lemma unmarshal_envelopeToWire:
  assumes "envelopeToWire e = Some w" "stringify_int (js_Number (ts_timeNanos e)) = Some t" "in_int64 t"
  shows "unmarshal_envelope w = Some ((ts_view e)\<lparr>env_TimeNanos := of_int t\<rparr>)"
  using assms by (auto simp: envelopeToWire_def unmarshal_envelope_def ts_view_def split: if_splits)

text \<open>The envelope a call of \<open>log\<close> stands for: no evidence, no quantum key.\<close>

definition plain_envelope :: "bytes \<Rightarrow> string \<Rightarrow> string \<Rightarrow> int \<Rightarrow> string \<Rightarrow> bytes \<Rightarrow> Envelope" where
  "plain_envelope pub pid atype t source data =
     \<lparr>env_ProducerID = pid, env_TimeNanos = of_int t, env_Source = source, env_Data = data, env_PublicKey = pub,
      env_Type = atype, env_EvidenceHash = [], env_Evidence = [], env_Signature = [], env_QuantumPublicKey = [],
      env_QuantumSignature = []\<rparr>"

text \<open>
  The contract of a producer library: in the range \<open>ok\<close> of its clock and its arguments, the body that
  \<open>log\<close> posts is decoded to the envelope of the call at the time \<open>nanos\<close>, signed over the canonical
  bytes of the operator.
\<close>

locale producer_sdk =
  fixes sdk_log :: "crypto \<Rightarrow> bytes \<Rightarrow> string \<Rightarrow> string \<Rightarrow> int \<Rightarrow> string \<Rightarrow> bytes \<Rightarrow> bool \<Rightarrow> (wire_envelope \<times> bool) option"
    and nanos :: "int \<Rightarrow> int"
    and ok :: "int \<Rightarrow> string \<Rightarrow> string \<Rightarrow> string \<Rightarrow> bytes \<Rightarrow> bool"
  assumes log_decodes: "ed_correct C priv \<Longrightarrow> ok now pid atype source data \<Longrightarrow>
    \<exists>w. sdk_log C priv pid atype now source data honeypot = Some (w, honeypot)
      \<and> unmarshal_envelope w =
          Some (let e = plain_envelope (ed_Public priv) pid atype (nanos now) source data
                in e\<lparr>env_Signature := ed_sign C priv (env_Canonical e)\<rparr>)"
begin

lemma log_accepted:
  assumes "ed_correct C priv" "ok now pid atype source data"
  shows "\<exists>w e. sdk_log C priv pid atype now source data honeypot = Some (w, honeypot)
    \<and> unmarshal_envelope w = Some e \<and> env_Verify C e = None
    \<and> env_signed e = (pid, of_int (nanos now), source, data, ed_Public priv, atype, [], [])"
proof -
  define u where "u = plain_envelope (ed_Public priv) pid atype (nanos now) source data"
  define e where "e = u\<lparr>env_Signature := ed_sign C priv (env_Canonical u)\<rparr>"
  obtain w where w: "sdk_log C priv pid atype now source data honeypot = Some (w, honeypot)" "unmarshal_envelope w = Some e"
    using log_decodes [OF assms, of honeypot] by (auto simp: e_def u_def Let_def)
  have "env_Verify C e = None"
    using ed_correctD [OF assms(1)]
    by (simp add: env_Verify_def e_def u_def plain_envelope_def [of "ed_Public priv"] key_sizes env_Canonical_sig(1))
      (simp add: env_Canonical_def)
  moreover have "env_signed e = (pid, of_int (nanos now), source, data, ed_Public priv, atype, [], [])"
    by (simp add: env_signed_def e_def u_def plain_envelope_def)
  ultimately show ?thesis using w by blast
qed

end

definition py_ok :: "int \<Rightarrow> string \<Rightarrow> string \<Rightarrow> string \<Rightarrow> bytes \<Rightarrow> bool" where
  "py_ok now pid atype source data \<longleftrightarrow>
     in_int64 now \<and> fits (of_str pid) \<and> fits (of_str atype) \<and> fits (of_str source) \<and> fits data"

definition ts_ok :: "int \<Rightarrow> string \<Rightarrow> string \<Rightarrow> string \<Rightarrow> bytes \<Rightarrow> bool" where
  "ts_ok now pid atype source data \<longleftrightarrow> 0 \<le> now \<and> now * 1000000 < 2 ^ 63"

interpretation py: producer_sdk py_log "\<lambda>now. now" py_ok
proof unfold_locales
  fix C priv now pid atype source data honeypot
  assume a: "ed_correct C priv" "py_ok now pid atype source data"
  define e where "e = new_envelope now pid (ed_Public priv) source data atype None"
  have v: "py_view e = plain_envelope (ed_Public priv) pid atype now source data"
    by (simp add: e_def new_envelope_def py_view_def plain_envelope_def)
  have t: "in_int64 (py_time_nanos e)" using a(2) by (simp add: e_def new_envelope_def py_ok_def)
  have "env_fits (py_view e)" unfolding v
    using a(2) ed_correctD(3) [OF a(1)] by (simp add: env_fits_def plain_envelope_def py_ok_def fits_def)
  moreover have "py_public_key e \<noteq> []" using ed_correctD(3) [OF a(1)] by (auto simp: e_def new_envelope_def)
  ultimately have "py_sign C priv e = Some (e\<lparr>py_signature := ed_sign C priv (env_Canonical (py_view e))\<rparr>)"
    using t by (simp add: py_sign_def py_canonical_agrees)
  then show "\<exists>w. py_log C priv pid atype now source data honeypot = Some (w, honeypot)
      \<and> unmarshal_envelope w =
          Some (let e = plain_envelope (ed_Public priv) pid atype now source data
                in e\<lparr>env_Signature := ed_sign C priv (env_Canonical e)\<rparr>)"
    using t by (simp add: py_log_def e_def [symmetric] unmarshal_to_dict v [symmetric] Let_def) (simp add: py_view_def)
qed

interpretation ts: producer_sdk ts_log "\<lambda>now. now * 1000000" ts_ok
proof unfold_locales
  fix C priv now pid atype source data honeypot
  assume a: "ed_correct C priv" "ts_ok now pid atype source data"
  define u where "u = \<lparr>ts_producerId = pid, ts_timeNanos = now * 1000000, ts_source = source, ts_data = data,
    ts_publicKey = ed_Public priv, ts_attestationType = atype, ts_evidenceHash = None, ts_evidence = None,
    ts_signature = None, ts_quantumPublicKey = None, ts_quantumSignature = None\<rparr>"
  define e where "e = u\<lparr>ts_signature := Some (ed_sign C priv (env_Canonical (ts_view u)))\<rparr>"
  have v: "ts_view u = plain_envelope (ed_Public priv) pid atype (now * 1000000) source data"
    by (simp add: u_def ts_view_def plain_envelope_def)
  have "ed_sign C priv m \<noteq> []" for m using ed_correctD(1) [OF a(1), of m] by auto
  then obtain w where w: "envelopeToWire e = Some w" by (simp add: envelopeToWire_def e_def)
  have "ts_log C priv pid atype now source data honeypot = Some (w, honeypot)"
    using w canonicalBytes_agrees [of u] by (simp add: ts_log_def Let_def e_def u_def)
  moreover have "unmarshal_envelope w = Some ((ts_view e)\<lparr>env_TimeNanos := of_int (now * 1000000)\<rparr>)"
    using a(2) by (intro unmarshal_envelopeToWire [OF w])
      (simp_all add: e_def u_def ts_ok_def stringify_millis in_int64_def)
  moreover have "(ts_view e)\<lparr>env_TimeNanos := of_int (now * 1000000)\<rparr>
      = (ts_view u)\<lparr>env_Signature := ed_sign C priv (env_Canonical (ts_view u))\<rparr>"
    by (simp add: e_def ts_view_def u_def)
  ultimately show "\<exists>w. ts_log C priv pid atype now source data honeypot = Some (w, honeypot)
      \<and> unmarshal_envelope w =
          Some (let e = plain_envelope (ed_Public priv) pid atype (now * 1000000) source data
                in e\<lparr>env_Signature := ed_sign C priv (env_Canonical e)\<rparr>)"
    by (simp add: v Let_def)
qed

text \<open>What the Python library sends is accepted at every time that fits 64 bits.\<close>

lemma py_log_accepted:
  assumes "ed_correct C priv" "py_ok now pid atype source data"
  shows "\<exists>w e. py_log C priv pid atype now source data honeypot = Some (w, honeypot)
    \<and> unmarshal_envelope w = Some e \<and> env_Verify C e = None
    \<and> env_signed e = (pid, of_int now, source, data, ed_Public priv, atype, [], [])"
  by (rule py.log_accepted [OF assms])

text \<open>
  C32.  What the TypeScript library sends is accepted.  For every millisecond clock whose nanoseconds
  fit 64 bits, the body that \<open>Producer.log\<close> posts is decoded by the operator to an envelope that
  \<open>Envelope.Verify\<close> accepts and that has the producer, time, source, data and key of the call, although
  the time passes through a 53-bit number and its shortest decimal text.  Signatures of the key are
  assumed to verify.
\<close>

theorem ts_log_accepted:
  assumes "ed_correct C priv" "0 \<le> now" "now * 1000000 < 2 ^ 63"
  shows "\<exists>w e. ts_log C priv pid atype now source data honeypot = Some (w, honeypot)
    \<and> unmarshal_envelope w = Some e \<and> env_Verify C e = None
    \<and> env_signed e = (pid, of_int (now * 1000000), source, data, ed_Public priv, atype, [], [])"
  using assms by (intro ts.log_accepted) (simp_all add: ts_ok_def)

theorem ts_log_accepted_witness:
  "\<exists>w e. ts_log sample_crypto (replicate 64 1) ''p1'' ''software'' 1700000000123 ''app'' [1, 2] False = Some (w, False)
    \<and> unmarshal_envelope w = Some e \<and> env_Verify sample_crypto e = None
    \<and> env_signed e = (''p1'', of_int (1700000000123 * 1000000), ''app'', [1, 2], ed_Public (replicate 64 1), ''software'', [], [])"
  by (rule ts_log_accepted) (simp_all add: sample_ed_correct)

section \<open>Times that do not come through\<close>

lemma bit_len_eval [simp]:
  "bit_len 0 = 0" "bit_len (Suc 0) = 1"
  "bit_len (numeral (Num.Bit0 k)) = Suc (bit_len (numeral k))"
  "bit_len (numeral (Num.Bit1 k)) = Suc (bit_len (numeral k))"
  by (subst bit_len.simps, simp add: bit_len.simps [of 0])+

lemma shortest_text_numeral [simp]:
  "shortest_text x (numeral k) =
     (case pick_text x (numeral k) of Some c \<Rightarrow> c | None \<Rightarrow> shortest_text x (pred_numeral k))"
  by (simp add: numeral_eq_Suc)

text \<open>The time of the test vectors of the library, with its nanoseconds, is sent as another time.\<close>

lemma stringify_nanos: "stringify_int (js_Number 1700000000123456789) = Some 1700000000123456800"
  by (simp add: stringify_int_def js_Number_def round53_def pick_text_def Let_def)

text \<open>
  So the operator verifies the signature of such an envelope over bytes that were not signed.
\<close>

lemma ts_nanos_not_signed:
  assumes "ts_timeNanos e = 1700000000123456789" "env_fits (ts_view e)" "envelopeToWire e = Some w"
  shows "\<exists>e'. unmarshal_envelope w = Some e' \<and> env_Canonical e' \<noteq> env_Canonical (ts_view e)"
proof -
  have "unmarshal_envelope w = Some ((ts_view e)\<lparr>env_TimeNanos := of_int 1700000000123456800\<rparr>)"
    by (rule unmarshal_envelopeToWire [OF assms(3)]) (simp_all add: assms(1) stringify_nanos in_int64_def del: of_int_numeral)
  moreover have "env_Canonical ((ts_view e)\<lparr>env_TimeNanos := of_int 1700000000123456800\<rparr>) \<noteq> env_Canonical (ts_view e)"
    using env_Canonical_inj [of "(ts_view e)\<lparr>env_TimeNanos := of_int 1700000000123456800\<rparr>" "ts_view e"] assms(1,2)
    by (simp add: env_fits_def env_signed_def) (simp add: ts_view_def)
  ultimately show ?thesis by blast
qed

end
