(* ===== verification/Spec2Isabelle.thy ===== *)
theory Spec2Isabelle
  imports Guarantees Cosigning Readlog Adminlog Verifying Tripwire Mirroring Auditing Watching Rotating Trustdns Sdk
begin

text \<open>
  \<^bold>\<open>Stele: a verification of the provenance log\<close>

  \<^bold>\<open>The program.\<close>  Producers sign envelopes (\<open>pkg/attest\<close>, \<open>sdk/\<close>) and send them over HTTP
  (\<open>pkg/api\<close>) to an operator.  The operator (\<open>pkg/core\<close>) seals each into an entry that is chained to
  its predecessor (\<open>pkg/logentry\<close>), stores it in a database (\<open>pkg/storage\<close>), and appends it to a Merkle
  tree (\<open>pkg/merkle\<close>).  It signs checkpoints (\<open>pkg/checkpoint\<close>) with a key that it rotates and destroys
  (\<open>pkg/fwdsec\<close>) or with a threshold group (\<open>pkg/threshold\<close>), has witnesses countersign them
  (\<open>pkg/witness\<close>), and publishes them (\<open>pkg/anchor\<close>).  Reads and changes of the rules leave signed
  events (\<open>pkg/readlog\<close>, \<open>pkg/adminlog\<close>).  Others check the operator: auditors (\<open>pkg/verify\<close>,
  \<open>pkg/audit\<close>, \<open>pkg/trustdns\<close>), watchers (\<open>pkg/watcher\<close>), mirrors (\<open>pkg/mirror\<close>); and the operator
  checks itself (\<open>pkg/tripwire\<close>, \<open>pkg/watchdog\<close>, \<open>pkg/honeylog\<close>).

  \<^bold>\<open>The theories\<close>, from the bottom up.

  \<^item> \<open>Prelude\<close>, \<open>Sha256\<close>, \<open>Base64\<close>, \<open>Utf8\<close>: bytes, machine integers, the encodings of the Go library,
    and SHA-256 written out.  \<open>Crypto\<close>: the signature schemes as a parameter, and \<open>pkg/hybrid\<close>.
  \<^item> \<open>Attest\<close> and \<open>Logentry\<close>: envelopes, attestors (locale \<open>attestor\<close>, two instances) and entries.
    \<open>HashChain\<close>: the locales \<open>chain_links\<close> and \<open>hash_chain\<close> of every hash-linked log, with the entry log
    and the two journals as instances.
  \<^item> \<open>Merkle\<close>: the tree with bounded memory (\<open>AppendLeaf\<close>, \<open>InclusionProof\<close>, \<open>ConsistencyProof\<close>; locale \<open>leaf_store\<close>).
    \<open>Treehash\<close>: what a root commits to.
  \<^item> \<open>Threshold\<close>, \<open>Keystore\<close> (locale \<open>key_store\<close>), \<open>Fwdsec\<close>, \<open>Checkpoint\<close>, \<open>Anchor\<close>: signatures of
    the operator, rotation, tree heads, sinks.
  \<^item> \<open>Producers\<close>, \<open>Storage\<close>: the registry and the database.  \<open>Core\<close>: the log instance, one definition
    for each method of \<open>core/log.go\<close>.  \<open>Lifecycle\<close>: sequences of operations, restarts and expiring replay
    records.  \<open>Guarantees\<close>: what holds of every reachable log.  \<open>Expiry\<close>: a log that took one envelope twice.
  \<^item> \<open>Keyfiles\<close>, \<open>Journals\<close> (locale \<open>journal\<close>), \<open>Readlog\<close>, \<open>Adminlog\<close>: the journals.
  \<^item> \<open>Http\<close>, \<open>Ingest\<close>, \<open>Honeylog\<close>, \<open>Apiserver\<close>: requests, limits, alerts, every handler and
    the routes of \<open>api/server.go\<close>.  \<open>Service\<close>: what the server as a whole promises.
  \<^item> \<open>Cosigning\<close>: the witness server, its files, gossip and handlers.
  \<^item> \<open>Verifying\<close>, \<open>Auditing\<close>, \<open>Watching\<close>, \<open>Mirroring\<close>, \<open>Tripwire\<close>, \<open>Rotating\<close> (locale \<open>Rotator\<close>),
    \<open>Trustdns\<close>: those who check, each against an arbitrary operator, and most also against the handlers of
    an honest one.
  \<^item> \<open>Sdk\<close>: the producer libraries in Python and TypeScript (locale \<open>producer_sdk\<close>, two instances).

  \<^bold>\<open>State and effects.\<close>  A struct is a record whose fields have the prefix of its package, and a method
  is a function from the old state to the new one and the result.  An error is a value of a datatype of its
  package.  A pointer that may be nil is an option.  A panic is a value of its own where the code can reach it.
  Machine integers are words, read with \<open>sint\<close> where signed.  The clock, random bytes, what a system call or
  a peer answers, and the order of a range over a map are arguments, so each theorem holds for all of them.

  \<^bold>\<open>Parameters.\<close>  Code that is not in the repository is a parameter with its documented behaviour as a
  named hypothesis (nothing is assumed of a key that was written with an expiry, and \<open>drops_replays\<close> is the
  database losing such keys): \<open>crypto\<close> (\<open>ed_correct\<close>, \<open>d3_correct\<close>: a signature verifies; unforgeability is never
  assumed), \<open>tdlib\<close> for the Merkle library (\<open>tdlib_ok\<close>), \<open>badger\<close> for the database (\<open>badger_ok\<close>), \<open>rate_lib\<close>
  for token buckets, \<open>floats\<close>, and the JSON codecs.  The surroundings of the log are the record \<open>sys\<close> with
  \<open>sys_ok\<close>.  Every property with such a hypothesis is applied to a concrete instance by its witness.
\<close>

text \<open>
  \<^bold>\<open>What is shown.\<close>

  \<^item> The log: every reachable log stands for a list of verified, chained entries
    (\<open>log_always_consistent\<close>), an append refines appending to that list (\<open>append_refines\<close>) for authorised
    producers only, an envelope is not taken twice while its replay record is stored (for ever, without a
    replay TTL), and a restart recovers the log or refuses to start.
  \<^item> Commitments: a root determines every field of the entries that is under a hash (\<open>committed\<close>: not the
    evidence blob and not the signatures), a journal head its events, a canonical text its fields, up to a
    collision of SHA-256 that is shown to be at hand.
  \<^item> Keys: \<open>signer_run\<close> is a genesis and any rotations, at any clock and with any outcome; a chain verifies
    exactly if the clock did not step back (\<open>clock_ok\<close>), the signer signs exactly if every rotation destroyed
    its old key (\<open>all_destroyed\<close>), old keys are gone from memory and, unless \<open>os.Stat\<close> failed, from disk;
    quorums are counted right.
  \<^item> The service: a request does to the log the operation it stands for, or nothing (\<open>api_refines_core\<close>),
    what is served verifies, limits hold, and reads are recorded while the journal can be written.
  \<^item> Witnesses and watchers: no equivocation, and what exactly one gossip exchange flags.  Mirrors, audits
    and the tripwire: what they accept is right whatever the operator does, and what they say of an honest
    operator.
  \<^item> First and last mile: what an operator publishes in DNS is what a lookup returns, and what the producer
    libraries send is what the operator verifies.
  \<^item> Limits of the code, as theorems: a header that evades the admin limit, a size that keeps a mirror in
    its loop, an audit that fails after growth, an envelope taken again after 24 hours
    (\<open>same_envelope_twice\<close>), evidence that can be stripped unnoticed (\<open>strip_evidence_unnoticed\<close>), a read
    without its event (\<open>unjournalled_read\<close>), a time that JavaScript rounds (\<open>ts_nanos_not_signed\<close>).

  \<^bold>\<open>Bounds.\<close>  Lengths that are written in 32 bits are assumed to fit them, and logs to be shorter than
  \<open>2 ^ 63\<close>, where the theorems say so.  Loops that may not end are partial functions: \<open>split_loop\<close> and
  \<open>subRoot\<close> are proved to return for every evicted node, \<open>sync_chunks\<close> for every size that leaves room for
  one chunk in 64 bits, and to run forever for a size that does not.  No definition uses fuel.  The search for
  the shortest decimal text in \<open>Sdk\<close> starts at 20 zeros, since the numbers are below \<open>10 ^ 21\<close>.

  \<^bold>\<open>Not modelled.\<close>  Locks and goroutines: operations are atomic and interleave as sequences, except for
  the semaphore of \<open>Ingest\<close>, whose steps are separate.  Tickers, HTTP clients and listeners, whose replies
  are arguments.  \<open>pkg/hsm\<close> (a C library behind the interface of key stores), \<open>pkg/tlsutil\<close> (certificate
  templates), \<open>pkg/auditpdf\<close> (layout), \<open>pkg/memlimit\<close> and \<open>pkg/keyguard\<close> (the runtime and the kernel),
  \<open>pkg/beacon\<close> (one request, whose value is an argument), \<open>pkg/obs\<close> (metrics and traces).  The key files of
  \<open>pkg/hybrid\<close>, \<open>pkg/attest\<close> and the cosigner, and backups, which only pass through to the database library.
  Of the producer libraries, key files, the HTTP client and the enrollment calls.  The programs under \<open>cmd/\<close>
  parse flags, connect the packages, and print.  Blanks and letter case are those of ASCII in \<open>TrimSpace\<close> and
  \<open>ToLower\<close>, and the text of errors is left out.
\<close>

end
